(* ===== verification/Prelude.thy ===== *)
theory Prelude
  imports Main "HOL-Library.Char_ord" "HOL-Library.List_Lexorder" "HOL-Library.Sublist"
begin

text \<open>
  Shared vocabulary of the development.  A Rust \<open>str\<close> is a sequence of UTF-8 bytes and
  is modelled as \<open>string\<close>, a list of 8-bit \<open>char\<close>s, so \<open>length\<close> is
  \<open>str::len\<close>, \<open>=\<close> is byte equality and \<open>\<le>\<close> (from Char\_ord and List\_Lexorder)
  is \<open>Ord for str\<close>.  \<open>Vec::sort\<close> is \<open>sort\<close>, \<open>Vec::dedup\<close> is
  \<open>remdups_adj\<close>.  The std operations the sources use that HOL's library lacks are
  defined here once, with the generic lemmas the components share.
\<close>

named_theorems rust_def \<open>definitions of std operations, unfolded on closed terms\<close>

type_synonym str = string
type_synonym ('e, 'a) result = "'e + 'a"

section \<open>ASCII classes of bytes\<close>

definition is_ascii_uppercase :: "char \<Rightarrow> bool" where
  "is_ascii_uppercase c \<longleftrightarrow> CHR ''A'' \<le> c \<and> c \<le> CHR ''Z''"

definition is_ascii_lowercase :: "char \<Rightarrow> bool" where
  "is_ascii_lowercase c \<longleftrightarrow> CHR ''a'' \<le> c \<and> c \<le> CHR ''z''"

definition is_ascii_digit :: "char \<Rightarrow> bool" where
  "is_ascii_digit c \<longleftrightarrow> CHR ''0'' \<le> c \<and> c \<le> CHR ''9''"

definition is_ascii_alpha :: "char \<Rightarrow> bool" where
  "is_ascii_alpha c \<longleftrightarrow> is_ascii_lowercase c \<or> is_ascii_uppercase c"

definition is_ascii_alphanumeric :: "char \<Rightarrow> bool" where
  "is_ascii_alphanumeric c \<longleftrightarrow> is_ascii_alpha c \<or> is_ascii_digit c"

definition is_ascii_hexdigit :: "char \<Rightarrow> bool" where
  "is_ascii_hexdigit c \<longleftrightarrow> is_ascii_digit c
     \<or> (CHR ''a'' \<le> c \<and> c \<le> CHR ''f'') \<or> (CHR ''A'' \<le> c \<and> c \<le> CHR ''F'')"

definition lower_byte :: "char \<Rightarrow> char" where
  "lower_byte c = (if is_ascii_uppercase c then char_of (of_char c + 32 :: nat) else c)"

definition to_ascii_lowercase :: "str \<Rightarrow> str" where
  "to_ascii_lowercase s = map lower_byte s"

definition eq_ignore_ascii_case :: "str \<Rightarrow> str \<Rightarrow> bool" where
  "eq_ignore_ascii_case a b \<longleftrightarrow> to_ascii_lowercase a = to_ascii_lowercase b"

lemmas ascii_class_defs [rust_def] =
  is_ascii_uppercase_def is_ascii_lowercase_def is_ascii_digit_def is_ascii_alpha_def
  is_ascii_alphanumeric_def is_ascii_hexdigit_def

declare lower_byte_def [rust_def] to_ascii_lowercase_def [rust_def] eq_ignore_ascii_case_def [rust_def]

section \<open>Operations of \<open>str\<close> and slices\<close>

definition starts_with :: "'a list \<Rightarrow> 'a list \<Rightarrow> bool" where
  "starts_with s p \<longleftrightarrow> take (length p) s = p"

definition ends_with :: "'a list \<Rightarrow> 'a list \<Rightarrow> bool" where
  "ends_with s p \<longleftrightarrow> starts_with (rev s) (rev p)"

definition strip_prefix :: "'a list \<Rightarrow> 'a list \<Rightarrow> 'a list option" where
  "strip_prefix s p = (if starts_with s p then Some (drop (length p) s) else None)"

definition strip_suffix :: "'a list \<Rightarrow> 'a list \<Rightarrow> 'a list option" where
  "strip_suffix s p = (if ends_with s p then Some (take (length s - length p) s) else None)"

fun str_contains :: "'a list \<Rightarrow> 'a list \<Rightarrow> bool" where
  "str_contains [] p = (p = [])"
| "str_contains (c # s) p = (starts_with (c # s) p \<or> str_contains s p)"

fun split_once :: "'a list \<Rightarrow> 'a list \<Rightarrow> ('a list \<times> 'a list) option" where
  "split_once [] p = (if p = [] then Some ([], []) else None)"
| "split_once (c # s) p =
     (if starts_with (c # s) p then Some ([], drop (length p) (c # s))
      else map_option (\<lambda>(a, b). (c # a, b)) (split_once s p))"

text \<open>
  \<open>str::trim\<close> strips the UTF-8 encodings of the characters with the Unicode property
  White\_Space from both ends.
\<close>

definition white_space :: "str list" where
  "white_space = map (\<lambda>n. [char_of (n :: nat)]) [9, 10, 11, 12, 13, 32]
     @ map (map char_of) ([[194, 133], [194, 160], [225, 154, 128]]
         @ map (\<lambda>n. [226, 128, n]) ([128..<139] @ [168, 169, 175]) @ [[226, 129, 159], [227, 128, 128 :: nat]])"

function trim_with :: "str list \<Rightarrow> str \<Rightarrow> str" where
  "trim_with ws s = (case find (\<lambda>p. p \<noteq> [] \<and> starts_with s p) ws of
       None \<Rightarrow> s | Some p \<Rightarrow> trim_with ws (drop (length p) s))"
  by pat_completeness auto
termination
proof (relation "measure (\<lambda>(ws, s). length s)")
  fix ws s p assume "find (\<lambda>p. p \<noteq> [] \<and> starts_with s p) ws = Some p"
  then have "p \<noteq> []" "starts_with s p" by (auto simp: find_Some_iff)
  then show "((ws, drop (length p) s), (ws, s)) \<in> measure (\<lambda>(ws, s). length s)"
    by (cases s; cases p) (auto simp: starts_with_def)
qed simp

definition trim :: "str \<Rightarrow> str" where
  "trim s = rev (trim_with (map rev white_space) (rev (trim_with white_space s)))"

declare trim_with.simps [simp del]

fun join :: "'a list \<Rightarrow> 'a list list \<Rightarrow> 'a list" where
  "join sep [] = []"
| "join sep [x] = x"
| "join sep (x # y # ys) = x @ sep @ join sep (y # ys)"

declare starts_with_def [rust_def] ends_with_def [rust_def] strip_prefix_def [rust_def]
  strip_suffix_def [rust_def]

text \<open>
  Decimal integers: \<open>to_string\<close> of an unsigned integer, and \<open>str::parse\<close> into one of
  \<open>w\<close> bits, which takes an optional plus sign and at least one digit and rejects overflow.
\<close>

fun show_nat :: "nat \<Rightarrow> str" where
  "show_nat n = (if n < 10 then [char_of (48 + n)] else show_nat (n div 10) @ [char_of (48 + n mod 10)])"

definition digits_value :: "str \<Rightarrow> nat" where
  "digits_value ds = foldl (\<lambda>acc c. 10 * acc + (of_char c - 48)) 0 ds"

definition parse_unsigned :: "nat \<Rightarrow> str \<Rightarrow> nat option" where
  "parse_unsigned w s =
     (let ds = (case s of CHR ''+'' # r \<Rightarrow> r | _ \<Rightarrow> s) in
      if ds \<noteq> [] \<and> list_all is_ascii_digit ds \<and> digits_value ds < 2 ^ w
      then Some (digits_value ds) else None)"

text \<open>\<open>Iterator::max_by_key\<close>: the last of the elements with the greatest key.\<close>

fun max_by_key :: "('a \<Rightarrow> nat) \<Rightarrow> 'a list \<Rightarrow> 'a option" where
  "max_by_key k [] = None"
| "max_by_key k (x # xs) =
     (case max_by_key k xs of None \<Rightarrow> Some x
      | Some y \<Rightarrow> if k y < k x then Some x else Some y)"

text \<open>\<open>Result\<close> combinators: collecting the errors, and stopping at the first.\<close>

primrec err_opt :: "('e, 'a) result \<Rightarrow> 'e option" where
  "err_opt (Inl e) = Some e"
| "err_opt (Inr x) = None"

primrec result_bind :: "('e, 'a) result \<Rightarrow> ('a \<Rightarrow> ('e, 'b) result) \<Rightarrow> ('e, 'b) result" where
  "result_bind (Inl e) f = Inl e"
| "result_bind (Inr x) f = f x"

lemma result_bind_Inr: "result_bind m k = Inr y \<longleftrightarrow> (\<exists>x. m = Inr x \<and> k x = Inr y)"
  by (cases m) simp_all

lemma map_sum_Inr_iff: "map_sum f g s = Inr y \<longleftrightarrow> (\<exists>x. s = Inr x \<and> y = g x)"
  by (cases s) auto

text \<open>A \<open>for\<close> loop whose body updates the state and may leave with an error or a panic.\<close>

fun for_each :: "('a \<Rightarrow> 's \<Rightarrow> ('e, 's) result) \<Rightarrow> 'a list \<Rightarrow> 's \<Rightarrow> ('e, 's) result" where
  "for_each body [] st = Inr st"
| "for_each body (x # xs) st = (case body x st of Inl e \<Rightarrow> Inl e | Inr st' \<Rightarrow> for_each body xs st')"

text \<open>\<open>HashMap::entry(k).or_default().push(v)\<close> on an association list.\<close>

fun bucket_push :: "'k \<Rightarrow> 'v \<Rightarrow> ('k \<times> 'v list) list \<Rightarrow> ('k \<times> 'v list) list" where
  "bucket_push k v [] = [(k, [v])]"
| "bucket_push k v ((k', vs) # m) =
     (if k = k' then (k', vs @ [v]) # m else (k', vs) # bucket_push k v m)"

definition buckets :: "('k \<times> 'v) list \<Rightarrow> ('k \<times> 'v list) list" where
  "buckets xs = foldl (\<lambda>m (k, v). bucket_push k v m) [] xs"

text \<open>
  The startup checks bucket their entries by name, sort the names and report every bucket
  with more than one entry.
\<close>

definition duplicate_buckets :: "('k::linorder \<times> 'v) list \<Rightarrow> ('k \<times> 'v list) list" where
  "duplicate_buckets xs =
     (let by_name = buckets xs; sorted_names = sort (map fst by_name)
      in concat (map (\<lambda>nm. let vs = the (map_of by_name nm) in
                        if length vs > 1 then [(nm, vs)] else []) sorted_names))"

section \<open>Generic lemmas\<close>

lemma char_le_of_char [rust_def]: "(c \<le> d) = (of_char c \<le> (of_char d :: nat))"
  by (simp add: less_eq_char_def)

text \<open>Printing and parsing of unsigned integers are inverse.\<close>

declare show_nat.simps [simp del]

lemma of_char_digit [simp]: "d < 10 \<Longrightarrow> of_char (char_of (48 + d) :: char) = (48 + d :: nat)"
  by simp

lemma show_nat_digits: "show_nat n \<noteq> [] \<and> list_all is_ascii_digit (show_nat n)"
proof (induction n rule: show_nat.induct)
  case (1 n)
  have d: "is_ascii_digit (char_of (48 + d))" if "d < 10" for d :: nat
    using that by (simp add: is_ascii_digit_def char_le_of_char)
  show ?case
  proof (cases "n < 10")
    case True
    then show ?thesis using d [of n] by (simp add: show_nat.simps [of n])
  next
    case False
    then show ?thesis using 1 d [of "n mod 10"] by (simp add: show_nat.simps [of n])
  qed
qed

lemma digits_value_show [simp]: "digits_value (show_nat n) = n"
proof (induction n rule: show_nat.induct)
  case (1 n)
  show ?case
  proof (cases "n < 10")
    case True
    then show ?thesis by (simp add: show_nat.simps [of n] digits_value_def)
  next
    case False
    then have "digits_value (show_nat n) = 10 * digits_value (show_nat (n div 10)) + n mod 10"
      by (simp add: show_nat.simps [of n] digits_value_def)
    then show ?thesis using 1 False by simp
  qed
qed

lemma show_nat_hd: "show_nat n = c # cs \<Longrightarrow> is_ascii_digit c"
  using show_nat_digits [of n] by simp

lemma parse_show [simp]: "parse_unsigned w (show_nat n) = (if n < 2 ^ w then Some n else None)"
proof -
  obtain c cs where c: "show_nat n = c # cs" using show_nat_digits [of n] by (cases "show_nat n") auto
  then have "c \<noteq> CHR ''+''" using show_nat_hd [of n] by (auto simp: rust_def)
  then have "(case show_nat n of CHR ''+'' # r \<Rightarrow> r | _ \<Rightarrow> show_nat n) = show_nat n"
    using c by (auto split: char.splits bool.splits)
  then show ?thesis using show_nat_digits [of n] by (simp add: parse_unsigned_def)
qed

lemma starts_with_append [simp]: "starts_with (p @ s) p"
  by (simp add: starts_with_def)

lemma starts_with_iff: "starts_with s p \<longleftrightarrow> (\<exists>r. s = p @ r)"
  by (auto simp: starts_with_def) (metis append_take_drop_id)

lemma strip_prefix_Some: "strip_prefix s p = Some r \<longleftrightarrow> s = p @ r"
  by (auto simp: strip_prefix_def starts_with_iff)

lemma strip_prefix_append [simp]: "strip_prefix (p @ s) p = Some s"
  by (simp add: strip_prefix_Some)

lemma split_once_Some: "split_once s p = Some (a, b) \<Longrightarrow> s = a @ p @ b"
proof (induction s arbitrary: a b)
  case Nil
  then show ?case by (auto split: if_splits)
next
  case (Cons c s)
  show ?case
  proof (cases "starts_with (c # s) p")
    case True
    with Cons.prems have "a = []" and "b = drop (length p) (c # s)" by simp_all
    with True show ?thesis by (simp add: starts_with_def) (metis append_take_drop_id)
  next
    case False
    with Cons show ?thesis by auto
  qed
qed

lemma join_append: "xs \<noteq> [] \<Longrightarrow> ys \<noteq> [] \<Longrightarrow> join sep (xs @ ys) = join sep xs @ sep @ join sep ys"
  by (induction sep xs rule: join.induct) (auto simp: neq_Nil_conv)

lemma max_by_key_None [simp]: "max_by_key k xs = None \<longleftrightarrow> xs = []"
  by (cases xs) (auto split: option.splits if_splits)

lemma max_by_key_mem: "max_by_key k xs = Some x \<Longrightarrow> x \<in> set xs"
  by (induction xs arbitrary: x) (auto split: option.splits if_splits)

lemma max_by_key_ge: "max_by_key k xs = Some x \<Longrightarrow> y \<in> set xs \<Longrightarrow> k y \<le> k x"
  by (induction xs arbitrary: x) (fastforce split: option.splits if_splits)+

lemma bucket_push_keys: "fst ` set (bucket_push k v m) = insert k (fst ` set m)"
  by (induction k v m rule: bucket_push.induct) auto

lemma bucket_push_distinct: "distinct (map fst m) \<Longrightarrow> distinct (map fst (bucket_push k v m))"
proof (induction m)
  case Nil
  then show ?case by simp
next
  case (Cons a m)
  obtain k' vs where [simp]: "a = (k', vs)" by (cases a)
  have "fst ` set (bucket_push k v m) = insert k (fst ` set m)" by (rule bucket_push_keys)
  with Cons show ?case by auto
qed

lemma bucket_push_map_of:
  "map_of (bucket_push k v m) =
     (map_of m)(k \<mapsto> (case map_of m k of None \<Rightarrow> [v] | Some vs \<Rightarrow> vs @ [v]))"
  by (induction m) (auto simp: fun_eq_iff split: option.splits)

lemma buckets_snoc: "buckets (xs @ [(k, v)]) = bucket_push k v (buckets xs)"
  by (simp add: buckets_def)

lemma buckets_distinct: "distinct (map fst (buckets xs))"
proof (induction xs rule: rev_induct)
  case Nil
  then show ?case by (simp add: buckets_def)
next
  case (snoc x xs)
  then show ?case by (cases x) (simp add: buckets_snoc bucket_push_distinct)
qed

lemma buckets_map_of:
  "map_of (buckets xs) k =
     (let vs = map snd (filter (\<lambda>p. fst p = k) xs) in if vs = [] then None else Some vs)"
proof (induction xs rule: rev_induct)
  case Nil
  then show ?case by (simp add: buckets_def)
next
  case (snoc x xs)
  then show ?case
    by (cases x) (auto simp: buckets_snoc bucket_push_map_of Let_def split: option.splits if_splits)
qed

lemma buckets_keys: "fst ` set (buckets xs) = fst ` set xs"
proof (induction xs rule: rev_induct)
  case Nil
  then show ?case by (simp add: buckets_def)
next
  case (snoc x xs)
  then show ?case by (cases x) (simp add: buckets_snoc bucket_push_keys)
qed

lemma buckets_mem:
  "(k, vs) \<in> set (buckets xs) \<longleftrightarrow> vs = map snd (filter (\<lambda>p. fst p = k) xs) \<and> vs \<noteq> []"
  using buckets_map_of [of xs k] map_of_eq_Some_iff [OF buckets_distinct, of xs k vs]
  by (auto simp: Let_def split: if_splits)

lemma duplicate_buckets_mem:
  "(k, vs) \<in> set (duplicate_buckets xs) \<longleftrightarrow>
     vs = map snd (filter (\<lambda>p. fst p = k) xs) \<and> length vs > 1"
proof -
  let ?vs = "map snd (filter (\<lambda>p. fst p = k) xs)"
  have look: "map_of (buckets xs) k = (if ?vs = [] then None else Some ?vs)"
    by (simp add: buckets_map_of Let_def)
  have key: "k \<in> fst ` set (buckets xs) \<longleftrightarrow> ?vs \<noteq> []"
    by (auto simp: buckets_keys filter_empty_conv image_iff)
  have "(k, vs) \<in> set (duplicate_buckets xs) \<longleftrightarrow> k \<in> fst ` set (buckets xs)
      \<and> vs = the (map_of (buckets xs) k) \<and> length vs > 1"
    by (auto simp: duplicate_buckets_def Let_def image_iff split: if_splits)
  then show ?thesis by (auto simp: key look)
qed

lemma filter_key_le_one: "distinct (map f xs) \<Longrightarrow> length (filter (\<lambda>x. f x = a) xs) \<le> 1"
  by (induction xs) (auto simp: filter_empty_conv image_iff)

lemma not_distinct_filter: "\<not> distinct (map f xs) \<Longrightarrow> \<exists>a. length (filter (\<lambda>x. f x = a) xs) > 1"
proof (induction xs)
  case Nil
  then show ?case by simp
next
  case (Cons x xs)
  show ?case
  proof (cases "f x \<in> f ` set xs")
    case True
    then obtain y where "y \<in> set xs" "f y = f x" by auto
    then have "filter (\<lambda>z. f z = f x) xs \<noteq> []" by (auto simp: filter_empty_conv)
    then show ?thesis by (intro exI [of _ "f x"]) auto
  next
    case False
    with Cons obtain a where "length (filter (\<lambda>x. f x = a) xs) > 1" by auto
    then show ?thesis by (intro exI [of _ a]) auto
  qed
qed

lemma duplicate_buckets_empty: "duplicate_buckets xs = [] \<longleftrightarrow> distinct (map fst xs)"
proof -
  have "duplicate_buckets xs = [] \<longleftrightarrow> (\<forall>k vs. (k, vs) \<notin> set (duplicate_buckets xs))"
    by (metis list.set_intros(1) list.exhaust old.prod.exhaust empty_iff list.set(1))
  also have "\<dots> \<longleftrightarrow> (\<forall>k. length (filter (\<lambda>p. fst p = k) xs) \<le> 1)"
    by (auto simp: duplicate_buckets_mem not_less)
  also have "\<dots> \<longleftrightarrow> distinct (map fst xs)"
    using filter_key_le_one [of fst xs] not_distinct_filter [of fst xs] by (metis not_le)
  finally show ?thesis .
qed

lemma for_each_append:
  "for_each f (xs @ ys) st = (case for_each f xs st of Inl e \<Rightarrow> Inl e | Inr st' \<Rightarrow> for_each f ys st')"
  by (induction xs arbitrary: st) (auto split: sum.splits)

lemma for_each_check:
  "for_each (\<lambda>x u. if P x then Inr u else Inl (e x)) xs st = Inr st \<longleftrightarrow> (\<forall>x \<in> set xs. P x)"
  by (induction xs) auto

lemma sort_eq_Nil [simp]: "sort xs = [] \<longleftrightarrow> xs = []"
  by (metis length_0_conv length_sort)

lemma sorted_dedup_distinct: "sorted xs \<Longrightarrow> distinct (remdups_adj xs)"
  by (induction xs rule: remdups_adj.induct) (auto simp: order.antisym)

lemma sort_dedup_set_eq:
  fixes xs :: "'a::linorder list"
  shows "remdups_adj (sort xs) = remdups_adj (sort ys) \<longleftrightarrow> set xs = set ys"
proof
  assume "remdups_adj (sort xs) = remdups_adj (sort ys)"
  then have "set (remdups_adj (sort xs)) = set (remdups_adj (sort ys))" by simp
  then show "set xs = set ys" by simp
next
  assume "set xs = set ys"
  then show "remdups_adj (sort xs) = remdups_adj (sort ys)"
    by (intro sorted_distinct_set_unique) (simp_all add: sorted_dedup_distinct)
qed

end
