(* ===== verification/Label.thy ===== *)
theory Label
  imports Prelude
begin

text \<open>
  Labels (\<open>src/src/label.rs\<close>, first half): the \<open>Label\<close> type with its const
  constructor and name validation, the registry check for duplicate declarations, the
  startup check of \<open>SKULD_LABELS\<close> names against the declared ones, and the ordered
  union \<open>push_unique\<close>.  A panic is the left value of a sum; the text of a panic message is
  replaced by a constructor that carries the data the message interpolates.
\<close>

section \<open>The label type\<close>

record label =
  label_name :: str

datatype label_panic =
    EmptyName | BadFirstByte | BadByte | ReservedName | NotCanonicalLowercase

fun contains_no_ascii_uppercase :: "str \<Rightarrow> bool" where
  "contains_no_ascii_uppercase [] = True"
| "contains_no_ascii_uppercase (b # bs) =
     (if CHR ''A'' \<le> b \<and> b \<le> CHR ''Z'' then False else contains_no_ascii_uppercase bs)"

definition RESERVED_LABEL_NAMES :: "str list" where
  "RESERVED_LABEL_NAMES = [''true'', ''false'']"

fun bytes_eq_from :: "str \<Rightarrow> str \<Rightarrow> bool" where
  "bytes_eq_from (x # xs) (y # ys) = (if x \<noteq> y then False else bytes_eq_from xs ys)"
| "bytes_eq_from _ _ = True"

definition bytes_eq :: "str \<Rightarrow> str \<Rightarrow> bool" where
  "bytes_eq a b = (if length a \<noteq> length b then False else bytes_eq_from a b)"

definition label_first_byte :: "char \<Rightarrow> bool" where
  "label_first_byte b \<longleftrightarrow> (CHR ''a'' \<le> b \<and> b \<le> CHR ''z'')
     \<or> (CHR ''A'' \<le> b \<and> b \<le> CHR ''Z'') \<or> b = CHR ''_''"

definition label_byte :: "char \<Rightarrow> bool" where
  "label_byte b \<longleftrightarrow> (CHR ''a'' \<le> b \<and> b \<le> CHR ''z'') \<or> (CHR ''A'' \<le> b \<and> b \<le> CHR ''Z'')
     \<or> (CHR ''0'' \<le> b \<and> b \<le> CHR ''9'') \<or> b = CHR ''_''"

definition validate_label_name :: "str \<Rightarrow> (label_panic, unit) result" where
  "validate_label_name bytes =
     (case bytes of [] \<Rightarrow> Inl EmptyName
      | first # rest \<Rightarrow>
          if \<not> label_first_byte first then Inl BadFirstByte
          else if \<not> list_all label_byte rest then Inl BadByte
          else if list_ex (\<lambda>r. bytes_eq bytes r) RESERVED_LABEL_NAMES then Inl ReservedName
          else Inr ())"

definition Label_new :: "str \<Rightarrow> (label_panic, label) result" where
  "Label_new nm =
     (case validate_label_name nm of Inl e \<Rightarrow> Inl e
      | Inr _ \<Rightarrow> if contains_no_ascii_uppercase nm then Inr \<lparr>label_name = nm\<rparr>
                else Inl NotCanonicalLowercase)"

text \<open>The \<open>#[skuld::label]\<close> macro lowercases the identifier before it calls \<open>Label::__new\<close>.\<close>

definition label_macro :: "str \<Rightarrow> (label_panic, label) result" where
  "label_macro ident = Label_new (to_ascii_lowercase ident)"

section \<open>Registration\<close>

record label_entry =
  le_name :: str
  le_file :: str
  le_line :: nat
  le_column :: nat

definition entry_location :: "label_entry \<Rightarrow> str \<times> nat \<times> nat" where
  "entry_location e = (le_file e, le_line e, le_column e)"

text \<open>The error lists, for each name declared more than once in name order, every location.\<close>

definition check_label_registry ::
    "label_entry list \<Rightarrow> ((str \<times> (str \<times> nat \<times> nat) list) list, unit) result" where
  "check_label_registry entries =
     (let errors = map (\<lambda>(nm, defs). (nm, map entry_location defs))
                     (duplicate_buckets (map (\<lambda>entry. (le_name entry, entry)) entries))
      in if errors = [] then Inr () else Inl errors)"

definition unknown_labels_message ::
    "str list \<Rightarrow> str list \<Rightarrow> (str list \<times> str list) option" where
  "unknown_labels_message names declared =
     (let declared' = remdups_adj (sort declared);
          unknown = filter (\<lambda>n. \<not> n \<in> set declared') names
      in if unknown = [] then None else Some (unknown, declared'))"

definition validate_known_labels ::
    "label_entry list \<Rightarrow> str list \<Rightarrow> (str list \<times> str list, unit) result" where
  "validate_known_labels entries names =
     (case unknown_labels_message names (map le_name entries) of
        Some msg \<Rightarrow> Inl msg | None \<Rightarrow> Inr ())"

section \<open>Ordered union\<close>

fun push_unique :: "'a list \<Rightarrow> 'a list \<Rightarrow> 'a list" where
  "push_unique dst [] = dst"
| "push_unique dst (l # src) = push_unique (if l \<in> set dst then dst else dst @ [l]) src"

section \<open>Lemmas\<close>

lemma contains_no_ascii_uppercase_iff:
  "contains_no_ascii_uppercase s \<longleftrightarrow> (\<forall>b \<in> set s. \<not> is_ascii_uppercase b)"
  by (induction s) (auto simp: is_ascii_uppercase_def)

lemma bytes_eq_iff [simp]: "bytes_eq a b \<longleftrightarrow> a = b"
proof -
  have "length a = length b \<Longrightarrow> bytes_eq_from a b \<longleftrightarrow> a = b" for a b
    by (induction a b rule: list_induct2) auto
  then show ?thesis by (auto simp: bytes_eq_def)
qed

lemma label_byte_iff: "label_byte b \<longleftrightarrow> is_ascii_alphanumeric b \<or> b = CHR ''_''"
  by (auto simp: label_byte_def ascii_class_defs)

lemma label_first_byte_iff: "label_first_byte b \<longleftrightarrow> is_ascii_alpha b \<or> b = CHR ''_''"
  by (auto simp: label_first_byte_def ascii_class_defs)

lemma label_first_byte_imp: "label_first_byte b \<Longrightarrow> label_byte b"
  by (auto simp: label_byte_def label_first_byte_def)

lemma validate_label_name_ok:
  "validate_label_name s = Inr () \<longleftrightarrow>
     s \<noteq> [] \<and> label_first_byte (hd s) \<and> (\<forall>b \<in> set s. label_byte b)
     \<and> s \<noteq> ''true'' \<and> s \<noteq> ''false''"
  by (cases s)
     (auto simp: validate_label_name_def RESERVED_LABEL_NAMES_def list_all_iff list_ex_iff
        label_first_byte_imp)

text \<open>A byte-wise lowercase result holds no uppercase byte, and lowercasing keeps identifiers.\<close>

lemma of_char_lower_byte:
  "of_char (lower_byte c) = (if is_ascii_uppercase c then of_char c + 32 else (of_char c :: nat))"
  by (auto simp: lower_byte_def ascii_class_defs char_le_of_char)

lemma lower_byte_not_upper: "\<not> is_ascii_uppercase (lower_byte c)"
proof (cases "is_ascii_uppercase c")
  case True
  then have "90 < (of_char (lower_byte c) :: nat)"
    by (simp add: of_char_lower_byte is_ascii_uppercase_def char_le_of_char)
  then show ?thesis by (simp add: is_ascii_uppercase_def char_le_of_char)
next
  case False
  then show ?thesis by (simp add: lower_byte_def)
qed

lemma lower_byte_id: "\<not> is_ascii_uppercase c \<Longrightarrow> lower_byte c = c"
  by (simp add: lower_byte_def)

lemma lower_byte_label_byte: "label_byte c \<Longrightarrow> label_byte (lower_byte c)"
proof (cases "is_ascii_uppercase c")
  case True
  then have "97 \<le> (of_char (lower_byte c) :: nat) \<and> (of_char (lower_byte c) :: nat) \<le> 122"
    by (simp add: of_char_lower_byte is_ascii_uppercase_def char_le_of_char)
  then show ?thesis by (simp add: label_byte_def char_le_of_char)
qed (simp add: lower_byte_def)

lemma lower_byte_label_first: "label_first_byte c \<Longrightarrow> label_first_byte (lower_byte c)"
proof (cases "is_ascii_uppercase c")
  case True
  then have "97 \<le> (of_char (lower_byte c) :: nat) \<and> (of_char (lower_byte c) :: nat) \<le> 122"
    by (simp add: of_char_lower_byte is_ascii_uppercase_def char_le_of_char)
  then show ?thesis by (simp add: label_first_byte_def char_le_of_char)
qed (simp add: lower_byte_def)

lemma to_ascii_lowercase_canonical: "contains_no_ascii_uppercase (to_ascii_lowercase s)"
  by (auto simp: contains_no_ascii_uppercase_iff to_ascii_lowercase_def lower_byte_not_upper)

lemma to_ascii_lowercase_id: "contains_no_ascii_uppercase s \<Longrightarrow> to_ascii_lowercase s = s"
  by (auto simp: contains_no_ascii_uppercase_iff to_ascii_lowercase_def lower_byte_id
      intro: map_idI)

lemma to_ascii_lowercase_idem [simp]:
  "to_ascii_lowercase (to_ascii_lowercase s) = to_ascii_lowercase s"
  by (simp add: to_ascii_lowercase_id to_ascii_lowercase_canonical)

lemma length_to_ascii_lowercase [simp]: "length (to_ascii_lowercase s) = length s"
  by (simp add: to_ascii_lowercase_def)

text \<open>The registry check succeeds exactly when the names are pairwise distinct.\<close>

lemma check_label_registry_ok:
  "check_label_registry entries = Inr () \<longleftrightarrow> distinct (map le_name entries)"
  by (simp add: check_label_registry_def Let_def duplicate_buckets_empty comp_def)

lemma check_label_registry_errors:
  assumes "check_label_registry entries = Inl errs"
  shows "(nm, locs) \<in> set errs \<longleftrightarrow>
     locs = map entry_location (filter (\<lambda>e. le_name e = nm) entries) \<and> length locs > 1"
proof -
  let ?kv = "map (\<lambda>entry. (le_name entry, entry)) entries"
  have vs: "map snd (filter (\<lambda>p. fst p = nm) ?kv) = filter (\<lambda>e. le_name e = nm) entries"
    by (induction entries) auto
  from assms have "errs = map (\<lambda>(nm, defs). (nm, map entry_location defs)) (duplicate_buckets ?kv)"
    by (simp add: check_label_registry_def Let_def split: if_splits)
  then have "(nm, locs) \<in> set errs \<longleftrightarrow>
      (\<exists>defs. (nm, defs) \<in> set (duplicate_buckets ?kv) \<and> locs = map entry_location defs)"
    by force
  also have "\<dots> \<longleftrightarrow> locs = map entry_location (filter (\<lambda>e. le_name e = nm) entries) \<and> length locs > 1"
    unfolding duplicate_buckets_mem vs by auto
  finally show ?thesis .
qed

text \<open>\<open>push_unique\<close> is the duplicate-free union that keeps first occurrences in order.\<close>

lemma push_unique_set [simp]: "set (push_unique dst src) = set dst \<union> set src"
  by (induction dst src rule: push_unique.induct) auto

lemma push_unique_distinct: "distinct dst \<Longrightarrow> distinct (push_unique dst src)"
  by (induction dst src rule: push_unique.induct) auto

lemma push_unique_prefix: "prefix dst (push_unique dst src)"
proof (induction dst src rule: push_unique.induct)
  case (2 dst l src)
  then show ?case by (cases "l \<in> set dst") (auto dest: append_prefixD)
qed simp

lemma push_unique_append: "push_unique dst (xs @ ys) = push_unique (push_unique dst xs) ys"
  by (induction dst xs rule: push_unique.induct) auto

end
