(* ===== verification/Label_Expr.thy ===== *)
theory Label_Expr
  imports Label
begin

text \<open>
  Label expressions (\<open>src/src/label.rs\<close>, filtering): the expression type the crate
  \<open>boolean_expression\<close> exports, the collection of terminals, the child sorting, the
  precedence-aware printer and the SQL compiler.

  The crate itself is not part of the repository.  Its two operations the code calls, the
  evaluation of an expression and the round trip through a BDD, are the fields of the record
  \<open>boolexpr\<close>, an argument of every definition that uses them; the locale
  \<open>boolexpr_crate\<close> states what the code relies on.
\<close>

datatype expr =
    ETerminal str
  | EConst bool
  | ENot expr
  | EAnd expr expr
  | EOr expr expr

record boolexpr =
  evaluate_with :: "expr \<Rightarrow> (str \<Rightarrow> bool) \<Rightarrow> bool"
  \<comment> \<open>\<open>BDD::new\<close>, \<open>terminal\<close> for each name in the given order, \<open>to_expr(from_expr(e))\<close>\<close>
  bdd_round_trip :: "str list \<Rightarrow> expr \<Rightarrow> expr"

section \<open>Terminals and sorting\<close>

fun collect_terminals :: "expr \<Rightarrow> str list" where
  "collect_terminals (ETerminal t) = [t]"
| "collect_terminals (EConst _) = []"
| "collect_terminals (ENot x) = collect_terminals x"
| "collect_terminals (EAnd a b) = collect_terminals a @ collect_terminals b"
| "collect_terminals (EOr a b) = collect_terminals a @ collect_terminals b"

section \<open>Printing\<close>

definition expr_prec :: "expr \<Rightarrow> nat" where
  "expr_prec e = (case e of EOr _ _ \<Rightarrow> 0 | EAnd _ _ \<Rightarrow> 1
     | ENot _ \<Rightarrow> 2 | ETerminal _ \<Rightarrow> 2 | EConst _ \<Rightarrow> 2)"

definition fmt_parens :: "bool \<Rightarrow> str \<Rightarrow> str" where
  "fmt_parens needs_parens s = (if needs_parens then ''('' @ s @ '')'' else s)"

fun fmt_expr :: "expr \<Rightarrow> nat \<Rightarrow> str" where
  "fmt_expr (ETerminal nm) min_prec = fmt_parens (expr_prec (ETerminal nm) < min_prec) nm"
| "fmt_expr (EConst b) min_prec =
     fmt_parens (expr_prec (EConst b) < min_prec) (if b then ''true'' else ''false'')"
| "fmt_expr (ENot inner) min_prec =
     fmt_parens (expr_prec (ENot inner) < min_prec) (''!'' @ fmt_expr inner 2)"
| "fmt_expr (EAnd a b) min_prec =
     fmt_parens (expr_prec (EAnd a b) < min_prec) (fmt_expr a 1 @ '' & '' @ fmt_expr b 1)"
| "fmt_expr (EOr a b) min_prec =
     fmt_parens (expr_prec (EOr a b) < min_prec) (fmt_expr a 0 @ '' | '' @ fmt_expr b 0)"

definition format_expr :: "expr \<Rightarrow> str" where
  "format_expr e = fmt_expr e 0"

definition sort_pair :: "expr \<Rightarrow> expr \<Rightarrow> expr \<times> expr" where
  "sort_pair a b = (if format_expr a \<le> format_expr b then (a, b) else (b, a))"

fun sort_children :: "expr \<Rightarrow> expr" where
  "sort_children (ENot x) = ENot (sort_children x)"
| "sort_children (EAnd a b) =
     (let (lo, hi) = sort_pair (sort_children a) (sort_children b) in EAnd lo hi)"
| "sort_children (EOr a b) =
     (let (lo, hi) = sort_pair (sort_children a) (sort_children b) in EOr lo hi)"
| "sort_children leaf = leaf"

section \<open>Evaluation and SQL\<close>

definition matches_expr :: "boolexpr \<Rightarrow> expr \<Rightarrow> label list \<Rightarrow> bool" where
  "matches_expr X e labels = evaluate_with X e (\<lambda>t. list_ex (\<lambda>l. label_name l = t) labels)"

fun to_sql_expr :: "expr \<Rightarrow> str" where
  "to_sql_expr (ETerminal nm) =
     ''EXISTS (SELECT 1 FROM labels WHERE running_id = r.id AND label = '' @ [CHR 39] @ nm
       @ [CHR 39] @ '')''"
| "to_sql_expr (EConst True) = ''1=1''"
| "to_sql_expr (EConst False) = ''1=0''"
| "to_sql_expr (ENot inner) = ''NOT ('' @ to_sql_expr inner @ '')''"
| "to_sql_expr (EAnd a b) = ''('' @ to_sql_expr a @ '' AND '' @ to_sql_expr b @ '')''"
| "to_sql_expr (EOr a b) = ''('' @ to_sql_expr a @ '' OR '' @ to_sql_expr b @ '')''"

section \<open>Canonicalization\<close>

definition canonicalize :: "boolexpr \<Rightarrow> expr \<Rightarrow> expr" where
  "canonicalize X e =
     (let terms = remdups_adj (sort (collect_terminals e)) in
      if terms = [] then EConst (evaluate_with X e (\<lambda>_. False))
      else sort_children (bdd_round_trip X terms e))"

section \<open>Meaning of an expression\<close>

text \<open>The truth value of an expression under an assignment, used to state properties.\<close>

fun sem :: "expr \<Rightarrow> (str \<Rightarrow> bool) \<Rightarrow> bool" where
  "sem (ETerminal t) f = f t"
| "sem (EConst b) f = b"
| "sem (ENot x) f = (\<not> sem x f)"
| "sem (EAnd a b) f = (sem a f \<and> sem b f)"
| "sem (EOr a b) f = (sem a f \<or> sem b f)"

lemma sem_cong: "(\<And>t. t \<in> set (collect_terminals e) \<Longrightarrow> f t = g t) \<Longrightarrow> sem e f = sem e g"
  by (induction e) auto

lemma sort_pair_cases: "sort_pair a b = (a, b) \<or> sort_pair a b = (b, a)"
  by (simp add: sort_pair_def)

lemma sem_sort_children [simp]: "sem (sort_children e) f = sem e f"
  by (induction e rule: sort_children.induct) (auto simp: sort_pair_def Let_def)

lemma terminals_sort_children [simp]:
  "set (collect_terminals (sort_children e)) = set (collect_terminals e)"
  by (induction e rule: sort_children.induct) (auto simp: sort_pair_def Let_def)

lemma sort_children_Const [simp]: "sort_children e = EConst b \<longleftrightarrow> e = EConst b"
  by (cases e) (auto simp: sort_pair_def Let_def)

section \<open>What the code relies on of \<open>boolean_expression\<close>\<close>

definition var_order :: "str list \<Rightarrow> expr \<Rightarrow> bool" where
  "var_order vs e \<longleftrightarrow> sorted vs \<and> distinct vs \<and> set (collect_terminals e) \<subseteq> set vs"

locale boolexpr_crate =
  fixes X :: boolexpr
  assumes eval_Terminal: "evaluate_with X (ETerminal t) f = f t"
    and eval_Const: "evaluate_with X (EConst k) f = k"
    and eval_Not: "evaluate_with X (ENot a) f = (\<not> evaluate_with X a f)"
    and eval_And: "evaluate_with X (EAnd a b) f = (evaluate_with X a f \<and> evaluate_with X b f)"
    and eval_Or: "evaluate_with X (EOr a b) f = (evaluate_with X a f \<or> evaluate_with X b f)"
    \<comment> \<open>the BDD denotes the function of the expression\<close>
    and bdd_sound: "var_order vs e \<Longrightarrow>
      evaluate_with X (bdd_round_trip X vs e) f = evaluate_with X e f"
    \<comment> \<open>an ROBDD over one variable order is determined by its function\<close>
    and bdd_canonical: "var_order vs e \<Longrightarrow> var_order vs e' \<Longrightarrow>
      (\<And>f. evaluate_with X e f = evaluate_with X e' f) \<Longrightarrow>
      bdd_round_trip X vs e = bdd_round_trip X vs e'"
    \<comment> \<open>variables the expression does not use leave no trace\<close>
    and bdd_unused: "var_order vs e \<Longrightarrow> var_order vs' e \<Longrightarrow> set vs \<subseteq> set vs' \<Longrightarrow>
      bdd_round_trip X vs' e = bdd_round_trip X vs e"
    and bdd_terminals: "var_order vs e \<Longrightarrow>
      set (collect_terminals (bdd_round_trip X vs e)) \<subseteq> set (collect_terminals e)"
    \<comment> \<open>the two one-node BDDs and the BDD of a single variable read back as themselves\<close>
    and bdd_const: "bdd_round_trip X vs (EConst k) = EConst k"
    and bdd_terminal: "bdd_round_trip X [t] (ETerminal t) = ETerminal t"
begin

lemma evaluate_with_sem: "evaluate_with X e f = sem e f"
  by (induction e) (simp_all add: eval_Terminal eval_Const eval_Not eval_And eval_Or)

lemma var_order_terms: "var_order (remdups_adj (sort (collect_terminals e))) e"
  by (simp add: var_order_def sorted_dedup_distinct)

lemma sem_canonicalize: "sem (canonicalize X e) f = sem e f"
proof (cases "collect_terminals e = []")
  case True
  then have "sem e (\<lambda>_. False) = sem e f" by (intro sem_cong) simp
  with True show ?thesis by (simp add: canonicalize_def evaluate_with_sem)
next
  case False
  then show ?thesis
    using bdd_sound [OF var_order_terms, of e f]
    by (simp add: canonicalize_def Let_def evaluate_with_sem)
qed

lemma terminals_canonicalize:
  "set (collect_terminals (canonicalize X e)) \<subseteq> set (collect_terminals e)"
  using bdd_terminals [OF var_order_terms, of e] by (simp add: canonicalize_def Let_def)

text \<open>
  A larger variable order gives the same canonical form, so two expressions are compared over
  the union of their terminals; a constant function reads back as a constant.
\<close>

lemma canonicalize_superset:
  assumes "var_order vs e"
  shows "canonicalize X e = sort_children (bdd_round_trip X vs e)"
proof (cases "collect_terminals e = []")
  case True
  define b where "b = sem e (\<lambda>_. False)"
  have "sem e f = b" for f unfolding b_def using True by (intro sem_cong) simp
  then have "bdd_round_trip X vs e = bdd_round_trip X vs (EConst b)"
    using assms by (intro bdd_canonical) (auto simp: evaluate_with_sem var_order_def)
  with True show ?thesis by (simp add: canonicalize_def bdd_const evaluate_with_sem b_def)
next
  case False
  have "set (remdups_adj (sort (collect_terminals e))) \<subseteq> set vs"
    using assms by (simp add: var_order_def)
  then have "bdd_round_trip X vs e = bdd_round_trip X (remdups_adj (sort (collect_terminals e))) e"
    by (rule bdd_unused [OF var_order_terms assms])
  with False show ?thesis by (simp add: canonicalize_def Let_def)
qed

lemma canonicalize_unique: "(\<And>f. sem a f = sem b f) \<Longrightarrow> canonicalize X a = canonicalize X b"
proof -
  assume eq: "\<And>f. sem a f = sem b f"
  let ?vs = "remdups_adj (sort (collect_terminals a @ collect_terminals b))"
  have "var_order ?vs a" "var_order ?vs b"
    by (simp_all add: var_order_def sorted_dedup_distinct)
  then show ?thesis
    using eq by (simp add: canonicalize_superset [of ?vs] bdd_canonical [of ?vs a b] evaluate_with_sem)
qed

lemma canonicalize_eq_iff: "canonicalize X a = canonicalize X b \<longleftrightarrow> (\<forall>f. sem a f = sem b f)"
  by (metis canonicalize_unique sem_canonicalize)

lemma canonicalize_idem: "canonicalize X (canonicalize X e) = canonicalize X e"
  by (rule canonicalize_unique) (rule sem_canonicalize)

lemma canonicalize_terminal: "canonicalize X (ETerminal t) = ETerminal t"
  by (simp add: canonicalize_def bdd_terminal)

lemma canonicalize_Const_iff: "canonicalize X e = EConst b \<longleftrightarrow> (\<forall>f. sem e f = b)"
proof -
  have "canonicalize X (EConst b) = EConst b" by (simp add: canonicalize_def eval_Const)
  then show ?thesis using canonicalize_eq_iff [of e "EConst b"] by simp
qed

end

end
