(* ===== verification/Label_Parser.thy ===== *)
theory Label_Parser
  imports Label_Expr
begin

text \<open>
  The filter grammar (\<open>src/src/label.pest\<close>) and the translation of its parse trees into
  expressions (\<open>parse_raw_label_expr\<close> and \<open>build_expr\<close> of \<open>src/src/label.rs\<close>).

  One function per grammar rule (a rule takes the rules it calls back into as arguments,
  which is how the recursion is tied in \<open>rule_expr\<close>), with pest's semantics: ordered choice, greedy repetition,
  a failed repetition restored to where it started, implicit \<open>WHITESPACE*\<close> between the
  elements of a sequence and the iterations of a repetition of a normal rule, none inside
  an atomic rule.  A rule yields a \<open>pair\<close>: its name, the text it matched and its inner
  pairs.  The rules call each other with the input still to be read, so the mutual recursion
  is on fuel; \<open>rule_input\<close> starts with fuel that lemma \<open>rule_input_total\<close> proves
  is always enough.
\<close>

datatype rule =
    R_input | R_expr | R_or_expr | R_and_expr | R_not_expr | R_neg | R_primary
  | R_bool_lit | R_label | R_EOI

datatype pair = Pair rule str "pair list"

datatype 'a peg = Out_of_fuel | No_match | Matched 'a str

text \<open>Sequence, ordered choice and literal.\<close>

primrec peg_then :: "'a peg \<Rightarrow> ('a \<Rightarrow> str \<Rightarrow> 'b peg) \<Rightarrow> 'b peg" where
  "peg_then Out_of_fuel f = Out_of_fuel"
| "peg_then No_match f = No_match"
| "peg_then (Matched x r) f = f x r"

primrec peg_or :: "'a peg \<Rightarrow> 'a peg \<Rightarrow> 'a peg" where
  "peg_or Out_of_fuel b = Out_of_fuel"
| "peg_or No_match b = b"
| "peg_or (Matched x r) b = Matched x r"

definition peg_lit :: "str \<Rightarrow> str \<Rightarrow> unit peg" where
  "peg_lit lit s = (case strip_prefix s lit of None \<Rightarrow> No_match | Some r \<Rightarrow> Matched () r)"

definition span :: "str \<Rightarrow> str \<Rightarrow> str" where
  "span s rest = take (length s - length rest) s"

definition is_whitespace :: "char \<Rightarrow> bool" where
  "is_whitespace c \<longleftrightarrow> c = CHR '' '' \<or> c = CHR 0x09 \<or> c = CHR 0x0D"

definition skip :: "str \<Rightarrow> str" where
  "skip s = dropWhile is_whitespace s"

definition ident_byte :: "char \<Rightarrow> bool" where
  "ident_byte c \<longleftrightarrow> is_ascii_alphanumeric c \<or> c = CHR ''_''"

definition rule_label :: "str \<Rightarrow> pair peg" where
  "rule_label s = (case s of [] \<Rightarrow> No_match
     | c # cs \<Rightarrow> if is_ascii_alpha c \<or> c = CHR ''_''
         then Matched (Pair R_label (c # takeWhile ident_byte cs) []) (dropWhile ident_byte cs)
         else No_match)"

definition match_insensitive :: "str \<Rightarrow> str \<Rightarrow> str option" where
  "match_insensitive lit s =
     (if length lit \<le> length s \<and> eq_ignore_ascii_case (take (length lit) s) lit
      then Some (drop (length lit) s) else None)"

definition rule_bool_lit :: "str \<Rightarrow> pair peg" where
  "rule_bool_lit s =
     (case (case match_insensitive ''true'' s of Some r \<Rightarrow> Some r
            | None \<Rightarrow> match_insensitive ''false'' s) of
        None \<Rightarrow> No_match
      | Some r \<Rightarrow> if r \<noteq> [] \<and> ident_byte (hd r) then No_match
                  else Matched (Pair R_bool_lit (span s r) []) r)"

text \<open>\<open>sep_rest sep item\<close> is the repetition \<open>(sep ~ item)*\<close> of a normal rule.\<close>

primrec sep_rest :: "str \<Rightarrow> (str \<Rightarrow> pair peg) \<Rightarrow> nat \<Rightarrow> str \<Rightarrow> pair list peg" where
  "sep_rest sep item 0 r = Out_of_fuel"
| "sep_rest sep item (Suc n) r =
     peg_or (peg_then (peg_lit sep (skip r)) (\<lambda>_ s.
               peg_then (item (skip s)) (\<lambda>p r'.
               peg_then (sep_rest sep item n r') (\<lambda>ps r''. Matched (p # ps) r''))))
            (Matched [] r)"

definition rule_neg :: "(str \<Rightarrow> pair peg) \<Rightarrow> str \<Rightarrow> pair peg" where
  "rule_neg not_expr s =
     peg_then (peg_lit ''!'' s) (\<lambda>_ s'.
     peg_then (not_expr (skip s')) (\<lambda>p r. Matched (Pair R_neg (span s r) [p]) r))"

definition rule_primary :: "(str \<Rightarrow> pair peg) \<Rightarrow> str \<Rightarrow> pair peg" where
  "rule_primary expr s =
     peg_then
       (peg_or (peg_then (peg_lit ''('' s) (\<lambda>_ s'.
                peg_then (expr (skip s')) (\<lambda>p r.
                peg_then (peg_lit '')'' (skip r)) (\<lambda>_ r'. Matched p r'))))
         (peg_or (rule_bool_lit s) (rule_label s)))
       (\<lambda>p r. Matched (Pair R_primary (span s r) [p]) r)"

primrec rule_not_expr :: "(str \<Rightarrow> pair peg) \<Rightarrow> nat \<Rightarrow> str \<Rightarrow> pair peg" where
  "rule_not_expr expr 0 s = Out_of_fuel"
| "rule_not_expr expr (Suc n) s =
     peg_then (peg_or (rule_neg (rule_not_expr expr n) s) (rule_primary expr s))
       (\<lambda>p r. Matched (Pair R_not_expr (span s r) [p]) r)"

definition rule_and_expr :: "(str \<Rightarrow> pair peg) \<Rightarrow> nat \<Rightarrow> str \<Rightarrow> pair peg" where
  "rule_and_expr expr n s =
     peg_then (rule_not_expr expr n s) (\<lambda>p r.
     peg_then (sep_rest ''&'' (rule_not_expr expr n) n (skip r)) (\<lambda>ps r'.
     Matched (Pair R_and_expr (span s r') (p # ps)) r'))"

definition rule_or_expr :: "(str \<Rightarrow> pair peg) \<Rightarrow> nat \<Rightarrow> str \<Rightarrow> pair peg" where
  "rule_or_expr expr n s =
     peg_then (rule_and_expr expr n s) (\<lambda>p r.
     peg_then (sep_rest ''|'' (rule_and_expr expr n) n (skip r)) (\<lambda>ps r'.
     Matched (Pair R_or_expr (span s r') (p # ps)) r'))"

primrec rule_expr :: "nat \<Rightarrow> str \<Rightarrow> pair peg" where
  "rule_expr 0 s = Out_of_fuel"
| "rule_expr (Suc n) s =
     peg_then (rule_or_expr (rule_expr n) n s) (\<lambda>p r. Matched (Pair R_expr (span s r) [p]) r)"

definition rule_input :: "str \<Rightarrow> pair peg" where
  "rule_input s =
     peg_then (rule_expr (length s + 2) (skip s)) (\<lambda>p r.
     if skip r = [] then Matched (Pair R_input s [p, Pair R_EOI [] []]) [] else No_match)"

section \<open>From parse trees to expressions\<close>

datatype parse_error =
    Invalid_label_expression \<comment> \<open>pest's error\<close>
  | Unexpected_rule rule
  | Unwrap_None \<comment> \<open>a panicking \<open>unwrap\<close> or \<open>expect\<close>\<close>
  | Fuel_exhausted

fun build_expr :: "pair \<Rightarrow> (parse_error, expr) result"
  and build_or :: "expr \<Rightarrow> pair list \<Rightarrow> (parse_error, expr) result"
  and build_and :: "expr \<Rightarrow> pair list \<Rightarrow> (parse_error, expr) result"
where
  "build_expr (Pair r s inner) = (case r of
       R_expr \<Rightarrow> (case inner of [] \<Rightarrow> Inl Unwrap_None | p # _ \<Rightarrow> build_expr p)
     | R_or_expr \<Rightarrow> (case inner of [] \<Rightarrow> Inl Unwrap_None
         | p # ps \<Rightarrow> (case build_expr p of Inl e \<Rightarrow> Inl e | Inr left \<Rightarrow> build_or left ps))
     | R_and_expr \<Rightarrow> (case inner of [] \<Rightarrow> Inl Unwrap_None
         | p # ps \<Rightarrow> (case build_expr p of Inl e \<Rightarrow> Inl e | Inr left \<Rightarrow> build_and left ps))
     | R_not_expr \<Rightarrow> (case inner of [] \<Rightarrow> Inl Unwrap_None | p # _ \<Rightarrow> build_expr p)
     | R_neg \<Rightarrow> (case inner of [] \<Rightarrow> Inl Unwrap_None
         | p # _ \<Rightarrow> (case build_expr p of Inl e \<Rightarrow> Inl e | Inr x \<Rightarrow> Inr (ENot x)))
     | R_primary \<Rightarrow> (case inner of [] \<Rightarrow> Inl Unwrap_None | p # _ \<Rightarrow> build_expr p)
     | R_bool_lit \<Rightarrow> Inr (EConst (eq_ignore_ascii_case s ''true''))
     | R_label \<Rightarrow> Inr (ETerminal (to_ascii_lowercase s))
     | _ \<Rightarrow> Inl (Unexpected_rule r))"
| "build_or left [] = Inr left"
| "build_or left (p # ps) =
     (case build_expr p of Inl e \<Rightarrow> Inl e | Inr right \<Rightarrow> build_or (EOr left right) ps)"
| "build_and left [] = Inr left"
| "build_and left (p # ps) =
     (case build_expr p of Inl e \<Rightarrow> Inl e | Inr right \<Rightarrow> build_and (EAnd left right) ps)"

fun pair_rule :: "pair \<Rightarrow> rule" where
  "pair_rule (Pair r _ _) = r"

fun pair_inner :: "pair \<Rightarrow> pair list" where
  "pair_inner (Pair _ _ inner) = inner"

definition parse_raw_label_expr :: "str \<Rightarrow> (parse_error, expr) result" where
  "parse_raw_label_expr input = (case rule_input input of
       No_match \<Rightarrow> Inl Invalid_label_expression
     | Out_of_fuel \<Rightarrow> Inl Fuel_exhausted
     | Matched input_pair _ \<Rightarrow>
         (case find (\<lambda>p. pair_rule p = R_expr) (pair_inner input_pair) of
            None \<Rightarrow> Inl Unwrap_None
          | Some expr_pair \<Rightarrow> build_expr expr_pair))"

section \<open>Evaluating the parser on closed texts\<close>

text \<open>The congruences keep the simplifier out of continuations and untaken alternatives.\<close>

lemma peg_then_weak_cong: "x = y \<Longrightarrow> peg_then x f = peg_then y f"
  and peg_or_weak_cong: "x = y \<Longrightarrow> peg_or x b = peg_or y b" by simp_all

lemmas peg_weak_congs = peg_then_weak_cong peg_or_weak_cong

lemmas parser_eval = parse_raw_label_expr_def rule_input_def rule_or_expr_def rule_and_expr_def
  rule_neg_def rule_primary_def rule_bool_lit_def rule_label_def match_insensitive_def ident_byte_def
  skip_def is_whitespace_def span_def peg_lit_def rust_def char_of_eq_iff take_bit_eq_mod

section \<open>Totality: enough fuel, and only well-formed trees\<close>

text \<open>
  A sub-parser is good up to length \<open>L\<close> when it never runs out of fuel there, consumes input
  on success, and its trees build an expression whose terminals are valid lowercase label names.
\<close>

definition label_name_ok :: "str \<Rightarrow> bool" where
  "label_name_ok t \<longleftrightarrow> validate_label_name t = Inr () \<and> contains_no_ascii_uppercase t"

definition names_ok :: "expr \<Rightarrow> bool" where
  "names_ok e \<longleftrightarrow> list_all label_name_ok (collect_terminals e)"

definition tree_ok :: "pair \<Rightarrow> bool" where
  "tree_ok t \<longleftrightarrow> (case build_expr t of Inl _ \<Rightarrow> False | Inr e \<Rightarrow> names_ok e)"

definition peg_good :: "str \<Rightarrow> pair peg \<Rightarrow> bool" where
  "peg_good s res \<longleftrightarrow> (case res of Out_of_fuel \<Rightarrow> False | No_match \<Rightarrow> True
     | Matched t r \<Rightarrow> length r < length s \<and> tree_ok t)"

definition parser_good :: "nat \<Rightarrow> (str \<Rightarrow> pair peg) \<Rightarrow> bool" where
  "parser_good L P \<longleftrightarrow> (\<forall>s. length s \<le> L \<longrightarrow> peg_good s (P s))"

lemma length_skip: "length (skip s) \<le> length s"
  by (simp add: skip_def length_dropWhile_le)

lemma peg_lit_Matched: "peg_lit lit s = Matched u r \<longleftrightarrow> s = lit @ r"
  by (auto simp: peg_lit_def strip_prefix_Some split: option.splits) 

lemma peg_lit_not_Out [simp]: "peg_lit lit s \<noteq> Out_of_fuel"
  by (simp add: peg_lit_def split: option.splits)

lemma peg_good_simps [simp]:
  "\<not> peg_good s Out_of_fuel" "peg_good s No_match"
  "peg_good s (Matched t r) \<longleftrightarrow> length r < length s \<and> tree_ok t"
  by (simp_all add: peg_good_def)

lemma tree_ok_wrap [simp]:
  "r \<in> {R_expr, R_not_expr, R_primary} \<Longrightarrow> tree_ok (Pair r s (p # ps)) \<longleftrightarrow> tree_ok p"
  by (auto simp: tree_ok_def)

lemma tree_ok_neg [simp]: "tree_ok (Pair R_neg s [p]) \<longleftrightarrow> tree_ok p"
  by (auto simp: tree_ok_def names_ok_def split: sum.splits)

lemma build_or_ok: "names_ok l \<Longrightarrow> list_all tree_ok ps \<Longrightarrow> \<exists>e. build_or l ps = Inr e \<and> names_ok e"
  by (induction ps arbitrary: l)
     (auto simp: tree_ok_def names_ok_def split: sum.splits)

lemma build_and_ok: "names_ok l \<Longrightarrow> list_all tree_ok ps \<Longrightarrow> \<exists>e. build_and l ps = Inr e \<and> names_ok e"
  by (induction ps arbitrary: l)
     (auto simp: tree_ok_def names_ok_def split: sum.splits)

lemma tree_ok_chain:
  assumes "r = R_or_expr \<or> r = R_and_expr" "tree_ok p" "list_all tree_ok ps"
  shows "tree_ok (Pair r s (p # ps))"
proof -
  from assms(2) obtain l where "build_expr p = Inr l" "names_ok l"
    by (auto simp: tree_ok_def split: sum.splits)
  with build_or_ok [of l ps] build_and_ok [of l ps] assms(1,3) show ?thesis
    by (auto simp: tree_ok_def)
qed

lemma match_insensitive_Some:
  "match_insensitive lit s = Some r \<longleftrightarrow> (\<exists>p. s = p @ r \<and> to_ascii_lowercase p = to_ascii_lowercase lit)"
proof
  assume "match_insensitive lit s = Some r"
  then show "\<exists>p. s = p @ r \<and> to_ascii_lowercase p = to_ascii_lowercase lit"
    by (intro exI [of _ "take (length lit) s"])
       (auto simp: match_insensitive_def eq_ignore_ascii_case_def split: if_splits)
next
  assume "\<exists>p. s = p @ r \<and> to_ascii_lowercase p = to_ascii_lowercase lit"
  then obtain p where p: "s = p @ r" "to_ascii_lowercase p = to_ascii_lowercase lit" by auto
  then have "length p = length lit" by (metis length_to_ascii_lowercase)
  with p show "match_insensitive lit s = Some r"
    by (auto simp: match_insensitive_def eq_ignore_ascii_case_def)
qed

lemma rule_bool_lit_good: "peg_good s (rule_bool_lit s)"
proof -
  have "match_insensitive lit s = Some r \<Longrightarrow> lit \<noteq> [] \<Longrightarrow> length r < length s" for lit r
    by (auto simp: match_insensitive_Some) (metis length_to_ascii_lowercase list.size(3) length_0_conv)
  then show ?thesis
    by (auto simp: rule_bool_lit_def tree_ok_def names_ok_def split: option.splits)
qed

lemma ident_byte_label_byte: "ident_byte c \<longleftrightarrow> label_byte c"
  by (simp add: ident_byte_def label_byte_iff)

lemma rule_bool_lit_none_label:
  assumes "rule_bool_lit (p @ r) = No_match" "r = [] \<or> \<not> ident_byte (hd r)"
  shows "to_ascii_lowercase p \<noteq> ''true''" "to_ascii_lowercase p \<noteq> ''false''"
proof -
  have low: "to_ascii_lowercase ''true'' = ''true''" "to_ascii_lowercase ''false'' = ''false''"
    by (simp_all add: rust_def)
  have ne: "''true'' = to_ascii_lowercase p \<Longrightarrow> match_insensitive ''true'' (p @ r) = Some r"
    "''false'' = to_ascii_lowercase p \<Longrightarrow> match_insensitive ''false'' (p @ r) = Some r"
    by (auto simp: match_insensitive_Some low)
  { fix r' assume "to_ascii_lowercase p = ''false''" "match_insensitive ''true'' (p @ r) = Some r'"
    then obtain q where "p @ r = q @ r'" "to_ascii_lowercase q = ''true''"
      by (auto simp: match_insensitive_Some low)
    then have "take 4 (to_ascii_lowercase (p @ r)) = ''true''"
      by (auto simp: to_ascii_lowercase_def)
    then have "take 4 (''false'' @ map lower_byte r) = ''true''"
      using \<open>to_ascii_lowercase p = ''false''\<close> by (simp add: to_ascii_lowercase_def)
    then have False by simp }
  note nt = this
  show "to_ascii_lowercase p \<noteq> ''true''"
    using assms ne(1) by (auto simp: rule_bool_lit_def split: if_splits)
  show "to_ascii_lowercase p \<noteq> ''false''"
    using assms ne(2) nt by (auto simp: rule_bool_lit_def split: if_splits option.splits)
qed

lemma rule_label_good:
  assumes "rule_bool_lit s = No_match"
  shows "peg_good s (rule_label s)"
proof (cases s)
  case Nil
  then show ?thesis by (simp add: rule_label_def)
next
  case (Cons c cs)
  let ?p = "c # takeWhile ident_byte cs" and ?r = "dropWhile ident_byte cs"
  have s: "s = ?p @ ?r" using Cons by simp
  show ?thesis
  proof (cases "is_ascii_alpha c \<or> c = CHR ''_''")
    case True
    have stop: "?r = [] \<or> \<not> ident_byte (hd ?r)" by (metis hd_dropWhile)
    have first: "label_first_byte c" using True by (simp add: label_first_byte_iff)
    have all: "\<forall>b \<in> set ?p. label_byte b"
      using first by (auto simp: label_first_byte_imp ident_byte_label_byte dest: set_takeWhileD)
    have "rule_bool_lit (?p @ ?r) = No_match" using assms s by (simp only:)
    note nt = rule_bool_lit_none_label [OF this stop]
    have "label_name_ok (to_ascii_lowercase ?p)"
      unfolding label_name_ok_def validate_label_name_ok
      using nt all first
      by (auto simp: to_ascii_lowercase_canonical lower_byte_label_byte lower_byte_label_first)
         (auto simp: to_ascii_lowercase_def lower_byte_label_byte lower_byte_label_first)
    then show ?thesis using True Cons
      by (auto simp: rule_label_def tree_ok_def names_ok_def intro: le_imp_less_Suc length_dropWhile_le)
  qed (simp add: rule_label_def Cons)
qed


lemma rule_primary_good:
  assumes "parser_good L E" "length s \<le> Suc L"
  shows "peg_good s (rule_primary E s)"
proof -
  let ?paren = "peg_then (peg_lit ''('' s) (\<lambda>_ s'. peg_then (E (skip s')) (\<lambda>p r.
                peg_then (peg_lit '')'' (skip r)) (\<lambda>_ r'. Matched p r')))"
  have paren: "peg_good s ?paren"
  proof (cases "peg_lit ''('' s")
    case (Matched u s')
    then have s: "s = ''('' @ s'" by (simp add: peg_lit_Matched)
    have len: "length (skip s') \<le> length s'" by (rule length_skip)
    then have E: "peg_good (skip s') (E (skip s'))"
      using assms s by (simp add: parser_good_def)
    show ?thesis
    proof (cases "E (skip s')")
      case m: (Matched p r)
      have "peg_lit '')'' (skip r) = Matched v r' \<Longrightarrow> length r' < length s" for v r'
        using m E s len length_skip [of r] by (auto simp: peg_lit_Matched)
      then show ?thesis using Matched m E by (cases "peg_lit '')'' (skip r)") auto
    qed (use Matched E in auto)
  qed auto
  have "peg_good s (peg_or ?paren (peg_or (rule_bool_lit s) (rule_label s)))"
    using paren rule_bool_lit_good [of s] rule_label_good [of s]
    by (cases ?paren; cases "rule_bool_lit s") auto
  then show ?thesis unfolding rule_primary_def
    by (cases "peg_or ?paren (peg_or (rule_bool_lit s) (rule_label s))") auto
qed

lemma rule_not_expr_good:
  assumes "parser_good L E"
  shows "length s \<le> Suc L \<Longrightarrow> length s < n \<Longrightarrow> peg_good s (rule_not_expr E n s)"
proof (induction n arbitrary: s)
  case (Suc n)
  have neg: "peg_good s (rule_neg (rule_not_expr E n) s)"
  proof (cases "peg_lit ''!'' s")
    case (Matched u s')
    then have s: "s = ''!'' @ s'" by (simp add: peg_lit_Matched)
    have len: "length (skip s') \<le> length s'" by (rule length_skip)
    then have "peg_good (skip s') (rule_not_expr E n (skip s'))"
      using Suc s by auto
    then show ?thesis using Matched s len
      by (cases "rule_not_expr E n (skip s')") (auto simp: rule_neg_def)
  qed (auto simp: rule_neg_def)
  have "peg_good s (rule_primary E s)" by (rule rule_primary_good [OF assms Suc.prems(1)])
  then show ?case using neg
    by (cases "rule_neg (rule_not_expr E n) s"; cases "rule_primary E s") auto
qed simp

lemma sep_rest_good:
  assumes "parser_good L item" "sep \<noteq> []"
  shows "length r \<le> L \<Longrightarrow> length r < n \<Longrightarrow>
     \<exists>ps r'. sep_rest sep item n r = Matched ps r' \<and> length r' \<le> length r \<and> list_all tree_ok ps"
proof (induction n arbitrary: r)
  case (Suc n)
  show ?case
  proof (cases "peg_lit sep (skip r)")
    case (Matched u s)
    have s: "length s < length r"
      using Matched assms(2) length_skip [of r] by (cases sep) (auto simp: peg_lit_Matched)
    have len: "length (skip s) \<le> length s" by (rule length_skip)
    then have good: "peg_good (skip s) (item (skip s))"
      using assms(1) s Suc.prems by (simp add: parser_good_def)
    show ?thesis
    proof (cases "item (skip s)")
      case m: (Matched p r')
      then have "length r' < length r" using good len s by simp
      then obtain ps r'' where "sep_rest sep item n r' = Matched ps r''" "length r'' \<le> length r'"
          "list_all tree_ok ps"
        using Suc.IH [of r'] Suc.prems by auto
      then show ?thesis using Matched m good \<open>length r' < length r\<close> by auto
    qed (use Matched good in auto)
  qed auto
qed simp

lemma chain_good:
  assumes item: "parser_good L item" "sep \<noteq> []" "L < n" and s: "length s \<le> L"
    and r: "rl = R_or_expr \<or> rl = R_and_expr"
  shows "peg_good s (peg_then (item s) (\<lambda>p r. peg_then (sep_rest sep item n (skip r)) (\<lambda>ps r'.
           Matched (Pair rl (span s r') (p # ps)) r')))"
proof -
  have good: "peg_good s (item s)" using item(1) s by (simp add: parser_good_def)
  show ?thesis
  proof (cases "item s")
    case (Matched p q)
    then have q: "length (skip q) < length s" using good length_skip [of q] by simp
    then obtain ps r' where "sep_rest sep item n (skip q) = Matched ps r'"
        "length r' \<le> length (skip q)" "list_all tree_ok ps"
      using sep_rest_good [OF item(1,2), of "skip q" n] item(3) s by auto
    then show ?thesis using Matched good q r by (auto simp: tree_ok_chain)
  qed (use good in auto)
qed

lemma rule_and_expr_good:
  assumes "parser_good L E" "Suc L < n"
  shows "parser_good (Suc L) (rule_and_expr E n)"
proof -
  have not: "parser_good (Suc L) (rule_not_expr E n)"
    using rule_not_expr_good [OF assms(1)] assms(2) by (auto simp: parser_good_def)
  show ?thesis
    using chain_good [OF not, of "''&''" n _ R_and_expr] assms(2)
    by (auto simp: parser_good_def rule_and_expr_def)
qed

lemma rule_or_expr_good:
  assumes "parser_good L E" "Suc L < n"
  shows "parser_good (Suc L) (rule_or_expr E n)"
  using chain_good [OF rule_and_expr_good [OF assms], of "''|''" n _ R_or_expr] assms(2)
  by (auto simp: parser_good_def rule_or_expr_def)

lemma rule_expr_good: "L + 1 < n \<Longrightarrow> parser_good L (rule_expr n)"
proof (induction n arbitrary: L)
  case (Suc n)
  have "parser_good L (rule_or_expr (rule_expr n) n)"
  proof (cases L)
    case 0
    then have "rule_or_expr (rule_expr n) n [] = No_match"
      using Suc.prems by (cases n) (simp_all add: rule_or_expr_def rule_and_expr_def rule_neg_def
          rule_primary_def peg_lit_def strip_prefix_def starts_with_def rule_bool_lit_def
          match_insensitive_def rule_label_def)
    with 0 show ?thesis by (simp add: parser_good_def)
  next
    case (Suc L')
    then show ?thesis using rule_or_expr_good [OF Suc.IH [of L']] Suc.prems by auto
  qed
  then have "peg_good s (rule_or_expr (rule_expr n) n s)" if "length s \<le> L" for s
    using that by (simp add: parser_good_def)
  then have "peg_good s (rule_expr (Suc n) s)" if "length s \<le> L" for s
    using that by (cases "rule_or_expr (rule_expr n) n s") fastforce+
  then show ?case by (simp add: parser_good_def)
qed simp


lemma rule_expr_Matched: "rule_expr n s = Matched p r \<Longrightarrow> pair_rule p = R_expr"
proof (cases n)
  case (Suc m)
  then show "rule_expr n s = Matched p r \<Longrightarrow> ?thesis"
    by (cases "rule_or_expr (rule_expr m) m s") auto
qed simp

lemma rule_input_total: "rule_input s \<noteq> Out_of_fuel"
proof -
  have "peg_good (skip s) (rule_expr (length s + 2) (skip s))"
    using rule_expr_good [of "length s" "length s + 2"] length_skip [of s]
    by (simp add: parser_good_def)
  then show ?thesis
    by (cases "rule_expr (length s + 2) (skip s)") (auto simp: rule_input_def)
qed

lemma parse_raw_cases:
  "parse_raw_label_expr s = Inl Invalid_label_expression
   \<or> (\<exists>e. parse_raw_label_expr s = Inr e \<and> names_ok e)"
proof -
  have good: "peg_good (skip s) (rule_expr (length s + 2) (skip s))"
    using rule_expr_good [of "length s" "length s + 2"] length_skip [of s]
    by (simp add: parser_good_def)
  show ?thesis
  proof (cases "rule_expr (length s + 2) (skip s)")
    case (Matched p r)
    then have "pair_rule p = R_expr" by (rule rule_expr_Matched)
    then show ?thesis using Matched good
      by (auto simp: parse_raw_label_expr_def rule_input_def tree_ok_def
          split: sum.splits simp del: build_expr.simps)
  qed (use good in \<open>auto simp: parse_raw_label_expr_def rule_input_def\<close>)
qed

lemma parse_raw_names_ok: "parse_raw_label_expr s = Inr e \<Longrightarrow> names_ok e"
  using parse_raw_cases [of s] by auto

lemma parse_raw_sentinels:
  "parse_raw_label_expr ''*'' = Inl Invalid_label_expression" "parse_raw_label_expr [] = Inl Invalid_label_expression"
  by (simp_all add: parser_eval cong: peg_weak_congs)

end
