(* ===== verification/Label_Roundtrip.thy ===== *)
theory Label_Roundtrip
  imports Label_Parser
begin

text \<open>
  The printer and the parser of label expressions are inverse up to the shape of chains: the
  text \<open>format_expr\<close> writes is read back as an expression with the same meaning and the
  same terminals.  \<open>reads\<close> states, for one grammar rule, that it reads a printed text
  exactly, whatever admissible text follows; the chain lemmas lift it over the
  \<open>&\<close> and \<open>|\<close> levels.
\<close>

definition equiv_expr :: "expr \<Rightarrow> expr \<Rightarrow> bool" where
  "equiv_expr e' e \<longleftrightarrow> (\<forall>f. sem e' f = sem e f) \<and> collect_terminals e' = collect_terminals e"

definition built :: "pair \<Rightarrow> expr \<Rightarrow> bool" where
  "built t e \<longleftrightarrow> (case build_expr t of Inl _ \<Rightarrow> False | Inr e' \<Rightarrow> equiv_expr e' e)"

definition stop :: "str \<Rightarrow> bool" where
  "stop rest \<longleftrightarrow> rest = [] \<or> \<not> ident_byte (hd rest)"

text \<open>\<open>reads P ok s e\<close>: before any continuation in \<open>ok\<close>, \<open>P\<close> reads exactly \<open>s\<close> as \<open>e\<close>.\<close>

definition reads :: "(str \<Rightarrow> pair peg) \<Rightarrow> (str \<Rightarrow> bool) \<Rightarrow> str \<Rightarrow> expr \<Rightarrow> bool" where
  "reads P ok s e \<longleftrightarrow> (\<forall>rest. ok rest \<longrightarrow>
     (\<exists>t r. P (s @ rest) = Matched t r \<and> skip r = skip rest \<and> built t e))"

definition no_sep :: "str \<Rightarrow> str \<Rightarrow> bool" where
  "no_sep sep rest \<longleftrightarrow> \<not> starts_with (skip rest) sep"

fun conj_list :: "expr \<Rightarrow> expr list" where
  "conj_list (EAnd a b) = conj_list a @ conj_list b"
| "conj_list e = [e]"

fun disj_list :: "expr \<Rightarrow> expr list" where
  "disj_list (EOr a b) = disj_list a @ disj_list b"
| "disj_list e = [e]"

lemma skip_skip [simp]: "skip (skip s) = skip s"
  unfolding skip_def by (induction s) auto

lemma skip_space [simp]: "skip (CHR '' '' # s) = skip s"
  by (simp add: skip_def is_whitespace_def)

lemma skip_nonspace: "\<not> is_whitespace c \<Longrightarrow> skip (c # s) = c # s"
  by (simp add: skip_def)

lemma conj_list_ne [simp]: "conj_list e \<noteq> []" and disj_list_ne [simp]: "disj_list e \<noteq> []"
  by (induction e) auto

lemma fmt_conj: "fmt_expr e 1 = join '' & '' (map (\<lambda>x. fmt_expr x 2) (conj_list e))"
  by (induction e) (auto simp: join_append fmt_parens_def expr_prec_def)

lemma fmt_disj: "fmt_expr e 0 = join '' | '' (map (\<lambda>x. fmt_expr x 1) (disj_list e))"
  by (induction e) (auto simp: join_append fmt_parens_def expr_prec_def)

lemma sem_conj_list: "sem e f \<longleftrightarrow> (\<forall>x \<in> set (conj_list e). sem x f)"
  by (induction e) auto

lemma sem_disj_list: "sem e f \<longleftrightarrow> (\<exists>x \<in> set (disj_list e). sem x f)"
  by (induction e) auto

lemma terminals_conj_list: "collect_terminals e = concat (map collect_terminals (conj_list e))"
  by (induction e) auto

lemma terminals_disj_list: "collect_terminals e = concat (map collect_terminals (disj_list e))"
  by (induction e) auto

lemma size_conj_list: "x \<in> set (conj_list e) \<Longrightarrow> size x \<le> size e"
  by (induction e) auto

lemma size_disj_list: "x \<in> set (disj_list e) \<Longrightarrow> size x \<le> size e"
  by (induction e) auto

text \<open>A printed expression starts with a byte that is neither whitespace nor an operator.\<close>

lemma label_byte_not_ws: "label_byte c \<Longrightarrow> \<not> is_whitespace c"
  by (auto simp: label_byte_def is_whitespace_def char_le_of_char)

lemma fmt_first:
  assumes "names_ok e"
  shows "\<exists>c s. fmt_expr e p = c # s \<and> \<not> is_whitespace c"
  using assms
proof (induction e arbitrary: p)
  case (ETerminal t)
  then obtain c s where "t = c # s" "label_byte c"
    by (cases t) (auto simp: names_ok_def label_name_ok_def validate_label_name_ok)
  then have "\<not> is_whitespace c" "t = c # s" by (simp_all add: label_byte_not_ws)
  moreover have "\<not> is_whitespace CHR ''(''" by (simp add: is_whitespace_def)
  ultimately show ?case by (simp add: fmt_parens_def)
next
  case (EAnd a b)
  then obtain c s where "fmt_expr a 1 = c # s \<and> \<not> is_whitespace c" by (auto simp: names_ok_def) blast
  then show ?case by (auto simp: fmt_parens_def is_whitespace_def)
next
  case (EOr a b)
  then obtain c s where "fmt_expr a 0 = c # s \<and> \<not> is_whitespace c" by (auto simp: names_ok_def) blast
  then show ?case by (auto simp: fmt_parens_def is_whitespace_def)
qed (auto simp: fmt_parens_def is_whitespace_def)

lemma skip_fmt: "names_ok e \<Longrightarrow> skip (fmt_expr e p @ s) = fmt_expr e p @ s"
  using fmt_first [of e p] by (auto simp: skip_nonspace)

section \<open>Chains\<close>

definition tail_text :: "str \<Rightarrow> str list \<Rightarrow> str" where
  "tail_text sep ss = concat (map (\<lambda>s. '' '' @ sep @ '' '' @ s) ss)"

lemma join_tail: "join ('' '' @ sep @ '' '') (s # ss) = s @ tail_text sep ss"
  by (induction ss arbitrary: s) (auto simp: tail_text_def)

lemma tail_text_Cons: "tail_text sep (s # ss) = '' '' @ sep @ '' '' @ s @ tail_text sep ss"
  by (simp add: tail_text_def)

lemma sep_rest_reads:
  assumes items: "\<And>x. x \<in> set xs \<Longrightarrow> reads item ok (pr x) (den x)"
    and nws: "\<And>x s. x \<in> set xs \<Longrightarrow> skip (pr x @ s) = pr x @ s"
    and sep: "sep = ''&'' \<or> sep = ''|''"
    and ok: "ok rest" "no_sep sep rest" and oks: "\<And>s. ok ('' '' @ sep @ '' '' @ s)"
  shows "length xs < n \<Longrightarrow> skip r = skip (tail_text sep (map pr xs) @ rest) \<Longrightarrow>
    \<exists>ts r'. sep_rest sep item n r = Matched ts r' \<and> skip r' = skip rest \<and> list_all2 built ts (map den xs)"
  using items nws
proof (induction xs arbitrary: n r)
  case Nil
  then obtain m where "n = Suc m" by (cases n) auto
  with Nil ok(2) show ?case
    by (auto simp: tail_text_def no_sep_def peg_lit_def strip_prefix_def)
next
  case (Cons x xs)
  then obtain m where n: "n = Suc m" by (cases n) auto
  let ?tail = "tail_text sep (map pr xs) @ rest"
  have "skip (sep @ s) = sep @ s" for s using sep by (auto simp: skip_def is_whitespace_def)
  then have lit: "peg_lit sep (skip r) = Matched () ('' '' @ pr x @ ?tail)"
    using Cons.prems(2) by (simp add: tail_text_Cons peg_lit_def)
  have "ok ?tail" using ok(1) oks by (cases xs) (auto simp: tail_text_def)
  then obtain t r1 where t: "item (pr x @ ?tail) = Matched t r1" "skip r1 = skip ?tail" "built t (den x)"
    using Cons.prems(3) [of x] by (auto simp: reads_def)
  obtain ts r' where "sep_rest sep item m r1 = Matched ts r'" "skip r' = skip rest"
      "list_all2 built ts (map den xs)"
    using Cons.IH [of m r1] Cons.prems t(2) n by auto
  moreover have "skip ('' '' @ pr x @ ?tail) = pr x @ ?tail"
    using Cons.prems(4) [of x ?tail] by simp
  ultimately show ?case using n lit t by auto
qed

lemma build_and_sem:
  "list_all2 built ts xs \<Longrightarrow> \<exists>e. build_and l ts = Inr e \<and>
     (\<forall>f. sem e f = (sem l f \<and> (\<forall>x \<in> set xs. sem x f))) \<and>
     collect_terminals e = collect_terminals l @ concat (map collect_terminals xs)"
proof (induction ts xs arbitrary: l rule: list_all2_induct)
  case (Cons t ts x xs)
  then obtain e where e: "build_expr t = Inr e" "equiv_expr e x"
    by (auto simp: built_def split: sum.splits)
  from Cons.IH [of "EAnd l e"] e show ?case by (auto simp: equiv_expr_def)
qed simp

lemma build_or_sem:
  "list_all2 built ts xs \<Longrightarrow> \<exists>e. build_or l ts = Inr e \<and>
     (\<forall>f. sem e f = (sem l f \<or> (\<exists>x \<in> set xs. sem x f))) \<and>
     collect_terminals e = collect_terminals l @ concat (map collect_terminals xs)"
proof (induction ts xs arbitrary: l rule: list_all2_induct)
  case (Cons t ts x xs)
  then obtain e where e: "build_expr t = Inr e" "equiv_expr e x"
    by (auto simp: built_def split: sum.splits)
  from Cons.IH [of "EOr l e"] e show ?case by (auto simp: equiv_expr_def)
qed simp

lemma built_and_sem:
  assumes "built t y" "list_all2 built ts ys" "\<And>f. sem e f = (sem y f \<and> (\<forall>x \<in> set ys. sem x f))"
    and "collect_terminals e = collect_terminals y @ concat (map collect_terminals ys)"
  shows "built (Pair R_and_expr s (t # ts)) e"
proof -
  from assms(1) obtain l where l: "build_expr t = Inr l" "equiv_expr l y"
    by (auto simp: built_def split: sum.splits)
  obtain e' where "build_and l ts = Inr e'" "\<forall>f. sem e' f = (sem l f \<and> (\<forall>x \<in> set ys. sem x f))"
      "collect_terminals e' = collect_terminals l @ concat (map collect_terminals ys)"
    using build_and_sem [OF assms(2), of l] by auto
  with l show ?thesis using assms(3,4) by (auto simp: built_def equiv_expr_def)
qed

lemma built_or_sem:
  assumes "built t y" "list_all2 built ts ys" "\<And>f. sem e f = (sem y f \<or> (\<exists>x \<in> set ys. sem x f))"
    and "collect_terminals e = collect_terminals y @ concat (map collect_terminals ys)"
  shows "built (Pair R_or_expr s (t # ts)) e"
proof -
  from assms(1) obtain l where l: "build_expr t = Inr l" "equiv_expr l y"
    by (auto simp: built_def split: sum.splits)
  obtain e' where "build_or l ts = Inr e'" "\<forall>f. sem e' f = (sem l f \<or> (\<exists>x \<in> set ys. sem x f))"
      "collect_terminals e' = collect_terminals l @ concat (map collect_terminals ys)"
    using build_or_sem [OF assms(2), of l] by auto
  with l show ?thesis using assms(3,4) by (auto simp: built_def equiv_expr_def)
qed

lemma built_and:
  assumes "built t y" "list_all2 built ts ys" "conj_list e = y # ys"
  shows "built (Pair R_and_expr s (t # ts)) e"
  by (rule built_and_sem [OF assms(1,2)]) (use sem_conj_list [of e] terminals_conj_list [of e] assms(3) in auto)

lemma built_or:
  assumes "built t y" "list_all2 built ts ys" "disj_list e = y # ys"
  shows "built (Pair R_or_expr s (t # ts)) e"
  by (rule built_or_sem [OF assms(1,2)]) (use sem_disj_list [of e] terminals_disj_list [of e] assms(3) in auto)

lemma chain_reads:
  assumes items: "\<And>x. x \<in> set (y # ys) \<Longrightarrow> reads item ok (pr x) (den x)"
    and nws: "\<And>x s. x \<in> set (y # ys) \<Longrightarrow> skip (pr x @ s) = pr x @ s"
    and sep: "sep = ''&'' \<or> sep = ''|''" and oks: "\<And>s. ok ('' '' @ sep @ '' '' @ s)"
    and n: "length ys < n"
    and bld: "\<And>t ts s. built t (den y) \<Longrightarrow> list_all2 built ts (map den ys) \<Longrightarrow> built (Pair rl s (t # ts)) e"
  shows "reads (\<lambda>s. peg_then (item s) (\<lambda>p r. peg_then (sep_rest sep item n (skip r)) (\<lambda>ps r'.
           Matched (Pair rl (span s r') (p # ps)) r')))
         (\<lambda>rest. ok rest \<and> no_sep sep rest) (join ('' '' @ sep @ '' '') (map pr (y # ys))) e"
  unfolding reads_def
proof (intro allI impI)
  fix rest assume rest: "ok rest \<and> no_sep sep rest"
  let ?tail = "tail_text sep (map pr ys) @ rest"
  let ?s = "join ('' '' @ sep @ '' '') (map pr (y # ys)) @ rest"
  have s: "?s = pr y @ ?tail" by (simp only: list.map join_tail append_assoc)
  have "ok ?tail" using rest oks by (cases ys) (auto simp: tail_text_def)
  then obtain t r where t: "item ?s = Matched t r" "skip r = skip ?tail" "built t (den y)"
    using items [of y] unfolding s by (auto simp: reads_def)
  obtain ts r' where "sep_rest sep item n (skip r) = Matched ts r'" "skip r' = skip rest"
      "list_all2 built ts (map den ys)"
    using sep_rest_reads [of ys item ok pr den sep rest n "skip r"] items nws sep rest oks n t(2)
    by auto
  with t bld show "\<exists>t r. peg_then (item ?s) (\<lambda>p r. peg_then (sep_rest sep item n (skip r)) (\<lambda>ps r'.
           Matched (Pair rl (span ?s r') (p # ps)) r')) = Matched t r \<and> skip r = skip rest \<and> built t e"
    by auto
qed


section \<open>Reading back a printed expression\<close>

lemma label_byte_lower_byte: "label_byte (lower_byte c) \<longleftrightarrow> label_byte c"
proof (cases "is_ascii_uppercase c")
  case True
  then have "label_byte c" by (simp add: label_byte_def is_ascii_uppercase_def)
  then show ?thesis by (simp add: lower_byte_label_byte)
qed (simp add: lower_byte_def)

lemma rule_label_reads:
  assumes "label_name_ok t" "stop rest"
  shows "rule_label (t @ rest) = Matched (Pair R_label t []) rest"
    and "rule_bool_lit (t @ rest) = No_match"
    and "to_ascii_lowercase t = t"
    and "strip_prefix (t @ rest) ''('' = None" and "strip_prefix (t @ rest) ''!'' = None"
proof -
  from assms(1) obtain c cs where t: "t = c # cs" "label_first_byte c" "\<forall>b \<in> set t. label_byte b"
      "t \<noteq> ''true''" "t \<noteq> ''false''" and low: "contains_no_ascii_uppercase t"
    by (cases t) (auto simp: label_name_ok_def validate_label_name_ok)
  show id: "to_ascii_lowercase t = t" using low by (rule to_ascii_lowercase_id)
  have all: "\<forall>b \<in> set cs. ident_byte b" using t by (auto simp: ident_byte_label_byte)
  have cut: "takeWhile ident_byte (cs @ rest) = cs" "dropWhile ident_byte (cs @ rest) = rest"
    using all assms(2) by (auto simp: stop_def takeWhile_append dropWhile_append) 
       (cases rest; auto)+
  then show "rule_label (t @ rest) = Matched (Pair R_label t []) rest"
    using t(1,2) by (simp add: rule_label_def label_first_byte_iff)
  show "strip_prefix (t @ rest) ''('' = None" "strip_prefix (t @ rest) ''!'' = None"
    using t(1,2) by (auto simp: strip_prefix_def starts_with_def label_first_byte_def char_le_of_char)
  have cont: "r \<noteq> [] \<and> ident_byte (hd r)"
    if m: "match_insensitive lit (t @ rest) = Some r" and lit: "to_ascii_lowercase lit = lit"
      "lit \<noteq> t" "list_all label_byte lit" for lit r
  proof -
    from m lit(1) obtain p where p: "t @ rest = p @ r" "to_ascii_lowercase p = lit"
      by (auto simp: match_insensitive_Some)
    then consider q where "t = p @ q" "r = q @ rest" | q where "p = t @ q" "rest = q @ r"
      by (auto simp: append_eq_append_conv2)
    then show ?thesis
    proof cases
      case 1
      then show ?thesis using p(2) id lit(2) t(3) by (cases q) (auto simp: ident_byte_label_byte)
    next
      case 2
      have "q = []"
      proof (rule ccontr)
        assume "q \<noteq> []"
        then obtain d q' where "q = d # q'" by (cases q) auto
        moreover from this have "label_byte (lower_byte d)"
          using 2 p(2) lit(3) by (auto simp: to_ascii_lowercase_def)
        ultimately show False
          using 2 assms(2) by (auto simp: stop_def ident_byte_label_byte label_byte_lower_byte)
      qed
      then show ?thesis using 2 p(2) id lit(2) by simp
    qed
  qed
  show "rule_bool_lit (t @ rest) = No_match"
    using cont [of "''true''"] cont [of "''false''"] t(4,5)
    by (auto simp: rule_bool_lit_def rust_def label_byte_def split: option.splits)
qed

lemma join_member_length: "s \<in> set ss \<Longrightarrow> length s \<le> length (join sep ss)"
  by (induction sep ss rule: join.induct) auto

lemma join_length: "(\<And>s. s \<in> set ss \<Longrightarrow> s \<noteq> []) \<Longrightarrow> length ss \<le> length (join sep ss)"
proof (induction sep ss rule: join.induct)
  case (2 sep x)
  then show ?case by (cases x) auto
next
  case (3 sep x y ys)
  have "x \<noteq> []" using 3 by simp
  then have "1 \<le> length x" by (cases x) auto
  then show ?case using 3 by auto
qed simp

lemma names_ok_conj: "names_ok e \<Longrightarrow> x \<in> set (conj_list e) \<Longrightarrow> names_ok x"
  by (auto simp: names_ok_def terminals_conj_list [of e] list_all_iff)

lemma names_ok_disj: "names_ok e \<Longrightarrow> x \<in> set (disj_list e) \<Longrightarrow> names_ok x"
  by (auto simp: names_ok_def terminals_disj_list [of e] list_all_iff)

lemma fmt_nonempty: "names_ok e \<Longrightarrow> fmt_expr e p \<noteq> []" "names_ok e \<Longrightarrow> [] \<noteq> fmt_expr e p"
  using fmt_first [of e p] by auto

lemma bool_lit_reads:
  assumes "stop rest"
  shows "rule_bool_lit ((if b then ''true'' else ''false'') @ rest)
    = Matched (Pair R_bool_lit (if b then ''true'' else ''false'') []) rest"
proof (cases b)
  case True
  have "match_insensitive ''true'' (''true'' @ rest) = Some rest"
    by (simp add: match_insensitive_Some)
  then show ?thesis using assms True
    by (cases rest) (auto simp: rule_bool_lit_def stop_def span_def)
next
  case False
  have "match_insensitive ''false'' (''false'' @ rest) = Some rest"
    by (simp add: match_insensitive_Some)
  moreover have "match_insensitive ''true'' (''false'' @ rest) = None"
    by (simp add: match_insensitive_def rust_def)
  ultimately show ?thesis using assms False
    by (cases rest) (auto simp: rule_bool_lit_def stop_def span_def)
qed

definition not_reads :: "expr \<Rightarrow> bool" where
  "not_reads e \<longleftrightarrow> (\<forall>n m. length (fmt_expr e 2) \<le> n \<longrightarrow> length (fmt_expr e 2) \<le> Suc m \<longrightarrow>
     reads (rule_not_expr (rule_expr m) n) stop (fmt_expr e 2) e)"

lemma and_reads:
  assumes ok: "names_ok d" and items: "\<And>x. x \<in> set (conj_list d) \<Longrightarrow> not_reads x"
    and len: "length (fmt_expr d 1) \<le> n" "length (fmt_expr d 1) \<le> Suc m"
  shows "reads (rule_and_expr (rule_expr m) n) (\<lambda>rest. stop rest \<and> no_sep ''&'' rest) (fmt_expr d 1) d"
proof -
  obtain y ys where ys: "conj_list d = y # ys" using conj_list_ne [of d] by (cases "conj_list d") auto
  have fmt: "fmt_expr d 1 = join ('' '' @ ''&'' @ '' '') (map (\<lambda>x. fmt_expr x 2) (y # ys))"
    using fmt_conj [of d] ys by simp
  have le: "length (fmt_expr x 2) \<le> length (fmt_expr d 1)" if "x \<in> set (y # ys)" for x
    unfolding fmt using that by (intro join_member_length) auto
  have "reads (rule_not_expr (rule_expr m) n) stop (fmt_expr x 2) x" if x: "x \<in> set (y # ys)" for x
  proof -
    have "not_reads x" using items ys x by simp
    moreover have "length (fmt_expr x 2) \<le> n" "length (fmt_expr x 2) \<le> Suc m"
      using le [OF x] len by linarith+
    ultimately show ?thesis by (simp add: not_reads_def)
  qed
  moreover have nm: "x \<in> set (y # ys) \<Longrightarrow> names_ok x" for x using names_ok_conj [OF ok, of x] ys by simp
  moreover have "length ys < n"
  proof -
    have "length (map (\<lambda>x. fmt_expr x 2) (y # ys)) \<le> length (fmt_expr d 1)"
      unfolding fmt by (rule join_length) (use nm in \<open>auto simp: fmt_nonempty simp del: One_nat_def\<close>)
    then show ?thesis using len by simp
  qed
  moreover have "stop ('' '' @ ''&'' @ '' '' @ s)" for s
    by (simp add: stop_def ident_byte_def rust_def)
  ultimately show ?thesis
    unfolding rule_and_expr_def fmt
    by (intro chain_reads [where den = "\<lambda>x. x"]) (auto simp: skip_fmt intro: built_and [OF _ _ ys])
qed

lemma expr_reads:
  assumes ok: "names_ok e" and items: "\<And>d x. d \<in> set (disj_list e) \<Longrightarrow> x \<in> set (conj_list d) \<Longrightarrow> not_reads x"
    and len: "length (fmt_expr e 0) \<le> m"
  shows "reads (rule_expr (Suc m)) (\<lambda>rest. (stop rest \<and> no_sep ''&'' rest) \<and> no_sep ''|'' rest) (fmt_expr e 0) e"
proof -
  obtain y ys where ys: "disj_list e = y # ys" using disj_list_ne [of e] by (cases "disj_list e") auto
  have fmt: "fmt_expr e 0 = join ('' '' @ ''|'' @ '' '') (map (\<lambda>x. fmt_expr x 1) (y # ys))"
    using fmt_disj [of e] ys by simp
  have nm: "d \<in> set (y # ys) \<Longrightarrow> names_ok d" for d using names_ok_disj [OF ok, of d] ys by simp
  have "d \<in> set (y # ys) \<Longrightarrow> length (fmt_expr d 1) \<le> length (fmt_expr e 0)" for d
    unfolding fmt by (rule join_member_length) auto
  then have "d \<in> set (y # ys) \<Longrightarrow> reads (rule_and_expr (rule_expr m) m)
      (\<lambda>rest. stop rest \<and> no_sep ''&'' rest) (fmt_expr d 1) d" for d
    using items [of d] nm [of d] len ys by (intro and_reads) (auto intro: le_trans le_SucI)
  moreover have "length ys < m"
  proof -
    have "length (map (\<lambda>x. fmt_expr x 1) (y # ys)) \<le> length (fmt_expr e 0)"
      unfolding fmt by (rule join_length) (use nm in \<open>auto simp: fmt_nonempty simp del: One_nat_def\<close>)
    then show ?thesis using len by simp
  qed
  moreover have "stop ('' '' @ ''|'' @ '' '' @ s) \<and> no_sep ''&'' ('' '' @ ''|'' @ '' '' @ s)" for s
    by (simp add: stop_def ident_byte_def rust_def no_sep_def skip_nonspace is_whitespace_def)
  ultimately have "reads (rule_or_expr (rule_expr m) m)
      (\<lambda>rest. (stop rest \<and> no_sep ''&'' rest) \<and> no_sep ''|'' rest) (fmt_expr e 0) e"
    unfolding rule_or_expr_def fmt using nm
    by (intro chain_reads [where den = "\<lambda>x. x"]) (auto simp: skip_fmt intro: built_or [OF _ _ ys])
  then show ?thesis by (fastforce simp: reads_def built_def)
qed

lemma fmt_compound: "(\<exists>a b. e = EAnd a b \<or> e = EOr a b) \<Longrightarrow> fmt_expr e 2 = ''('' @ fmt_expr e 0 @ '')''"
  by (auto simp: fmt_parens_def expr_prec_def)

lemma paren_reads:
  assumes e: "reads (rule_expr m) (\<lambda>rest. (stop rest \<and> no_sep ''&'' rest) \<and> no_sep ''|'' rest) s e"
    and nws: "\<And>rest. skip (s @ rest) = s @ rest" and n: "0 < n"
  shows "reads (rule_not_expr (rule_expr m) n) stop (''('' @ s @ '')'') e"
  unfolding reads_def
proof (intro allI impI)
  fix rest assume "stop rest"
  have "(stop ('')'' @ rest) \<and> no_sep ''&'' ('')'' @ rest)) \<and> no_sep ''|'' ('')'' @ rest)"
    by (simp add: stop_def no_sep_def ident_byte_def rust_def skip_nonspace is_whitespace_def)
  then obtain t r where "rule_expr m (s @ '')'' @ rest) = Matched t r"
      "skip r = skip ('')'' @ rest)" "built t e"
    using e unfolding reads_def by blast
  moreover have "skip ('')'' @ rest) = '')'' @ rest" by (simp add: skip_nonspace is_whitespace_def)
  moreover obtain k where "n = Suc k" using n by (cases n) auto
  ultimately show "\<exists>t r. rule_not_expr (rule_expr m) n ((''('' @ s @ '')'') @ rest)
      = Matched t r \<and> skip r = skip rest \<and> built t e"
    using nws [of "'')'' @ rest"]
    by (auto simp: rule_neg_def rule_primary_def peg_lit_def strip_prefix_def starts_with_def built_def)
qed

lemma neg_reads:
  assumes x: "reads (rule_not_expr E k) stop s x" and nws: "\<And>rest. skip (s @ rest) = s @ rest"
  shows "reads (rule_not_expr E (Suc k)) stop (''!'' @ s) (ENot x)"
  unfolding reads_def
proof (intro allI impI)
  fix rest assume "stop rest"
  then obtain t r where "rule_not_expr E k (s @ rest) = Matched t r"
      "skip r = skip rest" "built t x"
    using x unfolding reads_def by blast
  then show "\<exists>t r. rule_not_expr E (Suc k) ((''!'' @ s) @ rest) = Matched t r
      \<and> skip r = skip rest \<and> built t (ENot x)"
    using nws [of rest]
    by (auto simp: rule_neg_def peg_lit_def strip_prefix_def starts_with_def built_def equiv_expr_def
        split: sum.splits)
qed

lemma const_text:
  "to_ascii_lowercase ''false'' \<noteq> to_ascii_lowercase ''true''"
  by (simp add: rust_def)

lemma disj_list_id: "(\<And>a b. e \<noteq> EOr a b) \<Longrightarrow> disj_list e = [e]"
  by (cases e) auto

lemma size_conj_list_EAnd: "x \<in> set (conj_list (EAnd a b)) \<Longrightarrow> size x < size (EAnd a b)"
  using size_conj_list [of x a] size_conj_list [of x b] by auto

lemma size_disj_list_EOr: "x \<in> set (disj_list (EOr a b)) \<Longrightarrow> size x < size (EOr a b)"
  using size_disj_list [of x a] size_disj_list [of x b] by auto

lemma compound_items_smaller:
  assumes "\<exists>a b. e = EAnd a b \<or> e = EOr a b" "d \<in> set (disj_list e)" "x \<in> set (conj_list d)"
  shows "size x < size e"
proof -
  from assms(1) consider a b where "e = EAnd a b" | a b where "e = EOr a b" by blast
  then show ?thesis
  proof cases
    case 1
    then show ?thesis using assms(2,3) size_conj_list_EAnd [of x a b] by simp
  next
    case 2
    then show ?thesis using assms(2,3) size_disj_list_EOr [of d a b] size_conj_list [of x d] by simp
  qed
qed

lemma not_reads_compound:
  assumes cmp: "\<exists>a b. e = EAnd a b \<or> e = EOr a b" and ok: "names_ok e"
    and IH: "\<And>x. size x < size e \<Longrightarrow> names_ok x \<Longrightarrow> not_reads x"
  shows "not_reads e"
  unfolding not_reads_def
proof (intro allI impI)
  fix n m assume len: "length (fmt_expr e 2) \<le> n" "length (fmt_expr e 2) \<le> Suc m"
  have l: "length (fmt_expr e 2) = length (fmt_expr e 0) + 2" using fmt_compound [OF cmp] by simp
  then obtain m' where m': "m = Suc m'" using len by (cases m) auto
  have "not_reads x" if "d \<in> set (disj_list e)" "x \<in> set (conj_list d)" for d x
    using IH compound_items_smaller [OF cmp that] names_ok_conj names_ok_disj [OF ok] that by blast
  then have "reads (rule_expr m) (\<lambda>rest. (stop rest \<and> no_sep ''&'' rest) \<and> no_sep ''|'' rest) (fmt_expr e 0) e"
    unfolding m' by (intro expr_reads [OF ok]) (use len l m' in auto)
  then show "reads (rule_not_expr (rule_expr m) n) stop (fmt_expr e 2) e"
    unfolding fmt_compound [OF cmp] by (rule paren_reads [OF _ skip_fmt [OF ok]]) (use len l in auto)
qed

lemma not_reads_all: "names_ok e \<Longrightarrow> not_reads e"
proof (induction "size e" arbitrary: e rule: less_induct)
  case less
  show ?case
    unfolding not_reads_def
  proof (intro allI impI)
    fix n m assume len: "length (fmt_expr e 2) \<le> n" "length (fmt_expr e 2) \<le> Suc m"
    have n: "0 < n" using len(1) fmt_nonempty(1) [OF less.prems, of 2] by (cases n) auto
    then obtain k where k: "n = Suc k" by (cases n) auto
    show "reads (rule_not_expr (rule_expr m) n) stop (fmt_expr e 2) e"
    proof (cases e)
      case (ETerminal t)
      then have "label_name_ok t" using less.prems by (simp add: names_ok_def)
      note r = rule_label_reads [OF this]
      show ?thesis
        by (auto simp: reads_def k ETerminal fmt_parens_def expr_prec_def rule_neg_def rule_primary_def
            peg_lit_def r built_def equiv_expr_def)
    next
      case (EConst b)
      have "strip_prefix ((if b then ''true'' else ''false'') @ rest) [c] = None"
        if "c = CHR ''('' \<or> c = CHR ''!''" for c rest
        using that by (auto simp: strip_prefix_def starts_with_def)
      then show ?thesis
        by (auto simp: reads_def k EConst fmt_parens_def expr_prec_def rule_neg_def rule_primary_def
            peg_lit_def bool_lit_reads built_def equiv_expr_def eq_ignore_ascii_case_def const_text
            simp del: append.simps)
    next
      case (ENot x)
      then have x: "names_ok x" "not_reads x" using less by (auto simp: names_ok_def)
      have lx: "length (fmt_expr x 2) \<le> k" "length (fmt_expr x 2) \<le> Suc m"
        using len k ENot by (auto simp: fmt_parens_def expr_prec_def)
      have "reads (rule_not_expr (rule_expr m) k) stop (fmt_expr x 2) x"
        using x(2) lx by (simp add: not_reads_def)
      then show ?thesis using neg_reads [OF _ skip_fmt [OF x(1)]] by (simp add: k ENot fmt_parens_def expr_prec_def)
    next
      case (EAnd a b)
      then have "\<exists>a b. e = EAnd a b \<or> e = EOr a b" by blast
      from not_reads_compound [OF this less.prems less.hyps] len show ?thesis
        by (simp add: not_reads_def)
    next
      case (EOr a b)
      then have "\<exists>a b. e = EAnd a b \<or> e = EOr a b" by blast
      from not_reads_compound [OF this less.prems less.hyps] len show ?thesis
        by (simp add: not_reads_def)
    qed
  qed
qed

section \<open>The round trip\<close>

lemma rule_expr_prints:
  assumes "names_ok e" "length (fmt_expr e 0) \<le> m"
  shows "\<exists>t r. rule_expr (Suc m) (fmt_expr e 0) = Matched t r \<and> skip r = [] \<and> built t e"
proof -
  have "not_reads x" if "d \<in> set (disj_list e)" "x \<in> set (conj_list d)" for d x
    using not_reads_all names_ok_conj names_ok_disj [OF assms(1)] that by blast
  then have r: "reads (rule_expr (Suc m))
      (\<lambda>rest. (stop rest \<and> no_sep ''&'' rest) \<and> no_sep ''|'' rest) (fmt_expr e 0) e"
    by (intro expr_reads assms)
  have "skip [] = []" "stop []" "no_sep ''&'' []" "no_sep ''|'' []"
    by (simp_all add: skip_def stop_def no_sep_def starts_with_def)
  with r [unfolded reads_def, rule_format, of "[]"] show ?thesis by simp
qed

lemma parse_raw_format_expr:
  assumes "names_ok e"
  shows "\<exists>e'. parse_raw_label_expr (format_expr e) = Inr e' \<and> equiv_expr e' e"
proof -
  let ?s = "fmt_expr e 0"
  have s: "skip ?s = ?s" using skip_fmt [OF assms, of 0 "[]"] by simp
  obtain t r where t: "rule_expr (length ?s + 2) ?s = Matched t r" "skip r = []" "built t e"
    using rule_expr_prints [OF assms, of "length ?s + 1"] by auto
  then have "pair_rule t = R_expr" using rule_expr_Matched by blast
  then have "parse_raw_label_expr ?s = build_expr t"
    using t s by (simp add: parse_raw_label_expr_def rule_input_def)
  then show ?thesis using t(3) by (auto simp: built_def format_expr_def split: sum.splits)
qed

end
