(* ===== verification/Label_Case.thy ===== *)
theory Label_Case
  imports Label_Parser
begin

text \<open>
  Label expressions are read case-insensitively: the parser commutes with
  \<open>to_ascii_lowercase\<close>, rule by rule, and the lowered parse tree builds the same
  expression, so an input and its lowercase form parse to the same result.
\<close>

primrec lower_pair :: "pair \<Rightarrow> pair" where
  "lower_pair (Pair r s inner) = Pair r (to_ascii_lowercase s) (map lower_pair inner)"

primrec lower_peg :: "('a \<Rightarrow> 'b) \<Rightarrow> 'a peg \<Rightarrow> 'b peg" where
  "lower_peg g Out_of_fuel = Out_of_fuel"
| "lower_peg g No_match = No_match"
| "lower_peg g (Matched x r) = Matched (g x) (to_ascii_lowercase r)"

definition lower_ok :: "(str \<Rightarrow> pair peg) \<Rightarrow> bool" where
  "lower_ok P \<longleftrightarrow> (\<forall>s. P (to_ascii_lowercase s) = lower_peg lower_pair (P s))"

lemma lower_okD: "lower_ok P \<Longrightarrow> P (to_ascii_lowercase s) = lower_peg lower_pair (P s)"
  by (simp add: lower_ok_def)

lemma punctuation_not_alpha [simp]:
  "\<not> is_ascii_alpha CHR ''_''" "\<not> is_ascii_alpha CHR '' ''" "\<not> is_ascii_alpha CHR 0x09"
  "\<not> is_ascii_alpha CHR 0x0D" "\<not> is_ascii_alpha CHR ''!''" "\<not> is_ascii_alpha CHR ''(''"
  "\<not> is_ascii_alpha CHR '')''" "\<not> is_ascii_alpha CHR ''&''" "\<not> is_ascii_alpha CHR ''|''"
  by (simp_all add: rust_def)

lemma to_ascii_lowercase_Nil [simp]: "to_ascii_lowercase s = [] \<longleftrightarrow> s = []"
  by (simp add: to_ascii_lowercase_def)

lemma lower_byte_alpha: "is_ascii_alpha (lower_byte c) = is_ascii_alpha c"
proof (cases "is_ascii_uppercase c")
  case True
  then have "is_ascii_lowercase (lower_byte c)"
    by (simp add: of_char_lower_byte is_ascii_uppercase_def is_ascii_lowercase_def char_le_of_char)
  with True show ?thesis by (simp add: is_ascii_alpha_def)
qed (simp add: lower_byte_def)

lemma lower_byte_eq:
  assumes "\<not> is_ascii_alpha d"
  shows "lower_byte c = d \<longleftrightarrow> c = d"
proof (cases "is_ascii_uppercase c")
  case True
  then have c: "is_ascii_alpha c" by (simp add: is_ascii_alpha_def)
  then have "is_ascii_alpha (lower_byte c)" by (simp add: lower_byte_alpha)
  with c assms show ?thesis by auto
qed (simp add: lower_byte_def)

lemma lower_byte_digit: "is_ascii_digit (lower_byte c) = is_ascii_digit c"
proof (cases "is_ascii_uppercase c")
  case True
  then show ?thesis
    by (simp add: of_char_lower_byte is_ascii_uppercase_def is_ascii_digit_def char_le_of_char)
qed (simp add: lower_byte_def)

lemma lower_byte_ident: "ident_byte (lower_byte c) = ident_byte c"
  by (simp add: ident_byte_def is_ascii_alphanumeric_def lower_byte_alpha lower_byte_digit
      lower_byte_eq)

lemma lower_byte_ws: "is_whitespace (lower_byte c) = is_whitespace c"
  by (simp add: is_whitespace_def lower_byte_eq)

lemma skip_lower: "skip (to_ascii_lowercase s) = to_ascii_lowercase (skip s)"
  by (simp add: skip_def to_ascii_lowercase_def dropWhile_map comp_def lower_byte_ws)

lemma span_lower: "span (to_ascii_lowercase s) (to_ascii_lowercase r) = to_ascii_lowercase (span s r)"
  by (simp add: span_def to_ascii_lowercase_def take_map)

lemma peg_lit_lower:
  assumes "\<not> is_ascii_alpha c"
  shows "peg_lit [c] (to_ascii_lowercase s) = lower_peg id (peg_lit [c] s)"
  using assms lower_byte_eq [OF assms]
  by (cases s) (auto simp: peg_lit_def strip_prefix_def starts_with_def to_ascii_lowercase_def)

lemma match_insensitive_lower:
  "match_insensitive lit (to_ascii_lowercase s) = map_option to_ascii_lowercase (match_insensitive lit s)"
proof -
  have "take n (to_ascii_lowercase s) = to_ascii_lowercase (take n s)"
    "drop n (to_ascii_lowercase s) = to_ascii_lowercase (drop n s)" for n
    by (simp_all add: to_ascii_lowercase_def take_map drop_map)
  then show ?thesis by (simp add: match_insensitive_def eq_ignore_ascii_case_def)
qed

lemma rule_bool_lit_lower: "lower_ok rule_bool_lit"
proof -
  have tail: "to_ascii_lowercase r \<noteq> [] \<and> ident_byte (hd (to_ascii_lowercase r))
      \<longleftrightarrow> r \<noteq> [] \<and> ident_byte (hd r)" for r
    by (cases r) (simp_all add: to_ascii_lowercase_def lower_byte_ident)
  define m where "m s = (case match_insensitive ''true'' s of Some r \<Rightarrow> Some r
            | None \<Rightarrow> match_insensitive ''false'' s)" for s
  have m: "m (to_ascii_lowercase s) = map_option to_ascii_lowercase (m s)" for s
    by (simp add: m_def match_insensitive_lower split: option.split)
  have "rule_bool_lit s = (case m s of None \<Rightarrow> No_match
      | Some r \<Rightarrow> if r \<noteq> [] \<and> ident_byte (hd r) then No_match
                  else Matched (Pair R_bool_lit (span s r) []) r)" for s
    by (simp only: rule_bool_lit_def m_def)
  then show ?thesis
    by (simp add: lower_ok_def m tail span_lower split: option.split
        del: to_ascii_lowercase_Nil)
qed

lemma rule_label_lower: "lower_ok rule_label"
  unfolding lower_ok_def
proof
  fix s show "rule_label (to_ascii_lowercase s) = lower_peg lower_pair (rule_label s)"
    by (cases s) (simp_all add: rule_label_def to_ascii_lowercase_def takeWhile_map dropWhile_map
        comp_def lower_byte_ident lower_byte_alpha lower_byte_eq)
qed

lemma sep_rest_lower:
  assumes "lower_ok item" "\<not> is_ascii_alpha c"
  shows "sep_rest [c] item n (to_ascii_lowercase r) = lower_peg (map lower_pair) (sep_rest [c] item n r)"
proof (induction n arbitrary: r)
  case (Suc n)
  show ?case
  proof (cases "peg_lit [c] (skip r)")
    case (Matched u s)
    show ?thesis
    proof (cases "item (skip s)")
      case m: (Matched p r')
      then show ?thesis using Matched Suc [of r']
        by (cases "sep_rest [c] item n r'")
           (simp_all add: skip_lower peg_lit_lower [OF assms(2)] lower_okD [OF assms(1)])
    qed (use Matched in \<open>simp_all add: skip_lower peg_lit_lower [OF assms(2)] lower_okD [OF assms(1)]\<close>)
  qed (simp_all add: skip_lower peg_lit_lower [OF assms(2)])
qed simp

lemma rule_neg_lower:
  assumes "lower_ok P"
  shows "lower_ok (rule_neg P)"
  unfolding lower_ok_def
proof
  fix s
  have c: "\<not> is_ascii_alpha CHR ''!''" by simp
  show "rule_neg P (to_ascii_lowercase s) = lower_peg lower_pair (rule_neg P s)"
  proof (cases "peg_lit ''!'' s")
    case (Matched u s')
    then show ?thesis
      by (cases "P (skip s')")
         (simp_all add: rule_neg_def peg_lit_lower [OF c] skip_lower lower_okD [OF assms] span_lower)
  qed (simp_all add: rule_neg_def peg_lit_lower [OF c])
qed

lemma rule_primary_lower:
  assumes "lower_ok E"
  shows "lower_ok (rule_primary E)"
  unfolding lower_ok_def
proof
  fix s
  have c: "\<not> is_ascii_alpha CHR ''(''" "\<not> is_ascii_alpha CHR '')''" by simp_all
  define paren where "paren s = peg_then (peg_lit ''('' s) (\<lambda>_ s'. peg_then (E (skip s')) (\<lambda>p r.
                peg_then (peg_lit '')'' (skip r)) (\<lambda>_ r'. Matched p r')))" for s
  have p: "paren (to_ascii_lowercase s) = lower_peg lower_pair (paren s)" for s
  proof (cases "peg_lit ''('' s")
    case (Matched u s')
    show ?thesis
    proof (cases "E (skip s')")
      case m: (Matched p r)
      then show ?thesis using Matched
        by (cases "peg_lit '')'' (skip r)")
           (simp_all add: paren_def peg_lit_lower c skip_lower lower_okD [OF assms])
    qed (use Matched in \<open>simp_all add: paren_def peg_lit_lower c skip_lower lower_okD [OF assms]\<close>)
  qed (simp_all add: paren_def peg_lit_lower c)
  have *: "rule_primary E s = peg_then (peg_or (paren s) (peg_or (rule_bool_lit s) (rule_label s)))
      (\<lambda>p r. Matched (Pair R_primary (span s r) [p]) r)" for s
    by (simp add: rule_primary_def paren_def)
  show "rule_primary E (to_ascii_lowercase s) = lower_peg lower_pair (rule_primary E s)"
    unfolding * p lower_okD [OF rule_bool_lit_lower] lower_okD [OF rule_label_lower]
    by (cases "paren s"; cases "rule_bool_lit s"; cases "rule_label s") (simp_all add: span_lower)
qed

lemma rule_not_expr_lower: "lower_ok E \<Longrightarrow> lower_ok (rule_not_expr E n)"
proof (induction n)
  case (Suc n)
  note l = lower_okD [OF rule_neg_lower [OF Suc.IH [OF Suc.prems]]] lower_okD [OF rule_primary_lower [OF Suc.prems]]
  have "rule_not_expr E (Suc n) (to_ascii_lowercase s) = lower_peg lower_pair (rule_not_expr E (Suc n) s)" for s
    by (cases "rule_neg (rule_not_expr E n) s"; cases "rule_primary E s") (simp_all add: l span_lower)
  then show ?case by (simp add: lower_ok_def)
qed (simp add: lower_ok_def)

lemma chain_lower:
  assumes item: "lower_ok item" and c: "\<not> is_ascii_alpha c"
  shows "lower_ok (\<lambda>s. peg_then (item s) (\<lambda>p r. peg_then (sep_rest [c] item n (skip r)) (\<lambda>ps r'.
           Matched (Pair rl (span s r') (p # ps)) r')))"
  unfolding lower_ok_def
proof
  fix s
  show "peg_then (item (to_ascii_lowercase s)) (\<lambda>p r. peg_then (sep_rest [c] item n (skip r)) (\<lambda>ps r'.
           Matched (Pair rl (span (to_ascii_lowercase s) r') (p # ps)) r'))
    = lower_peg lower_pair (peg_then (item s) (\<lambda>p r. peg_then (sep_rest [c] item n (skip r)) (\<lambda>ps r'.
           Matched (Pair rl (span s r') (p # ps)) r')))"
  proof (cases "item s")
    case (Matched p r)
    then show ?thesis
      by (cases "sep_rest [c] item n (skip r)")
         (simp_all add: lower_okD [OF item] skip_lower sep_rest_lower [OF item c] span_lower)
  qed (simp_all add: lower_okD [OF item])
qed

lemma rule_expr_lower: "lower_ok (rule_expr n)"
proof (induction n)
  case (Suc n)
  have c: "\<not> is_ascii_alpha CHR ''&''" "\<not> is_ascii_alpha CHR ''|''" by simp_all
  have "lower_ok (rule_and_expr (rule_expr n) n)"
    using chain_lower [OF rule_not_expr_lower [OF Suc] c(1), of n n R_and_expr]
    by (simp add: rule_and_expr_def [abs_def])
  from chain_lower [OF this c(2), of n R_or_expr] have "lower_ok (rule_or_expr (rule_expr n) n)"
    by (simp add: rule_or_expr_def [abs_def])
  then have "rule_expr (Suc n) (to_ascii_lowercase s) = lower_peg lower_pair (rule_expr (Suc n) s)" for s
    by (cases "rule_or_expr (rule_expr n) n s") (simp_all add: lower_okD span_lower)
  then show ?case by (simp add: lower_ok_def)
qed (simp add: lower_ok_def)

lemma build_expr_lower:
  "build_expr (lower_pair p) = build_expr p"
  "build_or l (map lower_pair ps) = build_or l ps"
  "build_and l (map lower_pair ps) = build_and l ps"
proof (induction p and l ps and l ps rule: build_expr_build_or_build_and.induct)
  case (1 r s inner)
  then show ?case
    by (cases r; cases inner) (auto simp: eq_ignore_ascii_case_def split: sum.splits)
qed (auto split: sum.splits)

lemma parse_raw_lower: "parse_raw_label_expr (to_ascii_lowercase s) = parse_raw_label_expr s"
proof (cases "rule_expr (length s + 2) (skip s)")
  case (Matched p r)
  have "pair_rule (lower_pair q) = pair_rule q" for q by (cases q) simp
  then show ?thesis using Matched rule_expr_Matched [OF Matched]
    by (auto simp: parse_raw_label_expr_def rule_input_def skip_lower lower_okD [OF rule_expr_lower]
        build_expr_lower simp del: build_expr.simps)
qed (simp_all add: parse_raw_label_expr_def rule_input_def skip_lower lower_okD [OF rule_expr_lower])

end
