(* ===== verification/Boolexpr_Ref.thy ===== *)
theory Boolexpr_Ref
  imports Label_Expr
begin

text \<open>
  An executable implementation of the interface \<open>boolexpr_crate\<close>: evaluation by recursion
  on the expression, and a canonical form by Shannon expansion over the variable order, which
  is the unfolding of the reduced ordered BDD into an expression.  It shows that the laws the
  development assumes of \<open>boolean_expression\<close> hold together, and concrete runs of the
  model use it.
\<close>

definition ite_expr :: "str \<Rightarrow> expr \<Rightarrow> expr \<Rightarrow> expr" where
  "ite_expr v hi lo =
     (if hi = lo then lo
      else if hi = EConst True \<and> lo = EConst False then ETerminal v
      else if hi = EConst False \<and> lo = EConst True then ENot (ETerminal v)
      else EOr (EAnd (ETerminal v) hi) (EAnd (ENot (ETerminal v)) lo))"

fun shannon :: "str list \<Rightarrow> expr \<Rightarrow> (str \<Rightarrow> bool) \<Rightarrow> expr" where
  "shannon [] e f = EConst (sem e f)"
| "shannon (v # vs) e f = ite_expr v (shannon vs e (f(v := True))) (shannon vs e (f(v := False)))"

definition ref_boolexpr :: boolexpr where
  "ref_boolexpr = \<lparr>evaluate_with = sem, bdd_round_trip = (\<lambda>vs e. shannon vs e (\<lambda>_. False))\<rparr>"

lemma ref_boolexpr_simps [simp]:
  "evaluate_with ref_boolexpr = sem" "bdd_round_trip ref_boolexpr vs e = shannon vs e (\<lambda>_. False)"
  by (simp_all add: ref_boolexpr_def)

lemma sem_ite_expr: "sem (ite_expr v hi lo) g = (if g v then sem hi g else sem lo g)"
  by (auto simp: ite_expr_def)

lemma sem_shannon: "sem (shannon vs e f) g = sem e (\<lambda>x. if x \<in> set vs then g x else f x)"
proof (induction vs arbitrary: f)
  case (Cons v vs)
  have "sem (shannon (v # vs) e f) g = sem (shannon vs e (f(v := g v))) g"
    by (cases "g v") (simp_all only: shannon.simps sem_ite_expr if_True if_False)
  also have "\<dots> = sem e (\<lambda>x. if x \<in> set vs then g x else (f(v := g v)) x)" by (rule Cons)
  also have "\<dots> = sem e (\<lambda>x. if x \<in> set (v # vs) then g x else f x)"
    by (intro sem_cong) auto
  finally show ?case .
qed simp

lemma shannon_sem_cong: "(\<And>f. sem e f = sem e' f) \<Longrightarrow> shannon vs e f = shannon vs e' f"
  by (induction vs arbitrary: f) auto

lemma shannon_cong:
  "(\<And>t. t \<in> set (collect_terminals e) \<Longrightarrow> f t = g t) \<Longrightarrow> shannon vs e f = shannon vs e g"
proof (induction vs arbitrary: f g)
  case Nil
  then show ?case using sem_cong [of e f g] by simp
next
  case (Cons v vs)
  have "shannon vs e (f(v := b)) = shannon vs e (g(v := b))" for b
    using Cons.prems by (intro Cons.IH) auto
  then show ?case by simp
qed

lemma shannon_filter:
  "shannon vs e f = shannon (filter (\<lambda>v. v \<in> set (collect_terminals e)) vs) e f"
proof (induction vs arbitrary: f)
  case (Cons v vs)
  show ?case
  proof (cases "v \<in> set (collect_terminals e)")
    case True
    then show ?thesis by (simp only: filter.simps if_True shannon.simps Cons [symmetric])
  next
    case False
    then have "shannon vs e (f(v := b)) = shannon vs e f" for b by (intro shannon_cong) auto
    then show ?thesis using Cons [of f] False by (simp add: ite_expr_def)
  qed
qed simp

lemma shannon_terminals: "set (collect_terminals (shannon vs e f)) \<subseteq> set vs"
proof (induction vs arbitrary: f)
  case (Cons v vs)
  have "set (collect_terminals (ite_expr v hi lo)) \<subseteq> set (v # vs)"
    if "set (collect_terminals hi) \<subseteq> set vs" "set (collect_terminals lo) \<subseteq> set vs" for hi lo
    using that by (auto simp: ite_expr_def)
  then show ?case using Cons by (simp only: shannon.simps)
qed simp

lemma shannon_const: "shannon vs (EConst k) f = EConst k"
  by (induction vs arbitrary: f) (auto simp: ite_expr_def)

lemma var_order_filter:
  assumes "var_order vs e"
  shows "filter (\<lambda>v. v \<in> set (collect_terminals e)) vs = remdups_adj (sort (collect_terminals e))"
  using assms
  by (intro sorted_distinct_set_unique)
     (auto simp: var_order_def sorted_filter [where f = id, simplified] sorted_dedup_distinct)

interpretation ref: boolexpr_crate ref_boolexpr
proof unfold_locales
  fix vs e e' f assume v: "var_order vs e"
  have "sem e (\<lambda>x. if x \<in> set vs then f x else False) = sem e f"
    using v by (intro sem_cong) (auto simp: var_order_def)
  then show "evaluate_with ref_boolexpr (bdd_round_trip ref_boolexpr vs e) f
      = evaluate_with ref_boolexpr e f"
    by (simp add: sem_shannon)
  show "set (collect_terminals (bdd_round_trip ref_boolexpr vs e)) \<subseteq> set (collect_terminals e)"
    using shannon_terminals [of "filter (\<lambda>v. v \<in> set (collect_terminals e)) vs" e]
    by (auto simp: shannon_filter [of vs])
next
  fix vs vs' e assume "var_order vs e" "var_order vs' e"
  then show "bdd_round_trip ref_boolexpr vs' e = bdd_round_trip ref_boolexpr vs e"
    using shannon_filter [of vs e] shannon_filter [of vs' e] by (simp add: var_order_filter)
qed (auto simp: shannon_const ite_expr_def intro!: shannon_sem_cong)

end
