(* ===== verification/Skuld_Env.thy ===== *)
theory Skuld_Env
  imports Prelude
begin

text \<open>
  Reading \<open>SKULD_*\<close> variables (\<open>src/src/skuld_env.rs\<close>).  The process environment is
  a function from names to the three results of \<open>std::env::var\<close>.
\<close>

datatype var_result = Var str | NotPresent | NotUnicode

type_synonym environment = "str \<Rightarrow> var_result"

datatype env_panic = Not_valid_utf8 str

definition skuld_env_read :: "environment \<Rightarrow> str \<Rightarrow> (env_panic, str option) result" where
  "skuld_env_read env nm = (case env nm of
       Var val \<Rightarrow> Inr (Some val) | NotPresent \<Rightarrow> Inr None | NotUnicode \<Rightarrow> Inl (Not_valid_utf8 nm))"

end
