(* ===== verification/Label_Filter.thy ===== *)
theory Label_Filter
  imports Label_Roundtrip Label_Case Boolexpr_Ref Skuld_Env
begin

text \<open>
  The public filter type (\<open>LabelFilter\<close>, \<open>LabelSelection\<close> and
  \<open>read_label_selection\<close> of \<open>src/src/label.rs\<close>): parsing to canonical form, matching,
  the constant tests, printing, and the operators.
  \<open>filter_ok\<close> is the type's invariant; every constructor establishes it.
\<close>

record label_filter =
  filter_expr :: expr

definition parse_label_expr :: "boolexpr \<Rightarrow> str \<Rightarrow> (parse_error, expr) result" where
  "parse_label_expr X input = map_sum id (canonicalize X) (parse_raw_label_expr input)"

record label_selection =
  sel_filter :: label_filter
  sel_names :: "str list"

definition LabelSelection_parse :: "boolexpr \<Rightarrow> str \<Rightarrow> (parse_error, label_selection) result" where
  "LabelSelection_parse X input =
     result_bind (parse_raw_label_expr input) (\<lambda>raw.
       let names = remdups_adj (sort (collect_terminals raw)) in
       Inr \<lparr>sel_filter = \<lparr>filter_expr = canonicalize X raw\<rparr>, sel_names = names\<rparr>)"

datatype selection_panic = Env_panic env_panic | Bad_SKULD_LABELS parse_error

definition read_label_selection ::
    "boolexpr \<Rightarrow> environment \<Rightarrow> (selection_panic, label_selection option) result" where
  "read_label_selection X env = (case skuld_env_read env ''SKULD_LABELS'' of
       Inl p \<Rightarrow> Inl (Env_panic p)
     | Inr None \<Rightarrow> Inr None
     | Inr (Some val) \<Rightarrow> (case LabelSelection_parse X val of
           Inr selection \<Rightarrow> Inr (Some selection)
         | Inl e \<Rightarrow> Inl (Bad_SKULD_LABELS e)))"

definition LabelFilter_parse :: "boolexpr \<Rightarrow> str \<Rightarrow> (parse_error, label_filter) result" where
  "LabelFilter_parse X input = map_sum id (\<lambda>expr. \<lparr>filter_expr = expr\<rparr>) (parse_label_expr X input)"

definition filter_matches :: "boolexpr \<Rightarrow> label_filter \<Rightarrow> label list \<Rightarrow> bool" where
  "filter_matches X f labels = matches_expr X (filter_expr f) labels"

definition matches_names :: "boolexpr \<Rightarrow> label_filter \<Rightarrow> str list \<Rightarrow> bool" where
  "matches_names X f names = evaluate_with X (filter_expr f) (\<lambda>t. t \<in> set names)"

definition filter_to_sql :: "label_filter \<Rightarrow> str" where
  "filter_to_sql f = to_sql_expr (filter_expr f)"

definition is_tautology :: "label_filter \<Rightarrow> bool" where
  "is_tautology f \<longleftrightarrow> filter_expr f = EConst True"

definition is_contradiction :: "label_filter \<Rightarrow> bool" where
  "is_contradiction f \<longleftrightarrow> filter_expr f = EConst False"

definition display_filter :: "label_filter \<Rightarrow> str" where
  "display_filter f = fmt_expr (filter_expr f) 0"

definition LabelFilter_from :: "label \<Rightarrow> label_filter" where
  "LabelFilter_from l = \<lparr>filter_expr = ETerminal (label_name l)\<rparr>"

definition filter_not :: "boolexpr \<Rightarrow> label_filter \<Rightarrow> label_filter" where
  "filter_not X f = \<lparr>filter_expr = canonicalize X (ENot (filter_expr f))\<rparr>"

definition label_not :: "boolexpr \<Rightarrow> label \<Rightarrow> label_filter" where
  "label_not X l = filter_not X (LabelFilter_from l)"

text \<open>The two expansions of \<open>impl_filter_binop!\<close>; the mixed impls convert with \<open>From\<close> first.\<close>

definition filter_bitand :: "boolexpr \<Rightarrow> label_filter \<Rightarrow> label_filter \<Rightarrow> label_filter" where
  "filter_bitand X a b = \<lparr>filter_expr = canonicalize X (EAnd (filter_expr a) (filter_expr b))\<rparr>"

definition filter_bitor :: "boolexpr \<Rightarrow> label_filter \<Rightarrow> label_filter \<Rightarrow> label_filter" where
  "filter_bitor X a b = \<lparr>filter_expr = canonicalize X (EOr (filter_expr a) (filter_expr b))\<rparr>"

section \<open>The invariant of the type\<close>

definition filter_ok :: "boolexpr \<Rightarrow> label_filter \<Rightarrow> bool" where
  "filter_ok X f \<longleftrightarrow> names_ok (filter_expr f) \<and> canonicalize X (filter_expr f) = filter_expr f"

lemma names_ok_subset: "names_ok e \<Longrightarrow> set (collect_terminals e') \<subseteq> set (collect_terminals e) \<Longrightarrow> names_ok e'"
  by (auto simp: names_ok_def list_all_iff)

lemma Label_new_ok: "Label_new nm = Inr l \<Longrightarrow> label_name_ok (label_name l)"
  by (auto simp: Label_new_def label_name_ok_def split: sum.splits if_splits)

context boolexpr_crate
begin

lemma filter_ok_canonicalize: "names_ok e \<Longrightarrow> filter_ok X \<lparr>filter_expr = canonicalize X e\<rparr>"
  by (simp add: filter_ok_def canonicalize_idem names_ok_subset [OF _ terminals_canonicalize])

lemma filter_ok_parse: "LabelFilter_parse X s = Inr f \<Longrightarrow> filter_ok X f"
  by (cases "parse_raw_label_expr s")
     (auto simp: LabelFilter_parse_def parse_label_expr_def intro!: filter_ok_canonicalize parse_raw_names_ok)

lemma filter_ok_const: "filter_ok X \<lparr>filter_expr = EConst b\<rparr>"
  by (simp add: filter_ok_def names_ok_def canonicalize_Const_iff)

lemma filter_ok_from: "label_name_ok (label_name l) \<Longrightarrow> filter_ok X (LabelFilter_from l)"
  by (simp add: filter_ok_def LabelFilter_from_def names_ok_def canonicalize_terminal)

lemma filter_ok_ops:
  "filter_ok X f \<Longrightarrow> filter_ok X (filter_not X f)"
  "filter_ok X f \<Longrightarrow> filter_ok X g \<Longrightarrow> filter_ok X (filter_bitand X f g)"
  "filter_ok X f \<Longrightarrow> filter_ok X g \<Longrightarrow> filter_ok X (filter_bitor X f g)"
  unfolding filter_not_def filter_bitand_def filter_bitor_def
  by (rule filter_ok_canonicalize; simp add: filter_ok_def names_ok_def)+

lemma matches_sem: "filter_matches X f labels = sem (filter_expr f) (\<lambda>t. t \<in> label_name ` set labels)"
  unfolding filter_matches_def matches_expr_def evaluate_with_sem
  by (rule sem_cong) (auto simp: list_ex_iff)

lemma matches_names_sem: "matches_names X f names = sem (filter_expr f) (\<lambda>t. t \<in> set names)"
  by (simp add: matches_names_def evaluate_with_sem)

lemma matches_ops:
  "filter_matches X (filter_not X f) ls \<longleftrightarrow> \<not> filter_matches X f ls"
  "filter_matches X (filter_bitand X f g) ls \<longleftrightarrow> filter_matches X f ls \<and> filter_matches X g ls"
  "filter_matches X (filter_bitor X f g) ls \<longleftrightarrow> filter_matches X f ls \<or> filter_matches X g ls"
  by (simp_all add: matches_sem filter_not_def filter_bitand_def filter_bitor_def sem_canonicalize)

text \<open>Two filters that agree on every finite set of names are the same canonical form.\<close>

lemma filter_eq_iff:
  assumes "filter_ok X f" "filter_ok X g"
  shows "f = g \<longleftrightarrow> (\<forall>names. matches_names X f names = matches_names X g names)"
proof
  assume eq: "\<forall>names. matches_names X f names = matches_names X g names"
  have "sem (filter_expr f) a = sem (filter_expr g) a" for a
  proof -
    let ?names = "filter a (collect_terminals (filter_expr f) @ collect_terminals (filter_expr g))"
    have "sem (filter_expr f) a = matches_names X f ?names"
      unfolding matches_names_sem by (rule sem_cong) auto
    moreover have "sem (filter_expr g) a = matches_names X g ?names"
      unfolding matches_names_sem by (rule sem_cong) auto
    ultimately show ?thesis using eq by simp
  qed
  then have "canonicalize X (filter_expr f) = canonicalize X (filter_expr g)"
    by (rule canonicalize_unique)
  then show "f = g" using assms by (simp add: filter_ok_def)
qed simp

lemma display_parse:
  assumes "filter_ok X f"
  shows "LabelFilter_parse X (display_filter f) = Inr f"
proof -
  obtain e where e: "parse_raw_label_expr (format_expr (filter_expr f)) = Inr e"
      "equiv_expr e (filter_expr f)"
    using parse_raw_format_expr assms by (auto simp: filter_ok_def)
  then have "canonicalize X e = canonicalize X (filter_expr f)"
    by (intro canonicalize_unique) (simp add: equiv_expr_def)
  then show ?thesis using e(1) assms
    by (simp add: LabelFilter_parse_def parse_label_expr_def display_filter_def
        filter_ok_def flip: format_expr_def)
qed

lemma tautology_iff: "filter_ok X f \<Longrightarrow> is_tautology f \<longleftrightarrow> (\<forall>names. matches_names X f names)"
  using filter_eq_iff [of f "\<lparr>filter_expr = EConst True\<rparr>"] filter_ok_const
  by (auto simp: is_tautology_def matches_names_sem)

lemma contradiction_iff: "filter_ok X f \<Longrightarrow> is_contradiction f \<longleftrightarrow> (\<forall>names. \<not> matches_names X f names)"
  using filter_eq_iff [of f "\<lparr>filter_expr = EConst False\<rparr>"] filter_ok_const
  by (auto simp: is_contradiction_def matches_names_sem)

end

section \<open>Properties\<close>

text \<open>
  C25: printing a filter and parsing the text gives the filter back.  The filter is any value in
  the canonical form every constructor of the type establishes.
\<close>

theorem label_filter_round_trip:
  assumes "boolexpr_crate X" "filter_ok X f"
  shows "LabelFilter_parse X (display_filter f) = Inr f"
  using assms by (rule boolexpr_crate.display_parse)

definition demo_filter :: label_filter where
  "demo_filter = filter_bitor ref_boolexpr (LabelFilter_from \<lparr>label_name = ''docker''\<rparr>)
     (label_not ref_boolexpr \<lparr>label_name = ''fast''\<rparr>)"

lemma demo_filter_ok: "filter_ok ref_boolexpr demo_filter"
  unfolding demo_filter_def label_not_def
  by (intro ref.filter_ok_ops ref.filter_ok_from) code_simp+

theorem label_filter_round_trip_witness:
  "LabelFilter_parse ref_boolexpr (display_filter demo_filter) = Inr demo_filter
   \<and> LabelFilter_parse ref_boolexpr ''!fast | docker & (docker | fast)'' = Inr demo_filter"
proof
  show "LabelFilter_parse ref_boolexpr (display_filter demo_filter) = Inr demo_filter"
    by (rule label_filter_round_trip [OF ref.boolexpr_crate_axioms demo_filter_ok])
  have "parse_raw_label_expr ''!fast | docker & (docker | fast)'' = Inr (EOr (ENot (ETerminal ''fast''))
      (EAnd (ETerminal ''docker'') (EOr (ETerminal ''docker'') (ETerminal ''fast''))))"
    by (simp add: parser_eval cong: peg_weak_congs)
  then show "LabelFilter_parse ref_boolexpr ''!fast | docker & (docker | fast)'' = Inr demo_filter"
    by (auto simp: LabelFilter_parse_def parse_label_expr_def demo_filter_def filter_bitor_def
        label_not_def filter_not_def LabelFilter_from_def ref.sem_canonicalize
        intro!: ref.canonicalize_unique)
qed

text \<open>
  C26: structural equality of filters is semantic equivalence.  Two texts parse to equal filters
  exactly when the filters select the same label sets.
\<close>

theorem label_filter_eq_semantic:
  assumes "boolexpr_crate X" "LabelFilter_parse X a = Inr f" "LabelFilter_parse X b = Inr g"
  shows "f = g \<longleftrightarrow> (\<forall>names. matches_names X f names = matches_names X g names)"
  by (rule boolexpr_crate.filter_eq_iff [OF assms(1)])
     (rule boolexpr_crate.filter_ok_parse [OF assms(1)], rule assms)+

theorem label_filter_eq_semantic_witness:
  "\<exists>f g. LabelFilter_parse ref_boolexpr ''a & b'' = Inr f \<and> LabelFilter_parse ref_boolexpr ''b & (a | !b)'' = Inr g
     \<and> (f = g \<longleftrightarrow> (\<forall>names. matches_names ref_boolexpr f names = matches_names ref_boolexpr g names)) \<and> f = g"
proof -
  let ?f = "\<lparr>filter_expr = canonicalize ref_boolexpr (EAnd (ETerminal ''a'') (ETerminal ''b''))\<rparr>"
  have "parse_raw_label_expr ''a & b'' = Inr (EAnd (ETerminal ''a'') (ETerminal ''b''))"
    "parse_raw_label_expr ''b & (a | !b)''
      = Inr (EAnd (ETerminal ''b'') (EOr (ETerminal ''a'') (ENot (ETerminal ''b''))))"
    by (simp_all add: parser_eval cong: peg_weak_congs)
  then have "LabelFilter_parse ref_boolexpr ''a & b'' = Inr ?f"
    "LabelFilter_parse ref_boolexpr ''b & (a | !b)'' = Inr ?f"
    by (auto simp: LabelFilter_parse_def parse_label_expr_def intro!: ref.canonicalize_unique)
  with label_filter_eq_semantic [OF ref.boolexpr_crate_axioms this] show ?thesis by blast
qed

text \<open>Filter texts are case-insensitive.  A text and its ASCII lowercase form parse alike.\<close>

theorem label_filter_case_insensitive:
  "LabelFilter_parse X (to_ascii_lowercase s) = LabelFilter_parse X s"
  by (simp add: LabelFilter_parse_def parse_label_expr_def parse_raw_lower)

text \<open>
  C27: the parser is total and its \<open>unwrap\<close>s cannot panic.  Every input is either rejected by
  the grammar or yields an expression over valid lowercase label names.
\<close>

theorem parse_raw_label_expr_total:
  "parse_raw_label_expr s = Inl Invalid_label_expression
   \<or> (\<exists>e. parse_raw_label_expr s = Inr e \<and> list_all label_name_ok (collect_terminals e))"
  using parse_raw_cases [of s] by (simp add: names_ok_def)

text \<open>The operators on filters compute negation, conjunction and disjunction of matching.\<close>

theorem label_filter_operators:
  assumes "boolexpr_crate X"
  shows "(filter_matches X (filter_not X f) ls \<longleftrightarrow> \<not> filter_matches X f ls)
    \<and> (filter_matches X (filter_bitand X f g) ls \<longleftrightarrow> filter_matches X f ls \<and> filter_matches X g ls)
    \<and> (filter_matches X (filter_bitor X f g) ls \<longleftrightarrow> filter_matches X f ls \<or> filter_matches X g ls)
    \<and> (filter_matches X (LabelFilter_from l) ls \<longleftrightarrow> label_name l \<in> label_name ` set ls)
    \<and> filter_matches X f ls = matches_names X f (map label_name ls)"
  unfolding boolexpr_crate.matches_ops [OF assms]
  by (simp add: boolexpr_crate.matches_sem [OF assms] boolexpr_crate.matches_names_sem [OF assms]
      LabelFilter_from_def)

theorem label_filter_operators_witness:
  "filter_matches ref_boolexpr (filter_not ref_boolexpr demo_filter) [\<lparr>label_name = ''fast''\<rparr>]
   \<and> \<not> filter_matches ref_boolexpr demo_filter [\<lparr>label_name = ''fast''\<rparr>]"
proof -
  have "\<not> filter_matches ref_boolexpr demo_filter [\<lparr>label_name = ''fast''\<rparr>]" by code_simp
  then show ?thesis
    using label_filter_operators [OF ref.boolexpr_crate_axioms, of demo_filter "[\<lparr>label_name = ''fast''\<rparr>]"]
    by simp
qed

text \<open>
  The constant tests are exact.  A parsed filter is reported a tautology (a contradiction)
  exactly when every (no) label set satisfies it.
\<close>

theorem label_filter_constants:
  assumes "boolexpr_crate X" "LabelFilter_parse X s = Inr f"
  shows "(is_tautology f \<longleftrightarrow> (\<forall>names. matches_names X f names))
    \<and> (is_contradiction f \<longleftrightarrow> (\<forall>names. \<not> matches_names X f names))"
  using boolexpr_crate.tautology_iff [OF assms(1)] boolexpr_crate.contradiction_iff [OF assms(1)]
    boolexpr_crate.filter_ok_parse [OF assms] by blast

theorem label_filter_constants_witness:
  "LabelFilter_parse ref_boolexpr ''x | !X'' = Inr \<lparr>filter_expr = EConst True\<rparr>
   \<and> is_tautology \<lparr>filter_expr = EConst True\<rparr>
   \<and> (\<forall>names. matches_names ref_boolexpr \<lparr>filter_expr = EConst True\<rparr> names)"
proof -
  have "parse_raw_label_expr ''x | !X'' = Inr (EOr (ETerminal ''x'') (ENot (ETerminal ''x'')))"
    by (simp add: parser_eval cong: peg_weak_congs)
  then have "LabelFilter_parse ref_boolexpr ''x | !X'' = Inr \<lparr>filter_expr = EConst True\<rparr>"
    by (simp add: LabelFilter_parse_def parse_label_expr_def ref.canonicalize_Const_iff)
  from label_filter_constants [OF ref.boolexpr_crate_axioms this] this show ?thesis
    by (simp add: is_tautology_def)
qed

text \<open>
  A selection keeps the names as written.  The filter is the parsed one, and the names are
  the sorted, duplicate-free terminals of the raw expression, even those canonicalization cancels.
\<close>

theorem label_selection_parse:
  "(case LabelSelection_parse X s of
      Inl e \<Rightarrow> LabelFilter_parse X s = Inl e
    | Inr sel \<Rightarrow> LabelFilter_parse X s = Inr (sel_filter sel)
        \<and> sorted (sel_names sel) \<and> distinct (sel_names sel)
        \<and> (\<exists>raw. parse_raw_label_expr s = Inr raw \<and> set (sel_names sel) = set (collect_terminals raw)))"
  by (cases "parse_raw_label_expr s")
     (auto simp: LabelSelection_parse_def LabelFilter_parse_def parse_label_expr_def
        sorted_dedup_distinct)

end
