(* ===== verification/Fixture_Graph.thy ===== *)
theory Fixture_Graph
  imports Label
begin

text \<open>
  The fixture registry and its dependency graph (\<open>src/src/fixture.rs\<close>): scopes,
  definitions, registration with its duplicate check, the validation of dependencies, scopes
  and cycles, and the pre-order walk the collectors are built on.

  A \<open>HashMap\<close> is an association list with distinct keys, in its iteration order.  The
  two recursive searches run on fuel; \<open>detect_cycle_total\<close> and \<open>walk_all_total\<close> show
  that one unit per registered fixture, plus one, is enough.
\<close>

datatype fixture_scope = Variable | Test | Process

fun scope_rank :: "fixture_scope \<Rightarrow> nat" where
  "scope_rank Variable = 0" | "scope_rank Test = 1" | "scope_rank Process = 2"

instantiation fixture_scope :: linorder
begin

definition less_eq_fixture_scope :: "fixture_scope \<Rightarrow> fixture_scope \<Rightarrow> bool" where
  "less_eq_fixture_scope a b \<longleftrightarrow> scope_rank a \<le> scope_rank b"

definition less_fixture_scope :: "fixture_scope \<Rightarrow> fixture_scope \<Rightarrow> bool" where
  "less_fixture_scope a b \<longleftrightarrow> scope_rank a < scope_rank b"

instance
proof
  fix x y :: fixture_scope
  show "x \<le> y \<Longrightarrow> y \<le> x \<Longrightarrow> x = y"
    by (cases x; cases y) (simp_all add: less_eq_fixture_scope_def)
qed (auto simp: less_eq_fixture_scope_def less_fixture_scope_def)

end

text \<open>\<open>Requirement\<close> is a probe the runner calls; here it is its name and what the probe answers.\<close>

record requirement =
  req_name :: str
  req_check :: "(str, unit) result"

record fixture_def =
  fx_name :: str
  fx_scope :: fixture_scope
  fx_requires :: "requirement list"
  fx_deps :: "str list"
  fx_labels :: "label list"
  fx_type_name :: str
  fx_serial :: str

type_synonym registry = "(str \<times> fixture_def) list"

datatype fixture_panic =
    Duplicate_fixture str str str
  | Dep_not_registered str str
  | Scope_violation str fixture_scope str fixture_scope
  | Dependency_cycle str
  | Unregistered_dep str str
  | Out_of_fuel

section \<open>Registration\<close>

definition registry_insert :: "fixture_def \<Rightarrow> registry \<Rightarrow> (fixture_panic, registry) result" where
  "registry_insert def m = (case map_of m (fx_name def) of
       Some prev \<Rightarrow> Inl (Duplicate_fixture (fx_name def) (fx_type_name prev) (fx_type_name def))
     | None \<Rightarrow> Inr (m @ [(fx_name def, def)]))"

definition check_dep :: "registry \<Rightarrow> fixture_def \<Rightarrow> str \<Rightarrow> unit \<Rightarrow> (fixture_panic, unit) result" where
  "check_dep registry def dep_name _ = (case map_of registry dep_name of
       None \<Rightarrow> Inl (Dep_not_registered (fx_name def) dep_name)
     | Some dep \<Rightarrow> if fx_scope dep < fx_scope def
         then Inl (Scope_violation (fx_name def) (fx_scope def) dep_name (fx_scope dep))
         else Inr ())"

text \<open>The state of the search is the pair of the sets \<open>visiting\<close> and \<open>visited\<close>.\<close>

primrec detect_cycle :: "nat \<Rightarrow> registry \<Rightarrow> str \<Rightarrow> str set \<times> str set
    \<Rightarrow> (fixture_panic, str set \<times> str set) result" where
  "detect_cycle 0 registry nm st = Inl Out_of_fuel"
| "detect_cycle (Suc n) registry nm st = (case st of (visiting, visited) \<Rightarrow>
     if nm \<in> visited then Inr (visiting, visited)
     else if nm \<in> visiting then Inl (Dependency_cycle nm)
     else
       let st' = (insert nm visiting, visited) in
       case (case map_of registry nm of
               Some def \<Rightarrow> for_each (detect_cycle n registry) (fx_deps def) st'
             | None \<Rightarrow> Inr st') of
         Inl e \<Rightarrow> Inl e
       | Inr (visiting', visited') \<Rightarrow> Inr (visiting' - {nm}, insert nm visited'))"

definition validate_fixture_graph :: "registry \<Rightarrow> (fixture_panic, unit) result" where
  "validate_fixture_graph registry =
     result_bind
       (for_each (\<lambda>def. for_each (check_dep registry def) (fx_deps def)) (map snd registry) ())
       (\<lambda>_. for_each (\<lambda>nm _. map_sum id (\<lambda>_. ())
                      (detect_cycle (length registry + 2) registry nm ({}, {})))
              (map fst registry) ())"

text \<open>\<open>iter\<close> is the order a \<open>HashMap\<close> with these entries iterates in.\<close>

definition fixture_registry ::
    "(registry \<Rightarrow> registry) \<Rightarrow> fixture_def list \<Rightarrow> (fixture_panic, registry) result" where
  "fixture_registry iter defs =
     result_bind (for_each registry_insert defs []) (\<lambda>m.
     result_bind (validate_fixture_graph (iter m)) (\<lambda>_. Inr (iter m)))"

section \<open>Walking\<close>

text \<open>
  The state of the walk is the list of names visited so far, in order, and the definitions
  handed to the visitor.  \<open>debug\<close> is \<open>debug_assertions\<close>.
\<close>

primrec walk :: "nat \<Rightarrow> bool \<Rightarrow> registry \<Rightarrow> str option \<Rightarrow> str \<Rightarrow> str list \<times> fixture_def list
    \<Rightarrow> (fixture_panic, str list \<times> fixture_def list) result" where
  "walk 0 debug registry dependent nm st = Inl Out_of_fuel"
| "walk (Suc n) debug registry dependent nm st = (case st of (visited, out) \<Rightarrow>
     if nm \<in> set visited then Inr (visited, out)
     else
       let visited' = visited @ [nm] in
       case map_of registry nm of
         None \<Rightarrow> (case dependent of
             Some d \<Rightarrow> if debug then Inl (Unregistered_dep d nm) else Inr (visited', out)
           | None \<Rightarrow> Inr (visited', out))
       | Some def \<Rightarrow>
           for_each (walk n debug registry (Some (fx_name def))) (fx_deps def) (visited', out @ [def]))"

definition walk_fixture_deps_in ::
    "bool \<Rightarrow> registry \<Rightarrow> str list \<Rightarrow> (fixture_panic, fixture_def list) result" where
  "walk_fixture_deps_in debug registry names =
     map_sum id snd (for_each (walk (length registry + 2) debug registry None) names ([], []))"

section \<open>The dependency relation\<close>

definition dep_rel :: "registry \<Rightarrow> (str \<times> str) set" where
  "dep_rel reg = {(a, b). \<exists>def. map_of reg a = Some def \<and> b \<in> set (fx_deps def)}"

definition unsafe :: "registry \<Rightarrow> str \<Rightarrow> bool" where
  "unsafe reg x \<longleftrightarrow> (\<exists>y. (x, y) \<in> (dep_rel reg)\<^sup>* \<and> (y, y) \<in> (dep_rel reg)\<^sup>+)"

lemma dep_relI: "map_of reg a = Some def \<Longrightarrow> b \<in> set (fx_deps def) \<Longrightarrow> (a, b) \<in> dep_rel reg"
  by (auto simp: dep_rel_def)

lemma dep_relD: "(a, b) \<in> dep_rel reg \<Longrightarrow> a \<in> fst ` set reg"
  by (auto simp: dep_rel_def dest!: map_of_SomeD intro: rev_image_eqI)

lemma unsafe_step:
  assumes "unsafe reg x"
  shows "\<exists>d. (x, d) \<in> dep_rel reg \<and> unsafe reg d"
proof -
  from assms obtain y where y: "(x, y) \<in> (dep_rel reg)\<^sup>*" "(y, y) \<in> (dep_rel reg)\<^sup>+"
    by (auto simp: unsafe_def)
  then obtain d where "(x, d) \<in> dep_rel reg" "(d, y) \<in> (dep_rel reg)\<^sup>*"
    by (metis converse_rtranclE tranclD)
  with y show ?thesis by (auto simp: unsafe_def)
qed

lemma acyclic_iff_safe: "acyclic (dep_rel reg) \<longleftrightarrow> (\<forall>x \<in> fst ` set reg. \<not> unsafe reg x)"
proof
  show "acyclic (dep_rel reg) \<Longrightarrow> \<forall>x \<in> fst ` set reg. \<not> unsafe reg x"
    by (auto simp: unsafe_def acyclic_def)
next
  assume safe: "\<forall>x \<in> fst ` set reg. \<not> unsafe reg x"
  show "acyclic (dep_rel reg)"
  proof (rule acyclicI, rule allI, rule notI)
    fix x assume x: "(x, x) \<in> (dep_rel reg)\<^sup>+"
    then have "x \<in> fst ` set reg" by (meson tranclD dep_relD)
    with safe x show False by (auto simp: unsafe_def)
  qed
qed

section \<open>Cycle detection\<close>

text \<open>
  What one call of the search promises: with a unit of fuel for each registered fixture not on
  the current path it returns; it reports only real cycles; on success the path is as before
  and the call's name has joined the visited fixtures, none of which reaches a cycle.
\<close>

definition cycle_post :: "registry \<Rightarrow> str \<Rightarrow> str set \<times> str set
    \<Rightarrow> (fixture_panic, str set \<times> str set) result \<Rightarrow> bool" where
  "cycle_post reg nm st res \<longleftrightarrow> (case st of (V, D) \<Rightarrow> case res of
       Inl e \<Rightarrow> (\<exists>m. e = Dependency_cycle m) \<and> \<not> acyclic (dep_rel reg)
     | Inr (V', D') \<Rightarrow> V' = V \<and> insert nm D \<subseteq> D' \<and> (\<forall>x \<in> D'. \<not> unsafe reg x))"

definition cycle_pre :: "registry \<Rightarrow> nat \<Rightarrow> str \<Rightarrow> str set \<times> str set \<Rightarrow> bool" where
  "cycle_pre reg n nm st \<longleftrightarrow> (case st of (V, D) \<Rightarrow>
     card (fst ` set reg - V) < n \<and> (\<forall>v \<in> V. (v, nm) \<in> (dep_rel reg)\<^sup>+) \<and> (\<forall>x \<in> D. \<not> unsafe reg x))"

lemma for_each_cycle:
  assumes "\<And>d D. d \<in> set ds \<Longrightarrow> \<forall>x \<in> D. \<not> unsafe reg x \<Longrightarrow> cycle_post reg d (V, D) (f d (V, D))"
    and "\<forall>x \<in> D. \<not> unsafe reg x"
  shows "case for_each f ds (V, D) of
       Inl e \<Rightarrow> (\<exists>m. e = Dependency_cycle m) \<and> \<not> acyclic (dep_rel reg)
     | Inr (V', D') \<Rightarrow> V' = V \<and> D \<union> set ds \<subseteq> D' \<and> (\<forall>x \<in> D'. \<not> unsafe reg x)"
  using assms
proof (induction ds arbitrary: D)
  case (Cons d ds)
  have post: "cycle_post reg d (V, D) (f d (V, D))" using Cons.prems by simp
  show ?case
  proof (cases "f d (V, D)")
    case (Inl e)
    then show ?thesis using post by (simp add: cycle_post_def)
  next
    case (Inr st)
    then obtain D' where st: "st = (V, D')" "insert d D \<subseteq> D'" "\<forall>x \<in> D'. \<not> unsafe reg x"
      using post by (cases st) (auto simp: cycle_post_def)
    then show ?thesis using Cons.IH [of D'] Cons.prems(1) Inr
      by (fastforce split: sum.splits)
  qed
qed simp

lemma detect_cycle_total:
  "cycle_pre reg n nm st \<Longrightarrow> cycle_post reg nm st (detect_cycle n reg nm st)"
proof (induction n arbitrary: nm st)
  case 0
  then show ?case by (cases st) (simp add: cycle_pre_def)
next
  case (Suc n)
  obtain V D where st: "st = (V, D)" by (cases st)
  have pre: "card (fst ` set reg - V) < Suc n" "\<forall>v \<in> V. (v, nm) \<in> (dep_rel reg)\<^sup>+" "\<forall>x \<in> D. \<not> unsafe reg x"
    using Suc.prems by (simp_all add: cycle_pre_def st)
  consider "nm \<in> D" | "nm \<notin> D" "nm \<in> V" | "nm \<notin> D" "nm \<notin> V" "map_of reg nm = None"
    | def where "nm \<notin> D" "nm \<notin> V" "map_of reg nm = Some def"
    by (cases "map_of reg nm") auto
  then show ?case
  proof cases
    case 1
    then show ?thesis using pre by (auto simp: cycle_post_def st)
  next
    case 2
    then have "\<not> acyclic (dep_rel reg)" using pre(2) by (auto simp: acyclic_def)
    then show ?thesis using 2 by (auto simp: cycle_post_def st)
  next
    case 3
    then have "\<not> unsafe reg nm" using unsafe_step [of reg nm] by (auto simp: dep_rel_def)
    then show ?thesis using 3 pre by (auto simp: cycle_post_def st Let_def)
  next
    case 4
    then have mem: "nm \<in> fst ` set reg" by (force dest: map_of_SomeD)
    have less: "card (fst ` set reg - insert nm V) < n"
    proof -
      have "fst ` set reg - insert nm V \<subset> fst ` set reg - V" using mem 4 by auto
      then have "card (fst ` set reg - insert nm V) < card (fst ` set reg - V)"
        by (intro psubset_card_mono) auto
      then show ?thesis using pre(1) by simp
    qed
    have "cycle_post reg d (insert nm V, D') (detect_cycle n reg d (insert nm V, D'))"
      if d: "d \<in> set (fx_deps def)" and D': "\<forall>x \<in> D'. \<not> unsafe reg x" for d D'
    proof (rule Suc.IH)
      have "(nm, d) \<in> dep_rel reg" using 4(3) d by (rule dep_relI)
      then show "cycle_pre reg n d (insert nm V, D')"
        using less D' pre(2) by (auto simp: cycle_pre_def intro: trancl_into_trancl)
    qed
    from for_each_cycle [where f = "detect_cycle n reg", OF this pre(3)]
    have loop: "case for_each (detect_cycle n reg) (fx_deps def) (insert nm V, D) of
         Inl e \<Rightarrow> (\<exists>m. e = Dependency_cycle m) \<and> \<not> acyclic (dep_rel reg)
       | Inr (V', D') \<Rightarrow> V' = insert nm V \<and> D \<union> set (fx_deps def) \<subseteq> D' \<and> (\<forall>x \<in> D'. \<not> unsafe reg x)" .
    have "\<not> unsafe reg nm" if "set (fx_deps def) \<subseteq> D'" "\<forall>x \<in> D'. \<not> unsafe reg x" for D'
      using that unsafe_step [of reg nm] 4(3) by (auto simp: dep_rel_def)
    with loop 4 show ?thesis
      by (auto simp: cycle_post_def st Let_def split: sum.splits prod.splits)
  qed
qed

section \<open>Validation\<close>

definition deps_ok :: "registry \<Rightarrow> bool" where
  "deps_ok reg \<longleftrightarrow> (\<forall>def \<in> snd ` set reg. \<forall>b \<in> set (fx_deps def).
     \<exists>dep. map_of reg b = Some dep \<and> fx_scope def \<le> fx_scope dep)"

lemma check_deps_ok:
  "for_each (check_dep reg def) ds () = Inr () \<longleftrightarrow>
     (\<forall>b \<in> set ds. \<exists>dep. map_of reg b = Some dep \<and> fx_scope def \<le> fx_scope dep)"
  by (induction ds) (auto simp: check_dep_def not_less split: option.splits)

lemma for_each_unit_ok:
  "for_each f xs () = Inr () \<longleftrightarrow> (\<forall>x \<in> set xs. f x () = Inr ())"
  by (induction xs) (auto split: sum.splits)

lemma detect_cycle_top:
  "(case detect_cycle (length reg + 2) reg nm ({}, {}) of
      Inl e \<Rightarrow> (\<exists>m. e = Dependency_cycle m) \<and> \<not> acyclic (dep_rel reg)
    | Inr _ \<Rightarrow> \<not> unsafe reg nm)"
proof -
  have "card (fst ` set reg) \<le> length reg" by (metis card_length length_map set_map)
  then have "cycle_pre reg (length reg + 2) nm ({}, {})" by (simp add: cycle_pre_def)
  from detect_cycle_total [OF this] show ?thesis
    by (auto simp: cycle_post_def split: sum.splits)
qed

lemma validate_fixture_graph_iff:
  "validate_fixture_graph reg = Inr () \<longleftrightarrow> deps_ok reg \<and> acyclic (dep_rel reg)"
proof -
  let ?loop = "for_each (\<lambda>nm _. map_sum id (\<lambda>_. ())
      (detect_cycle (length reg + 2) reg nm ({}, {}))) (map fst reg) ()"
  have one: "map_sum id (\<lambda>_. ()) (detect_cycle (length reg + 2) reg nm ({}, {})) = Inr ()
      \<Longrightarrow> \<not> unsafe reg nm" for nm
    using detect_cycle_top [of reg nm] by (cases "detect_cycle (length reg + 2) reg nm ({}, {})") auto
  have two: "acyclic (dep_rel reg) \<Longrightarrow>
      map_sum id (\<lambda>_. ()) (detect_cycle (length reg + 2) reg nm ({}, {})) = Inr ()" for nm
    using detect_cycle_top [of reg nm] by (cases "detect_cycle (length reg + 2) reg nm ({}, {})") auto
  have cyc: "?loop = Inr () \<longleftrightarrow> acyclic (dep_rel reg)"
    unfolding for_each_unit_ok using one two acyclic_iff_safe [of reg] by auto
  have dep: "for_each (\<lambda>def. for_each (check_dep reg def) (fx_deps def)) (map snd reg) () = Inr ()
      \<longleftrightarrow> deps_ok reg"
    by (subst for_each_unit_ok) (simp add: check_deps_ok deps_ok_def)
  show ?thesis
    using cyc dep unfolding validate_fixture_graph_def
    by (cases "for_each (\<lambda>def. for_each (check_dep reg def) (fx_deps def)) (map snd reg) ()") auto
qed

lemma registry_insert_all:
  "for_each registry_insert defs m = Inr r \<longleftrightarrow>
     r = m @ map (\<lambda>d. (fx_name d, d)) defs \<and> distinct (map fx_name defs)
     \<and> fst ` set m \<inter> fx_name ` set defs = {}"
proof (induction defs arbitrary: m)
  case (Cons d ds)
  show ?case
  proof (cases "map_of m (fx_name d)")
    case None
    then have "fx_name d \<notin> fst ` set m" by (simp add: map_of_eq_None_iff)
    then show ?thesis using None Cons [of "m @ [(fx_name d, d)]"]
      by (auto simp: registry_insert_def)
  next
    case (Some p)
    then have "fx_name d \<in> fst ` set m" by (force dest: map_of_SomeD)
    then show ?thesis using Some by (auto simp: registry_insert_def)
  qed
qed auto

text \<open>A registry that passed its checks: distinct names, known and scoped dependencies, no cycle.\<close>

definition registry_ok :: "registry \<Rightarrow> bool" where
  "registry_ok reg \<longleftrightarrow> distinct (map fst reg) \<and> (\<forall>(k, d) \<in> set reg. fx_name d = k)
     \<and> deps_ok reg \<and> acyclic (dep_rel reg)"

section \<open>The walk\<close>

text \<open>The unfolding of the graph below a name, in pre-order, with repetitions.\<close>

primrec preorder :: "nat \<Rightarrow> registry \<Rightarrow> str \<Rightarrow> str list" where
  "preorder 0 reg nm = []"
| "preorder (Suc n) reg nm = nm # (case map_of reg nm of None \<Rightarrow> []
     | Some def \<Rightarrow> concat (map (preorder n reg) (fx_deps def)))"

definition lookups :: "registry \<Rightarrow> str list \<Rightarrow> fixture_def list" where
  "lookups reg names = List.map_filter (map_of reg) names"

definition below :: "registry \<Rightarrow> str \<Rightarrow> str set" where
  "below reg nm = (dep_rel reg)\<^sup>* `` {nm}"

definition walk_inv :: "registry \<Rightarrow> str \<Rightarrow> str list \<Rightarrow> bool" where
  "walk_inv reg nm vis \<longleftrightarrow> (\<forall>v \<in> set vis. (v, nm) \<in> (dep_rel reg)\<^sup>+ \<or> below reg v \<subseteq> set vis)"

lemma lookups_simps [simp]:
  "lookups reg [] = []"
  "lookups reg (x # xs) = (case map_of reg x of None \<Rightarrow> [] | Some d \<Rightarrow> [d]) @ lookups reg xs"
  "lookups reg (xs @ ys) = lookups reg xs @ lookups reg ys"
  by (auto simp: lookups_def List.map_filter_def split: option.splits)

lemma below_self [simp]: "nm \<in> below reg nm"
  by (simp add: below_def)

lemma below_step: "(nm, d) \<in> dep_rel reg \<Longrightarrow> below reg d \<subseteq> below reg nm"
  by (auto simp: below_def intro: converse_rtrancl_into_rtrancl)

lemma below_unfold: "below reg nm = insert nm (\<Union>d \<in> {d. (nm, d) \<in> dep_rel reg}. below reg d)"
  by (auto simp: below_def intro: converse_rtrancl_into_rtrancl elim: converse_rtranclE)

lemma below_registered:
  "map_of reg nm = Some def \<Longrightarrow> below reg nm = insert nm (\<Union>d \<in> set (fx_deps def). below reg d)"
  by (subst below_unfold) (auto simp: dep_rel_def)

lemma below_unregistered: "map_of reg nm = None \<Longrightarrow> below reg nm = {nm}"
  by (subst below_unfold) (auto simp: dep_rel_def)

lemma preorder_below: "set (preorder n reg nm) \<subseteq> below reg nm"
proof (induction n arbitrary: nm)
  case (Suc n)
  then show ?case
    by (cases "map_of reg nm") (fastforce simp: below_unregistered below_registered)+
qed simp

lemma push_unique_absorb: "set src \<subseteq> set dst \<Longrightarrow> push_unique dst src = dst"
  by (induction dst src rule: push_unique.induct) auto

lemma push_unique_ext: "\<exists>ext. push_unique dst src = dst @ ext"
  using push_unique_prefix [of dst src] by (auto simp: prefix_def)

lemma below_count_step:
  assumes "acyclic (dep_rel reg)" "map_of reg nm = Some def" "d \<in> set (fx_deps def)"
  shows "card (below reg d \<inter> fst ` set reg) < card (below reg nm \<inter> fst ` set reg)"
proof (rule psubset_card_mono)
  have e: "(nm, d) \<in> dep_rel reg" using assms(2,3) by (rule dep_relI)
  have "nm \<notin> below reg d"
    using assms(1) e by (auto simp: below_def acyclic_def dest: rtrancl_into_trancl2)
  moreover have "nm \<in> fst ` set reg" using assms(2) by (force dest: map_of_SomeD)
  ultimately show "below reg d \<inter> fst ` set reg \<subset> below reg nm \<inter> fst ` set reg"
    using below_step [OF e] below_self [of nm reg] by blast
qed simp

text \<open>What a call of \<open>walk\<close> yields from the visited names \<open>vis\<close>.\<close>

definition walk_post :: "registry \<Rightarrow> str list \<Rightarrow> str list \<Rightarrow> fixture_def list
    \<Rightarrow> (fixture_panic, str list \<times> fixture_def list) result \<Rightarrow> bool" where
  "walk_post reg names vis out res \<longleftrightarrow> (\<exists>ext. res = Inr (vis @ ext, out @ lookups reg ext)
     \<and> push_unique vis names = vis @ ext \<and> (\<forall>v \<in> set ext. below reg v \<subseteq> set (vis @ ext)))"

lemma for_each_walk:
  assumes "\<And>d vis out. d \<in> set ds \<Longrightarrow> walk_inv reg d vis \<Longrightarrow>
       card (fst ` set reg - set vis) < n \<Longrightarrow> walk_post reg (pre d) vis out (f d (vis, out))"
    and "\<And>d. d \<in> set ds \<Longrightarrow> walk_inv reg d vis" "card (fst ` set reg - set vis) < n"
  shows "walk_post reg (concat (map pre ds)) vis out (for_each f ds (vis, out))"
  using assms
proof (induction ds arbitrary: vis out)
  case Nil
  then show ?case by (simp add: walk_post_def)
next
  case (Cons d ds)
  have "walk_post reg (pre d) vis out (f d (vis, out))" using Cons.prems by simp
  then obtain ext where ext: "f d (vis, out) = Inr (vis @ ext, out @ lookups reg ext)"
      "push_unique vis (pre d) = vis @ ext" "\<forall>v \<in> set ext. below reg v \<subseteq> set (vis @ ext)"
    by (auto simp: walk_post_def)
  have "walk_inv reg d' (vis @ ext)" if "d' \<in> set ds" for d'
    using Cons.prems(2) [of d'] that ext(3) by (fastforce simp: walk_inv_def)
  moreover have "card (fst ` set reg - set (vis @ ext)) < n"
    using Cons.prems(3) card_mono [of "fst ` set reg - set vis" "fst ` set reg - set (vis @ ext)"]
    by fastforce
  ultimately have "walk_post reg (concat (map pre ds)) (vis @ ext) (out @ lookups reg ext)
      (for_each f ds (vis @ ext, out @ lookups reg ext))"
    using Cons.prems(1) by (intro Cons.IH) auto
  then obtain ext' where "for_each f ds (vis @ ext, out @ lookups reg ext)
        = Inr ((vis @ ext) @ ext', (out @ lookups reg ext) @ lookups reg ext')"
      "push_unique (vis @ ext) (concat (map pre ds)) = (vis @ ext) @ ext'"
      "\<forall>v \<in> set ext'. below reg v \<subseteq> set ((vis @ ext) @ ext')"
    by (auto simp: walk_post_def)
  with ext show ?case
    unfolding walk_post_def
    by (intro exI [of _ "ext @ ext'"]) (auto simp: push_unique_append)
qed

lemma walk_total:
  assumes ac: "acyclic (dep_rel reg)" and deps: "deps_ok reg"
  shows "walk_inv reg nm vis \<Longrightarrow> card (fst ` set reg - set vis) < n \<Longrightarrow>
    card (below reg nm \<inter> fst ` set reg) < m \<Longrightarrow> dependent = None \<or> map_of reg nm \<noteq> None \<Longrightarrow>
    walk_post reg (preorder m reg nm) vis out (walk n debug reg dependent nm (vis, out))"
proof (induction n arbitrary: nm vis out m dependent)
  case (Suc n)
  obtain m' where m: "m = Suc m'" using Suc.prems(3) by (cases m) auto
  consider "nm \<in> set vis" | "nm \<notin> set vis" "map_of reg nm = None"
    | def where "nm \<notin> set vis" "map_of reg nm = Some def" by (cases "map_of reg nm") auto
  then show ?case
  proof cases
    case 1
    then have "below reg nm \<subseteq> set vis" using Suc.prems(1) ac by (auto simp: walk_inv_def acyclic_def)
    then show ?thesis using 1 preorder_below [of m reg nm]
      by (simp add: walk_post_def push_unique_absorb)
  next
    case 2
    then have "dependent = None" using Suc.prems(4) by simp
    then show ?thesis using 2 unfolding walk_post_def m
      by (intro exI [of _ "[nm]"]) (simp add: below_unregistered)
  next
    case 3
    let ?vis = "vis @ [nm]"
    have mem: "nm \<in> fst ` set reg" and val: "def \<in> snd ` set reg"
      using 3 by (force dest: map_of_SomeD)+
    have "fst ` set reg - set ?vis \<subset> fst ` set reg - set vis" using mem 3 by auto
    then have "card (fst ` set reg - set ?vis) < card (fst ` set reg - set vis)"
      by (intro psubset_card_mono) auto
    then have fuel: "card (fst ` set reg - set ?vis) < n" using Suc.prems(2) by simp
    have inv: "walk_inv reg d ?vis" if "d \<in> set (fx_deps def)" for d
    proof -
      have e: "(nm, d) \<in> dep_rel reg" using 3(2) that by (rule dep_relI)
      then show ?thesis using Suc.prems(1)
        by (fastforce simp: walk_inv_def intro: trancl_into_trancl)
    qed
    have "walk_post reg (preorder m' reg d) v' out' (walk n debug reg (Some (fx_name def)) d (v', out'))"
      if "d \<in> set (fx_deps def)" "walk_inv reg d v'" "card (fst ` set reg - set v') < n" for d v' out'
    proof (rule Suc.IH [OF that(2,3)])
      show "card (below reg d \<inter> fst ` set reg) < m'"
        using below_count_step [OF ac 3(2) that(1)] Suc.prems(3) m by simp
      show "Some (fx_name def) = None \<or> map_of reg d \<noteq> None"
        using deps val that(1) by (auto simp: deps_ok_def)
    qed
    from for_each_walk [where f = "walk n debug reg (Some (fx_name def))", OF this inv fuel]
    obtain ext where ext: "for_each (walk n debug reg (Some (fx_name def))) (fx_deps def) (?vis, out @ [def])
          = Inr (?vis @ ext, (out @ [def]) @ lookups reg ext)"
        "push_unique ?vis (concat (map (preorder m' reg) (fx_deps def))) = ?vis @ ext"
        "\<forall>v \<in> set ext. below reg v \<subseteq> set (?vis @ ext)"
      unfolding walk_post_def by blast
    have "below reg d \<subseteq> set (?vis @ ext)" if "d \<in> set (fx_deps def)" for d
    proof -
      have "d \<in> set (?vis @ ext)"
        unfolding ext(2) [symmetric] using that below_count_step [OF ac 3(2) that] Suc.prems(3) m
        by (cases m') (auto intro!: bexI [of _ d])
      moreover have "d \<noteq> nm" using dep_relI [OF 3(2) that] ac by (auto simp: acyclic_def)
      moreover have "(d, d) \<notin> (dep_rel reg)\<^sup>+" using ac by (simp add: acyclic_def)
      moreover have "(d, nm) \<notin> (dep_rel reg)\<^sup>+"
        using dep_relI [OF 3(2) that] ac by (auto simp: acyclic_def intro: trancl_into_trancl)
      ultimately show ?thesis
        using ext(3) Suc.prems(1) by (fastforce simp: walk_inv_def)
    qed
    then have "below reg nm \<subseteq> set (?vis @ ext)" using below_registered [OF 3(2)] by auto
    then show ?thesis using 3 ext unfolding walk_post_def m
      by (intro exI [of _ "nm # ext"]) (auto simp: Let_def)
  qed
qed simp

text \<open>The full walk, from no visited names.\<close>

definition walk_order :: "registry \<Rightarrow> str list \<Rightarrow> str list" where
  "walk_order reg names = push_unique [] (concat (map (preorder (length reg + 2) reg) names))"

lemma walk_all_total:
  assumes "acyclic (dep_rel reg)" "deps_ok reg"
  shows "walk_fixture_deps_in debug reg names = Inr (lookups reg (walk_order reg names))
    \<and> set (walk_order reg names) = (\<Union>nm \<in> set names. below reg nm)"
proof -
  have card: "card A < length reg + 2" if "A \<subseteq> fst ` set reg" for A
  proof -
    have "card (fst ` set reg) \<le> length reg" by (metis card_length length_map set_map)
    with card_mono [OF _ that] show ?thesis by force
  qed
  have "walk_post reg (concat (map (preorder (length reg + 2) reg) names)) [] []
      (for_each (walk (length reg + 2) debug reg None) names ([], []))"
  proof (rule for_each_walk [where n = "length reg + 2"])
    show "walk_post reg (preorder (length reg + 2) reg d) vis out
        (walk (length reg + 2) debug reg None d (vis, out))"
      if "walk_inv reg d vis" "card (fst ` set reg - set vis) < length reg + 2" for d vis out
      by (rule walk_total [OF assms that card]) auto
  qed (simp_all only: walk_inv_def list.set ball_empty Diff_empty card order.refl)
  then obtain ext where ext: "for_each (walk (length reg + 2) debug reg None) names ([], [])
        = Inr (ext, lookups reg ext)" "walk_order reg names = ext"
      "\<forall>v \<in> set ext. below reg v \<subseteq> set ext"
    by (auto simp: walk_post_def walk_order_def)
  have "nm \<in> set (preorder (length reg + 2) reg nm)" for nm by (simp add: numeral_2_eq_2)
  then have "set names \<subseteq> set ext"
    unfolding ext(2) [symmetric] walk_order_def push_unique_set by (auto simp del: preorder.simps)
  moreover have "set ext \<subseteq> (\<Union>nm \<in> set names. below reg nm)"
    using preorder_below [of "length reg + 2" reg] unfolding ext(2) [symmetric] walk_order_def push_unique_set
    by (auto simp del: preorder.simps)
  ultimately have "set ext = (\<Union>nm \<in> set names. below reg nm)" using ext(3) by blast
  with ext show ?thesis by (simp add: walk_fixture_deps_in_def)
qed

lemma lookups_names:
  assumes "\<forall>(k, d) \<in> set reg. fx_name d = k"
  shows "map fx_name (lookups reg names) = filter (\<lambda>n. n \<in> fst ` set reg) names"
proof (induction names)
  case (Cons n names)
  show ?case
  proof (cases "map_of reg n")
    case None
    then have "n \<notin> fst ` set reg" by (simp add: map_of_eq_None_iff)
    then show ?thesis using Cons None by simp
  next
    case (Some d)
    then have "(n, d) \<in> set reg" by (rule map_of_SomeD)
    then show ?thesis using Cons Some assms by force
  qed
qed simp

lemma lookups_mem: "d \<in> set (lookups reg names) \<longleftrightarrow> (\<exists>n \<in> set names. map_of reg n = Some d)"
  by (induction names) (auto split: option.splits)

section \<open>Properties\<close>

text \<open>
  C28: the startup validation of the fixture graph accepts exactly the registries in which every
  dependency is registered with the same or a wider scope and no fixture depends on itself
  through any chain.  The search always returns: it never runs out of fuel.
\<close>

theorem validate_fixture_graph_exact:
  "validate_fixture_graph reg = Inr () \<longleftrightarrow>
     (\<forall>def \<in> snd ` set reg. \<forall>b \<in> set (fx_deps def).
        \<exists>dep. map_of reg b = Some dep \<and> fx_scope def \<le> fx_scope dep)
     \<and> (\<forall>x. (x, x) \<notin> (dep_rel reg)\<^sup>+)"
  by (simp add: validate_fixture_graph_iff deps_ok_def acyclic_def)

definition demo_fixture :: "str \<Rightarrow> fixture_scope \<Rightarrow> str list \<Rightarrow> fixture_def" where
  "demo_fixture nm scope deps = \<lparr>fx_name = nm, fx_scope = scope, fx_requires = [], fx_deps = deps,
     fx_labels = [\<lparr>label_name = nm\<rparr>], fx_type_name = nm, fx_serial = nm\<rparr>"

definition demo_registry :: registry where
  "demo_registry = map (\<lambda>d. (fx_name d, d))
     [demo_fixture ''app'' Variable [''db'', ''net''], demo_fixture ''db'' Test [''net''],
      demo_fixture ''net'' Process []]"

lemma demo_registry_valid: "validate_fixture_graph demo_registry = Inr ()"
  by code_simp

theorem validate_fixture_graph_exact_witness:
  "(''app'', ''app'') \<notin> (dep_rel demo_registry)\<^sup>+
   \<and> validate_fixture_graph [(''a'', demo_fixture ''a'' Test [''b'']), (''b'', demo_fixture ''b'' Test [''a''])]
     = Inl (Dependency_cycle ''a'')"
proof
  show "(''app'', ''app'') \<notin> (dep_rel demo_registry)\<^sup>+"
    using validate_fixture_graph_exact [of demo_registry] demo_registry_valid by blast
qed code_simp

text \<open>
  The fixture walk visits every registered fixture reachable from the names once, and its
  order is that of the pre-order unfolding of the graph with later repetitions dropped.  It
  returns without panicking on every validated registry, also in debug builds.
\<close>

theorem walk_fixture_deps_in_preorder:
  assumes "validate_fixture_graph reg = Inr ()" "\<forall>(k, d) \<in> set reg. fx_name d = k"
  shows "\<exists>defs. walk_fixture_deps_in debug reg names = Inr defs
    \<and> map fx_name defs = filter (\<lambda>n. n \<in> fst ` set reg)
        (push_unique [] (concat (map (preorder (length reg + 2) reg) names)))
    \<and> distinct (map fx_name defs)
    \<and> set (map fx_name defs) = (dep_rel reg)\<^sup>* `` set names \<inter> fst ` set reg"
proof -
  from assms(1) have ok: "acyclic (dep_rel reg)" "deps_ok reg" by (simp_all add: validate_fixture_graph_iff)
  note w = walk_all_total [OF ok, of debug names]
  have "distinct (walk_order reg names)" by (simp add: walk_order_def push_unique_distinct)
  moreover have "(\<Union>nm \<in> set names. below reg nm) = (dep_rel reg)\<^sup>* `` set names"
    by (auto simp: below_def)
  ultimately show ?thesis
    using w lookups_names [OF assms(2)] by (auto simp: walk_order_def simp flip: set_map)
qed

theorem walk_fixture_deps_in_preorder_witness:
  "\<exists>defs. walk_fixture_deps_in True demo_registry [''app'', ''missing''] = Inr defs
     \<and> map fx_name defs = [''app'', ''db'', ''net'']"
proof -
  have names: "\<forall>(k, d) \<in> set demo_registry. fx_name d = k" by (simp add: demo_registry_def)
  have "filter (\<lambda>n. n \<in> fst ` set demo_registry) (push_unique []
      (concat (map (preorder (length demo_registry + 2) demo_registry) [''app'', ''missing''])))
    = [''app'', ''db'', ''net'']" by code_simp
  with walk_fixture_deps_in_preorder [OF demo_registry_valid names, of True "[''app'', ''missing'']"]
  show ?thesis by auto
qed

end
