(* ===== verification/Label_Compose.thy ===== *)
theory Label_Compose
  imports Label_Roundtrip
begin

text \<open>
  Composition of filter texts: if \<open>a\<close> and \<open>b\<close> parse, then \<open>(a) | (b)\<close> parses to the
  disjunction of the two expressions.  The argument is locality: what a rule reads does
  not change when a closing parenthesis and more text follow, or when more fuel is given.
\<close>

definition closed_by :: "str \<Rightarrow> bool" where
  "closed_by x \<longleftrightarrow> (\<exists>y. x = CHR '')'' # y)"

definition local_to :: "str \<Rightarrow> (str \<Rightarrow> bool) \<Rightarrow> (str \<Rightarrow> pair peg) \<Rightarrow> (str \<Rightarrow> pair peg) \<Rightarrow> bool" where
  "local_to x ok P P' \<longleftrightarrow> (\<forall>s t r. P s = Matched t r \<longrightarrow> ok r \<longrightarrow> P' (s @ x) = Matched t (r @ x))"

abbreviation no_ops :: "str \<Rightarrow> bool" where
  "no_ops r \<equiv> no_sep ''&'' r \<and> no_sep ''|'' r"

lemma local_toD: "local_to x ok P P' \<Longrightarrow> P s = Matched t r \<Longrightarrow> ok r \<Longrightarrow> P' (s @ x) = Matched t (r @ x)"
  by (auto simp: local_to_def)

lemma closing_not_ident [simp]: "\<not> ident_byte CHR '')''" "\<not> is_whitespace CHR '')''"
  by (simp_all add: ident_byte_def is_whitespace_def rust_def)

lemma skip_closed: "closed_by x \<Longrightarrow> skip (s @ x) = skip s @ x"
  by (induction s) (auto simp: closed_by_def skip_def)

lemma span_app [simp]: "span (s @ x) (r @ x) = span s r"
  by (simp add: span_def)

lemma no_sep_closed: "closed_by x \<Longrightarrow> no_sep [c] r \<Longrightarrow> c \<noteq> CHR '')'' \<Longrightarrow> no_sep [c] (r @ x)"
  by (cases "skip r") (auto simp: no_sep_def skip_closed starts_with_def closed_by_def)

lemma peg_lit_closed: "peg_lit lit s = Matched () r \<Longrightarrow> peg_lit lit (s @ x) = Matched () (r @ x)"
  by (auto simp: peg_lit_Matched)

lemma peg_lit_no: "peg_lit [c] (skip r) = No_match \<longleftrightarrow> no_sep [c] r"
  by (auto simp: peg_lit_def no_sep_def strip_prefix_def)

lemma peg_then_Matched:
  "peg_then p f = Matched t r \<longleftrightarrow> (\<exists>x s. p = Matched x s \<and> f x s = Matched t r)"
  by (cases p) auto

lemma cut_closed:
  "closed_by x \<Longrightarrow> takeWhile ident_byte (cs @ x) = takeWhile ident_byte cs"
  "closed_by x \<Longrightarrow> dropWhile ident_byte (cs @ x) = dropWhile ident_byte cs @ x"
  by (induction cs) (auto simp: closed_by_def)

lemma rule_label_local:
  assumes "closed_by x" "rule_label s = Matched t r"
  shows "rule_label (s @ x) = Matched t (r @ x)"
  using assms(2) by (auto simp: rule_label_def cut_closed [OF assms(1)] split: list.splits if_splits)

lemma match_insensitive_closed:
  assumes "closed_by x" "list_all label_byte (to_ascii_lowercase lit)"
  shows "match_insensitive lit (s @ x) = map_option (\<lambda>r. r @ x) (match_insensitive lit s)"
proof (cases "match_insensitive lit s")
  case (Some r)
  then obtain p where "s = p @ r" "to_ascii_lowercase p = to_ascii_lowercase lit"
    by (auto simp: match_insensitive_Some)
  then have "match_insensitive lit (s @ x) = Some (r @ x)" by (auto simp: match_insensitive_Some)
  then show ?thesis using Some by simp
next
  case None
  have "match_insensitive lit (s @ x) = None"
  proof (rule ccontr)
    assume "match_insensitive lit (s @ x) \<noteq> None"
    then obtain r p where p: "s @ x = p @ r" "to_ascii_lowercase p = to_ascii_lowercase lit"
      by (auto simp: match_insensitive_Some)
    then consider q where "s = p @ q" | q where "p = s @ q" "q \<noteq> []" "x = q @ r"
      by (metis append_eq_append_conv2 append_Nil2)
    then show False
    proof cases
      case 1
      then have "match_insensitive lit s = Some q" using p(2) by (auto simp: match_insensitive_Some)
      then show False using None by simp
    next
      case 2
      then have "CHR '')'' \<in> set p" using assms(1) by (cases q) (auto simp: closed_by_def)
      then have "lower_byte CHR '')'' \<in> set (to_ascii_lowercase p)" by (simp add: to_ascii_lowercase_def)
      then have "lower_byte CHR '')'' \<in> set (to_ascii_lowercase lit)" using p(2) by simp
      then have "label_byte (lower_byte CHR '')'')" using assms(2) unfolding list_all_iff by blast
      then show False by (simp add: rust_def label_byte_def)
    qed
  qed
  then show ?thesis using None by simp
qed

lemma rule_bool_lit_local:
  assumes "closed_by x"
  shows "rule_bool_lit (s @ x) = (case rule_bool_lit s of Matched t r \<Rightarrow> Matched t (r @ x) | p \<Rightarrow> p)"
proof -
  have lit: "list_all label_byte (to_ascii_lowercase ''true'')" "list_all label_byte (to_ascii_lowercase ''false'')"
    by (simp_all add: rust_def label_byte_def)
  have tail: "(r @ x \<noteq> [] \<and> ident_byte (hd (r @ x))) \<longleftrightarrow> r \<noteq> [] \<and> ident_byte (hd r)" for r
    using assms by (cases r) (auto simp: closed_by_def)
  show ?thesis
    unfolding rule_bool_lit_def match_insensitive_closed [OF assms lit(1)] match_insensitive_closed [OF assms lit(2)]
    by (cases "match_insensitive ''true'' s"; cases "match_insensitive ''false'' s")
       (simp_all add: tail del: append_is_Nil_conv)
qed

lemma rule_primary_first:
  assumes "peg_or (rule_bool_lit s) (rule_label s) = Matched t r"
  shows "s \<noteq> [] \<and> hd s \<noteq> CHR ''('' \<and> hd s \<noteq> CHR ''!''"
proof (cases s)
  case Nil
  then show ?thesis using assms
    by (simp add: rule_bool_lit_def match_insensitive_def rule_label_def)
next
  case (Cons c cs)
  show ?thesis
  proof (rule ccontr)
    assume "\<not> ?thesis"
    then have c: "c = CHR ''('' \<or> c = CHR ''!''" using Cons by auto
    then have "rule_label s = No_match" by (auto simp: rule_label_def Cons rust_def)
    moreover have "rule_bool_lit s = No_match"
    proof -
      have "match_insensitive lit s = None" if "lit = ''true'' \<or> lit = ''false''" for lit
      proof (rule ccontr)
        assume "match_insensitive lit s \<noteq> None"
        then obtain p r where "c # cs = p @ r" "to_ascii_lowercase p = to_ascii_lowercase lit"
          by (auto simp: match_insensitive_Some Cons)
        then have "lower_byte c = lower_byte (hd lit)"
          using that by (cases p) (auto simp: to_ascii_lowercase_def)
        then show False using that c by (auto simp: rust_def)
      qed
      then show ?thesis by (simp add: rule_bool_lit_def)
    qed
    ultimately show False using assms by simp
  qed
qed

lemma peg_lit_other: "s \<noteq> [] \<Longrightarrow> hd s \<noteq> c \<Longrightarrow> peg_lit [c] (s @ x) = No_match"
  by (cases s) (auto simp: peg_lit_def strip_prefix_def starts_with_def)

lemma rule_primary_local:
  assumes x: "closed_by x" and E: "local_to x no_ops E E'" and m: "rule_primary E s = Matched t r"
  shows "rule_primary E' (s @ x) = Matched t (r @ x)" and "hd s \<noteq> CHR ''!''" "s \<noteq> []"
proof -
  let ?paren = "\<lambda>E s. peg_then (peg_lit ''('' s) (\<lambda>_ s'. peg_then (E (skip s')) (\<lambda>p r.
                peg_then (peg_lit '')'' (skip r)) (\<lambda>_ r'. Matched p r')))"
  obtain p where p: "peg_or (?paren E s) (peg_or (rule_bool_lit s) (rule_label s)) = Matched p r"
      "t = Pair R_primary (span s r) [p]"
    using m unfolding rule_primary_def peg_then_Matched [of "peg_or p q" for p q] by auto
  have "peg_or (?paren E' (s @ x)) (peg_or (rule_bool_lit (s @ x)) (rule_label (s @ x))) = Matched p (r @ x)
      \<and> hd s \<noteq> CHR ''!'' \<and> s \<noteq> []"
  proof (cases "?paren E s")
    case (Matched q r')
    then obtain s1 q1 r1 where s1: "peg_lit ''('' s = Matched () s1" "E (skip s1) = Matched q1 r1"
        "peg_lit '')'' (skip r1) = Matched () r'" "q1 = q"
      by (auto simp: peg_then_Matched)
    have "no_ops r1" using s1(3) by (auto simp: peg_lit_Matched no_sep_def starts_with_def)
    then have "E' (skip s1 @ x) = Matched q1 (r1 @ x)" by (rule local_toD [OF E s1(2)])
    then have "?paren E' (s @ x) = Matched q (r' @ x)"
      using peg_lit_closed [OF s1(1)] peg_lit_closed [OF s1(3)] s1(4) by (simp add: skip_closed [OF x])
    moreover have "s = ''('' @ s1" using s1(1) by (simp add: peg_lit_Matched)
    ultimately show ?thesis using p Matched by auto
  next
    case No_match
    then have r: "peg_or (rule_bool_lit s) (rule_label s) = Matched p r" using p by simp
    note first = rule_primary_first [OF r]
    then have "?paren E' (s @ x) = No_match" by (simp add: peg_lit_other)
    moreover have "peg_or (rule_bool_lit (s @ x)) (rule_label (s @ x)) = Matched p (r @ x)"
      using r rule_label_local [OF x, of s p r]
      by (cases "rule_bool_lit s") (simp_all add: rule_bool_lit_local [OF x])
    ultimately show ?thesis using first by simp
  next
    case Out_of_fuel
    then show ?thesis using p by simp
  qed
  then show "rule_primary E' (s @ x) = Matched t (r @ x)" "hd s \<noteq> CHR ''!''" "s \<noteq> []"
    using p(2) by (simp_all add: rule_primary_def)
qed

lemma rule_not_expr_local:
  assumes x: "closed_by x" and E: "local_to x no_ops E E'"
  shows "n \<le> m \<Longrightarrow> local_to x (\<lambda>_. True) (rule_not_expr E n) (rule_not_expr E' m)"
proof (induction n arbitrary: m)
  case 0
  then show ?case by (simp add: local_to_def)
next
  case (Suc n)
  then obtain k where m: "m = Suc k" by (cases m) auto
  have IH: "local_to x (\<lambda>_. True) (rule_not_expr E n) (rule_not_expr E' k)" using Suc m by simp
  have "rule_not_expr E' (Suc k) (s @ x) = Matched t (r @ x)" if m: "rule_not_expr E (Suc n) s = Matched t r" for s t r
  proof (cases "rule_neg (rule_not_expr E n) s")
    case (Matched q r')
    then obtain s1 q1 where s1: "peg_lit ''!'' s = Matched () s1" "rule_not_expr E n (skip s1) = Matched q1 r'"
        "q = Pair R_neg (span s r') [q1]"
      by (auto simp: rule_neg_def peg_then_Matched)
    have "rule_neg (rule_not_expr E' k) (s @ x) = Matched q (r' @ x)"
      using peg_lit_closed [OF s1(1)] local_toD [OF IH s1(2)] s1(3)
      by (simp add: rule_neg_def skip_closed [OF x])
    then show ?thesis using m Matched by auto
  next
    case No_match
    then obtain q where q: "rule_primary E s = Matched q r" "t = Pair R_not_expr (span s r) [q]"
      using m by (cases "rule_primary E s") auto
    note p = rule_primary_local [OF x E q(1)]
    then have "rule_neg (rule_not_expr E' k) (s @ x) = No_match" by (simp add: rule_neg_def peg_lit_other)
    then show ?thesis using p q by simp
  qed (use m in simp)
  then show ?case by (simp add: local_to_def m)
qed

lemma sep_rest_local:
  assumes x: "closed_by x" and item: "local_to x ok item item'" and c: "c \<noteq> CHR '')''"
    and ok: "\<And>r. \<not> no_sep [c] r \<Longrightarrow> ok r"
  shows "n \<le> m \<Longrightarrow> sep_rest [c] item n r = Matched ps r' \<Longrightarrow> ok r' \<Longrightarrow> no_sep [c] r' \<Longrightarrow>
    sep_rest [c] item' m (r @ x) = Matched ps (r' @ x) \<and> (ps \<noteq> [] \<longrightarrow> \<not> no_sep [c] r) \<and> (ps = [] \<longrightarrow> r' = r)"
proof (induction n arbitrary: m r ps)
  case (Suc n)
  then obtain k where m: "m = Suc k" by (cases m) auto
  show ?case
  proof (cases "peg_lit [c] (skip r)")
    case (Matched u s)
    have nosep: "\<not> no_sep [c] r" using Matched peg_lit_no [of c r] by simp
    show ?thesis
    proof (cases "item (skip s)")
      case i: (Matched p r1)
      show ?thesis
      proof (cases "sep_rest [c] item n r1")
        case s: (Matched ps1 r2)
        then have r: "ps = p # ps1" "r2 = r'" using Suc.prems Matched i by simp_all
        have IH: "sep_rest [c] item' k (r1 @ x) = Matched ps1 (r' @ x)"
            "ps1 \<noteq> [] \<longrightarrow> \<not> no_sep [c] r1" "ps1 = [] \<longrightarrow> r' = r1"
          using Suc.IH [of k r1 ps1] Suc.prems m s r by simp_all
        then have "ok r1" using ok Suc.prems(3) by (cases "ps1 = []") auto
        then have "item' (skip s @ x) = Matched p (r1 @ x)" by (rule local_toD [OF item i])
        then show ?thesis using IH Matched r nosep
          by (simp add: m skip_closed [OF x] peg_lit_closed)
      qed (use Suc.prems Matched i nosep in auto)
    next
      case No_match
      then show ?thesis using Suc.prems Matched nosep by auto
    qed (use Suc.prems Matched in auto)
  next
    case No_match
    then have r: "ps = []" "r' = r" using Suc.prems by auto
    have "peg_lit [c] (skip (r @ x)) = No_match"
      using no_sep_closed [OF x _ c, of r] Suc.prems(4) r by (simp add: peg_lit_no)
    then show ?thesis using r by (simp add: m)
  qed (use Suc.prems in auto)
qed simp

lemma chain_local:
  assumes x: "closed_by x" and item: "local_to x ok item item'" and c: "c \<noteq> CHR '')''"
    and ok: "\<And>r. \<not> no_sep [c] r \<Longrightarrow> ok r" and oks: "\<And>r. ok (skip r) \<longleftrightarrow> ok r" and n: "n \<le> m"
  shows "local_to x (\<lambda>r. ok r \<and> no_sep [c] r)
    (\<lambda>s. peg_then (item s) (\<lambda>p r. peg_then (sep_rest [c] item n (skip r)) (\<lambda>ps r'.
           Matched (Pair rl (span s r') (p # ps)) r')))
    (\<lambda>s. peg_then (item' s) (\<lambda>p r. peg_then (sep_rest [c] item' m (skip r)) (\<lambda>ps r'.
           Matched (Pair rl (span s r') (p # ps)) r')))"
  unfolding local_to_def
proof (intro allI impI)
  fix s t r assume m: "peg_then (item s) (\<lambda>p r. peg_then (sep_rest [c] item n (skip r)) (\<lambda>ps r'.
           Matched (Pair rl (span s r') (p # ps)) r')) = Matched t r" and r: "ok r \<and> no_sep [c] r"
  then obtain p r1 ps where p: "item s = Matched p r1" "sep_rest [c] item n (skip r1) = Matched ps r"
      "t = Pair rl (span s r) (p # ps)"
    by (auto simp: peg_then_Matched)
  have rest: "sep_rest [c] item' m (skip r1 @ x) = Matched ps (r @ x)"
      "ps \<noteq> [] \<longrightarrow> \<not> no_sep [c] (skip r1)" "ps = [] \<longrightarrow> r = skip r1"
    using sep_rest_local [OF x item c ok n p(2)] r by blast+
  have "ok r1" using rest(2,3) ok [of r1] r oks [of r1] by (cases "ps = []") (auto simp: no_sep_def)
  then have "item' (s @ x) = Matched p (r1 @ x)" by (rule local_toD [OF item p(1)])
  then show "peg_then (item' (s @ x)) (\<lambda>p r. peg_then (sep_rest [c] item' m (skip r)) (\<lambda>ps r'.
           Matched (Pair rl (span (s @ x) r') (p # ps)) r')) = Matched t (r @ x)"
    using rest(1) p(3) by (simp add: skip_closed [OF x])
qed

lemma no_sep_skip [simp]: "no_sep sep (skip r) = no_sep sep r"
  by (simp add: no_sep_def)

lemma no_sep_exclusive: "\<not> no_sep ''|'' r \<Longrightarrow> no_sep ''&'' r"
  by (auto simp: no_sep_def starts_with_iff)

lemma rule_expr_local: "closed_by x \<Longrightarrow> n \<le> m \<Longrightarrow> local_to x no_ops (rule_expr n) (rule_expr m)"
proof (induction n arbitrary: m)
  case 0
  then show ?case by (simp add: local_to_def)
next
  case (Suc n)
  then obtain k where m: "m = Suc k" "n \<le> k" by (cases m) auto
  have E: "local_to x no_ops (rule_expr n) (rule_expr k)" using Suc m by simp
  have "local_to x (\<lambda>r. True \<and> no_sep ''&'' r) (rule_and_expr (rule_expr n) n) (rule_and_expr (rule_expr k) k)"
    unfolding rule_and_expr_def [abs_def]
    by (rule chain_local [OF Suc.prems(1) rule_not_expr_local [OF Suc.prems(1) E m(2)]]) (use m in auto)
  then have A: "local_to x (no_sep ''&'') (rule_and_expr (rule_expr n) n) (rule_and_expr (rule_expr k) k)"
    by (simp add: local_to_def)
  have "local_to x no_ops (rule_or_expr (rule_expr n) n) (rule_or_expr (rule_expr k) k)"
    unfolding rule_or_expr_def [abs_def]
    by (rule chain_local [OF Suc.prems(1) A]) (use m no_sep_exclusive in auto)
  then have "rule_expr (Suc k) (s @ x) = Matched t (r @ x)"
    if "rule_expr (Suc n) s = Matched t r" "no_ops r" for s t r
    using that by (cases "rule_or_expr (rule_expr n) n s") (auto simp: local_to_def)
  then show ?case by (simp add: local_to_def m)
qed

text \<open>A parenthesised text that parses alone is read as a primary wherever it stands.\<close>

lemma parse_raw_tree:
  assumes "parse_raw_label_expr a = Inr e"
  shows "\<exists>t r. rule_expr (length a + 2) (skip a) = Matched t r \<and> skip r = [] \<and> build_expr t = Inr e"
proof (cases "rule_expr (length a + 2) (skip a)")
  case (Matched t r)
  then show ?thesis using assms rule_expr_Matched [OF Matched]
    by (auto simp: parse_raw_label_expr_def rule_input_def split: if_splits simp del: build_expr.simps)
qed (use assms in \<open>auto simp: parse_raw_label_expr_def rule_input_def\<close>)

lemma paren_not_expr:
  assumes "parse_raw_label_expr a = Inr e" "length a + 2 \<le> m" "0 < n"
  shows "\<exists>t. rule_not_expr (rule_expr m) n (''('' @ a @ '')'' @ y) = Matched t y \<and> build_expr t = Inr e"
proof -
  obtain t r where t: "rule_expr (length a + 2) (skip a) = Matched t r" "skip r = []" "build_expr t = Inr e"
    using parse_raw_tree [OF assms(1)] by blast
  have x: "closed_by ('')'' @ y)" by (simp add: closed_by_def)
  have "no_ops r" using t(2) by (simp add: no_sep_def starts_with_def)
  then have "rule_expr m (skip a @ '')'' @ y) = Matched t (r @ '')'' @ y)"
    by (rule local_toD [OF rule_expr_local [OF x assms(2)] t(1)])
  moreover obtain k where "n = Suc k" using assms(3) by (cases n) auto
  moreover have "skip (r @ '')'' @ y) = '')'' @ y" using t(2) by (simp add: skip_closed [OF x, simplified])
  ultimately show ?thesis using t(3) skip_closed [OF x, of a]
    by (auto simp: rule_neg_def rule_primary_def peg_lit_def strip_prefix_def starts_with_def)
qed

lemma paren_and_expr:
  assumes item: "rule_not_expr E n (''('' @ a @ '')'' @ y) = Matched t y" and n: "0 < n"
    and y: "no_sep ''&'' y"
  shows "\<exists>s. rule_and_expr E n (''('' @ a @ '')'' @ y) = Matched (Pair R_and_expr s [t]) (skip y)"
proof -
  obtain k where "n = Suc k" using n by (cases n) auto
  then have "sep_rest ''&'' (rule_not_expr E n) n (skip y) = Matched [] (skip y)"
    using y peg_lit_no [of "CHR ''&''" y] by simp
  then show ?thesis using item by (simp add: rule_and_expr_def)
qed

lemma parse_raw_disjunction:
  assumes a: "parse_raw_label_expr a = Inr ea" and b: "parse_raw_label_expr b = Inr eb"
  shows "parse_raw_label_expr (''('' @ a @ '') | ('' @ b @ '')'') = Inr (EOr ea eb)"
proof -
  let ?tail = "'' | ('' @ b @ '')''" and ?s = "''('' @ a @ '') | ('' @ b @ '')''"
  define M where "M = Suc (length ?s)"
  define E where "E = rule_expr M"
  have len: "length a + 2 \<le> M" "length b + 2 \<le> M" "0 < M" by (simp_all add: M_def)
  obtain k where k: "M = Suc (Suc k)" by (cases "length ?s") (auto simp: M_def)
  obtain ta where ta: "rule_not_expr E M (''('' @ a @ '')'' @ ?tail) = Matched ta ?tail" "build_expr ta = Inr ea"
    using paren_not_expr [OF a len(1,3)] unfolding E_def by blast
  obtain tb where tb: "rule_not_expr E M (''('' @ b @ '')'' @ []) = Matched tb []" "build_expr tb = Inr eb"
    using paren_not_expr [OF b len(2,3)] unfolding E_def by blast
  obtain s1 where A: "rule_and_expr E M (''('' @ a @ '')'' @ ?tail) = Matched (Pair R_and_expr s1 [ta]) (skip ?tail)"
    using paren_and_expr [OF ta(1) len(3)]
    by (auto simp: no_sep_def skip_nonspace is_whitespace_def starts_with_def)
  obtain s2 where B: "rule_and_expr E M (''('' @ b @ '')'' @ []) = Matched (Pair R_and_expr s2 [tb]) (skip [])"
    using paren_and_expr [OF tb(1) len(3)] by (auto simp: no_sep_def skip_def starts_with_def)
  have ws: "skip [] = []" "skip (CHR ''('' # u) = CHR ''('' # u" "skip (CHR ''|'' # u) = CHR ''|'' # u" for u
    by (simp_all add: skip_def is_whitespace_def)
  have "sep_rest ''|'' (rule_and_expr E M) M (skip (skip ?tail)) = Matched [Pair R_and_expr s2 [tb]] []"
    using B by (simp add: ws peg_lit_def strip_prefix_def starts_with_def k)
  then obtain s3 where "rule_or_expr E M ?s
      = Matched (Pair R_or_expr s3 [Pair R_and_expr s1 [ta], Pair R_and_expr s2 [tb]]) []"
    using A by (simp add: rule_or_expr_def)
  then have "rule_expr (Suc M) ?s = Matched (Pair R_expr ?s
      [Pair R_or_expr s3 [Pair R_and_expr s1 [ta], Pair R_and_expr s2 [tb]]]) []"
    by (simp add: E_def span_def)
  moreover have "length ?s + 2 = Suc M" by (simp add: M_def)
  moreover have "skip ?s = ?s" by (simp add: ws)
  ultimately show ?thesis
    using ta(2) tb(2) by (simp add: parse_raw_label_expr_def rule_input_def ws del: rule_expr.simps append.simps)
qed

end
