(* ===== verification/Fixture_Collect.thy ===== *)
theory Fixture_Collect
  imports Fixture_Graph Label_Compose Label_Filter
begin

text \<open>
  What a test inherits from its fixtures (\<open>src/src/fixture.rs\<close>, fixture-graph walking):
  requirements, labels and serial filters, each a fold over the walk of the graph.  The
  filters are merged as text; \<open>serial_hits\<close> is what such a text selects, and merging is
  shown to be the disjunction of it.
\<close>

definition collect_fixture_requires ::
    "bool \<Rightarrow> registry \<Rightarrow> str list \<Rightarrow> (fixture_panic, requirement list) result" where
  "collect_fixture_requires debug reg names =
     map_sum id (foldl (\<lambda>result def. result @ fx_requires def) []) (walk_fixture_deps_in debug reg names)"

definition collect_fixture_labels ::
    "bool \<Rightarrow> registry \<Rightarrow> str list \<Rightarrow> (fixture_panic, label list) result" where
  "collect_fixture_labels debug reg names =
     map_sum id (foldl (\<lambda>result def. push_unique result (fx_labels def)) [])
       (walk_fixture_deps_in debug reg names)"

definition fixture_labels_of :: "bool \<Rightarrow> registry \<Rightarrow> fixture_def \<Rightarrow> (fixture_panic, label list) result" where
  "fixture_labels_of debug reg def =
     map_sum id (foldl (\<lambda>result label. push_unique result [label]) (push_unique [] (fx_labels def)))
       (collect_fixture_labels debug reg (fx_deps def))"

definition merge_serial_filters :: "str \<Rightarrow> str \<Rightarrow> str" where
  "merge_serial_filters a b =
     (if a = [] then b
      else if b = [] then a
      else if a = ''*'' \<or> b = ''*'' then ''*''
      else ''('' @ a @ '') | ('' @ b @ '')'')"

definition merge_into :: "str \<Rightarrow> fixture_def \<Rightarrow> str" where
  "merge_into merged def =
     (if fx_serial def \<noteq> [] then merge_serial_filters merged (fx_serial def) else merged)"

definition collect_fixture_serial :: "bool \<Rightarrow> registry \<Rightarrow> str list \<Rightarrow> (fixture_panic, str) result" where
  "collect_fixture_serial debug reg names =
     map_sum id (foldl merge_into []) (walk_fixture_deps_in debug reg names)"

section \<open>The meaning of a serial filter\<close>

definition serial_valid :: "boolexpr \<Rightarrow> str \<Rightarrow> bool" where
  "serial_valid X s \<longleftrightarrow> s = [] \<or> s = ''*'' \<or> (case LabelFilter_parse X s of Inl _ \<Rightarrow> False | Inr _ \<Rightarrow> True)"

definition serial_hits :: "boolexpr \<Rightarrow> str \<Rightarrow> str list \<Rightarrow> bool" where
  "serial_hits X s names \<longleftrightarrow> s = ''*'' \<or> (s \<noteq> [] \<and>
     (case LabelFilter_parse X s of Inl _ \<Rightarrow> False | Inr f \<Rightarrow> matches_names X f names))"

lemma serial_hits_simps [simp]:
  "serial_hits X ''*'' names" "\<not> serial_hits X [] names" "serial_valid X ''*''" "serial_valid X []"
  by (simp_all add: serial_hits_def serial_valid_def)

lemma push_unique_singletons: "foldl (\<lambda>r l. push_unique r [l]) acc ls = push_unique acc ls"
  by (induction ls arbitrary: acc) simp_all

lemma foldl_push_unique: "foldl (\<lambda>r d. push_unique r (g d)) acc ds = push_unique acc (concat (map g ds))"
  by (induction ds arbitrary: acc) (simp_all add: push_unique_append)

lemma foldl_extend: "foldl (\<lambda>r d. r @ g d) acc ds = acc @ concat (map g ds)"
  by (induction ds arbitrary: acc) simp_all

context boolexpr_crate
begin

lemma merge_serial:
  assumes "serial_valid X a" "serial_valid X b"
  shows "serial_valid X (merge_serial_filters a b)
    \<and> serial_hits X (merge_serial_filters a b) names = (serial_hits X a names \<or> serial_hits X b names)"
proof (cases "a = [] \<or> b = [] \<or> a = ''*'' \<or> b = ''*''")
  case True
  then show ?thesis using assms by (auto simp: merge_serial_filters_def)
next
  case False
  have "\<exists>e. parse_raw_label_expr s = Inr e" if "serial_valid X s" "s \<noteq> []" "s \<noteq> ''*''" for s
    using that by (cases "parse_raw_label_expr s")
      (auto simp: serial_valid_def LabelFilter_parse_def parse_label_expr_def)
  then obtain ea eb where raw: "parse_raw_label_expr a = Inr ea" "parse_raw_label_expr b = Inr eb"
    using False assms by meson
  note m = parse_raw_disjunction [OF raw]
  have "merge_serial_filters a b = ''('' @ a @ '') | ('' @ b @ '')''"
    using False by (simp add: merge_serial_filters_def)
  then show ?thesis using m raw False
    by (simp add: serial_valid_def serial_hits_def LabelFilter_parse_def parse_label_expr_def
        matches_names_sem sem_canonicalize)
qed

lemma merge_into_fold:
  assumes "serial_valid X acc" "\<forall>d \<in> set ds. serial_valid X (fx_serial d)"
  shows "serial_valid X (foldl merge_into acc ds) \<and> serial_hits X (foldl merge_into acc ds) names
    = (serial_hits X acc names \<or> (\<exists>d \<in> set ds. serial_hits X (fx_serial d) names))"
  using assms
proof (induction ds arbitrary: acc)
  case (Cons d ds)
  have "serial_valid X (merge_into acc d)
      \<and> serial_hits X (merge_into acc d) names = (serial_hits X acc names \<or> serial_hits X (fx_serial d) names)"
    using merge_serial [of acc "fx_serial d" names] Cons.prems by (auto simp: merge_into_def)
  then show ?case using Cons.IH [of "merge_into acc d"] Cons.prems by auto
qed simp

end

lemma collectors_total:
  assumes X: "boolexpr_crate X" and ok: "validate_fixture_graph reg = Inr ()"
    and valid: "\<forall>d \<in> snd ` set reg. serial_valid X (fx_serial d)"
  obtains serial labels reqs where "collect_fixture_serial debug reg names = Inr serial"
    "collect_fixture_labels debug reg names = Inr labels" "collect_fixture_requires debug reg names = Inr reqs"
    "serial_valid X serial"
proof -
  obtain ds where w: "walk_fixture_deps_in debug reg names = Inr ds" "ds = lookups reg (walk_order reg names)"
    using walk_all_total [of reg debug names] ok by (auto simp: validate_fixture_graph_iff)
  have "\<forall>d \<in> set ds. serial_valid X (fx_serial d)"
    using valid by (force simp: w(2) lookups_mem dest: map_of_SomeD)
  then have "serial_valid X (foldl merge_into [] ds)"
    using boolexpr_crate.merge_into_fold [OF X, of "[]" ds] by simp
  then show ?thesis using that w(1)
    by (simp add: collect_fixture_serial_def collect_fixture_labels_def collect_fixture_requires_def)
qed

section \<open>Properties\<close>

text \<open>
  Merging two serial filters is disjunction.  The merged text is again valid, and it selects
  a test exactly when one of the two does, whatever mixture of the empty filter, the
  \<open>*\<close> filter and label expressions they are.
\<close>

theorem merge_serial_filters_or:
  assumes "boolexpr_crate X" "serial_valid X a" "serial_valid X b"
  shows "serial_valid X (merge_serial_filters a b)
    \<and> serial_hits X (merge_serial_filters a b) names = (serial_hits X a names \<or> serial_hits X b names)"
  by (rule boolexpr_crate.merge_serial [OF assms])

theorem merge_serial_filters_or_witness:
  "serial_hits ref_boolexpr (merge_serial_filters ''docker'' ''!net'') [''docker'', ''net'']
   \<and> \<not> serial_hits ref_boolexpr (merge_serial_filters ''docker'' ''!net'') [''net'']"
proof -
  have "parse_raw_label_expr ''docker'' = Inr (ETerminal ''docker'')"
    "parse_raw_label_expr ''!net'' = Inr (ENot (ETerminal ''net''))"
    by (simp_all add: parser_eval cong: peg_weak_congs)
  then have v: "serial_valid ref_boolexpr ''docker''" "serial_valid ref_boolexpr ''!net''"
    and h: "serial_hits ref_boolexpr ''docker'' ns = (''docker'' \<in> set ns)"
      "serial_hits ref_boolexpr ''!net'' ns = (''net'' \<notin> set ns)" for ns
    by (simp_all add: serial_valid_def serial_hits_def LabelFilter_parse_def parse_label_expr_def
        ref.matches_names_sem ref.sem_canonicalize)
  then show ?thesis
    using merge_serial_filters_or [OF ref.boolexpr_crate_axioms v, of "[''docker'', ''net'']"]
      merge_serial_filters_or [OF ref.boolexpr_crate_axioms v, of "[''net'']"] by simp
qed

text \<open>
  A test inherits the serial filter, the labels and the requirements of exactly the
  registered fixtures it reaches.  On a validated registry the collected filter selects what
  some reachable fixture's filter selects, and the collected labels and requirements are those
  of the reachable fixtures, the labels once each.
\<close>

theorem collect_from_fixtures:
  assumes X: "boolexpr_crate X" and ok: "validate_fixture_graph reg = Inr ()"
    and valid: "\<forall>d \<in> snd ` set reg. serial_valid X (fx_serial d)"
  shows "\<exists>serial labels reqs. collect_fixture_serial debug reg names = Inr serial
    \<and> collect_fixture_labels debug reg names = Inr labels
    \<and> collect_fixture_requires debug reg names = Inr reqs
    \<and> serial_valid X serial
    \<and> (serial_hits X serial ls \<longleftrightarrow> (\<exists>n \<in> (dep_rel reg)\<^sup>* `` set names. \<exists>d. map_of reg n = Some d
          \<and> serial_hits X (fx_serial d) ls))
    \<and> distinct labels
    \<and> (\<forall>l. l \<in> set labels \<longleftrightarrow> (\<exists>n \<in> (dep_rel reg)\<^sup>* `` set names. \<exists>d. map_of reg n = Some d
          \<and> l \<in> set (fx_labels d)))
    \<and> (\<forall>r. r \<in> set reqs \<longleftrightarrow> (\<exists>n \<in> (dep_rel reg)\<^sup>* `` set names. \<exists>d. map_of reg n = Some d
          \<and> r \<in> set (fx_requires d)))"
proof -
  let ?ds = "lookups reg (walk_order reg names)"
  have w: "walk_fixture_deps_in debug reg names = Inr ?ds"
      "set (walk_order reg names) = (dep_rel reg)\<^sup>* `` set names"
    using walk_all_total [of reg debug names] ok
    by (auto simp: validate_fixture_graph_iff below_def)
  have mem: "d \<in> set ?ds \<longleftrightarrow> (\<exists>n \<in> (dep_rel reg)\<^sup>* `` set names. map_of reg n = Some d)" for d
    by (simp add: lookups_mem w(2))
  then have "\<forall>d \<in> set ?ds. serial_valid X (fx_serial d)"
    using valid by (force dest: map_of_SomeD)
  note s = boolexpr_crate.merge_into_fold [OF X _ this, of "[]" ls, simplified]
  have "collect_fixture_serial debug reg names = Inr (foldl merge_into [] ?ds)"
    "collect_fixture_labels debug reg names = Inr (push_unique [] (concat (map fx_labels ?ds)))"
    "collect_fixture_requires debug reg names = Inr (concat (map fx_requires ?ds))"
    by (simp_all add: collect_fixture_serial_def collect_fixture_labels_def collect_fixture_requires_def
        w(1) foldl_push_unique foldl_extend)
  moreover have "distinct (push_unique [] (concat (map fx_labels ?ds)))" by (simp add: push_unique_distinct)
  ultimately show ?thesis using s mem by (simp add: Bex_def) blast
qed

theorem collect_from_fixtures_witness:
  "\<exists>labels. collect_fixture_labels True demo_registry [''db''] = Inr labels
     \<and> \<lparr>label_name = ''net''\<rparr> \<in> set labels"
proof -
  have valid: "serial_valid ref_boolexpr (fx_serial d)" if "d \<in> snd ` set demo_registry" for d
  proof -
    have "parse_raw_label_expr ''app'' = Inr (ETerminal ''app'')"
      "parse_raw_label_expr ''db'' = Inr (ETerminal ''db'')"
      "parse_raw_label_expr ''net'' = Inr (ETerminal ''net'')"
      by (simp_all add: parser_eval cong: peg_weak_congs)
    then show ?thesis using that
      by (auto simp: demo_registry_def demo_fixture_def serial_valid_def LabelFilter_parse_def
          parse_label_expr_def)
  qed
  have "(''db'', ''net'') \<in> dep_rel demo_registry"
    by (rule dep_relI [where def = "demo_fixture ''db'' Test [''net'']"])
       (simp_all add: demo_registry_def demo_fixture_def)
  then have reach: "''net'' \<in> (dep_rel demo_registry)\<^sup>* `` set [''db'']" by auto
  have net: "map_of demo_registry ''net'' = Some (demo_fixture ''net'' Process [])"
    "\<lparr>label_name = ''net''\<rparr> \<in> set (fx_labels (demo_fixture ''net'' Process []))"
    by (simp_all add: demo_registry_def demo_fixture_def)
  from collect_from_fixtures [OF ref.boolexpr_crate_axioms demo_registry_valid ballI, of True "[''db'']"]
  show ?thesis using valid reach net by blast
qed

end
