(* ===== verification/Coord_DB.thy ===== *)
theory Coord_DB
  imports Fixture_Collect
begin

text \<open>
  The coordination database (\<open>src/src/coordination.rs\<close>): its two tables, the statements
  the code runs on them, the storage form of serial filters, stale-entry cleanup, the
  blocking checks of \<open>can_start\<close> and registration.

  The statements with fixed text are written out as functions on the tables, with the schema of
  \<open>INIT_SQL\<close> (AUTOINCREMENT ids, ON DELETE CASCADE); each may fail with an error the
  environment chooses (\<open>faults\<close>), because every one is followed by \<open>?\<close>.  The one
  statement whose text is computed, the label query of \<open>can_start\<close>, goes through the field
  \<open>query_bool\<close> of the record \<open>sqlite\<close>, which stands for the SQLite engine; the
  locale \<open>sqlite_engine\<close> says what of SQL's semantics the code relies on.
\<close>

section \<open>State\<close>

record running_row =
  row_id :: nat
  row_instance :: str
  row_name :: str
  row_filter :: str

record label_row =
  lab_running_id :: nat
  lab_label :: str

record db =
  db_running :: "running_row list"
  db_labels :: "label_row list"
  db_seq :: nat       \<comment> \<open>the AUTOINCREMENT high-water mark\<close>
  db_user_version :: int

datatype sqlite_error = Database_busy | Database_locked | Database_full | Other_sqlite nat

datatype coord_error =
    Sql sqlite_error
  | Expect_failed \<comment> \<open>a panicking \<open>expect\<close>\<close>

datatype stmt =
    St_begin | St_select_instances | St_delete_instance str | St_select_global | St_select_filters
  | St_count | St_select_match | St_insert_running | St_insert_label nat | St_commit | St_rollback

type_synonym faults = "stmt \<Rightarrow> sqlite_error option"

definition exec :: "faults \<Rightarrow> stmt \<Rightarrow> (coord_error, 'a) result \<Rightarrow> (coord_error, 'a) result" where
  "exec faults st k = (case faults st of Some e \<Rightarrow> Inl (Sql e) | None \<Rightarrow> k)"

record sqlite =
  query_bool :: "str \<Rightarrow> db \<Rightarrow> bool"

definition SERIAL_NONE :: str where "SERIAL_NONE = []"

definition SERIAL_ALL :: str where "SERIAL_ALL = ''*''"

definition SCHEMA_VERSION :: int where "SCHEMA_VERSION = 1"

definition MAX_ROWID :: nat where "MAX_ROWID = 9223372036854775807"

definition empty_db :: db where
  "empty_db = \<lparr>db_running = [], db_labels = [], db_seq = 0, db_user_version = 0\<rparr>"

section \<open>Instances\<close>

text \<open>\<open>format!("{pid}:{ts}")\<close>.\<close>

definition make_instance_id :: "nat \<Rightarrow> nat \<Rightarrow> str" where
  "make_instance_id pid ts = show_nat pid @ '':'' @ show_nat ts"

definition pid_from_instance_id :: "str \<Rightarrow> nat option" where
  "pid_from_instance_id iid = parse_unsigned 32 (takeWhile (\<lambda>c. c \<noteq> CHR '':'') iid)"

text \<open>What \<open>kill(pid, 0)\<close> reports: success, or an errno.\<close>

datatype kill_result = Kill_ok | Kill_EPERM | Kill_errno nat

definition is_pid_alive :: "(nat \<Rightarrow> kill_result) \<Rightarrow> nat \<Rightarrow> bool" where
  "is_pid_alive kill pid =
     (if pid = 0 \<or> pid \<ge> 2 ^ 31 then False
      else case kill pid of Kill_ok \<Rightarrow> True | Kill_EPERM \<Rightarrow> True | Kill_errno _ \<Rightarrow> False)"

section \<open>Statements\<close>

text \<open>\<open>DELETE FROM running WHERE \<dots>\<close>, with the cascade to \<open>labels\<close>.\<close>

definition delete_running :: "(running_row \<Rightarrow> bool) \<Rightarrow> db \<Rightarrow> db" where
  "delete_running P db =
     (let gone = row_id ` set (filter P (db_running db)) in
      db\<lparr>db_running := filter (\<lambda>r. \<not> P r) (db_running db),
         db_labels := filter (\<lambda>l. lab_running_id l \<notin> gone) (db_labels db)\<rparr>)"

definition row_labels :: "db \<Rightarrow> running_row \<Rightarrow> str list" where
  "row_labels db r = map lab_label (filter (\<lambda>l. lab_running_id l = row_id r) (db_labels db))"

definition last_rowid :: "db \<Rightarrow> nat" where
  "last_rowid db = foldr max (map row_id (db_running db)) (db_seq db)"

section \<open>Storage form of filters\<close>

definition to_storage :: "boolexpr \<Rightarrow> str \<Rightarrow> (coord_error, str) result" where
  "to_storage X serial_filter =
     (if serial_filter = SERIAL_NONE \<or> serial_filter = SERIAL_ALL then Inr serial_filter
      else case LabelFilter_parse X serial_filter of
             Inl _ \<Rightarrow> Inl Expect_failed
           | Inr f \<Rightarrow> Inr (if is_tautology f then SERIAL_ALL
                           else if is_contradiction f then SERIAL_NONE
                           else display_filter f))"

section \<open>Cleanup, checks, registration\<close>

definition clean_stale_entries ::
    "(nat \<Rightarrow> bool) \<Rightarrow> str \<Rightarrow> faults \<Rightarrow> db \<Rightarrow> (coord_error, db) result" where
  "clean_stale_entries alive our_instance faults db =
     exec faults St_select_instances
       (let instances = remdups (map row_instance
              (filter (\<lambda>r. row_instance r \<noteq> our_instance) (db_running db)));
            stale_instances = filter (\<lambda>iid. case pid_from_instance_id iid of
                                 None \<Rightarrow> True | Some pid \<Rightarrow> \<not> alive pid) instances
        in for_each (\<lambda>iid db. exec faults (St_delete_instance iid)
                       (Inr (delete_running (\<lambda>r. row_instance r = iid) db))) stale_instances db)"

text \<open>Part (b) of \<open>can_start\<close>: the first running filter that matches stops the loop.\<close>

fun blocked_by_filters :: "boolexpr \<Rightarrow> label list \<Rightarrow> str list \<Rightarrow> bool" where
  "blocked_by_filters X my_labels [] = False"
| "blocked_by_filters X my_labels (filter_str # filters) =
     (case LabelFilter_parse X filter_str of
        Inr f \<Rightarrow> if filter_matches X f my_labels then True else blocked_by_filters X my_labels filters
      | Inl _ \<Rightarrow> blocked_by_filters X my_labels filters)"

definition can_start :: "boolexpr \<Rightarrow> sqlite \<Rightarrow> faults \<Rightarrow> db \<Rightarrow> label list \<Rightarrow> str
    \<Rightarrow> (coord_error, bool) result" where
  "can_start X S faults db my_labels my_serial_filter =
     exec faults St_select_global
       (if list_ex (\<lambda>r. row_filter r = SERIAL_ALL) (db_running db) then Inr False
        else exec faults St_select_filters
          (let filters = filter (\<lambda>s. s \<noteq> [] \<and> s \<noteq> SERIAL_ALL) (map row_filter (db_running db)) in
           if blocked_by_filters X my_labels filters then Inr False
           else if my_serial_filter = SERIAL_ALL
             then exec faults St_count (Inr (length (db_running db) = 0))
           else if my_serial_filter \<noteq> [] \<and> my_serial_filter \<noteq> SERIAL_ALL
             then case LabelFilter_parse X my_serial_filter of
                    Inl _ \<Rightarrow> Inl Expect_failed
                  | Inr f \<Rightarrow>
                      (let sql = ''SELECT EXISTS (SELECT 1 FROM running r WHERE '' @ filter_to_sql f @ '')'' in
                       exec faults St_select_match (Inr (\<not> query_bool S sql db)))
           else Inr True))"

definition insert_label :: "faults \<Rightarrow> nat \<Rightarrow> nat \<times> label \<Rightarrow> db \<Rightarrow> (coord_error, db) result" where
  "insert_label faults rid il db =
     exec faults (St_insert_label (fst il))
       (Inr (db\<lparr>db_labels := db_labels db @ [\<lparr>lab_running_id = rid, lab_label = label_name (snd il)\<rparr>]\<rparr>))"

definition register :: "faults \<Rightarrow> str \<Rightarrow> str \<Rightarrow> label list \<Rightarrow> str \<Rightarrow> db \<Rightarrow> (coord_error, nat \<times> db) result" where
  "register faults our_instance nm labels serial_filter db =
     exec faults St_insert_running
       (if last_rowid db \<ge> MAX_ROWID then Inl (Sql Database_full)
        else
          let rid = last_rowid db + 1;
              row = \<lparr>row_id = rid, row_instance = our_instance, row_name = nm, row_filter = serial_filter\<rparr>;
              db1 = db\<lparr>db_running := db_running db @ [row], db_seq := rid\<rparr>
          in map_sum (\<lambda>e. e) (\<lambda>db2. (rid, db2)) (for_each (insert_label faults rid) (enumerate 0 labels) db1))"

text \<open>
  One attempt of \<open>coordinate\<close>: what the transaction commits.  \<open>Inr None\<close> and every error leave
  the database as it was: the first by its own \<open>ROLLBACK\<close>, the others by the caller's.
\<close>

definition coord_txn :: "boolexpr \<Rightarrow> sqlite \<Rightarrow> (nat \<Rightarrow> bool) \<Rightarrow> str \<Rightarrow> faults \<Rightarrow> str \<Rightarrow> label list \<Rightarrow> str
    \<Rightarrow> db \<Rightarrow> (coord_error, (nat \<times> db) option) result" where
  "coord_txn X S alive our_instance faults nm labels canonical_filter db =
     exec faults St_begin
       (result_bind (clean_stale_entries alive our_instance faults db) (\<lambda>db1.
        result_bind (can_start X S faults db1 labels canonical_filter) (\<lambda>ok.
        if ok then result_bind (register faults our_instance nm labels canonical_filter db1) (\<lambda>reg.
                     exec faults St_commit (Inr (Some reg)))
        else exec faults St_rollback (Inr None))))"

end
