(* ===== verification/Coord_SQL.thy ===== *)
theory Coord_SQL
  imports Coord_DB
begin

text \<open>
  What the code relies on of SQL for the computed label query: the meaning of the conditions
  \<open>to_sql_expr\<close> writes.  \<open>sql_cond\<close> is that fragment of SQL's grammar, \<open>sql_text\<close>
  its text and \<open>sql_holds\<close> its meaning for a row of \<open>running\<close> (alias \<open>r\<close>); the
  locale \<open>sqlite_engine\<close> says that the engine answers the query by that meaning, for
  literals without a quote.  \<open>ref_sqlite\<close> is an executable engine for the fragment.
\<close>

datatype sql_cond =
    Sql_label str | Sql_true | Sql_false | Sql_not sql_cond | Sql_and sql_cond sql_cond
  | Sql_or sql_cond sql_cond

definition label_prefix :: str where
  "label_prefix = ''EXISTS (SELECT 1 FROM labels WHERE running_id = r.id AND label = '' @ [CHR 39]"

definition select_prefix :: str where
  "select_prefix = ''SELECT EXISTS (SELECT 1 FROM running r WHERE ''"

fun sql_text :: "sql_cond \<Rightarrow> str" where
  "sql_text (Sql_label nm) = label_prefix @ nm @ [CHR 39] @ '')''"
| "sql_text Sql_true = ''1=1''"
| "sql_text Sql_false = ''1=0''"
| "sql_text (Sql_not c) = ''NOT ('' @ sql_text c @ '')''"
| "sql_text (Sql_and a b) = ''('' @ sql_text a @ '' AND '' @ sql_text b @ '')''"
| "sql_text (Sql_or a b) = ''('' @ sql_text a @ '' OR '' @ sql_text b @ '')''"

fun sql_holds :: "db \<Rightarrow> running_row \<Rightarrow> sql_cond \<Rightarrow> bool" where
  "sql_holds db r (Sql_label nm) =
     list_ex (\<lambda>l. lab_running_id l = row_id r \<and> lab_label l = nm) (db_labels db)"
| "sql_holds db r Sql_true = True"
| "sql_holds db r Sql_false = False"
| "sql_holds db r (Sql_not c) = (\<not> sql_holds db r c)"
| "sql_holds db r (Sql_and a b) = (sql_holds db r a \<and> sql_holds db r b)"
| "sql_holds db r (Sql_or a b) = (sql_holds db r a \<or> sql_holds db r b)"

fun sql_plain :: "sql_cond \<Rightarrow> bool" where
  "sql_plain (Sql_label nm) = (CHR 39 \<notin> set nm)"
| "sql_plain (Sql_not c) = sql_plain c"
| "sql_plain (Sql_and a b) = (sql_plain a \<and> sql_plain b)"
| "sql_plain (Sql_or a b) = (sql_plain a \<and> sql_plain b)"
| "sql_plain _ = True"

fun sql_compile :: "expr \<Rightarrow> sql_cond" where
  "sql_compile (ETerminal nm) = Sql_label nm"
| "sql_compile (EConst b) = (if b then Sql_true else Sql_false)"
| "sql_compile (ENot a) = Sql_not (sql_compile a)"
| "sql_compile (EAnd a b) = Sql_and (sql_compile a) (sql_compile b)"
| "sql_compile (EOr a b) = Sql_or (sql_compile a) (sql_compile b)"

section \<open>The compiler\<close>

lemma to_sql_expr_text: "to_sql_expr e = sql_text (sql_compile e)"
  by (induction e rule: to_sql_expr.induct) (simp_all add: label_prefix_def)

lemma sql_compile_holds: "sql_holds db r (sql_compile e) = sem e (\<lambda>t. t \<in> set (row_labels db r))"
  by (induction e) (auto simp: row_labels_def list_ex_iff)

lemma label_byte_not_quote: "\<not> label_byte (CHR 39)"
  by (simp add: label_byte_def rust_def)

lemma sql_compile_plain: "names_ok e \<Longrightarrow> sql_plain (sql_compile e)"
proof (induction e)
  case (ETerminal t)
  then have "\<forall>b \<in> set t. label_byte b"
    by (simp add: names_ok_def label_name_ok_def validate_label_name_ok)
  then show ?case using label_byte_not_quote by auto
qed (auto simp: names_ok_def)

locale sqlite_engine =
  fixes S :: sqlite
  assumes query_exists: "sql_plain c \<Longrightarrow>
    query_bool S (select_prefix @ sql_text c @ '')'') db = (\<exists>r \<in> set (db_running db). sql_holds db r c)"
begin

lemma query_filter:
  "names_ok (filter_expr f) \<Longrightarrow>
     query_bool S (''SELECT EXISTS (SELECT 1 FROM running r WHERE '' @ filter_to_sql f @ '')'') db
     = (\<exists>r \<in> set (db_running db). sem (filter_expr f) (\<lambda>t. t \<in> set (row_labels db r)))"
  using query_exists [OF sql_compile_plain, of "filter_expr f" db]
  by (simp add: filter_to_sql_def to_sql_expr_text sql_compile_holds select_prefix_def)

end

section \<open>An executable engine for the fragment\<close>

primrec read_cond :: "nat \<Rightarrow> str \<Rightarrow> (sql_cond \<times> str) option" where
  "read_cond 0 s = None"
| "read_cond (Suc n) s =
     (case strip_prefix s label_prefix of
        Some r \<Rightarrow> map_option (\<lambda>t. (Sql_label (takeWhile (\<lambda>c. c \<noteq> CHR 39) r), t))
                    (strip_prefix (dropWhile (\<lambda>c. c \<noteq> CHR 39) r) (CHR 39 # '')''))
      | None \<Rightarrow> (case strip_prefix s ''1=1'' of Some r \<Rightarrow> Some (Sql_true, r)
      | None \<Rightarrow> (case strip_prefix s ''1=0'' of Some r \<Rightarrow> Some (Sql_false, r)
      | None \<Rightarrow> (case strip_prefix s ''NOT ('' of
          Some r \<Rightarrow> (case read_cond n r of None \<Rightarrow> None
            | Some (c, r') \<Rightarrow> map_option (\<lambda>t. (Sql_not c, t)) (strip_prefix r' '')''))
      | None \<Rightarrow> (case strip_prefix s ''('' of None \<Rightarrow> None
        | Some r \<Rightarrow> (case read_cond n r of None \<Rightarrow> None
          | Some (a, r') \<Rightarrow> (case strip_prefix r' '' AND '' of
              Some r2 \<Rightarrow> (case read_cond n r2 of None \<Rightarrow> None
                | Some (b, r3) \<Rightarrow> map_option (\<lambda>t. (Sql_and a b, t)) (strip_prefix r3 '')''))
            | None \<Rightarrow> (case strip_prefix r' '' OR '' of None \<Rightarrow> None
              | Some r2 \<Rightarrow> (case read_cond n r2 of None \<Rightarrow> None
                | Some (b, r3) \<Rightarrow> map_option (\<lambda>t. (Sql_or a b, t)) (strip_prefix r3 '')'')))))))))) "

definition ref_sqlite :: sqlite where
  "ref_sqlite = \<lparr>query_bool = (\<lambda>sql db.
     case strip_prefix sql select_prefix of None \<Rightarrow> False
     | Some s \<Rightarrow> (case read_cond (length s) s of
         Some (c, _) \<Rightarrow> list_ex (\<lambda>r. sql_holds db r c) (db_running db)
       | None \<Rightarrow> False))\<rparr>"

lemma label_prefix_Cons: "label_prefix = CHR ''E'' # drop 1 label_prefix"
  by (simp add: label_prefix_def)

lemma strip_label_prefix: "c \<noteq> CHR ''E'' \<Longrightarrow> strip_prefix (c # s) label_prefix = None"
  by (subst label_prefix_Cons) (simp add: strip_prefix_def starts_with_def)

lemma read_cond_text: "sql_plain c \<Longrightarrow> size c < n \<Longrightarrow> read_cond n (sql_text c @ rest) = Some (c, rest)"
proof (induction c arbitrary: n rest)
  case (Sql_label nm)
  then obtain k where n: "n = Suc k" by (cases n) auto
  have "takeWhile (\<lambda>c. c \<noteq> CHR 39) (nm @ CHR 39 # t) = nm"
    "dropWhile (\<lambda>c. c \<noteq> CHR 39) (nm @ CHR 39 # t) = CHR 39 # t" for t
    using Sql_label by (induction nm) auto
  then show ?case using strip_prefix_append [of label_prefix]
    by (simp add: n) (simp add: strip_prefix_def starts_with_def)
next
  case Sql_true
  then show ?case by (cases n) (simp_all add: strip_label_prefix, simp add: strip_prefix_def starts_with_def)
next
  case Sql_false
  then show ?case by (cases n) (simp_all add: strip_label_prefix, simp add: strip_prefix_def starts_with_def)
next
  case (Sql_not c)
  then obtain k where n: "n = Suc k" by (cases n) auto
  have "read_cond k (sql_text c @ CHR '')'' # rest) = Some (c, CHR '')'' # rest)" using Sql_not n by simp
  then show ?case by (simp add: n strip_label_prefix) (simp add: strip_prefix_def starts_with_def)
next
  case (Sql_and a b)
  then obtain k where n: "n = Suc k" by (cases n) auto
  have "read_cond k (sql_text a @ t) = Some (a, t)" "read_cond k (sql_text b @ t) = Some (b, t)" for t
    using Sql_and n by simp_all
  then show ?case by (simp add: n strip_label_prefix) (simp add: strip_prefix_def starts_with_def)
next
  case (Sql_or a b)
  then obtain k where n: "n = Suc k" by (cases n) auto
  have "read_cond k (sql_text a @ t) = Some (a, t)" "read_cond k (sql_text b @ t) = Some (b, t)" for t
    using Sql_or n by simp_all
  then show ?case by (simp add: n strip_label_prefix) (simp add: strip_prefix_def starts_with_def)
qed

lemma sql_text_length: "size c < length (sql_text c)"
  by (induction c) (auto simp: label_prefix_def)

interpretation ref_sql: sqlite_engine ref_sqlite
proof
  fix c db assume p: "sql_plain c"
  have "size c < length (sql_text c @ '')'')" using sql_text_length [of c] by simp
  from read_cond_text [OF p this, of "'')''"]
  show "query_bool ref_sqlite (select_prefix @ sql_text c @ '')'') db = (\<exists>r \<in> set (db_running db). sql_holds db r c)"
    by (simp add: ref_sqlite_def list_ex_iff)
qed

end
