(* ===== verification/Coord_Checks.thy ===== *)
theory Coord_Checks
  imports Coord_SQL
begin

text \<open>
  Correctness of the database operations of \<open>Coord_DB\<close>: the storage form keeps a filter's
  meaning and is unique to it, cleanup removes exactly the rows of dead instances,
  \<open>can_start\<close> decides the absence of a conflicting row, and every operation keeps the
  invariant \<open>db_ok\<close> of the tables.
\<close>

definition test_conflict :: "boolexpr \<Rightarrow> str list \<Rightarrow> str \<Rightarrow> str list \<Rightarrow> str \<Rightarrow> bool" where
  "test_conflict X names_a serial_a names_b serial_b \<longleftrightarrow>
     serial_hits X serial_a names_b \<or> serial_hits X serial_b names_a"

definition db_ok :: "db \<Rightarrow> bool" where
  "db_ok db \<longleftrightarrow> distinct (map row_id (db_running db))
     \<and> (\<forall>r \<in> set (db_running db). row_id r \<le> db_seq db)
     \<and> (\<forall>l \<in> set (db_labels db). lab_running_id l \<in> row_id ` set (db_running db))"

definition stale_instance :: "(nat \<Rightarrow> bool) \<Rightarrow> str \<Rightarrow> bool" where
  "stale_instance alive iid \<longleftrightarrow> (case pid_from_instance_id iid of None \<Rightarrow> True | Some pid \<Rightarrow> \<not> alive pid)"

section \<open>Deleting and cleaning\<close>

lemma exec_Inr [simp]: "exec faults st k = Inr x \<longleftrightarrow> faults st = None \<and> k = Inr x"
  by (simp add: exec_def split: option.splits)

declare result_bind_Inr [simp]

lemma delete_running_sel [simp]:
  "db_running (delete_running P db) = filter (\<lambda>r. \<not> P r) (db_running db)"
  "db_seq (delete_running P db) = db_seq db"
  "db_user_version (delete_running P db) = db_user_version db"
  by (simp_all add: delete_running_def Let_def)

lemma delete_running_compose:
  "delete_running P (delete_running Q db) = delete_running (\<lambda>r. Q r \<or> P r) db"
proof -
  have gone: "row_id ` set (filter (\<lambda>r. Q r \<or> P r) rs)
      = row_id ` set (filter Q rs) \<union> row_id ` set (filter P (filter (\<lambda>r. \<not> Q r) rs))" for rs
    by auto
  show ?thesis
    unfolding delete_running_def Let_def gone
    by (simp add: conj_commute del: set_filter)
qed

lemma delete_running_none: "delete_running (\<lambda>r. False) db = db"
  by (simp add: delete_running_def)

lemma delete_instances:
  "for_each (\<lambda>iid db. exec faults (St_delete_instance iid)
      (Inr (delete_running (\<lambda>r. row_instance r = iid) db))) iids db = Inr db'
   \<Longrightarrow> db' = delete_running (\<lambda>r. row_instance r \<in> set iids) db"
proof (induction iids arbitrary: db)
  case Nil
  then show ?case by (simp add: delete_running_none)
next
  case (Cons iid iids)
  then have "db' = delete_running (\<lambda>r. row_instance r \<in> set iids) (delete_running (\<lambda>r. row_instance r = iid) db)"
    by (auto split: sum.splits)
  then show ?case by (simp add: delete_running_compose)
qed

lemma clean_stale_result:
  assumes "clean_stale_entries alive ours faults db = Inr db'"
  shows "db' = delete_running (\<lambda>r. row_instance r \<noteq> ours \<and> stale_instance alive (row_instance r)) db"
proof -
  define iids where "iids = filter (stale_instance alive)
     (remdups (map row_instance (filter (\<lambda>r. row_instance r \<noteq> ours) (db_running db))))"
  have "db' = delete_running (\<lambda>r. row_instance r \<in> set iids) db"
    using assms delete_instances unfolding clean_stale_entries_def iids_def stale_instance_def Let_def
    by fastforce
  moreover have "r \<in> set (db_running db) \<Longrightarrow> row_instance r \<in> set iids
      \<longleftrightarrow> row_instance r \<noteq> ours \<and> stale_instance alive (row_instance r)" for r
    by (auto simp: iids_def)
  ultimately show ?thesis
    by (simp add: delete_running_def Let_def cong: filter_cong)
qed

lemma delete_running_ok:
  assumes "db_ok db"
  shows "db_ok (delete_running P db)"
    and "r \<in> set (db_running db) \<Longrightarrow> \<not> P r \<Longrightarrow> row_labels (delete_running P db) r = row_labels db r"
proof -
  have gone: "row_id r \<notin> row_id ` set (filter P (db_running db))"
    if "r \<in> set (db_running db)" "\<not> P r" for r
    using assms that by (auto simp: db_ok_def distinct_map dest: inj_onD)
  have labels: "db_labels (delete_running P db)
      = filter (\<lambda>l. lab_running_id l \<notin> row_id ` set (filter P (db_running db))) (db_labels db)"
    by (simp add: delete_running_def Let_def)
  have "lab_running_id l \<in> row_id ` set (filter (\<lambda>r. \<not> P r) (db_running db))"
    if l: "l \<in> set (db_labels db)" "lab_running_id l \<notin> row_id ` set (filter P (db_running db))" for l
  proof -
    have "lab_running_id l \<in> row_id ` set (db_running db)" using assms l(1) by (simp add: db_ok_def)
    then obtain r where "r \<in> set (db_running db)" "lab_running_id l = row_id r" by blast
    moreover from this have "\<not> P r" using l(2) by auto
    ultimately show ?thesis by auto
  qed
  then show "db_ok (delete_running P db)"
    using assms unfolding db_ok_def labels delete_running_sel
    by (simp add: distinct_map_filter del: set_filter) (simp add: image_iff)
  show "row_labels (delete_running P db) r = row_labels db r" if "r \<in> set (db_running db)" "\<not> P r"
    using gone [OF that] unfolding row_labels_def labels filter_filter
    by (intro arg_cong [where f = "map lab_label"] filter_cong) (metis gone that)+
qed

section \<open>Registration\<close>

lemma last_rowid_ok: "db_ok db \<Longrightarrow> last_rowid db = db_seq db"
proof -
  have "\<forall>r \<in> set rs. row_id r \<le> n \<Longrightarrow> foldr max (map row_id rs) n = n" for rs n
    by (induction rs) auto
  from this [of "db_running db" "db_seq db"] show "db_ok db \<Longrightarrow> ?thesis"
    by (simp add: db_ok_def last_rowid_def)
qed

lemma insert_label_Inr:
  "insert_label faults rid il db = Inr db' \<longleftrightarrow> faults (St_insert_label (fst il)) = None \<and>
     db' = db\<lparr>db_labels := db_labels db @ [\<lparr>lab_running_id = rid, lab_label = label_name (snd il)\<rparr>]\<rparr>"
  by (auto simp: insert_label_def)

lemma insert_labels:
  "for_each (insert_label faults rid) (enumerate k ls) db = Inr db' \<Longrightarrow>
   db' = db\<lparr>db_labels := db_labels db @ map (\<lambda>l. \<lparr>lab_running_id = rid, lab_label = label_name l\<rparr>) ls\<rparr>"
proof (induction ls arbitrary: k db)
  case (Cons l ls)
  let ?db = "db\<lparr>db_labels := db_labels db @ [\<lparr>lab_running_id = rid, lab_label = label_name l\<rparr>]\<rparr>"
  have "for_each (insert_label faults rid) (enumerate (Suc k) ls) ?db = Inr db'"
    using Cons.prems by (auto simp: insert_label_Inr split: sum.splits)
  from Cons.IH [OF this] show ?case by simp
qed simp

lemma register_result:
  assumes "register faults ours nm labels f db = Inr (rid, db')" "db_ok db"
  defines "row \<equiv> \<lparr>row_id = rid, row_instance = ours, row_name = nm, row_filter = f\<rparr>"
  shows "rid = db_seq db + 1" "rid \<le> MAX_ROWID" "db_running db' = db_running db @ [row]"
    "row_labels db' row = map label_name labels"
    "r \<in> set (db_running db) \<Longrightarrow> row_labels db' r = row_labels db r" "db_ok db'" "db_seq db' = rid"
proof -
  let ?new = "map (\<lambda>l. \<lparr>lab_running_id = rid, lab_label = label_name l\<rparr>) labels"
  have rid: "rid = db_seq db + 1" "db_seq db < MAX_ROWID"
    and db': "db' = db\<lparr>db_running := db_running db @ [row], db_seq := rid, db_labels := db_labels db @ ?new\<rparr>"
    using assms(1) last_rowid_ok [OF assms(2)] insert_labels
    unfolding register_def row_def
    by (auto simp: Let_def map_sum_Inr_iff split: if_splits dest!: insert_labels)
  show "rid = db_seq db + 1" "rid \<le> MAX_ROWID" using rid by simp_all
  show "db_running db' = db_running db @ [row]" "db_seq db' = rid" by (simp_all add: db')
  have old: "lab_running_id l \<noteq> rid" if "l \<in> set (db_labels db)" for l
    using assms(2) that rid by (fastforce simp: db_ok_def)
  then have none: "filter (\<lambda>l. lab_running_id l = rid) (db_labels db) = []"
    by (auto simp: filter_empty_conv)
  show "row_labels db' row = map label_name labels"
    using none by (simp add: db' row_labels_def row_def filter_map comp_def)
  show "row_labels db' r = row_labels db r" if "r \<in> set (db_running db)"
  proof -
    have "row_id r \<noteq> rid" using assms(2) that rid by (auto simp: db_ok_def)
    then show ?thesis by (simp add: db' row_labels_def filter_map comp_def)
  qed
  show "db_ok db'" using assms(2) rid by (auto simp: db_ok_def db' row_def)
qed

section \<open>Blocking checks\<close>

lemma serial_sentinels [simp]: "SERIAL_ALL = ''*''" "SERIAL_NONE = []"
  by (simp_all add: SERIAL_ALL_def SERIAL_NONE_def)

locale coordination = boolexpr_crate X + sqlite_engine S for X S
begin

lemma blocked_by_filters_iff:
  assumes "\<forall>s \<in> set filters. s \<noteq> [] \<and> s \<noteq> ''*''"
  shows "blocked_by_filters X labels filters \<longleftrightarrow> (\<exists>s \<in> set filters. serial_hits X s (map label_name labels))"
  using assms
proof (induction filters)
  case (Cons s filters)
  have "filter_matches X f labels = matches_names X f (map label_name labels)" for f
    by (simp add: matches_sem matches_names_sem)
  then show ?case using Cons by (auto simp: serial_hits_def split: sum.splits)
qed simp

text \<open>The label query answers whether a running row's labels satisfy the caller's filter.\<close>

lemma label_query_iff:
  assumes "LabelFilter_parse X s = Inr f" "s \<noteq> []" "s \<noteq> ''*''"
  shows "query_bool S (''SELECT EXISTS (SELECT 1 FROM running r WHERE '' @ filter_to_sql f @ '')'') db
    \<longleftrightarrow> (\<exists>r \<in> set (db_running db). serial_hits X s (row_labels db r))"
proof -
  have "names_ok (filter_expr f)" using filter_ok_parse [OF assms(1)] by (simp add: filter_ok_def)
  from query_filter [OF this, of db] show ?thesis
    using assms by (simp add: serial_hits_def matches_names_sem)
qed

lemma can_start_decides:
  assumes "can_start X S faults db labels f = Inr b" "serial_valid X f"
  shows "b \<longleftrightarrow> \<not> (\<exists>r \<in> set (db_running db).
     test_conflict X (map label_name labels) f (row_labels db r) (row_filter r))"
proof -
  let ?ns = "map label_name labels"
  let ?fs = "filter (\<lambda>s. s \<noteq> [] \<and> s \<noteq> ''*'') (map row_filter (db_running db))"
  have b: "blocked_by_filters X labels ?fs \<longleftrightarrow> (\<exists>s \<in> set ?fs. serial_hits X s ?ns)"
    by (rule blocked_by_filters_iff) auto
  have theirs: "(\<exists>r \<in> set (db_running db). serial_hits X (row_filter r) ?ns) \<longleftrightarrow>
      list_ex (\<lambda>r. row_filter r = ''*'') (db_running db) \<or> blocked_by_filters X labels ?fs"
    unfolding b by (auto simp: list_ex_iff) (metis serial_hits_simps(1,2))+
  have mine: "(\<exists>r \<in> set (db_running db). serial_hits X f (row_labels db r)) \<longleftrightarrow>
      (if f = ''*'' then length (db_running db) \<noteq> 0 else if f = [] then False
       else query_bool S (''SELECT EXISTS (SELECT 1 FROM running r WHERE ''
              @ filter_to_sql (projr (LabelFilter_parse X f)) @ '')'') db)"
  proof (cases "f = [] \<or> f = ''*''")
    case True
    then show ?thesis by (cases "db_running db") auto
  next
    case False
    then obtain g where "LabelFilter_parse X f = Inr g"
      using assms(2) by (auto simp: serial_valid_def split: sum.splits)
    then show ?thesis using False label_query_iff [of f g db] by simp
  qed
  show ?thesis
    using assms mine theirs
    by (auto simp: can_start_def test_conflict_def Let_def bex_disj_distrib split: if_splits sum.splits)
qed

lemma can_start_faultless:
  assumes "\<forall>st. faults st = None" "serial_valid X f"
  shows "\<exists>b. can_start X S faults db labels f = Inr b"
  using assms
  by (auto simp: can_start_def exec_def Let_def serial_valid_def split: sum.splits)

section \<open>Storage form\<close>

lemma star_not_filter: "LabelFilter_parse X ''*'' = Inl Invalid_label_expression"
  by (simp add: LabelFilter_parse_def parse_label_expr_def parse_raw_sentinels)

lemma empty_not_filter: "LabelFilter_parse X [] = Inl Invalid_label_expression"
  by (simp add: LabelFilter_parse_def parse_label_expr_def parse_raw_sentinels)

lemma display_not_sentinel: "filter_ok X f \<Longrightarrow> display_filter f \<noteq> [] \<and> display_filter f \<noteq> ''*''"
  using display_parse [of f] star_not_filter empty_not_filter by auto

lemma to_storage_meaning:
  assumes "serial_valid X s"
  shows "\<exists>t. to_storage X s = Inr t \<and> serial_valid X t \<and> (\<forall>names. serial_hits X t names = serial_hits X s names)
    \<and> to_storage X t = Inr t"
proof (cases "s = [] \<or> s = ''*''")
  case True
  then show ?thesis by (auto simp: to_storage_def)
next
  case False
  then obtain f where f: "LabelFilter_parse X s = Inr f"
    using assms by (auto simp: serial_valid_def split: sum.splits)
  then have ok: "filter_ok X f" by (rule filter_ok_parse)
  have hits: "serial_hits X s names = matches_names X f names" for names
    using f False by (simp add: serial_hits_def)
  consider "is_tautology f" | "\<not> is_tautology f" "is_contradiction f"
    | "\<not> is_tautology f" "\<not> is_contradiction f" by blast
  then show ?thesis
  proof cases
    case 1
    then show ?thesis using f False hits tautology_iff [OF ok] by (auto simp: to_storage_def)
  next
    case 2
    then show ?thesis using f False hits contradiction_iff [OF ok] by (auto simp: to_storage_def)
  next
    case 3
    note p = display_parse [OF ok] display_not_sentinel [OF ok]
    have "to_storage X s = Inr (display_filter f)" using f False 3 by (simp add: to_storage_def)
    moreover have "serial_valid X (display_filter f)" using p by (simp add: serial_valid_def)
    moreover have "serial_hits X (display_filter f) names = serial_hits X s names" for names
      using p hits by (simp add: serial_hits_def)
    moreover have "to_storage X (display_filter f) = Inr (display_filter f)"
      using p 3 by (simp add: to_storage_def)
    ultimately show ?thesis by blast
  qed
qed

text \<open>The storage form of an equivalent filter is the same text.\<close>

lemma to_storage_unique:
  assumes "serial_valid X a" "to_storage X a = Inr t"
    and "serial_valid X b" "to_storage X b = Inr u" "\<forall>names. serial_hits X a names = serial_hits X b names"
  shows "t = u"
proof -
  have canon: "t = ''*'' \<and> (\<forall>ns. serial_hits X t ns) \<or> t = [] \<and> (\<forall>ns. \<not> serial_hits X t ns)
      \<or> (\<exists>f. filter_ok X f \<and> t = display_filter f \<and> \<not> is_tautology f \<and> \<not> is_contradiction f
           \<and> (\<forall>ns. serial_hits X t ns = matches_names X f ns))"
    if valid: "serial_valid X s" and st: "to_storage X s = Inr t" for s t
  proof (cases "s = [] \<or> s = ''*''")
    case True
    then show ?thesis using st by (auto simp: to_storage_def)
  next
    case False
    then obtain f where f: "LabelFilter_parse X s = Inr f"
      using valid by (cases "LabelFilter_parse X s") (auto simp: serial_valid_def)
    then have ok: "filter_ok X f" by (rule filter_ok_parse)
    then have "serial_hits X (display_filter f) ns = matches_names X f ns" for ns
      using display_parse [OF ok] display_not_sentinel [OF ok] by (simp add: serial_hits_def)
    then show ?thesis using st f False ok by (auto simp: to_storage_def split: if_splits)
  qed
  have eq: "\<forall>ns. serial_hits X t ns = serial_hits X u ns"
    using to_storage_meaning [OF assms(1)] to_storage_meaning [OF assms(3)] assms(2,4,5) by auto
  from canon [OF assms(1,2)] canon [OF assms(3,4)] show ?thesis
    using eq filter_eq_iff tautology_iff contradiction_iff by metis
qed

end

interpretation ref_coord: coordination ref_boolexpr ref_sqlite
  by unfold_locales

end
