(* ===== verification/Coordination.thy ===== *)
theory Coordination
  imports Coord_Checks
begin

text \<open>
  Coordination of concurrent test processes (\<open>coordinate\<close> and \<open>TestRegistration\<close> of
  \<open>src/src/coordination.rs\<close>).  Any number of processes share one database; a step of the
  system is a process starting or dying, a committed attempt of \<open>coordinate\<close>, or the
  \<open>DELETE\<close> of a registration's drop.  \<open>BEGIN EXCLUSIVE\<close> makes an attempt one step; an
  attempt that fails or is blocked rolls back and changes nothing.

  The specification is \<open>excl_step\<close>: a test joins the running ones only if it conflicts
  with none, and leaves at any time.  The system refines it (\<open>coord_refines\<close>), which gives
  the exclusion property the crate promises.
\<close>

section \<open>Specification\<close>

inductive excl_step :: "('t \<Rightarrow> 't \<Rightarrow> bool) \<Rightarrow> 't list \<Rightarrow> 't list \<Rightarrow> bool" for C where
  excl_start: "list_all (\<lambda>u. \<not> C u t) R \<Longrightarrow> excl_step C R (R @ [t])"
| excl_stop: "subseq R' R \<Longrightarrow> excl_step C R R'"

definition exclusive :: "('t \<Rightarrow> 't \<Rightarrow> bool) \<Rightarrow> 't list \<Rightarrow> bool" where
  "exclusive C R \<longleftrightarrow> sorted_wrt (\<lambda>a b. \<not> C a b) R"

lemma sorted_wrt_subseq: "subseq ys xs \<Longrightarrow> sorted_wrt P xs \<Longrightarrow> sorted_wrt P ys"
  by (induction rule: list_emb.induct) (auto dest: list_emb_set)

locale exclusion =
  fixes C :: "'t \<Rightarrow> 't \<Rightarrow> bool"
  assumes conflict_sym: "C a b = C b a"
begin

lemma excl_step_exclusive: "excl_step C R R' \<Longrightarrow> exclusive C R \<Longrightarrow> exclusive C R'"
  by (induction rule: excl_step.induct)
     (auto simp: exclusive_def sorted_wrt_append list_all_iff intro: sorted_wrt_subseq)

lemma excl_steps_exclusive: "(excl_step C)\<^sup>*\<^sup>* R R' \<Longrightarrow> exclusive C R \<Longrightarrow> exclusive C R'"
  by (induction rule: rtranclp_induct) (auto intro: excl_step_exclusive)

lemma exclusive_nth: "exclusive C R \<Longrightarrow> i < length R \<Longrightarrow> j < length R \<Longrightarrow> i \<noteq> j \<Longrightarrow> \<not> C (R ! i) (R ! j)"
  unfolding exclusive_def sorted_wrt_iff_nth_less using conflict_sym by (metis linorder_neqE_nat)

end

section \<open>The system\<close>

record running_test =
  rt_labels :: "str list"
  rt_serial :: str

definition tests_conflict :: "boolexpr \<Rightarrow> running_test \<Rightarrow> running_test \<Rightarrow> bool" where
  "tests_conflict X a b = test_conflict X (rt_labels a) (rt_serial a) (rt_labels b) (rt_serial b)"

text \<open>A holder is a live \<open>TestRegistration\<close>, with the arguments \<open>coordinate\<close> was given.\<close>

record holder =
  h_pid :: nat
  h_instance :: str
  h_id :: nat
  h_name :: str
  h_labels :: "label list"
  h_serial :: str

record world =
  w_db :: db
  w_holders :: "holder list"
  w_procs :: "(nat \<times> str) set"  \<comment> \<open>live processes: pid and instance id\<close>

text \<open>
  \<open>start\<close> is a committed attempt of \<open>coordinate\<close>.  The probe \<open>kill\<close> answers for each
  live process that it exists; for any other pid, reused or gone, it may answer anything.
\<close>

inductive coord_step :: "boolexpr \<Rightarrow> sqlite \<Rightarrow> world \<Rightarrow> world \<Rightarrow> bool" for X S where
  spawn: "pid \<notin> fst ` w_procs w \<Longrightarrow> 0 < pid \<Longrightarrow> pid < 2 ^ 31 \<Longrightarrow>
    coord_step X S w (w\<lparr>w_procs := insert (pid, make_instance_id pid ts) (w_procs w)\<rparr>)"
| start: "(pid, iid) \<in> w_procs w \<Longrightarrow> \<forall>p \<in> fst ` w_procs w. kill p = Kill_ok \<or> kill p = Kill_EPERM \<Longrightarrow>
    serial_valid X serial \<Longrightarrow> to_storage X serial = Inr f \<Longrightarrow>
    coord_txn X S (is_pid_alive kill) iid faults nm labels f (w_db w) = Inr (Some (rid, db')) \<Longrightarrow>
    coord_step X S w (w\<lparr>w_db := db', w_holders := w_holders w @
      [\<lparr>h_pid = pid, h_instance = iid, h_id = rid, h_name = nm, h_labels = labels, h_serial = serial\<rparr>]\<rparr>)"
| finish: "h \<in> set (w_holders w) \<Longrightarrow>
    coord_step X S w (w\<lparr>w_db := delete_running (\<lambda>r. row_id r = h_id h) (w_db w),
      w_holders := filter (\<lambda>h'. h_id h' \<noteq> h_id h) (w_holders w)\<rparr>)"
| crash: "(pid, iid) \<in> w_procs w \<Longrightarrow>
    coord_step X S w (w\<lparr>w_procs := w_procs w - {(pid, iid)},
      w_holders := filter (\<lambda>h. h_pid h \<noteq> pid) (w_holders w)\<rparr>)"

inductive_simps coord_step_simps: "coord_step X S w w'"

definition initial_world :: "world \<Rightarrow> bool" where
  "initial_world w \<longleftrightarrow> db_ok (w_db w) \<and> w_holders w = [] \<and> w_procs w = {}"

definition running_tests :: "world \<Rightarrow> running_test list" where
  "running_tests w = map (\<lambda>h. \<lparr>rt_labels = map label_name (h_labels h), rt_serial = h_serial h\<rparr>) (w_holders w)"

section \<open>Invariant\<close>

text \<open>The row of a holder is in the database, with its labels and the storage form of its filter.\<close>

definition holder_row :: "boolexpr \<Rightarrow> db \<Rightarrow> holder \<Rightarrow> running_row \<Rightarrow> bool" where
  "holder_row X db h r \<longleftrightarrow> r \<in> set (db_running db) \<and> row_id r = h_id h \<and> row_instance r = h_instance h
     \<and> to_storage X (h_serial h) = Inr (row_filter r) \<and> row_labels db r = map label_name (h_labels h)"

definition world_ok :: "boolexpr \<Rightarrow> world \<Rightarrow> bool" where
  "world_ok X w \<longleftrightarrow> db_ok (w_db w) \<and> distinct (map h_id (w_holders w))
     \<and> inj_on fst (w_procs w)
     \<and> (\<forall>(pid, iid) \<in> w_procs w. 0 < pid \<and> pid < 2 ^ 31 \<and> pid_from_instance_id iid = Some pid)
     \<and> (\<forall>h \<in> set (w_holders w). (h_pid h, h_instance h) \<in> w_procs w \<and> serial_valid X (h_serial h)
          \<and> (\<exists>r. holder_row X (w_db w) h r))"

lemma pid_of_instance [simp]: "pid < 2 ^ 32 \<Longrightarrow> pid_from_instance_id (make_instance_id pid ts) = Some pid"
proof -
  assume pid: "pid < 2 ^ 32"
  have "\<forall>c \<in> set (show_nat pid). c \<noteq> CHR '':''"
    using show_nat_digits [of pid] by (auto simp: list_all_iff rust_def)
  then have "takeWhile (\<lambda>c. c \<noteq> CHR '':'') (make_instance_id pid ts) = show_nat pid"
    by (simp add: make_instance_id_def takeWhile_append2)
  with pid show ?thesis by (simp add: pid_from_instance_id_def)
qed

lemma live_not_stale:
  assumes "world_ok X w" "h \<in> set (w_holders w)" "\<forall>p \<in> fst ` w_procs w. kill p = Kill_ok \<or> kill p = Kill_EPERM"
  shows "\<not> stale_instance (is_pid_alive kill) (h_instance h)"
proof -
  have "(h_pid h, h_instance h) \<in> w_procs w" using assms(1,2) by (simp add: world_ok_def)
  moreover from this have "0 < h_pid h" "h_pid h < 2 ^ 31" "pid_from_instance_id (h_instance h) = Some (h_pid h)"
    using assms(1) by (auto simp: world_ok_def)
  moreover have "kill (h_pid h) = Kill_ok \<or> kill (h_pid h) = Kill_EPERM"
    using assms(3) calculation(1) by force
  ultimately show ?thesis by (auto simp: stale_instance_def is_pid_alive_def)
qed

lemma holder_row_delete:
  assumes "db_ok db" "holder_row X db h r" "\<not> P r"
  shows "holder_row X (delete_running P db) h r"
  using assms delete_running_ok(2) [OF assms(1), of r P] by (simp add: holder_row_def)

text \<open>A committed attempt: the cleaned database admitted the test and registered it.\<close>

lemma coord_txn_Some:
  assumes "coord_txn X S alive iid faults nm labels f db = Inr (Some (rid, db'))"
  defines "db1 \<equiv> delete_running (\<lambda>r. row_instance r \<noteq> iid \<and> stale_instance alive (row_instance r)) db"
  shows "can_start X S faults db1 labels f = Inr True" "register faults iid nm labels f db1 = Inr (rid, db')"
proof -
  obtain d where "clean_stale_entries alive iid faults db = Inr d" "can_start X S faults d labels f = Inr True"
      "register faults iid nm labels f d = Inr (rid, db')"
    using assms(1) by (auto simp: coord_txn_def split: if_splits)
  moreover from this(1) have "d = db1" unfolding db1_def by (rule clean_stale_result)
  ultimately show "can_start X S faults db1 labels f = Inr True" "register faults iid nm labels f db1 = Inr (rid, db')"
    by simp_all
qed

lemma holder_row_register:
  assumes "register faults iid nm labels f db = Inr (rid, db')" "db_ok db" "holder_row X db h r"
  shows "holder_row X db' h r"
  using assms(3) register_result(3,5) [OF assms(1,2)] by (auto simp: holder_row_def)

lemma start_rows:
  assumes ok: "world_ok X w" and live: "\<forall>p \<in> fst ` w_procs w. kill p = Kill_ok \<or> kill p = Kill_EPERM"
    and h: "h \<in> set (w_holders w)"
  shows "\<exists>r. holder_row X (delete_running
    (\<lambda>r. row_instance r \<noteq> iid \<and> stale_instance (is_pid_alive kill) (row_instance r)) (w_db w)) h r"
proof -
  obtain r where r: "holder_row X (w_db w) h r" using ok h by (auto simp: world_ok_def)
  moreover have "\<not> stale_instance (is_pid_alive kill) (row_instance r)"
    using live_not_stale [OF ok h live] r by (simp add: holder_row_def)
  moreover have "db_ok (w_db w)" using ok by (simp add: world_ok_def)
  ultimately show ?thesis by (intro exI [of _ r] holder_row_delete) auto
qed

lemma world_ok_step:
  assumes "coord_step X S w w'" "world_ok X w"
  shows "world_ok X w'"
  using assms
proof (induction rule: coord_step.induct)
  case (spawn pid w ts)
  then have "inj_on fst (insert (pid, make_instance_id pid ts) (w_procs w))"
    by (auto simp: world_ok_def)
  then show ?case using spawn by (auto simp: world_ok_def)
next
  case (start pid iid w kill serial f faults nm labels rid db')
  let ?db1 = "delete_running (\<lambda>r. row_instance r \<noteq> iid \<and> stale_instance (is_pid_alive kill) (row_instance r)) (w_db w)"
  note reg = coord_txn_Some(2) [OF start.hyps(5)]
  have ok1: "db_ok ?db1" using start.prems by (simp add: world_ok_def delete_running_ok)
  have rows: "\<exists>r. holder_row X ?db1 h r" if "h \<in> set (w_holders w)" for h
    by (rule start_rows [OF start.prems start.hyps(2) that])
  then have rows': "\<exists>r. holder_row X db' h r" if "h \<in> set (w_holders w)" for h
    using holder_row_register [OF reg ok1] that by blast
  have "h_id h \<noteq> rid" if "h \<in> set (w_holders w)" for h
    using rows [OF that] ok1 register_result(1) [OF reg ok1]
    by (fastforce simp: holder_row_def db_ok_def)
  moreover let ?h = "\<lparr>h_pid = pid, h_instance = iid, h_id = rid, h_name = nm, h_labels = labels, h_serial = serial\<rparr>"
  have "holder_row X db' ?h \<lparr>row_id = rid, row_instance = iid, row_name = nm, row_filter = f\<rparr>"
    using register_result(3,4) [OF reg ok1] start.hyps(4) by (simp add: holder_row_def)
  ultimately show ?case
    using start.prems start.hyps(1,3) rows' register_result(6) [OF reg ok1]
    by (auto simp: world_ok_def)
next
  case (finish h w)
  let ?P = "\<lambda>r. row_id r = h_id h"
  have "\<exists>r. holder_row X (delete_running ?P (w_db w)) g r"
    if g: "g \<in> set (w_holders w)" "h_id g \<noteq> h_id h" for g
  proof -
    obtain r where r: "holder_row X (w_db w) g r" using finish.prems g by (auto simp: world_ok_def)
    then have "\<not> ?P r" using g by (simp add: holder_row_def)
    then show ?thesis using finish.prems r holder_row_delete [of "w_db w" X g r ?P] by (auto simp: world_ok_def)
  qed
  then show ?case using finish.prems by (auto simp: world_ok_def delete_running_ok distinct_map_filter)
next
  case (crash pid iid w)
  have "(h_pid h, h_instance h) \<in> w_procs w - {(pid, iid)}"
    if "h \<in> set (w_holders w)" "h_pid h \<noteq> pid" for h
    using crash.prems that by (auto simp: world_ok_def)
  then show ?case using crash.prems
    by (auto simp: world_ok_def distinct_map_filter inj_on_def)
qed

lemma initial_world_ok: "initial_world w \<Longrightarrow> world_ok X w"
  by (simp add: initial_world_def world_ok_def)

lemma reachable_ok: "(coord_step X S)\<^sup>*\<^sup>* w w' \<Longrightarrow> world_ok X w \<Longrightarrow> world_ok X w'"
  by (induction rule: rtranclp_induct) (auto intro: world_ok_step)

section \<open>Refinement\<close>

context coordination
begin

lemma test_conflict_storage:
  assumes "serial_valid X a" "to_storage X a = Inr a'" "serial_valid X b" "to_storage X b = Inr b'"
  shows "test_conflict X ns a' ms b' = test_conflict X ns a ms b"
  using to_storage_meaning [OF assms(1)] to_storage_meaning [OF assms(3)] assms(2,4)
  by (simp add: test_conflict_def)

lemma coord_refines:
  assumes "coord_step X S w w'" "world_ok X w"
  shows "excl_step (tests_conflict X) (running_tests w) (running_tests w')"
  using assms
proof (induction rule: coord_step.induct)
  case (spawn pid w ts)
  then show ?case by (simp add: running_tests_def excl_stop)
next
  case (start pid iid w kill serial f faults nm labels rid db')
  let ?db1 = "delete_running (\<lambda>r. row_instance r \<noteq> iid \<and> stale_instance (is_pid_alive kill) (row_instance r)) (w_db w)"
  have f: "serial_valid X f" using to_storage_meaning [OF start.hyps(3)] start.hyps(4) by auto
  note free = can_start_decides [OF coord_txn_Some(1) [OF start.hyps(5)] f]
  have "\<not> test_conflict X (map label_name (h_labels h)) (h_serial h) (map label_name labels) serial"
    if h: "h \<in> set (w_holders w)" for h
  proof -
    obtain r where r: "holder_row X ?db1 h r" using start_rows [OF start.prems start.hyps(2) h] by blast
    then have "\<not> test_conflict X (map label_name labels) f (row_labels ?db1 r) (row_filter r)"
      using free unfolding holder_row_def by blast
    moreover have "serial_valid X (h_serial h)" using start.prems h by (simp add: world_ok_def)
    ultimately show ?thesis
      using r test_conflict_storage [OF start.hyps(3,4), of "h_serial h" "row_filter r"]
      by (auto simp: holder_row_def test_conflict_def)
  qed
  then show ?case
    by (auto simp: running_tests_def tests_conflict_def list_all_iff intro!: excl_start)
next
  case (finish h w)
  then show ?case by (auto simp: running_tests_def intro!: excl_stop subseq_map subseq_filter_left)
next
  case (crash pid iid w)
  then show ?case by (auto simp: running_tests_def intro!: excl_stop subseq_map subseq_filter_left)
qed

lemma reachable_refines:
  "(coord_step X S)\<^sup>*\<^sup>* w w' \<Longrightarrow> world_ok X w \<Longrightarrow>
   (excl_step (tests_conflict X))\<^sup>*\<^sup>* (running_tests w) (running_tests w')"
proof (induction rule: rtranclp_induct)
  case (step u v)
  then show ?case using coord_refines reachable_ok by (metis rtranclp.rtrancl_into_rtrancl)
qed simp

end

interpretation tests: exclusion "tests_conflict X" for X
  by unfold_locales (auto simp: tests_conflict_def test_conflict_def)

end
