(* ===== verification/Coord_Loop.thy ===== *)
theory Coord_Loop
  imports Coordination
begin

text \<open>
  The waiting loop of \<open>coordinate\<close>, \<open>retry_busy\<close>, the drop of a registration with its
  recorded violations (\<open>src/src/coordination/violations.rs\<close>), and the schema migration.

  Each loop is a recursion on what its successive attempts meet: the contents of the database
  when the attempt takes its lock, which statements fail, whether the database file was found
  moved.  A finite list that runs out leaves the loop waiting, so that a result is never
  assumed: that the loop returns is proved from what the attempts meet.
\<close>

section \<open>Waiting and retrying\<close>

definition is_retryable :: "sqlite_error \<Rightarrow> bool" where
  "is_retryable e \<longleftrightarrow> e = Database_busy"

definition next_backoff :: "nat \<Rightarrow> nat" where
  "next_backoff backoff = min (backoff * 2) 200"

text \<open>\<open>retry_busy\<close> on the results of successive calls; the sleeps are collected.\<close>

fun retry_busy :: "nat \<Rightarrow> (sqlite_error, 'a) result list \<Rightarrow> nat list \<times> (sqlite_error, 'a) result option" where
  "retry_busy backoff [] = ([], None)"
| "retry_busy backoff (r # rs) = (case r of
     Inl e \<Rightarrow> if is_retryable e
       then (let (sleeps, res) = retry_busy (next_backoff backoff) rs in (backoff # sleeps, res))
       else ([], Some (Inl e))
   | Inr x \<Rightarrow> ([], Some (Inr x)))"

record attempt =
  at_moved :: bool          \<comment> \<open>\<open>panic_if_moved\<close> before the transaction\<close>
  at_db :: db               \<comment> \<open>the database under \<open>BEGIN EXCLUSIVE\<close>\<close>
  at_kill :: "nat \<Rightarrow> kill_result"
  at_faults :: faults
  at_moved_after :: bool    \<comment> \<open>\<open>panic_if_moved\<close> after the commit\<close>

datatype coord_outcome =
    Registered nat db
  | Waiting nat             \<comment> \<open>still in the loop, with this backoff in ms\<close>
  | Panic_moved
  | Panic_moved_registered nat db \<comment> \<open>unwinds through the drop of the new registration\<close>
  | Panic_sql sqlite_error
  | Panic_expect

fun coordinate_loop :: "boolexpr \<Rightarrow> sqlite \<Rightarrow> str \<Rightarrow> str \<Rightarrow> label list \<Rightarrow> str \<Rightarrow> nat \<Rightarrow> attempt list \<Rightarrow> coord_outcome" where
  "coordinate_loop X S iid nm labels f backoff [] = Waiting backoff"
| "coordinate_loop X S iid nm labels f backoff (a # as) =
     (if at_moved a then Panic_moved
      else case coord_txn X S (is_pid_alive (at_kill a)) iid (at_faults a) nm labels f (at_db a) of
             Inr (Some (rid, db')) \<Rightarrow>
               if at_moved_after a then Panic_moved_registered rid db' else Registered rid db'
           | Inr None \<Rightarrow> coordinate_loop X S iid nm labels f (next_backoff backoff) as
           | Inl (Sql e) \<Rightarrow>
               if is_retryable e then coordinate_loop X S iid nm labels f (next_backoff backoff) as
               else Panic_sql e
           | Inl Expect_failed \<Rightarrow> Panic_expect)"

definition coordinate :: "boolexpr \<Rightarrow> sqlite \<Rightarrow> str \<Rightarrow> str \<Rightarrow> label list \<Rightarrow> str \<Rightarrow> attempt list \<Rightarrow> coord_outcome" where
  "coordinate X S iid nm labels serial_filter attempts =
     (case to_storage X serial_filter of
        Inl _ \<Rightarrow> Panic_expect
      | Inr canonical_filter \<Rightarrow> coordinate_loop X S iid nm labels canonical_filter 10 attempts)"

section \<open>Dropping a registration\<close>

record drop_attempt =
  da_moved :: bool
  da_fault :: "sqlite_error option"
  da_db :: db

datatype drop_panic = Drop_moved | Drop_failed sqlite_error

text \<open>The \<open>cleanup\<close> closure: retried deletes, each after a moved check, then one more check.\<close>

fun drop_cleanup :: "nat \<Rightarrow> drop_attempt list \<Rightarrow> (drop_panic, db) result option" where
  "drop_cleanup rid [] = None"
| "drop_cleanup rid (a # as) =
     (if da_moved a then Some (Inl Drop_moved)
      else case da_fault a of
             Some e \<Rightarrow> if is_retryable e then drop_cleanup rid as else Some (Inl (Drop_failed e))
           | None \<Rightarrow> Some (Inr (delete_running (\<lambda>r. row_id r = rid) (da_db a))))"

record drop_result =
  dr_db :: "db option"               \<comment> \<open>the database the \<open>DELETE\<close> left, if it ran\<close>
  dr_propagated :: "drop_panic option"
  dr_violations :: "drop_panic list"

definition record_violation :: "'m \<Rightarrow> 'm list \<Rightarrow> 'm list" where
  "record_violation message violations = violations @ [message]"

definition take_violations :: "'m list \<Rightarrow> 'm list \<times> 'm list" where
  "take_violations violations = (violations, [])"

definition drop_registration :: "bool \<Rightarrow> nat \<Rightarrow> bool \<Rightarrow> drop_panic list \<Rightarrow> drop_attempt list \<Rightarrow> drop_result option" where
  "drop_registration panicking rid moved_after violations attempts =
     (case drop_cleanup rid attempts of
        None \<Rightarrow> None
      | Some res \<Rightarrow>
          let left = (case res of Inl _ \<Rightarrow> None | Inr db \<Rightarrow> Some db);
              payload = (case res of Inl p \<Rightarrow> Some p
                         | Inr _ \<Rightarrow> if moved_after then Some Drop_moved else None)
          in Some (case payload of
               None \<Rightarrow> \<lparr>dr_db = left, dr_propagated = None, dr_violations = violations\<rparr>
             | Some p \<Rightarrow> if panicking
                 then \<lparr>dr_db = left, dr_propagated = None, dr_violations = record_violation p violations\<rparr>
                 else \<lparr>dr_db = left, dr_propagated = Some p, dr_violations = violations\<rparr>))"

section \<open>Schema migration\<close>

datatype mig_stmt =
    Mig_read_version | Mig_begin | Mig_reread_version | Mig_select | Mig_update nat | Mig_bump | Mig_commit

datatype mig_event = Mig_moved | Mig_failed sqlite_error

type_synonym mig_env = "mig_stmt \<Rightarrow> mig_event option"

definition mig_exec :: "mig_env \<Rightarrow> mig_stmt \<Rightarrow> (mig_event, 'a) result \<Rightarrow> (mig_event, 'a) result" where
  "mig_exec env st k = (case env st of Some e \<Rightarrow> Inl e | None \<Rightarrow> k)"

definition update_filter :: "nat \<Rightarrow> str \<Rightarrow> db \<Rightarrow> db" where
  "update_filter rid canonical db =
     db\<lparr>db_running := map (\<lambda>r. if row_id r = rid then r\<lparr>row_filter := canonical\<rparr> else r) (db_running db)\<rparr>"

definition canonical_text :: "label_filter \<Rightarrow> str" where
  "canonical_text f = (if is_tautology f then SERIAL_ALL
     else if is_contradiction f then SERIAL_NONE else display_filter f)"

definition scrub_row :: "boolexpr \<Rightarrow> mig_env \<Rightarrow> running_row \<Rightarrow> db \<Rightarrow> (mig_event, db) result" where
  "scrub_row X env r db =
     (case LabelFilter_parse X (row_filter r) of
        Inr f \<Rightarrow> if canonical_text f \<noteq> row_filter r
          then mig_exec env (Mig_update (row_id r)) (Inr (update_filter (row_id r) (canonical_text f) db))
          else Inr db
      | Inl _ \<Rightarrow> Inr db)"

definition scrub_serial_filters_v1 :: "boolexpr \<Rightarrow> mig_env \<Rightarrow> db \<Rightarrow> (mig_event, db) result" where
  "scrub_serial_filters_v1 X env db =
     mig_exec env Mig_select
       (let rows = filter (\<lambda>r. row_filter r \<noteq> SERIAL_NONE \<and> row_filter r \<noteq> SERIAL_ALL) (db_running db)
        in for_each (scrub_row X env) rows db)"

text \<open>
  \<open>current\<close> is the version read before the lock; \<open>db\<close> the database once \<open>BEGIN IMMEDIATE\<close>
  has it.  A panic unwinds out of the transaction, which is then not committed.
\<close>

definition migrate_schema :: "boolexpr \<Rightarrow> mig_env \<Rightarrow> int \<Rightarrow> db \<Rightarrow> (mig_event, db) result" where
  "migrate_schema X env current db =
     mig_exec env Mig_read_version
       (if current \<ge> SCHEMA_VERSION then Inr db
        else mig_exec env Mig_begin (mig_exec env Mig_reread_version
          (if db_user_version db \<ge> SCHEMA_VERSION then mig_exec env Mig_commit (Inr db)
           else result_bind (if current < 1 then scrub_serial_filters_v1 X env db else Inr db) (\<lambda>db1.
                  mig_exec env Mig_bump (mig_exec env Mig_commit
                    (Inr (db1\<lparr>db_user_version := SCHEMA_VERSION\<rparr>)))))))"

section \<open>Lemmas: the loop\<close>

lemma next_backoff_le: "next_backoff b \<le> 200"
  by (simp add: next_backoff_def)

lemma next_backoff_closed: "b = min (10 * 2 ^ k) 200 \<Longrightarrow> next_backoff b = min (10 * 2 ^ Suc k) (200 :: nat)"
  by (auto simp: next_backoff_def min_def)

lemma retry_busy_sleeps:
  "retry_busy (min (10 * 2 ^ k) 200) (replicate n (Inl Database_busy) @ [Inr v])
   = (map (\<lambda>k. min (10 * 2 ^ k) 200) [k..<k + n], Some (Inr v))"
proof (induction n arbitrary: k)
  case (Suc n)
  have "retry_busy (min (10 * 2 ^ k) 200) (replicate (Suc n) (Inl Database_busy) @ [Inr v])
      = (let (sleeps, res) = retry_busy (min (10 * 2 ^ Suc k) 200) (replicate n (Inl Database_busy) @ [Inr v])
         in (min (10 * 2 ^ k) 200 # sleeps, res))"
    using next_backoff_closed [OF refl, of k] by (simp add: is_retryable_def)
  then show ?case using Suc [of "Suc k"] by (simp add: upt_conv_Cons del: upt_Suc)
qed simp

definition attempt_waits :: "boolexpr \<Rightarrow> sqlite \<Rightarrow> str \<Rightarrow> str \<Rightarrow> label list \<Rightarrow> str \<Rightarrow> attempt \<Rightarrow> bool" where
  "attempt_waits X S iid nm labels f a \<longleftrightarrow> \<not> at_moved a \<and>
     (case coord_txn X S (is_pid_alive (at_kill a)) iid (at_faults a) nm labels f (at_db a) of
        Inr None \<Rightarrow> True | Inl (Sql e) \<Rightarrow> e = Database_busy | _ \<Rightarrow> False)"

lemma coordinate_loop_waits:
  assumes "list_all (attempt_waits X S iid nm labels f) pre" "backoff = min (10 * 2 ^ k) 200"
  shows "coordinate_loop X S iid nm labels f backoff (pre @ post)
    = coordinate_loop X S iid nm labels f (min (10 * 2 ^ (k + length pre)) 200) post"
  using assms
proof (induction pre arbitrary: backoff k)
  case (Cons a pre)
  have "coordinate_loop X S iid nm labels f backoff ((a # pre) @ post)
      = coordinate_loop X S iid nm labels f (next_backoff backoff) (pre @ post)"
    using Cons.prems(1) by (auto simp: attempt_waits_def is_retryable_def split: sum.splits option.splits coord_error.splits)
  then show ?case using Cons.IH [of "next_backoff backoff" "Suc k"] Cons.prems
    by (simp add: next_backoff_closed del: coordinate_loop.simps)
qed simp

lemma clean_stale_faultless:
  assumes "\<forall>st. faults st = None"
  shows "\<exists>db'. clean_stale_entries alive ours faults db = Inr db'"
proof -
  have "\<exists>db'. for_each (\<lambda>iid db. exec faults (St_delete_instance iid)
      (Inr (delete_running (\<lambda>r. row_instance r = iid) db))) iids db = Inr db'" for iids db
    using assms by (induction iids arbitrary: db) (auto simp: exec_def)
  then show ?thesis using assms by (simp add: clean_stale_entries_def exec_def Let_def)
qed

lemma register_faultless:
  assumes "\<forall>st. faults st = None" "last_rowid db < MAX_ROWID"
  shows "\<exists>reg. register faults ours nm labels f db = Inr reg"
proof -
  have "\<exists>db'. for_each (insert_label faults rid) ils db = Inr db'" for rid ils db
    using assms(1) by (induction ils arbitrary: db) (auto simp: insert_label_def exec_def)
  then show ?thesis using assms
    by (simp add: register_def exec_def Let_def not_le [symmetric] map_sum_Inr_iff)
qed

context coordination
begin

lemma coord_txn_admits:
  assumes faults: "\<forall>st. faults st = None" and f: "serial_valid X f" and ok: "db_ok db" "db_seq db < MAX_ROWID"
    and free: "\<And>r. r \<in> set (db_running db) \<Longrightarrow> \<not> (row_instance r \<noteq> iid \<and> stale_instance alive (row_instance r)) \<Longrightarrow>
      \<not> test_conflict X (map label_name labels) f (row_labels db r) (row_filter r)"
  shows "\<exists>rid db'. coord_txn X S alive iid faults nm labels f db = Inr (Some (rid, db'))"
proof -
  let ?P = "\<lambda>r. row_instance r \<noteq> iid \<and> stale_instance alive (row_instance r)"
  obtain db1 where c: "clean_stale_entries alive iid faults db = Inr db1"
    using clean_stale_faultless [OF faults] by blast
  then have db1: "db1 = delete_running ?P db" by (rule clean_stale_result)
  obtain b where b: "can_start X S faults db1 labels f = Inr b" using can_start_faultless [OF faults f] by blast
  moreover have "\<not> (\<exists>r \<in> set (db_running db1).
      test_conflict X (map label_name labels) f (row_labels db1 r) (row_filter r))"
    using free delete_running_ok(2) [OF ok(1), of _ ?P] by (auto simp: db1)
  ultimately have b: "can_start X S faults db1 labels f = Inr True" using can_start_decides [OF b f] by auto
  have "last_rowid db1 < MAX_ROWID" using ok delete_running_ok(1) [of db ?P] by (simp add: db1 last_rowid_ok)
  then obtain reg where "register faults iid nm labels f db1 = Inr reg"
    using register_faultless [OF faults] by blast
  then show ?thesis using b c faults by (cases reg) (simp add: coord_txn_def exec_def)
qed

end

section \<open>Lemmas: the drop\<close>

lemma drop_cleanup_Inr:
  "drop_cleanup rid as = Some (Inr db) \<Longrightarrow>
     \<exists>a \<in> set as. \<not> da_moved a \<and> da_fault a = None \<and> db = delete_running (\<lambda>r. row_id r = rid) (da_db a)"
  by (induction as) (auto split: if_splits option.splits)

lemma drop_cleanup_returns:
  "list_all (\<lambda>a. \<not> da_moved a \<and> da_fault a = Some Database_busy) pre \<Longrightarrow>
   drop_cleanup rid (pre @ post) = drop_cleanup rid post"
  by (induction pre) (auto simp: is_retryable_def)

section \<open>Lemmas: migration\<close>

definition scrubbed :: "boolexpr \<Rightarrow> running_row \<Rightarrow> running_row" where
  "scrubbed X r = (case LabelFilter_parse X (row_filter r) of
       Inl _ \<Rightarrow> r | Inr f \<Rightarrow> r\<lparr>row_filter := canonical_text f\<rparr>)"

lemma mig_exec_Inr [simp]: "mig_exec env st k = Inr x \<longleftrightarrow> env st = None \<and> k = Inr x"
  by (simp add: mig_exec_def split: option.splits)

lemma scrub_row_Inr:
  "scrub_row X env r db = Inr db' \<Longrightarrow>
   db_running db' = map (\<lambda>q. if row_id q = row_id r \<and> row_filter (scrubbed X r) \<noteq> row_filter r
      then q\<lparr>row_filter := row_filter (scrubbed X r)\<rparr> else q) (db_running db)
   \<and> db_labels db' = db_labels db \<and> db_seq db' = db_seq db"
  by (auto simp: scrub_row_def scrubbed_def update_filter_def split: sum.splits if_splits)

lemma scrubbed_id [simp]: "row_id (scrubbed X r) = row_id r"
  by (simp add: scrubbed_def split: sum.split)

lemma scrub_rows:
  assumes "for_each (scrub_row X env) rows db = Inr db'" "distinct (map row_id (db_running db))"
    "set rows \<subseteq> set (db_running db)" "distinct rows"
  shows "db_running db' = map (\<lambda>r. if r \<in> set rows then scrubbed X r else r) (db_running db)
    \<and> db_labels db' = db_labels db \<and> db_seq db' = db_seq db"
  using assms
proof (induction rows arbitrary: db' rule: rev_induct)
  case (snoc r rows)
  obtain db1 where s: "for_each (scrub_row X env) rows db = Inr db1" "scrub_row X env r db1 = Inr db'"
    using snoc.prems(1)
    by (cases "for_each (scrub_row X env) rows db"; simp add: for_each_append split: sum.splits)
  have IH: "db_running db1 = map (\<lambda>r. if r \<in> set rows then scrubbed X r else r) (db_running db)"
      "db_labels db1 = db_labels db" "db_seq db1 = db_seq db"
    using snoc.IH [OF s(1)] snoc.prems by auto
  have same: "row_id q = row_id r \<longleftrightarrow> q = r" if "q \<in> set (db_running db)" for q
    using snoc.prems that by (auto simp: distinct_map dest: inj_onD)
  have r: "r \<notin> set rows" using snoc.prems by simp
  have upd: "scrubbed X r = r\<lparr>row_filter := row_filter (scrubbed X r)\<rparr>"
    by (simp add: scrubbed_def split: sum.split)
  let ?h = "\<lambda>q. if q \<in> set rows then scrubbed X q else q"
  let ?g = "\<lambda>q. if row_id q = row_id r \<and> row_filter (scrubbed X r) \<noteq> row_filter r
      then q\<lparr>row_filter := row_filter (scrubbed X r)\<rparr> else q"
  have "?g (?h q) = (if q \<in> set (rows @ [r]) then scrubbed X q else q)" if "q \<in> set (db_running db)" for q
  proof (cases "q = r")
    case True
    then show ?thesis using r upd by (cases "row_filter (scrubbed X r) = row_filter r") auto
  next
    case False
    then have "row_id (?h q) \<noteq> row_id r" using same [OF that] by simp
    then show ?thesis using False by auto
  qed
  then show ?case using scrub_row_Inr [OF s(2)] IH by simp
qed simp

lemma scrub_faultless:
  assumes "\<forall>st. env st = None"
  shows "\<exists>db'. scrub_serial_filters_v1 X env db = Inr db'"
proof -
  have "\<exists>db'. scrub_row X env r db = Inr db'" for r db
    using assms by (auto simp: scrub_row_def mig_exec_def split: sum.splits)
  then have "\<exists>db'. for_each (scrub_row X env) rows db = Inr db'" for rows db
    by (induction rows arbitrary: db) (auto split: sum.splits, metis sum.distinct(1))
  then show ?thesis using assms by (simp add: scrub_serial_filters_v1_def mig_exec_def Let_def)
qed

lemma scrub_result:
  assumes "scrub_serial_filters_v1 X env db = Inr db'" "db_ok db"
  shows "db_running db' = map (\<lambda>r. if row_filter r \<noteq> [] \<and> row_filter r \<noteq> ''*'' then scrubbed X r else r) (db_running db)"
    "db_labels db' = db_labels db" "db_seq db' = db_seq db"
proof -
  let ?rows = "filter (\<lambda>r. row_filter r \<noteq> [] \<and> row_filter r \<noteq> ''*'') (db_running db)"
  have d: "distinct (map row_id (db_running db))" using assms(2) by (simp add: db_ok_def)
  then have "distinct ?rows" by (auto simp: distinct_map)
  moreover have "for_each (scrub_row X env) ?rows db = Inr db'"
    using assms(1) by (simp add: scrub_serial_filters_v1_def Let_def)
  ultimately have r: "db_running db' = map (\<lambda>r. if r \<in> set ?rows then scrubbed X r else r) (db_running db)
      \<and> db_labels db' = db_labels db \<and> db_seq db' = db_seq db"
    using d by (intro scrub_rows) auto
  then show "db_running db' = map (\<lambda>r. if row_filter r \<noteq> [] \<and> row_filter r \<noteq> ''*'' then scrubbed X r else r) (db_running db)"
    "db_labels db' = db_labels db" "db_seq db' = db_seq db" by simp_all
qed

context coordination
begin

lemma scrubbed_storage:
  assumes "row_filter r \<noteq> []" "row_filter r \<noteq> ''*''"
  shows "serial_hits X (row_filter (scrubbed X r)) names = serial_hits X (row_filter r) names"
    and "serial_valid X (row_filter (scrubbed X r)) \<Longrightarrow>
      to_storage X (row_filter (scrubbed X r)) = Inr (row_filter (scrubbed X r))"
proof -
  have "serial_hits X (row_filter (scrubbed X r)) names = serial_hits X (row_filter r) names
    \<and> (serial_valid X (row_filter (scrubbed X r)) \<longrightarrow>
         to_storage X (row_filter (scrubbed X r)) = Inr (row_filter (scrubbed X r)))"
  proof (cases "LabelFilter_parse X (row_filter r)")
    case (Inl e)
    then show ?thesis using assms by (simp add: scrubbed_def serial_valid_def)
  next
    case (Inr f)
    then have "to_storage X (row_filter r) = Inr (canonical_text f)" "serial_valid X (row_filter r)"
      using assms by (simp_all add: to_storage_def canonical_text_def serial_valid_def)
    moreover have "row_filter (scrubbed X r) = canonical_text f" using Inr by (simp add: scrubbed_def)
    ultimately show ?thesis using to_storage_meaning [of "row_filter r"] by auto
  qed
  then show "serial_hits X (row_filter (scrubbed X r)) names = serial_hits X (row_filter r) names"
    "serial_valid X (row_filter (scrubbed X r)) \<Longrightarrow>
      to_storage X (row_filter (scrubbed X r)) = Inr (row_filter (scrubbed X r))" by auto
qed

end

end
