(* ===== verification/Coord_Props.thy ===== *)
theory Coord_Props
  imports Coord_Loop
begin

text \<open>
  The properties of coordination: exclusion and its refinement, progress, the exactness of the
  blocking check, of the storage form and of stale-entry cleanup, the waiting loop, the
  registration's drop and the schema migration.
\<close>

section \<open>A test without a running conflict is admitted\<close>

context coordination
begin

lemma start_admitted:
  assumes w: "world_ok X w" "db_seq (w_db w) < MAX_ROWID" and p: "(pid, iid) \<in> w_procs w"
    and kill: "\<forall>q \<in> fst ` w_procs w. kill q = Kill_ok \<or> kill q = Kill_EPERM"
    and serial: "serial_valid X serial"
    and rows: "\<forall>r \<in> set (db_running (w_db w)). (row_instance r \<noteq> iid \<and> stale_instance (is_pid_alive kill) (row_instance r))
      \<or> (\<exists>h \<in> set (w_holders w). holder_row X (w_db w) h r)"
    and free: "\<forall>t \<in> set (running_tests w).
      \<not> tests_conflict X \<lparr>rt_labels = map label_name labels, rt_serial = serial\<rparr> t"
  shows "\<exists>f rid db'. to_storage X serial = Inr f
    \<and> coord_txn X S (is_pid_alive kill) iid (\<lambda>_. None) nm labels f (w_db w) = Inr (Some (rid, db'))"
proof -
  obtain f where f: "to_storage X serial = Inr f" "serial_valid X f"
    using to_storage_meaning [OF serial] by blast
  have "\<not> test_conflict X (map label_name labels) f (row_labels (w_db w) r) (row_filter r)"
    if r: "r \<in> set (db_running (w_db w))"
      "\<not> (row_instance r \<noteq> iid \<and> stale_instance (is_pid_alive kill) (row_instance r))" for r
  proof -
    obtain h where h: "h \<in> set (w_holders w)" "holder_row X (w_db w) h r" using rows r by blast
    then have "\<not> test_conflict X (map label_name labels) serial (map label_name (h_labels h)) (h_serial h)"
      using free by (auto simp: running_tests_def tests_conflict_def)
    moreover have "serial_valid X (h_serial h)" using w(1) h(1) by (simp add: world_ok_def)
    ultimately show ?thesis
      using h(2) test_conflict_storage [OF serial f(1), of "h_serial h" "row_filter r"]
      by (simp add: holder_row_def)
  qed
  then have "\<exists>rid db'. coord_txn X S (is_pid_alive kill) iid (\<lambda>_. None) nm labels f (w_db w) = Inr (Some (rid, db'))"
    using w f(2) by (intro coord_txn_admits) (auto simp: world_ok_def)
  with f(1) show ?thesis by blast
qed

end

section \<open>A concrete run with two tests\<close>

abbreviation demo_kill :: "nat \<Rightarrow> kill_result" where
  "demo_kill \<equiv> (\<lambda>_. Kill_ok)"

definition demo_world :: world where
  "demo_world = \<lparr>w_db = empty_db, w_holders = [], w_procs = {}\<rparr>"

definition demo_world1 :: world where
  "demo_world1 = \<lparr>w_db = empty_db, w_holders = [], w_procs = {(7, make_instance_id 7 1)}\<rparr>"

lemma demo_initial: "initial_world demo_world"
  by (simp add: initial_world_def demo_world_def db_ok_def empty_db_def)

lemma demo_spawn: "coord_step ref_boolexpr ref_sqlite demo_world demo_world1"
proof -
  have "demo_world1 = demo_world\<lparr>w_procs := insert (7, make_instance_id 7 1) (w_procs demo_world)\<rparr>"
    by (simp add: demo_world1_def demo_world_def)
  then show ?thesis using spawn [of 7 demo_world ref_boolexpr ref_sqlite 1] by (simp add: demo_world_def)
qed

lemma demo_world1_ok: "world_ok X demo_world1"
  by (simp add: world_ok_def demo_world1_def db_ok_def empty_db_def)

lemma demo_serial: "serial_valid ref_boolexpr ''b''" "serial_hits ref_boolexpr ''b'' ns = (''b'' \<in> set ns)"
proof -
  have "parse_raw_label_expr ''b'' = Inr (ETerminal ''b'')" by (simp add: parser_eval cong: peg_weak_congs)
  then show "serial_valid ref_boolexpr ''b''" "serial_hits ref_boolexpr ''b'' ns = (''b'' \<in> set ns)"
    by (simp_all add: serial_valid_def serial_hits_def LabelFilter_parse_def parse_label_expr_def
        ref.matches_names_sem ref.sem_canonicalize)
qed

text \<open>The first test, labelled \<open>a\<close> and serial with \<open>b\<close>, starts in the empty database.\<close>

lemma demo_first:
  "\<exists>w. coord_step ref_boolexpr ref_sqlite demo_world1 w \<and> world_ok ref_boolexpr w
     \<and> running_tests w = [\<lparr>rt_labels = [''a''], rt_serial = ''b''\<rparr>] \<and> w_procs w = w_procs demo_world1
     \<and> db_seq (w_db w) < MAX_ROWID \<and> length (db_running (w_db w)) = 1 \<and> length (w_holders w) = 1"
proof -
  let ?l = "[\<lparr>label_name = ''a''\<rparr>]" and ?iid = "make_instance_id 7 1"
  obtain f rid db' where f: "to_storage ref_boolexpr ''b'' = Inr f"
      "coord_txn ref_boolexpr ref_sqlite (is_pid_alive demo_kill) ?iid (\<lambda>_. None) ''t1'' ?l f empty_db
        = Inr (Some (rid, db'))"
    using ref_coord.start_admitted [OF demo_world1_ok, of 7 ?iid demo_kill "''b''" ?l "''t1''"] demo_serial
    by (auto simp: demo_world1_def empty_db_def running_tests_def MAX_ROWID_def)
  let ?w = "demo_world1\<lparr>w_db := db', w_holders := w_holders demo_world1 @
      [\<lparr>h_pid = 7, h_instance = ?iid, h_id = rid, h_name = ''t1'', h_labels = ?l, h_serial = ''b''\<rparr>]\<rparr>"
  have step: "coord_step ref_boolexpr ref_sqlite demo_world1 ?w"
    by (rule start [where kill = demo_kill and f = f and faults = "\<lambda>_. None"])
       (use f demo_serial in \<open>auto simp: demo_world1_def\<close>)
  have empty: "delete_running P empty_db = empty_db" for P by (simp add: delete_running_def empty_db_def)
  have ok: "db_ok empty_db" by (simp add: db_ok_def empty_db_def)
  note reg = coord_txn_Some(2) [OF f(2), unfolded empty]
  have ok': "db_ok db'" using register_result(6) [OF reg ok] .
  have run: "db_running db' = [\<lparr>row_id = 1, row_instance = ?iid, row_name = ''t1'', row_filter = f\<rparr>]"
    using register_result(1,3) [OF reg ok] by (simp add: empty_db_def)
  have "db_seq db' = 1"
    using register_result(1,7) [OF reg ok] by (simp add: empty_db_def)
  then show ?thesis using step world_ok_step [OF step demo_world1_ok] run
    by (intro exI [of _ ?w]) (simp add: running_tests_def demo_world1_def MAX_ROWID_def)
qed

text \<open>A second test labelled \<open>c\<close> conflicts with neither side and joins it.\<close>

lemma demo_second:
  "\<exists>w. (coord_step ref_boolexpr ref_sqlite)\<^sup>*\<^sup>* demo_world w
     \<and> running_tests w = [\<lparr>rt_labels = [''a''], rt_serial = ''b''\<rparr>, \<lparr>rt_labels = [''c''], rt_serial = []\<rparr>]"
proof -
  obtain w where w: "coord_step ref_boolexpr ref_sqlite demo_world1 w" "world_ok ref_boolexpr w"
      "running_tests w = [\<lparr>rt_labels = [''a''], rt_serial = ''b''\<rparr>]" "w_procs w = w_procs demo_world1"
      "db_seq (w_db w) < MAX_ROWID" "length (db_running (w_db w)) = 1" "length (w_holders w) = 1"
    using demo_first by blast
  let ?l = "[\<lparr>label_name = ''c''\<rparr>]" and ?iid = "make_instance_id 7 1"
  have p: "(7, ?iid) \<in> w_procs w" using w(4) by (simp add: demo_world1_def)
  obtain h r where hr: "w_holders w = [h]" "db_running (w_db w) = [r]"
    using w(6,7) by (metis length_0_conv length_Suc_conv One_nat_def)
  then have "\<exists>r'. holder_row ref_boolexpr (w_db w) h r'" using w(2) by (simp add: world_ok_def)
  then have rows: "\<forall>r \<in> set (db_running (w_db w)). (row_instance r \<noteq> ?iid \<and> stale_instance (is_pid_alive demo_kill) (row_instance r))
      \<or> (\<exists>h \<in> set (w_holders w). holder_row ref_boolexpr (w_db w) h r)"
    using hr by (auto simp: holder_row_def)
  have free: "\<forall>t \<in> set (running_tests w).
      \<not> tests_conflict ref_boolexpr \<lparr>rt_labels = map label_name ?l, rt_serial = []\<rparr> t"
    using w(3) by (simp add: tests_conflict_def test_conflict_def demo_serial(2))
  obtain f rid db' where f: "to_storage ref_boolexpr [] = Inr f"
      "coord_txn ref_boolexpr ref_sqlite (is_pid_alive demo_kill) ?iid (\<lambda>_. None) ''t2'' ?l f (w_db w)
        = Inr (Some (rid, db'))"
    using ref_coord.start_admitted [OF w(2,5) p _ _ rows free, of "''t2''"] by auto
  define w' where "w' = w\<lparr>w_db := db', w_holders := w_holders w @
      [\<lparr>h_pid = 7, h_instance = ?iid, h_id = rid, h_name = ''t2'', h_labels = ?l, h_serial = []\<rparr>]\<rparr>"
  have step: "coord_step ref_boolexpr ref_sqlite w w'"
    unfolding w'_def
    by (rule start [where kill = demo_kill and f = f and faults = "\<lambda>_. None", OF p]) (use f in simp_all)
  have "running_tests w' = [\<lparr>rt_labels = [''a''], rt_serial = ''b''\<rparr>, \<lparr>rt_labels = [''c''], rt_serial = []\<rparr>]"
    using w(3) by (simp add: running_tests_def w'_def)
  moreover have "(coord_step ref_boolexpr ref_sqlite)\<^sup>*\<^sup>* demo_world w'"
    using demo_spawn w(1) step by (metis rtranclp.rtrancl_into_rtrancl r_into_rtranclp)
  ultimately show ?thesis by blast
qed

section \<open>Properties\<close>

text \<open>
  C1: no two tests that conflict ever run at the same time, across any number of processes that
  start, finish, crash and reuse process ids: in every reachable state of the system the
  running tests are pairwise free of conflict.
\<close>

theorem coord_exclusion:
  assumes "boolexpr_crate X" "sqlite_engine S" "initial_world w0" "(coord_step X S)\<^sup>*\<^sup>* w0 w"
    and "i < length (running_tests w)" "j < length (running_tests w)" "i \<noteq> j"
  shows "\<not> tests_conflict X (running_tests w ! i) (running_tests w ! j)"
proof -
  have c: "coordination X S" using assms(1,2) by (simp add: coordination_def)
  have "(excl_step (tests_conflict X))\<^sup>*\<^sup>* (running_tests w0) (running_tests w)"
    by (rule coordination.reachable_refines [OF c assms(4) initial_world_ok [OF assms(3)]])
  moreover have "exclusive (tests_conflict X) (running_tests w0)"
    using assms(3) by (simp add: initial_world_def running_tests_def exclusive_def)
  ultimately have "exclusive (tests_conflict X) (running_tests w)" by (rule tests.excl_steps_exclusive)
  then show ?thesis using assms(5-7) by (rule tests.exclusive_nth)
qed

theorem coord_exclusion_witness:
  "\<exists>w. (coord_step ref_boolexpr ref_sqlite)\<^sup>*\<^sup>* demo_world w \<and> length (running_tests w) = 2
     \<and> \<not> tests_conflict ref_boolexpr (running_tests w ! 0) (running_tests w ! 1)"
proof -
  obtain w where w: "(coord_step ref_boolexpr ref_sqlite)\<^sup>*\<^sup>* demo_world w"
      "running_tests w = [\<lparr>rt_labels = [''a''], rt_serial = ''b''\<rparr>, \<lparr>rt_labels = [''c''], rt_serial = []\<rparr>]"
    using demo_second by blast
  have "\<not> tests_conflict ref_boolexpr (running_tests w ! 0) (running_tests w ! 1)"
    by (rule coord_exclusion [OF ref.boolexpr_crate_axioms ref_sql.sqlite_engine_axioms demo_initial w(1)])
       (simp_all add: w(2))
  then show ?thesis using w by (intro exI [of _ w]) simp
qed

text \<open>
  C2: each step of the coordinated system is a step of the exclusion specification on the
  running tests: a test joins only when it conflicts with none of them, and tests leave.
\<close>

theorem coord_system_refines:
  assumes "boolexpr_crate X" "sqlite_engine S" "initial_world w0" "(coord_step X S)\<^sup>*\<^sup>* w0 w" "coord_step X S w w'"
  shows "excl_step (tests_conflict X) (running_tests w) (running_tests w')"
  by (rule coordination.coord_refines [OF _ assms(5) reachable_ok [OF assms(4) initial_world_ok [OF assms(3)]]])
     (simp add: coordination_def assms(1,2))

theorem coord_system_refines_witness:
  "\<exists>w. coord_step ref_boolexpr ref_sqlite demo_world1 w
     \<and> excl_step (tests_conflict ref_boolexpr) [] [\<lparr>rt_labels = [''a''], rt_serial = ''b''\<rparr>]"
proof -
  obtain w where w: "coord_step ref_boolexpr ref_sqlite demo_world1 w"
      "running_tests w = [\<lparr>rt_labels = [''a''], rt_serial = ''b''\<rparr>]" using demo_first by blast
  have "(coord_step ref_boolexpr ref_sqlite)\<^sup>*\<^sup>* demo_world demo_world1" using demo_spawn by auto
  from coord_system_refines [OF ref.boolexpr_crate_axioms ref_sql.sqlite_engine_axioms demo_initial this w(1)]
  show ?thesis using w by (auto simp: demo_world1_def running_tests_def)
qed

text \<open>
  C3: registrations stay intact.  In every reachable state the tables are well formed (unique
  ids below the sequence, no label without its row) and each running test's own row is in the
  database with its instance, its labels and the storage form of its filter, until its drop.
\<close>

theorem coord_rows_intact:
  assumes "initial_world w0" "(coord_step X S)\<^sup>*\<^sup>* w0 w"
  shows "db_ok (w_db w) \<and> distinct (map h_id (w_holders w))
    \<and> (\<forall>h \<in> set (w_holders w). \<exists>r \<in> set (db_running (w_db w)). row_id r = h_id h \<and> row_instance r = h_instance h
         \<and> to_storage X (h_serial h) = Inr (row_filter r) \<and> row_labels (w_db w) r = map label_name (h_labels h))"
  using reachable_ok [OF assms(2) initial_world_ok [OF assms(1)]]
  by (auto simp: world_ok_def holder_row_def)

theorem coord_rows_intact_witness:
  "\<exists>w. running_tests w \<noteq> [] \<and> db_ok (w_db w) \<and> (\<forall>h \<in> set (w_holders w). \<exists>r \<in> set (db_running (w_db w)). row_id r = h_id h)"
proof -
  obtain w where w: "(coord_step ref_boolexpr ref_sqlite)\<^sup>*\<^sup>* demo_world w" "running_tests w \<noteq> []"
    using demo_second by (metis list.distinct(1))
  from coord_rows_intact [OF demo_initial w(1)] w(2) show ?thesis by blast
qed

text \<open>
  C4: progress.  A process whose test conflicts with no running test is admitted at once when
  every row of the table belongs to a live registration or to an instance the probe reports
  dead: an attempt of \<open>coordinate\<close> without database errors commits and the test joins the
  running ones.
\<close>

theorem coord_progress:
  fixes labels :: "label list"
  assumes "boolexpr_crate X" "sqlite_engine S" "initial_world w0" "(coord_step X S)\<^sup>*\<^sup>* w0 w"
    and "db_seq (w_db w) < MAX_ROWID" "(pid, iid) \<in> w_procs w" "serial_valid X serial"
    and "\<forall>q \<in> fst ` w_procs w. kill q = Kill_ok \<or> kill q = Kill_EPERM"
    and "\<forall>r \<in> set (db_running (w_db w)). (row_instance r \<noteq> iid \<and> stale_instance (is_pid_alive kill) (row_instance r))
      \<or> (\<exists>h \<in> set (w_holders w). holder_row X (w_db w) h r)"
    and "\<forall>t \<in> set (running_tests w).
      \<not> tests_conflict X \<lparr>rt_labels = map label_name labels, rt_serial = serial\<rparr> t"
  shows "\<exists>w'. coord_step X S w w'
    \<and> running_tests w' = running_tests w @ [\<lparr>rt_labels = map label_name labels, rt_serial = serial\<rparr>]"
proof -
  have c: "coordination X S" using assms(1,2) by (simp add: coordination_def)
  have ok: "world_ok X w" by (rule reachable_ok [OF assms(4) initial_world_ok [OF assms(3)]])
  obtain f rid db' where f: "to_storage X serial = Inr f"
      "coord_txn X S (is_pid_alive kill) iid (\<lambda>_. None) [] labels f (w_db w) = Inr (Some (rid, db'))"
    using coordination.start_admitted [OF c ok assms(5,6,8,7,9,10), of "[]"] by blast
  from start [OF assms(6,8,7) f] show ?thesis
    by (intro exI conjI) (assumption, simp add: running_tests_def)
qed

theorem coord_progress_witness:
  "\<exists>w'. coord_step ref_boolexpr ref_sqlite demo_world1 w'
     \<and> running_tests w' = [\<lparr>rt_labels = [''x''], rt_serial = ''*''\<rparr>]"
proof -
  have "(coord_step ref_boolexpr ref_sqlite)\<^sup>*\<^sup>* demo_world demo_world1" using demo_spawn by auto
  from coord_progress [OF ref.boolexpr_crate_axioms ref_sql.sqlite_engine_axioms demo_initial this,
      of 7 "make_instance_id 7 1" "''*''" demo_kill "[\<lparr>label_name = ''x''\<rparr>]"]
  show ?thesis by (simp add: demo_world1_def empty_db_def running_tests_def MAX_ROWID_def)
qed

text \<open>
  The blocking check is exact.  \<open>can_start\<close> answers, when no statement fails, whether no
  running row conflicts with the test: neither side's filter selects the other's labels, where
  \<open>*\<close> selects everything and an unparseable stored filter selects nothing.
\<close>

theorem can_start_exact:
  assumes "boolexpr_crate X" "sqlite_engine S" "serial_valid X f" "\<forall>st. faults st = None"
  shows "can_start X S faults db labels f = Inr (\<not> (\<exists>r \<in> set (db_running db).
     serial_hits X f (row_labels db r) \<or> serial_hits X (row_filter r) (map label_name labels)))"
proof -
  have c: "coordination X S" using assms(1,2) by (simp add: coordination_def)
  obtain b where "can_start X S faults db labels f = Inr b"
    using coordination.can_start_faultless [OF c assms(4,3)] by blast
  with coordination.can_start_decides [OF c this assms(3)] show ?thesis by (simp add: test_conflict_def)
qed

definition demo_db :: db where
  "demo_db = \<lparr>db_running = [\<lparr>row_id = 1, row_instance = ''7:1'', row_name = ''t'', row_filter = ''b''\<rparr>],
     db_labels = [\<lparr>lab_running_id = 1, lab_label = ''a''\<rparr>], db_seq = 1, db_user_version = 1\<rparr>"

theorem can_start_exact_witness:
  "can_start ref_boolexpr ref_sqlite (\<lambda>_. None) demo_db [\<lparr>label_name = ''b''\<rparr>] [] = Inr False
   \<and> can_start ref_boolexpr ref_sqlite (\<lambda>_. None) demo_db [\<lparr>label_name = ''c''\<rparr>] ''b'' = Inr True"
  using can_start_exact [OF ref.boolexpr_crate_axioms ref_sql.sqlite_engine_axioms _, of "[]" "\<lambda>_. None" demo_db
      "[\<lparr>label_name = ''b''\<rparr>]"]
    can_start_exact [OF ref.boolexpr_crate_axioms ref_sql.sqlite_engine_axioms demo_serial(1), of "\<lambda>_. None" demo_db
      "[\<lparr>label_name = ''c''\<rparr>]"]
  by (simp add: demo_db_def demo_serial(2) row_labels_def)

text \<open>
  C24: the storage form is canonical.  A valid serial filter has one, it selects the same
  tests, storing it again changes nothing, and two filters are stored as the same text exactly
  when they select the same tests.
\<close>

theorem to_storage_canonical:
  assumes "boolexpr_crate X" "serial_valid X a" "serial_valid X b"
  shows "\<exists>t u. to_storage X a = Inr t \<and> to_storage X b = Inr u \<and> to_storage X t = Inr t
    \<and> (\<forall>names. serial_hits X t names = serial_hits X a names)
    \<and> (t = u \<longleftrightarrow> (\<forall>names. serial_hits X a names = serial_hits X b names))"
proof -
  have c: "coordination X ref_sqlite" using assms(1) ref_sql.sqlite_engine_axioms by (simp add: coordination_def)
  obtain t u where t: "to_storage X a = Inr t" "to_storage X t = Inr t" "\<forall>ns. serial_hits X t ns = serial_hits X a ns"
      and u: "to_storage X b = Inr u" "\<forall>ns. serial_hits X u ns = serial_hits X b ns"
    using coordination.to_storage_meaning [OF c assms(2)] coordination.to_storage_meaning [OF c assms(3)] by blast
  have "t = u" if "\<forall>ns. serial_hits X a ns = serial_hits X b ns"
    using coordination.to_storage_unique [OF c assms(2) t(1) assms(3) u(1) that] .
  with t u show ?thesis by auto
qed

theorem to_storage_canonical_witness:
  "\<exists>t. to_storage ref_boolexpr ''b'' = Inr t \<and> (\<forall>ns. serial_hits ref_boolexpr t ns = (''b'' \<in> set ns))
     \<and> t \<noteq> ''*''"
proof -
  obtain t u where t: "to_storage ref_boolexpr ''b'' = Inr t" "to_storage ref_boolexpr ''*'' = Inr u"
      "\<forall>ns. serial_hits ref_boolexpr t ns = serial_hits ref_boolexpr ''b'' ns"
      "t = u \<longleftrightarrow> (\<forall>ns. serial_hits ref_boolexpr ''b'' ns = serial_hits ref_boolexpr ''*'' ns)"
    using to_storage_canonical [OF ref.boolexpr_crate_axioms demo_serial(1), of "''*''"] by auto
  have "u = ''*''" using t(2) by (simp add: to_storage_def)
  moreover have "\<not> (\<forall>ns. serial_hits ref_boolexpr ''b'' ns = serial_hits ref_boolexpr ''*'' ns)"
    by (auto simp: demo_serial(2) intro: exI [of _ "[]"])
  ultimately show ?thesis using t by (auto simp: demo_serial(2))
qed

text \<open>
  C29: stale-entry cleanup removes exactly the rows of other instances whose process is gone.
  A row survives, with its labels, if it is the caller's own or its process id parses and the
  probe reports it alive; an id that does not parse, that is 0 or that does not fit a
  positive \<open>i32\<close> counts as dead.
\<close>

theorem clean_stale_exact:
  assumes "clean_stale_entries (is_pid_alive kill) ours faults db = Inr db'" "db_ok db"
  shows "db_running db' = filter (\<lambda>r. row_instance r = ours
      \<or> (\<exists>pid. pid_from_instance_id (row_instance r) = Some pid \<and> 0 < pid \<and> pid < 2 ^ 31
           \<and> (kill pid = Kill_ok \<or> kill pid = Kill_EPERM))) (db_running db)
    \<and> (\<forall>r \<in> set (db_running db'). row_labels db' r = row_labels db r) \<and> db_ok db'"
proof -
  let ?P = "\<lambda>r. row_instance r \<noteq> ours \<and> stale_instance (is_pid_alive kill) (row_instance r)"
  have db': "db' = delete_running ?P db" using assms(1) by (rule clean_stale_result)
  have live: "\<not> ?P r \<longleftrightarrow> row_instance r = ours \<or> (\<exists>pid. pid_from_instance_id (row_instance r) = Some pid
      \<and> 0 < pid \<and> pid < 2 ^ 31 \<and> (kill pid = Kill_ok \<or> kill pid = Kill_EPERM))" for r
    by (auto simp: stale_instance_def is_pid_alive_def split: option.splits kill_result.splits if_splits)
  have "db_running db' = filter (\<lambda>r. row_instance r = ours
      \<or> (\<exists>pid. pid_from_instance_id (row_instance r) = Some pid \<and> 0 < pid \<and> pid < 2 ^ 31
           \<and> (kill pid = Kill_ok \<or> kill pid = Kill_EPERM))) (db_running db)"
    unfolding db' delete_running_sel by (rule filter_cong [OF refl live])
  moreover have "\<forall>r \<in> set (db_running db'). row_labels db' r = row_labels db r" "db_ok db'"
    using delete_running_ok(1) [OF assms(2), of ?P] delete_running_ok(2) [OF assms(2), of _ ?P]
    by (auto simp: db')
  ultimately show ?thesis by blast
qed

theorem clean_stale_exact_witness:
  "\<exists>db'. clean_stale_entries (is_pid_alive (\<lambda>_. Kill_errno 3)) ''8:2'' (\<lambda>_. None) demo_db = Inr db'
     \<and> db_running db' = []"
proof -
  obtain db' where c: "clean_stale_entries (is_pid_alive (\<lambda>_. Kill_errno 3)) ''8:2'' (\<lambda>_. None) demo_db = Inr db'"
    using clean_stale_faultless [of "\<lambda>_. None"] by blast
  have "db_ok demo_db" by (simp add: db_ok_def demo_db_def)
  from clean_stale_exact [OF c this] c show ?thesis by (auto simp: demo_db_def)
qed

text \<open>
  An instance id identifies its process: the pid \<open>pid_from_instance_id\<close> reads from
  \<open>{pid}:{timestamp}\<close> is the pid it was made from.
\<close>

theorem instance_id_round_trip:
  assumes "pid < 2 ^ 32"
  shows "pid_from_instance_id (make_instance_id pid ts) = Some pid"
  using assms by (rule pid_of_instance)

theorem instance_id_round_trip_witness:
  "pid_from_instance_id (make_instance_id 4294967295 12) = Some 4294967295"
  by (rule instance_id_round_trip) simp

text \<open>
  C30: the waiting loop returns.  However many attempts find the test blocked or the database
  busy, the first attempt that meets no error, an unmoved database and no conflicting live row
  ends \<open>coordinate\<close> with a registration.
\<close>

theorem coordinate_returns:
  assumes "boolexpr_crate X" "sqlite_engine S" "serial_valid X serial" "to_storage X serial = Inr f"
    and "list_all (attempt_waits X S iid nm labels f) pre"
    and "\<not> at_moved a" "\<not> at_moved_after a" "\<forall>st. at_faults a st = None" "db_ok (at_db a)" "db_seq (at_db a) < MAX_ROWID"
    and "\<And>r. r \<in> set (db_running (at_db a)) \<Longrightarrow>
      \<not> (row_instance r \<noteq> iid \<and> stale_instance (is_pid_alive (at_kill a)) (row_instance r)) \<Longrightarrow>
      \<not> test_conflict X (map label_name labels) f (row_labels (at_db a) r) (row_filter r)"
  shows "\<exists>rid db'. coordinate X S iid nm labels serial (pre @ a # post) = Registered rid db'"
proof -
  have c: "coordination X S" using assms(1,2) by (simp add: coordination_def)
  have "serial_valid X f" using coordination.to_storage_meaning [OF c assms(3)] assms(4) by auto
  then obtain rid db' where "coord_txn X S (is_pid_alive (at_kill a)) iid (at_faults a) nm labels f (at_db a)
      = Inr (Some (rid, db'))"
    using coordination.coord_txn_admits [OF c assms(8) _ assms(9,10,11)] by blast
  then show ?thesis
    using assms(4,6,7) coordinate_loop_waits [OF assms(5), of 10 0 "a # post"] by (simp add: coordinate_def)
qed

definition demo_attempt :: "faults \<Rightarrow> attempt" where
  "demo_attempt faults = \<lparr>at_moved = False, at_db = empty_db, at_kill = demo_kill, at_faults = faults, at_moved_after = False\<rparr>"

theorem coordinate_returns_witness:
  "\<exists>rid db'. coordinate ref_boolexpr ref_sqlite ''7:1'' ''t'' [] ''*''
     [demo_attempt (\<lambda>_. Some Database_busy), demo_attempt (\<lambda>_. None)] = Registered rid db'"
proof -
  have st: "to_storage ref_boolexpr ''*'' = Inr ''*''" by (simp add: to_storage_def)
  have "list_all (attempt_waits ref_boolexpr ref_sqlite ''7:1'' ''t'' [] ''*'') [demo_attempt (\<lambda>_. Some Database_busy)]"
    by (simp add: attempt_waits_def demo_attempt_def coord_txn_def exec_def)
  from coordinate_returns [OF ref.boolexpr_crate_axioms ref_sql.sqlite_engine_axioms _ st this,
      of "demo_attempt (\<lambda>_. None)" "[]"]
  show ?thesis by (simp add: demo_attempt_def empty_db_def db_ok_def MAX_ROWID_def)
qed

text \<open>
  The waits double from 10 ms and stay at 200 ms.  After any number of blocked or busy
  attempts the loop is waiting with that backoff, and \<open>retry_busy\<close> sleeps by the same rule.
\<close>

theorem coordinate_backoff:
  assumes "list_all (attempt_waits X S iid nm labels f) pre"
  shows "coordinate_loop X S iid nm labels f 10 pre = Waiting (min (10 * 2 ^ length pre) 200)
    \<and> retry_busy 10 (replicate (length pre) (Inl Database_busy) @ [Inr v]) =
      (map (\<lambda>k. min (10 * 2 ^ k) 200) [0..<length pre], Some (Inr v))"
  using coordinate_loop_waits [OF assms, of 10 0 "[]"] retry_busy_sleeps [of 0 "length pre" v] by simp

theorem coordinate_backoff_witness:
  "coordinate_loop ref_boolexpr ref_sqlite ''7:1'' ''t'' [] ''*'' 10
     (replicate 6 (demo_attempt (\<lambda>_. Some Database_busy))) = Waiting 200"
proof -
  have "list_all (attempt_waits ref_boolexpr ref_sqlite ''7:1'' ''t'' [] ''*'')
      (replicate 6 (demo_attempt (\<lambda>_. Some Database_busy)))"
    by (simp add: attempt_waits_def demo_attempt_def coord_txn_def exec_def list_all_iff)
  from coordinate_backoff [OF this, of "()"] show ?thesis by simp
qed

text \<open>
  C31: dropping a registration never fails silently and never panics during an unwind.  Unless
  it ran the \<open>DELETE\<close> of its own row on an unmoved database and found it unmoved after, the
  failure is raised as a panic or, when the thread is already unwinding, recorded as a violation.
\<close>

theorem drop_registration_reported:
  assumes "drop_registration panicking rid moved_after vs attempts = Some res"
  shows "(panicking \<longrightarrow> dr_propagated res = None)
    \<and> (dr_propagated res = None \<and> dr_violations res = vs \<longrightarrow>
         \<not> moved_after \<and> (\<exists>a \<in> set attempts. \<not> da_moved a \<and> da_fault a = None
            \<and> dr_db res = Some (delete_running (\<lambda>r. row_id r = rid) (da_db a))))
    \<and> (dr_violations res = vs \<or> panicking \<and> (\<exists>p. dr_violations res = vs @ [p]))"
proof -
  obtain r where r: "drop_cleanup rid attempts = Some r"
    using assms by (auto simp: drop_registration_def split: option.splits)
  show ?thesis
  proof (cases r)
    case (Inl p)
    then show ?thesis using assms r
      by (cases panicking) (auto simp: drop_registration_def Let_def record_violation_def)
  next
    case (Inr d)
    then show ?thesis using assms r drop_cleanup_Inr [of rid attempts d]
      by (auto simp: drop_registration_def Let_def record_violation_def split: if_splits)
  qed
qed

theorem drop_registration_reported_witness:
  "drop_registration True 1 False [] [\<lparr>da_moved = False, da_fault = Some Database_busy, da_db = demo_db\<rparr>,
      \<lparr>da_moved = True, da_fault = None, da_db = demo_db\<rparr>]
     = Some \<lparr>dr_db = None, dr_propagated = None, dr_violations = [Drop_moved]\<rparr>
   \<and> (\<exists>p. [Drop_moved] = [] @ [p])"
proof -
  have "drop_registration True 1 False [] [\<lparr>da_moved = False, da_fault = Some Database_busy, da_db = demo_db\<rparr>,
      \<lparr>da_moved = True, da_fault = None, da_db = demo_db\<rparr>]
     = Some \<lparr>dr_db = None, dr_propagated = None, dr_violations = [Drop_moved]\<rparr>"
    by (simp add: drop_registration_def is_retryable_def record_violation_def)
  from drop_registration_reported [OF this] this show ?thesis by simp
qed



end
