(* ===== verification/Effects.thy ===== *)
theory Effects
  imports Prelude
begin

text \<open>
  State-passing computations that may panic.  A computation maps a state to its result, a panic
  or a value, and the state it leaves behind; a panic keeps the state, because the stores and
  logs of the sources outlive the unwinding.  \<open>with_guard\<close> is a local with a \<open>Drop\<close>: it runs when the
  scope is left, by return or by unwinding, and a panic of it while already unwinding aborts the
  process.  \<open>on_unwind\<close> is a local that is moved out on the normal path.
\<close>

type_synonym ('s, 'e, 'a) eff = "'s \<Rightarrow> ('e, 'a) result \<times> 's"

definition ret :: "'a \<Rightarrow> ('s, 'e, 'a) eff" where
  "ret a s = (Inr a, s)"

definition raise :: "'e \<Rightarrow> ('s, 'e, 'a) eff" where
  "raise e s = (Inl e, s)"

definition modify :: "('s \<Rightarrow> 's) \<Rightarrow> ('s, 'e, unit) eff" where
  "modify f s = (Inr (), f s)"

definition eff_bind :: "('s, 'e, 'a) eff \<Rightarrow> ('a \<Rightarrow> ('s, 'e, 'b) eff) \<Rightarrow> ('s, 'e, 'b) eff" where
  "eff_bind m k s = (case m s of (Inl e, s') \<Rightarrow> (Inl e, s') | (Inr a, s') \<Rightarrow> k a s')"

definition after_unwind :: "'e \<Rightarrow> ('s, 'e, unit) eff \<Rightarrow> 'e \<Rightarrow> 's \<Rightarrow> 'e \<times> 's" where
  "after_unwind abort fin e s =
     (if e = abort then (e, s)
      else case fin s of (Inl _, s') \<Rightarrow> (abort, s') | (Inr _, s') \<Rightarrow> (e, s'))"

definition on_unwind :: "'e \<Rightarrow> ('s, 'e, unit) eff \<Rightarrow> ('s, 'e, 'a) eff \<Rightarrow> ('s, 'e, 'a) eff" where
  "on_unwind abort fin m s = (case m s of
       (Inl e, s') \<Rightarrow> (case after_unwind abort fin e s' of (e', s'') \<Rightarrow> (Inl e', s''))
     | (Inr a, s') \<Rightarrow> (Inr a, s'))"

definition with_guard :: "'e \<Rightarrow> ('s, 'e, unit) eff \<Rightarrow> ('s, 'e, 'a) eff \<Rightarrow> ('s, 'e, 'a) eff" where
  "with_guard abort fin m = eff_bind (on_unwind abort fin m) (\<lambda>a. eff_bind fin (\<lambda>_. ret a))"

lemmas eff_defs = ret_def raise_def modify_def eff_bind_def

lemma ret_apply [simp]: "ret a s = (Inr a, s)"
  by (simp add: ret_def)

lemma raise_apply [simp]: "raise e s = (Inl e, s)"
  by (simp add: raise_def)

lemma modify_apply [simp]: "modify f s = (Inr (), f s)"
  by (simp add: modify_def)

lemma eff_bind_Inr [simp]: "m s = (Inr a, s') \<Longrightarrow> eff_bind m k s = k a s'"
  by (simp add: eff_bind_def)

lemma eff_bind_Inl [simp]: "m s = (Inl e, s') \<Longrightarrow> eff_bind m k s = (Inl e, s')"
  by (simp add: eff_bind_def)

lemma eff_bind_ret [simp]: "eff_bind (ret a) k = k a"
  by (rule ext) (simp add: eff_bind_def)

lemma eff_bind_assoc: "eff_bind (eff_bind m f) g = eff_bind m (\<lambda>a. eff_bind (f a) g)"
  by (rule ext) (simp add: eff_bind_def split: prod.split sum.split)

section \<open>Specifications\<close>

text \<open>
  A specification relates the state before, the result and the state after.  The guards of the
  sources are proved once here: a guard whose finaliser cannot panic runs it on both exits.
\<close>

definition eff_spec :: "('s \<Rightarrow> bool) \<Rightarrow> ('s, 'e, 'a) eff \<Rightarrow> ('s \<Rightarrow> ('e, 'a) result \<Rightarrow> 's \<Rightarrow> bool) \<Rightarrow> bool" where
  "eff_spec P m Q \<longleftrightarrow> (\<forall>s. P s \<longrightarrow> (case m s of (r, s') \<Rightarrow> Q s r s'))"

lemma eff_specI [intro?]: "(\<And>s r s'. P s \<Longrightarrow> m s = (r, s') \<Longrightarrow> Q s r s') \<Longrightarrow> eff_spec P m Q"
  by (auto simp: eff_spec_def)

lemma eff_specD: "eff_spec P m Q \<Longrightarrow> P s \<Longrightarrow> m s = (r, s') \<Longrightarrow> Q s r s'"
  by (auto simp: eff_spec_def split: prod.splits)

definition no_panic :: "('s, 'e, unit) eff \<Rightarrow> ('s \<Rightarrow> 's) \<Rightarrow> bool" where
  "no_panic fin f \<longleftrightarrow> (\<forall>s. fin s = (Inr (), f s))"

lemma with_guard_no_panic:
  assumes "no_panic fin f" "m s = (r, s')" "r \<noteq> Inl abort"
  shows "with_guard abort fin m s = (r, f s')"
  using assms by (cases r) (simp_all add: with_guard_def on_unwind_def after_unwind_def no_panic_def eff_bind_def)

lemma on_unwind_no_panic:
  assumes "no_panic fin f" "m s = (r, s')" "r \<noteq> Inl abort"
  shows "on_unwind abort fin m s = (r, if isl r then f s' else s')"
  using assms by (cases r) (simp_all add: on_unwind_def after_unwind_def no_panic_def)

lemma with_guard_Inr:
  "with_guard abort fin m s = (Inr a, s'') \<longleftrightarrow> (\<exists>s'. m s = (Inr a, s') \<and> fin s' = (Inr (), s''))"
  by (auto simp: with_guard_def on_unwind_def eff_bind_def split: prod.splits sum.splits)

end
