(* ===== verification/Fixture_Store.thy ===== *)
theory Fixture_Store
  imports Fixture_Graph Effects
begin

text \<open>
  The lifetimes of fixture values (\<open>src/src/fixture.rs\<close>) and the code the macros generate around
  them (\<open>src/macros/src/lib.rs\<close>): the per-test and per-process stores, the three ways a value is
  obtained, the test scope and its LIFO reclaim, the process cleanup, the generated \<open>setup\<close>
  closure and the two forms of the generated test body.

  A boxed value is a pointer; the world logs every boxing and every drop, so that leaks, double
  frees and the order of drops are statements about the log.  What a fixture function or a test
  body does is a parameter: it sees the references it is given and returns, fails or panics; it
  does not itself call back into the library.  \<open>Drop\<close> of a value may panic (\<open>ev_drop\<close>).
\<close>

type_synonym ptr = nat
type_synonym type_id = nat

datatype payload = Str_payload str | Other_payload

datatype fx_panic =
    No_fixture str
  | Outside_test_scope str
  | Setup_failed str str
  | Cannot_provide str str
  | Use_fixture_get str
  | Nested_scope
  | Did_not_panic
  | Payload_not_string str
  | Message_mismatch str str
  | User_panic payload
  | Process_abort
  | Fuel_exhausted

datatype fx_event = Created str ptr | Dropped ptr

record process_store =
  ps_index :: "(str \<times> nat) list"
  ps_entries :: "(str \<times> ptr) list"

record fx_world =
  fw_process :: process_store
  fw_tests :: "(str \<times> ptr) list"
  fw_current :: "(str \<times> str) option"
  fw_next :: ptr
  fw_log :: "fx_event list"

type_synonym 'a fx = "(fx_world, fx_panic, 'a) eff"

datatype body_outcome = Body_ok | Body_err str | Body_panics payload

record fixture_code =
  fc_type :: type_id
  fc_deref :: "type_id option"
  fc_dep_targets :: "type_id list"
  fc_body :: "ptr list \<Rightarrow> ptr \<Rightarrow> body_outcome"

record fx_env =
  ev_registry :: registry
  ev_code :: "str \<Rightarrow> fixture_code"
  ev_drop :: "ptr \<Rightarrow> payload option"
  ev_debug :: bool

record fixture_handle =
  fh_owner :: "ptr option"
  fh_ref :: ptr

section \<open>Boxes and handles\<close>

definition box_new :: "str \<Rightarrow> ptr fx" where
  "box_new nm w = (Inr (fw_next w),
     w\<lparr>fw_next := Suc (fw_next w), fw_log := fw_log w @ [Created nm (fw_next w)]\<rparr>)"

definition free_box :: "fx_env \<Rightarrow> ptr \<Rightarrow> unit fx" where
  "free_box env p w = ((case ev_drop env p of None \<Rightarrow> Inr () | Some pl \<Rightarrow> Inl (User_panic pl)),
     w\<lparr>fw_log := fw_log w @ [Dropped p]\<rparr>)"

definition drop_handle :: "fx_env \<Rightarrow> fixture_handle \<Rightarrow> unit fx" where
  "drop_handle env h = (case fh_owner h of Some p \<Rightarrow> free_box env p | None \<Rightarrow> ret ())"

text \<open>The generated cast: the fixture's own type, or its \<open>Deref\<close> target when the attribute asks for it.\<close>

definition fixture_cast :: "fx_env \<Rightarrow> fixture_def \<Rightarrow> ptr \<Rightarrow> type_id \<Rightarrow> ptr option" where
  "fixture_cast env def p target = (let c = ev_code env (fx_name def) in
     if target = fc_type c \<or> fc_deref c = Some target then Some p else None)"

section \<open>The generated setup closure\<close>

fun acquire :: "(str \<Rightarrow> type_id \<Rightarrow> fixture_handle fx) \<Rightarrow> fx_env \<Rightarrow> (str \<times> type_id) list \<Rightarrow> fixture_handle list fx" where
  "acquire get env [] = ret []"
| "acquire get env ((d, target) # ds) =
     eff_bind (get d target) (\<lambda>h.
     eff_bind (on_unwind Process_abort (drop_handle env h) (acquire get env ds)) (\<lambda>hs.
     ret (h # hs)))"

primrec release :: "fx_env \<Rightarrow> fixture_handle list \<Rightarrow> 'a fx \<Rightarrow> 'a fx" where
  "release env [] m = m"
| "release env (h # hs) m = with_guard Process_abort (drop_handle env h) (release env hs m)"

definition run_fixture_fn :: "fx_env \<Rightarrow> fixture_def \<Rightarrow> ptr list \<Rightarrow> (str, unit) result fx" where
  "run_fixture_fn env def refs w = (case fc_body (ev_code env (fx_name def)) refs (fw_next w) of
       Body_ok \<Rightarrow> (Inr (Inr ()), w)
     | Body_err e \<Rightarrow> (Inr (Inl e), w)
     | Body_panics pl \<Rightarrow> (Inl (User_panic pl), w))"

definition fixture_setup ::
    "(str \<Rightarrow> type_id \<Rightarrow> fixture_handle fx) \<Rightarrow> fx_env \<Rightarrow> fixture_def \<Rightarrow> (str, ptr) result fx" where
  "fixture_setup get env def =
     eff_bind (acquire get env (zip (fx_deps def) (fc_dep_targets (ev_code env (fx_name def))))) (\<lambda>hs.
     eff_bind (release env hs (run_fixture_fn env def (map fh_ref hs))) (\<lambda>r.
     case r of Inl e \<Rightarrow> ret (Inl e) | Inr _ \<Rightarrow> eff_bind (box_new (fx_name def)) (\<lambda>p. ret (Inr p))))"

section \<open>The stores\<close>

definition run_setup :: "(fixture_def \<Rightarrow> (str, ptr) result fx) \<Rightarrow> fixture_def \<Rightarrow> ptr fx" where
  "run_setup setup def = eff_bind (setup def) (\<lambda>r.
     case r of Inl e \<Rightarrow> raise (Setup_failed (fx_name def) e) | Inr p \<Rightarrow> ret p)"

definition push_test :: "str \<Rightarrow> ptr \<Rightarrow> ptr fx" where
  "push_test nm raw w = (Inr raw, w\<lparr>fw_tests := fw_tests w @ [(nm, raw)]\<rparr>)"

definition ensure_test_fixture :: "(fixture_def \<Rightarrow> (str, ptr) result fx) \<Rightarrow> fixture_def \<Rightarrow> ptr fx" where
  "ensure_test_fixture setup def w = (case map_of (fw_tests w) (fx_name def) of
       Some p \<Rightarrow> (Inr p, w)
     | None \<Rightarrow> eff_bind (run_setup setup def) (push_test (fx_name def)) w)"

text \<open>The two critical sections of \<open>ensure_process_fixture\<close>, each under the store's mutex.\<close>

definition process_lookup :: "str \<Rightarrow> process_store \<Rightarrow> ptr option" where
  "process_lookup nm st = map_option (\<lambda>idx. snd (ps_entries st ! idx)) (map_of (ps_index st) nm)"

definition process_push :: "str \<Rightarrow> ptr \<Rightarrow> process_store \<Rightarrow> process_store" where
  "process_push nm raw st =
     \<lparr>ps_index = (nm, length (ps_entries st)) # ps_index st, ps_entries = ps_entries st @ [(nm, raw)]\<rparr>"

definition publish :: "fx_env \<Rightarrow> str \<Rightarrow> ptr \<Rightarrow> ptr fx" where
  "publish env nm raw w = (case process_lookup nm (fw_process w) of
       Some p \<Rightarrow> eff_bind (free_box env raw) (\<lambda>_. ret p) w
     | None \<Rightarrow> (Inr raw, w\<lparr>fw_process := process_push nm raw (fw_process w)\<rparr>))"

definition ensure_process_fixture ::
    "fx_env \<Rightarrow> (fixture_def \<Rightarrow> (str, ptr) result fx) \<Rightarrow> fixture_def \<Rightarrow> ptr fx" where
  "ensure_process_fixture env setup def w = (case process_lookup (fx_name def) (fw_process w) of
       Some p \<Rightarrow> (Inr p, w)
     | None \<Rightarrow> eff_bind (run_setup setup def) (publish env (fx_name def)) w)"

section \<open>Obtaining a fixture\<close>

definition cannot_provide :: "fixture_def \<Rightarrow> fx_panic" where
  "cannot_provide def = Cannot_provide (fx_name def) (fx_type_name def)"

definition get_variable ::
    "fx_env \<Rightarrow> (fixture_def \<Rightarrow> (str, ptr) result fx) \<Rightarrow> fixture_def \<Rightarrow> type_id \<Rightarrow> fixture_handle fx" where
  "get_variable env setup def target = eff_bind (run_setup setup def) (\<lambda>p.
     case fixture_cast env def p target of
       Some r \<Rightarrow> ret \<lparr>fh_owner = Some p, fh_ref = r\<rparr>
     | None \<Rightarrow> with_guard Process_abort (free_box env p) (raise (cannot_provide def)))"

definition borrow_handle :: "fx_env \<Rightarrow> fixture_def \<Rightarrow> type_id \<Rightarrow> ptr \<Rightarrow> fixture_handle fx" where
  "borrow_handle env def target p = (case fixture_cast env def p target of
       Some r \<Rightarrow> ret \<lparr>fh_owner = None, fh_ref = r\<rparr>
     | None \<Rightarrow> raise (cannot_provide def))"

definition get_or_create_test ::
    "fx_env \<Rightarrow> (fixture_def \<Rightarrow> (str, ptr) result fx) \<Rightarrow> fixture_def \<Rightarrow> type_id \<Rightarrow> fixture_handle fx" where
  "get_or_create_test env setup def target = eff_bind (ensure_test_fixture setup def) (borrow_handle env def target)"

definition get_or_create_process ::
    "fx_env \<Rightarrow> (fixture_def \<Rightarrow> (str, ptr) result fx) \<Rightarrow> fixture_def \<Rightarrow> type_id \<Rightarrow> fixture_handle fx" where
  "get_or_create_process env setup def target =
     eff_bind (ensure_process_fixture env setup def) (borrow_handle env def target)"

definition fixture_get_with ::
    "fx_env \<Rightarrow> (fixture_def \<Rightarrow> (str, ptr) result fx) \<Rightarrow> str \<Rightarrow> type_id \<Rightarrow> fixture_handle fx" where
  "fixture_get_with env setup nm target w = (case map_of (ev_registry env) nm of
       None \<Rightarrow> (Inl (No_fixture nm), w)
     | Some def \<Rightarrow>
         if fx_scope def \<noteq> Process \<and> fw_current w = None then (Inl (Outside_test_scope nm), w)
         else (case fx_scope def of
                 Variable \<Rightarrow> get_variable env setup def target w
               | Test \<Rightarrow> get_or_create_test env setup def target w
               | Process \<Rightarrow> get_or_create_process env setup def target w))"

text \<open>
  The recursion of \<open>fixture_get\<close> through the setup closures of the dependencies, on fuel:
  one unit per level of the dependency graph.
\<close>

primrec fixture_get :: "nat \<Rightarrow> fx_env \<Rightarrow> str \<Rightarrow> type_id \<Rightarrow> fixture_handle fx" where
  "fixture_get 0 env = (\<lambda>nm target. raise Fuel_exhausted)"
| "fixture_get (Suc n) env = fixture_get_with env (fixture_setup (fixture_get n env) env)"

definition fx_fuel :: "fx_env \<Rightarrow> nat" where
  "fx_fuel env = Suc (length (ev_registry env))"

definition warm_up :: "fx_env \<Rightarrow> str \<Rightarrow> unit fx" where
  "warm_up env nm w = (case map_of (ev_registry env) nm of
       None \<Rightarrow> (Inl (No_fixture nm), w)
     | Some def \<Rightarrow>
         if fx_scope def = Process
         then eff_bind (ensure_process_fixture env (fixture_setup (fixture_get (fx_fuel env) env) env) def) (\<lambda>_. ret ()) w
         else (Inr (), w))"

definition fixture :: "fx_env \<Rightarrow> type_id \<Rightarrow> str \<Rightarrow> ptr fx" where
  "fixture env target nm w =
     (if fw_current w = None then (Inl (Outside_test_scope nm), w)
      else case map_of (ev_registry env) nm of
        None \<Rightarrow> (Inl (No_fixture nm), w)
      | Some def \<Rightarrow>
          (let setup = fixture_setup (fixture_get (fx_fuel env) env) env in
           if fx_scope def = Variable then (Inl (Use_fixture_get nm), w)
           else eff_bind
             (if fx_scope def = Test then ensure_test_fixture setup def else ensure_process_fixture env setup def)
             (\<lambda>p. case fixture_cast env def p target of Some r \<Rightarrow> ret r | None \<Rightarrow> raise (cannot_provide def)) w))"

section \<open>Scopes and cleanup\<close>

definition enter_test_scope :: "fx_env \<Rightarrow> str \<Rightarrow> str \<Rightarrow> unit fx" where
  "enter_test_scope env nm module_path w =
     (if ev_debug env \<and> fw_current w \<noteq> None then (Inl Nested_scope, w)
      else (Inr (), w\<lparr>fw_current := Some (nm, module_path)\<rparr>))"

text \<open>The \<open>while let Some(entry) = entries.pop()\<close> loops, over the entries from the last one.\<close>

primrec pop_tests :: "fx_env \<Rightarrow> (str \<times> ptr) list \<Rightarrow> unit fx" where
  "pop_tests env [] = ret ()"
| "pop_tests env (e # es) = eff_bind (modify (\<lambda>w. w\<lparr>fw_tests := butlast (fw_tests w)\<rparr>)) (\<lambda>_.
     eff_bind (free_box env (snd e)) (\<lambda>_. pop_tests env es))"

definition drop_test_scope :: "fx_env \<Rightarrow> unit fx" where
  "drop_test_scope env w =
     eff_bind (pop_tests env (rev (fw_tests w))) (\<lambda>_. modify (\<lambda>w. w\<lparr>fw_current := None\<rparr>)) w"

primrec pop_process :: "fx_env \<Rightarrow> (str \<times> ptr) list \<Rightarrow> unit fx" where
  "pop_process env [] = ret ()"
| "pop_process env (e # es) =
     eff_bind (modify (\<lambda>w. w\<lparr>fw_process := fw_process w\<lparr>ps_entries := butlast (ps_entries (fw_process w))\<rparr>\<rparr>)) (\<lambda>_.
     eff_bind (free_box env (snd e)) (\<lambda>_. pop_process env es))"

definition cleanup_process_fixtures :: "fx_env \<Rightarrow> unit fx" where
  "cleanup_process_fixtures env w =
     eff_bind (pop_process env (rev (ps_entries (fw_process w)))) (\<lambda>_.
       modify (\<lambda>w. w\<lparr>fw_process := fw_process w\<lparr>ps_index := []\<rparr>\<rparr>)) w"

section \<open>The generated test bodies\<close>

datatype test_outcome = Test_returns | Test_returns_err str | Test_panics payload

definition into_test_result :: "test_outcome \<Rightarrow> (fx_panic, unit) result" where
  "into_test_result r = (case r of
       Test_returns \<Rightarrow> Inr ()
     | Test_returns_err e \<Rightarrow> Inl (User_panic (Str_payload (''test returned an error: '' @ e)))
     | Test_panics pl \<Rightarrow> Inl (User_panic pl))"

record test_code =
  tc_name :: str
  tc_module :: str
  tc_params :: "(str \<times> type_id) list"
  tc_call :: "ptr list \<Rightarrow> test_outcome"

definition call_test :: "test_code \<Rightarrow> fixture_handle list \<Rightarrow> unit fx" where
  "call_test t hs w = (into_test_result (tc_call t (map fh_ref hs)), w)"

definition acquire_in_scope :: "fx_env \<Rightarrow> test_code \<Rightarrow> fixture_handle list fx" where
  "acquire_in_scope env t =
     on_unwind Process_abort (drop_test_scope env) (acquire (fixture_get (fx_fuel env) env) env (tc_params t))"

definition run_in_scope :: "fx_env \<Rightarrow> test_code \<Rightarrow> fixture_handle list \<Rightarrow> unit fx" where
  "run_in_scope env t hs =
     with_guard Process_abort (drop_test_scope env) (release env hs (call_test t hs))"

definition plain_test_body :: "fx_env \<Rightarrow> test_code \<Rightarrow> unit fx" where
  "plain_test_body env t =
     eff_bind (enter_test_scope env (tc_name t) (tc_module t)) (\<lambda>_.
     eff_bind (acquire_in_scope env t) (run_in_scope env t))"

definition message_check :: "str option \<Rightarrow> payload \<Rightarrow> (fx_panic, unit) result" where
  "message_check expected pl = (case expected of
       None \<Rightarrow> Inr ()
     | Some ex \<Rightarrow> (case pl of
           Other_payload \<Rightarrow> Inl (Payload_not_string ex)
         | Str_payload msg \<Rightarrow> if str_contains msg ex then Inr () else Inl (Message_mismatch msg ex)))"

text \<open>
  \<open>catch_unwind\<close> around the moved scope and handles.  An abort is not caught; a panic after the
  body completed is a teardown panic and resumes.
\<close>

definition catch_and_judge :: "str option \<Rightarrow> fx_env \<Rightarrow> test_code \<Rightarrow> fixture_handle list \<Rightarrow> unit fx" where
  "catch_and_judge expected env t hs w =
     (let completed = (into_test_result (tc_call t (map fh_ref hs)) = Inr ()) in
      case run_in_scope env t hs w of
        (Inr _, w') \<Rightarrow> (Inl Did_not_panic, w')
      | (Inl Process_abort, w') \<Rightarrow> (Inl Process_abort, w')
      | (Inl (User_panic pl), w') \<Rightarrow> (if completed then Inl (User_panic pl) else message_check expected pl, w')
      | (Inl e, w') \<Rightarrow> (Inl e, w'))"

definition should_panic_test_body :: "str option \<Rightarrow> fx_env \<Rightarrow> test_code \<Rightarrow> unit fx" where
  "should_panic_test_body expected env t =
     eff_bind (enter_test_scope env (tc_name t) (tc_module t)) (\<lambda>_.
     eff_bind (acquire_in_scope env t) (catch_and_judge expected env t))"

end
