(* ===== verification/Fixture_Life.thy ===== *)
theory Fixture_Life
  imports Fixture_Store
begin

text \<open>
  Correctness of the fixture stores: the heap the log describes is exactly what the stores and
  the live handles own, each store holds a name once and after all it depends on, and every
  operation of Fixture\_Store keeps that, on success and on every panic.
\<close>

section \<open>The heap of a log\<close>

text \<open>\<open>None\<close> is a double free, a free of something never boxed, or a reuse of a live pointer.\<close>

fun heap_event :: "ptr set option \<Rightarrow> fx_event \<Rightarrow> ptr set option" where
  "heap_event None ev = None"
| "heap_event (Some S) (Created nm p) = (if p \<in> S then None else Some (insert p S))"
| "heap_event (Some S) (Dropped p) = (if p \<in> S then Some (S - {p}) else None)"

definition heap_of :: "fx_event list \<Rightarrow> ptr set option" where
  "heap_of log = foldl heap_event (Some {}) log"

lemma heap_of_snoc [simp]: "heap_of (log @ [ev]) = heap_event (heap_of log) ev"
  by (simp add: heap_of_def)

lemma heap_of_drops:
  "heap_of log = Some S \<Longrightarrow> distinct ps \<Longrightarrow> set ps \<subseteq> S \<Longrightarrow>
     heap_of (log @ map Dropped ps) = Some (S - set ps)"
proof (induction ps arbitrary: log S)
  case (Cons p ps)
  have h: "heap_of (log @ [Dropped p]) = Some (S - {p})" using Cons.prems by simp
  have "set ps \<subseteq> S - {p}" using Cons.prems by auto
  then have "heap_of ((log @ [Dropped p]) @ map Dropped ps) = Some (S - {p} - set ps)"
    using Cons.IH [OF h] Cons.prems by simp
  then show ?case by (simp add: set_diff_eq insert_commute Diff_insert2 [symmetric])
qed simp

section \<open>The invariant\<close>

abbreviation entry_names :: "fx_world \<Rightarrow> str list" where
  "entry_names w \<equiv> map fst (ps_entries (fw_process w))"

abbreviation test_names :: "fx_world \<Rightarrow> str list" where
  "test_names w \<equiv> map fst (fw_tests w)"

definition cached :: "fx_world \<Rightarrow> ptr list" where
  "cached w = map snd (ps_entries (fw_process w)) @ map snd (fw_tests w)"

definition heap_ok :: "ptr list \<Rightarrow> fx_world \<Rightarrow> bool" where
  "heap_ok H w \<longleftrightarrow> heap_of (fw_log w) = Some (set (cached w @ H)) \<and> distinct (cached w @ H)
     \<and> (\<forall>p \<in> set (cached w @ H). p < fw_next w)"

definition index_ok :: "process_store \<Rightarrow> bool" where
  "index_ok st \<longleftrightarrow> (\<forall>nm i. map_of (ps_index st) nm = Some i \<longleftrightarrow> i < length (ps_entries st) \<and> fst (ps_entries st ! i) = nm)"

definition store_names_ok :: "registry \<Rightarrow> fixture_scope \<Rightarrow> str set \<Rightarrow> str list \<Rightarrow> bool" where
  "store_names_ok reg sc base names \<longleftrightarrow> distinct names
     \<and> (\<forall>i < length names. \<exists>def. map_of reg (names ! i) = Some def \<and> fx_scope def = sc
          \<and> set (fx_deps def) \<subseteq> base \<union> set (take i names))"

definition fx_inv :: "fx_env \<Rightarrow> ptr list \<Rightarrow> fx_world \<Rightarrow> bool" where
  "fx_inv env H w \<longleftrightarrow> heap_ok H w \<and> index_ok (fw_process w)
     \<and> store_names_ok (ev_registry env) Process {} (entry_names w)
     \<and> store_names_ok (ev_registry env) Test (set (entry_names w)) (test_names w)"

definition env_ok :: "fx_env \<Rightarrow> bool" where
  "env_ok env \<longleftrightarrow> registry_ok (ev_registry env)
     \<and> (\<forall>nm def. map_of (ev_registry env) nm = Some def \<longrightarrow>
          length (fc_dep_targets (ev_code env nm)) = length (fx_deps def))"

definition calm :: "fx_env \<Rightarrow> bool" where
  "calm env \<longleftrightarrow> (\<forall>p. ev_drop env p = None)"

text \<open>The stores only grow, by fixtures of \<open>R\<close>.\<close>

definition fx_ext :: "str set \<Rightarrow> fx_world \<Rightarrow> fx_world \<Rightarrow> bool" where
  "fx_ext R w w' \<longleftrightarrow> (\<exists>es ts. ps_entries (fw_process w') = ps_entries (fw_process w) @ es
     \<and> fw_tests w' = fw_tests w @ ts \<and> fst ` set es \<subseteq> R \<and> fst ` set ts \<subseteq> R \<and> fw_current w' = fw_current w)"

lemma fx_ext_refl [simp]: "fx_ext R w w"
  by (auto simp: fx_ext_def)

lemma fx_ext_trans:
  assumes "fx_ext R w w'" "fx_ext R' w' w''"
  shows "fx_ext (R \<union> R') w w''"
proof -
  obtain es ts where 1: "ps_entries (fw_process w') = ps_entries (fw_process w) @ es" "fw_tests w' = fw_tests w @ ts"
      "fst ` set es \<subseteq> R" "fst ` set ts \<subseteq> R" "fw_current w' = fw_current w"
    using assms(1) unfolding fx_ext_def by auto
  obtain es' ts' where 2: "ps_entries (fw_process w'') = ps_entries (fw_process w') @ es'" "fw_tests w'' = fw_tests w' @ ts'"
      "fst ` set es' \<subseteq> R'" "fst ` set ts' \<subseteq> R'" "fw_current w'' = fw_current w'"
    using assms(2) unfolding fx_ext_def by auto
  show ?thesis unfolding fx_ext_def
    using 1 2 by (intro exI [of _ "es @ es'"] exI [of _ "ts @ ts'"]) auto
qed

lemma fx_ext_mono:
  assumes "fx_ext R w w'" "R \<subseteq> R'"
  shows "fx_ext R' w w'"
  using fx_ext_trans [OF assms(1) fx_ext_refl [of R' w']] assms(2) by (simp add: sup.absorb2)

lemma fx_ext_log [simp]: "fx_ext R w (w'\<lparr>fw_log := l\<rparr>) = fx_ext R w w'"
  by (simp add: fx_ext_def)

lemma store_names_ok_snoc:
  "store_names_ok reg sc base (names @ [nm]) \<longleftrightarrow> store_names_ok reg sc base names \<and> nm \<notin> set names
     \<and> (\<exists>def. map_of reg nm = Some def \<and> fx_scope def = sc \<and> set (fx_deps def) \<subseteq> base \<union> set names)"
  unfolding store_names_ok_def by (auto simp: nth_append less_Suc_eq all_conj_distrib)

lemma store_names_ok_mono: "store_names_ok reg sc base names \<Longrightarrow> base \<subseteq> base' \<Longrightarrow> store_names_ok reg sc base' names"
  unfolding store_names_ok_def by (meson Un_mono order_refl order_trans)

lemma process_lookup_map_of:
  assumes "index_ok st" "distinct (map fst (ps_entries st))"
  shows "process_lookup nm st = map_of (ps_entries st) nm"
proof (cases "map_of (ps_index st) nm")
  case None
  then have "\<forall>i < length (ps_entries st). fst (ps_entries st ! i) \<noteq> nm"
    using assms(1) by (simp add: index_ok_def) (metis option.distinct(1))
  then have "nm \<notin> fst ` set (ps_entries st)" by (force simp: in_set_conv_nth)
  then show ?thesis using None by (simp add: process_lookup_def map_of_eq_None_iff [THEN iffD2])
next
  case (Some i)
  then have i: "i < length (ps_entries st)" "fst (ps_entries st ! i) = nm" using assms(1) by (auto simp: index_ok_def)
  then have "(nm, snd (ps_entries st ! i)) \<in> set (ps_entries st)" by (metis nth_mem prod.collapse)
  then show ?thesis using Some assms(2) by (simp add: process_lookup_def)
qed

lemma fx_inv_lookup: "fx_inv env H w \<Longrightarrow> process_lookup nm (fw_process w) = map_of (ps_entries (fw_process w)) nm"
  by (rule process_lookup_map_of) (simp_all add: fx_inv_def store_names_ok_def)

lemma index_ok_push:
  "index_ok st \<Longrightarrow> nm \<notin> fst ` set (ps_entries st) \<Longrightarrow> index_ok (process_push nm raw st)"
  unfolding index_ok_def process_push_def
  by (auto simp: nth_append less_Suc_eq image_iff)

section \<open>What an operation promises\<close>

definition owners :: "fixture_handle list \<Rightarrow> ptr list" where
  "owners hs = concat (map (\<lambda>h. case fh_owner h of Some p \<Rightarrow> [p] | None \<Rightarrow> []) hs)"

lemma owners_simps [simp]:
  "owners [] = []"
  "owners (h # hs) = (case fh_owner h of Some p \<Rightarrow> [p] | None \<Rightarrow> []) @ owners hs"
  by (simp_all add: owners_def)

definition handle_ok :: "fx_env \<Rightarrow> str \<Rightarrow> fixture_handle \<Rightarrow> fx_world \<Rightarrow> bool" where
  "handle_ok env nm h w \<longleftrightarrow> (\<exists>def. map_of (ev_registry env) nm = Some def \<and> (case fx_scope def of
       Variable \<Rightarrow> fh_owner h = Some (fh_ref h)
     | Test \<Rightarrow> fh_owner h = None \<and> map_of (fw_tests w) nm = Some (fh_ref h)
     | Process \<Rightarrow> fh_owner h = None \<and> map_of (ps_entries (fw_process w)) nm = Some (fh_ref h)))"

definition get_post :: "fx_env \<Rightarrow> str \<Rightarrow> ptr list \<Rightarrow> fx_world \<Rightarrow> (fx_panic, fixture_handle) result \<times> fx_world \<Rightarrow> bool" where
  "get_post env nm H w res \<longleftrightarrow> (case res of (r, w') \<Rightarrow> fx_ext (below (ev_registry env) nm) w w' \<and> (case r of
       Inl e \<Rightarrow> e \<noteq> Process_abort \<and> fx_inv env H w'
     | Inr h \<Rightarrow> fx_inv env (owners [h] @ H) w' \<and> handle_ok env nm h w'))"

definition get_ok :: "fx_env \<Rightarrow> (str \<Rightarrow> type_id \<Rightarrow> fixture_handle fx) \<Rightarrow> bool" where
  "get_ok env get \<longleftrightarrow> (\<forall>nm target H w. fx_inv env H w \<longrightarrow> get_post env nm H w (get nm target w))"

lemma map_of_append_Some: "map_of xs k = Some v \<Longrightarrow> map_of (xs @ ys) k = Some v"
  by (simp add: map_add_Some_iff)

lemma map_of_Some_key: "map_of xs k = Some v \<Longrightarrow> k \<in> fst ` set xs"
  by (force dest: map_of_SomeD)

lemma handle_ok_ext: "handle_ok env nm h w \<Longrightarrow> fx_ext R w w' \<Longrightarrow> handle_ok env nm h w'"
  unfolding handle_ok_def fx_ext_def by (auto simp: map_add_Some_iff split: fixture_scope.splits)

lemma calm_drop_handle:
  "calm env \<Longrightarrow> no_panic (drop_handle env h) (\<lambda>w. w\<lparr>fw_log := fw_log w @ map Dropped (owners [h])\<rparr>)"
  by (auto simp: no_panic_def drop_handle_def free_box_def calm_def split: option.split)

lemma release_calm:
  assumes "calm env" "m w = (r, w')" "r \<noteq> Inl Process_abort"
  shows "release env hs m w = (r, w'\<lparr>fw_log := fw_log w' @ map Dropped (rev (owners hs))\<rparr>)"
proof (induction hs)
  case (Cons h hs)
  show ?case
    using with_guard_no_panic [where m = "release env hs m", OF calm_drop_handle [OF assms(1)] Cons assms(3)]
    by (cases "fh_owner h") (simp_all)
qed (use assms in simp)

lemma fx_inv_drop:
  assumes "fx_inv env (ps @ H) w"
  shows "fx_inv env H (w\<lparr>fw_log := fw_log w @ map Dropped (rev ps)\<rparr>)"
proof -
  have h: "heap_of (fw_log w) = Some (set (cached w @ ps @ H))" "distinct (cached w @ ps @ H)"
    using assms by (auto simp: fx_inv_def heap_ok_def)
  then have "heap_of (fw_log w @ map Dropped (rev ps)) = Some (set (cached w @ ps @ H) - set (rev ps))"
    by (intro heap_of_drops) auto
  also have "set (cached w @ ps @ H) - set (rev ps) = set (cached w @ H)" using h(2) by auto
  finally show ?thesis using assms h(2) by (auto simp: fx_inv_def heap_ok_def cached_def)
qed

lemma fx_inv_box:
  assumes "fx_inv env H w" "box_new nm w = (Inr p, w')"
  shows "fx_inv env (p # H) w' \<and> fx_ext {} w w'"
proof -
  have inv: "heap_ok H w" "fw_next w \<notin> set (cached w @ H)" using assms(1) by (auto simp: fx_inv_def heap_ok_def)
  have w': "p = fw_next w" "w' = w\<lparr>fw_next := Suc p, fw_log := fw_log w @ [Created nm p]\<rparr>"
    using assms(2) by (auto simp: box_new_def)
  have "cached w' = cached w" by (simp add: w' cached_def)
  then have "heap_ok (p # H) w'" using inv by (auto simp: heap_ok_def w' less_Suc_eq)
  then show ?thesis using assms(1) by (simp add: fx_inv_def w' fx_ext_def)
qed

lemma acquire_ok:
  assumes "get_ok env get" "calm env" "fx_inv env H w" "acquire get env ds w = (r, w')"
  shows "fx_ext (\<Union>d \<in> fst ` set ds. below (ev_registry env) d) w w' \<and> (case r of
       Inl e \<Rightarrow> e \<noteq> Process_abort \<and> fx_inv env H w'
     | Inr hs \<Rightarrow> fx_inv env (owners hs @ H) w' \<and> list_all2 (\<lambda>d h. handle_ok env (fst d) h w') ds hs)"
  using assms(3,4)
proof (induction ds arbitrary: H w r w')
  case (Cons d ds)
  obtain nm target where d: "d = (nm, target)" by (cases d)
  obtain r1 w1 where 1: "get nm target w = (r1, w1)" by fastforce
  have p1: "get_post env nm H w (r1, w1)" using assms(1) Cons.prems(1) 1 unfolding get_ok_def by metis
  show ?case
  proof (cases r1)
    case (Inl e)
    then show ?thesis using 1 p1 Cons.prems(2) d by (auto simp: get_post_def intro: fx_ext_mono)
  next
    case (Inr h)
    have inv1: "fx_inv env (owners [h] @ H) w1" and h1: "handle_ok env nm h w1"
      and e1: "fx_ext (below (ev_registry env) nm) w w1" using p1 Inr by (auto simp: get_post_def)
    obtain r2 w2 where 2: "acquire get env ds w1 = (r2, w2)" by fastforce
    note IH = Cons.IH [OF inv1 2]
    have e2: "fx_ext (\<Union>d \<in> fst ` set ds. below (ev_registry env) d) w1 w2" using IH by blast
    have e: "fx_ext (\<Union>d \<in> fst ` set (d # ds). below (ev_registry env) d) w w2"
      using fx_ext_trans [OF e1 e2] by (simp add: d)
    show ?thesis
    proof (cases r2)
      case (Inl x)
      then have "x \<noteq> Process_abort" "fx_inv env (owners [h] @ H) w2" using IH by auto
      moreover have "on_unwind Process_abort (drop_handle env h) (acquire get env ds) w1
          = (Inl x, w2\<lparr>fw_log := fw_log w2 @ map Dropped (owners [h])\<rparr>)"
        using on_unwind_no_panic [where m = "acquire get env ds", OF calm_drop_handle [OF assms(2)] 2] Inl \<open>x \<noteq> Process_abort\<close> by simp
      ultimately show ?thesis using Cons.prems(2) 1 Inr d e fx_inv_drop [of env "owners [h]" H w2]
        by (cases "fh_owner h") (auto simp: eff_bind_def)
    next
      case (Inr hs)
      have "on_unwind Process_abort (drop_handle env h) (acquire get env ds) w1 = (Inr hs, w2)"
        using on_unwind_no_panic [where m = "acquire get env ds", OF calm_drop_handle [OF assms(2)] 2] Inr by simp
      then have rw: "r = Inr (h # hs)" "w' = w2" using Cons.prems(2) 1 \<open>r1 = Inr h\<close> d by (auto simp: eff_bind_def)
      have "fx_inv env (owners hs @ owners [h] @ H) w2" using IH Inr by simp
      then have "fx_inv env (owners (h # hs) @ H) w2"
        by (auto simp: fx_inv_def heap_ok_def split: option.splits)
      then show ?thesis using rw e IH Inr handle_ok_ext [OF h1 e2] by (simp add: d)
    qed
  qed
qed auto

section \<open>Setup and the stores\<close>

definition dep_present :: "fx_env \<Rightarrow> fx_world \<Rightarrow> str \<Rightarrow> bool" where
  "dep_present env w d \<longleftrightarrow> (\<forall>def. map_of (ev_registry env) d = Some def \<longrightarrow>
     (fx_scope def = Test \<longrightarrow> d \<in> set (test_names w)) \<and> (fx_scope def = Process \<longrightarrow> d \<in> set (entry_names w)))"

abbreviation below_deps :: "fx_env \<Rightarrow> fixture_def \<Rightarrow> str set" where
  "below_deps env def \<equiv> \<Union>d \<in> set (fx_deps def). below (ev_registry env) d"

lemma env_ok_name: "env_ok env \<Longrightarrow> map_of (ev_registry env) nm = Some def \<Longrightarrow> fx_name def = nm"
  by (auto simp: env_ok_def registry_ok_def dest: map_of_SomeD)

lemma env_ok_dep:
  assumes "env_ok env" "map_of (ev_registry env) nm = Some def" "d \<in> set (fx_deps def)"
  obtains dep where "map_of (ev_registry env) d = Some dep" "fx_scope def \<le> fx_scope dep"
  using assms by (force simp: env_ok_def registry_ok_def deps_ok_def dest: map_of_SomeD)

lemma env_ok_not_below:
  assumes "env_ok env" "map_of (ev_registry env) nm = Some def"
  shows "nm \<notin> below_deps env def"
proof -
  have "acyclic (dep_rel (ev_registry env))" using assms(1) by (simp add: env_ok_def registry_ok_def)
  then show ?thesis using dep_relI [OF assms(2)]
    by (auto simp: below_def acyclic_def dest: rtrancl_into_trancl2)
qed

lemma handle_ok_present: "handle_ok env d h w \<Longrightarrow> dep_present env w d"
  unfolding handle_ok_def dep_present_def
  by (elim exE conjE) (auto intro: map_of_Some_key split: fixture_scope.splits)

lemma list_all2_left: "list_all2 P xs ys \<Longrightarrow> x \<in> set xs \<Longrightarrow> \<exists>y. P x y"
  by (induction rule: list_all2_induct) auto

lemma run_setup_ok:
  assumes env: "env_ok env" "calm env" and get: "get_ok env get" and inv: "fx_inv env H w"
    and def: "map_of (ev_registry env) nm = Some def"
    and run: "run_setup (fixture_setup get env) def w = (r, w')"
  shows "fx_ext (below_deps env def) w w' \<and> (case r of
       Inl e \<Rightarrow> e \<noteq> Process_abort \<and> fx_inv env H w'
     | Inr p \<Rightarrow> fx_inv env (p # H) w' \<and> (\<forall>d \<in> set (fx_deps def). dep_present env w' d))"
proof -
  let ?ds = "zip (fx_deps def) (fc_dep_targets (ev_code env (fx_name def)))"
  have len: "length (fc_dep_targets (ev_code env (fx_name def))) = length (fx_deps def)"
    using env(1) def env_ok_name [OF env(1) def] by (simp add: env_ok_def)
  have ds: "fst ` set ?ds = set (fx_deps def)" using len by (metis list.set_map map_fst_zip)
  obtain r1 w1 where 1: "acquire get env ?ds w = (r1, w1)" by fastforce
  note a = acquire_ok [OF get env(2) inv 1, unfolded ds]
  show ?thesis
  proof (cases r1)
    case (Inl e)
    then show ?thesis using a run 1 by (auto simp: run_setup_def fixture_setup_def)
  next
    case (Inr hs)
    have a1: "fx_inv env (owners hs @ H) w1" "list_all2 (\<lambda>d h. handle_ok env (fst d) h w1) ?ds hs" using a Inr by auto
    let ?w2 = "w1\<lparr>fw_log := fw_log w1 @ map Dropped (rev (owners hs))\<rparr>"
    obtain b where b: "run_fixture_fn env def (map fh_ref hs) w1 = (b, w1)" "b \<noteq> Inl Process_abort"
      by (cases "fc_body (ev_code env (fx_name def)) (map fh_ref hs) (fw_next w1)") (auto simp: run_fixture_fn_def)
    have rel: "release env hs (run_fixture_fn env def (map fh_ref hs)) w1 = (b, ?w2)"
      by (rule release_calm [where m = "run_fixture_fn env def (map fh_ref hs)", OF env(2) b])
    have inv2: "fx_inv env H ?w2" by (rule fx_inv_drop [OF a1(1)])
    have "\<forall>d \<in> fst ` set ?ds. dep_present env w1 d"
      using list_all2_left [OF a1(2)] handle_ok_present by fastforce
    then have pres: "\<forall>d \<in> set (fx_deps def). dep_present env ?w2 d" by (simp add: ds dep_present_def)
    show ?thesis
    proof (cases "\<exists>u. b = Inr (Inr u)")
      case True
      obtain p w3 where 3: "box_new (fx_name def) ?w2 = (Inr p, w3)" by (simp add: box_new_def)
      note i3 = fx_inv_box [OF inv2 3]
      have "r = Inr p" "w' = w3" using run 1 Inr rel True 3 by (auto simp: run_setup_def fixture_setup_def eff_bind_def)
      moreover have "\<forall>d \<in> set (fx_deps def). dep_present env w3 d"
        using pres 3 by (auto simp: box_new_def dep_present_def)
      moreover have "fx_ext (below_deps env def) w w3"
        using fx_ext_trans [of "below_deps env def" w ?w2 "{}" w3] a i3 by simp
      ultimately show ?thesis using i3 by simp
    next
      case False
      have e2: "fx_ext (below_deps env def) w ?w2" using a by simp
      show ?thesis
      proof (cases b)
        case (Inl e)
        then have "r = Inl e" "w' = ?w2" using run 1 Inr rel by (auto simp: run_setup_def fixture_setup_def eff_bind_def)
        then show ?thesis using e2 inv2 b(2) Inl by simp
      next
        case (Inr x)
        then obtain e where "b = Inr (Inl e)" using False by (cases x) auto
        then have "r = Inl (Setup_failed (fx_name def) e)" "w' = ?w2"
          using run 1 \<open>r1 = Inr hs\<close> rel by (auto simp: run_setup_def fixture_setup_def eff_bind_def)
        then show ?thesis using e2 inv2 by simp
      qed
    qed
  qed
qed

lemma fx_inv_push_test:
  assumes "env_ok env" "fx_inv env (p # H) w" "map_of (ev_registry env) nm = Some def" "fx_scope def = Test"
    and "nm \<notin> set (test_names w)" "\<forall>d \<in> set (fx_deps def). dep_present env w d"
  shows "fx_inv env H (w\<lparr>fw_tests := fw_tests w @ [(nm, p)]\<rparr>)"
proof -
  have "d \<in> set (entry_names w) \<union> set (test_names w)" if d: "d \<in> set (fx_deps def)" for d
  proof -
    obtain dep where "map_of (ev_registry env) d = Some dep" "fx_scope def \<le> fx_scope dep"
      using env_ok_dep [OF assms(1,3) d] by blast
    then show ?thesis using assms(4,6) d
      by (cases "fx_scope dep") (auto simp: dep_present_def less_eq_fixture_scope_def)
  qed
  then have "store_names_ok (ev_registry env) Test (set (entry_names w)) (test_names w @ [nm])"
    using assms by (auto simp: store_names_ok_snoc fx_inv_def)
  moreover have "heap_ok H (w\<lparr>fw_tests := fw_tests w @ [(nm, p)]\<rparr>)"
    using assms(2) by (auto simp: fx_inv_def heap_ok_def cached_def)
  ultimately show ?thesis using assms(2) by (simp add: fx_inv_def)
qed

lemma fx_inv_push_process:
  assumes "env_ok env" "fx_inv env (p # H) w" "map_of (ev_registry env) nm = Some def" "fx_scope def = Process"
    and "nm \<notin> set (entry_names w)" "\<forall>d \<in> set (fx_deps def). dep_present env w d"
  shows "fx_inv env H (w\<lparr>fw_process := process_push nm p (fw_process w)\<rparr>)"
proof -
  have "d \<in> set (entry_names w)" if d: "d \<in> set (fx_deps def)" for d
  proof -
    obtain dep where "map_of (ev_registry env) d = Some dep" "fx_scope def \<le> fx_scope dep"
      using env_ok_dep [OF assms(1,3) d] by blast
    then show ?thesis using assms(4,6) d
      by (cases "fx_scope dep") (auto simp: dep_present_def less_eq_fixture_scope_def)
  qed
  then have "store_names_ok (ev_registry env) Process {} (entry_names w @ [nm])"
    using assms by (auto simp: store_names_ok_snoc fx_inv_def)
  moreover have "store_names_ok (ev_registry env) Test (set (entry_names w @ [nm])) (test_names w)"
  proof (rule store_names_ok_mono)
    show "store_names_ok (ev_registry env) Test (set (entry_names w)) (test_names w)" using assms(2) by (simp add: fx_inv_def)
  qed auto
  moreover have "heap_ok H (w\<lparr>fw_process := process_push nm p (fw_process w)\<rparr>)"
    using assms(2) by (auto simp: fx_inv_def heap_ok_def cached_def process_push_def)
  moreover have "index_ok (process_push nm p (fw_process w))"
    using assms(2,5) by (intro index_ok_push) (auto simp: fx_inv_def)
  ultimately show ?thesis using assms(2) by (simp add: fx_inv_def process_push_def)
qed

lemma below_split:
  "map_of (ev_registry env) nm = Some def \<Longrightarrow> below (ev_registry env) nm = insert nm (below_deps env def)"
  by (rule below_registered)

lemma fx_ext_notin:
  assumes "fx_ext R w w'" "nm \<notin> R"
  shows "nm \<in> set (test_names w') \<longleftrightarrow> nm \<in> set (test_names w)"
    and "nm \<in> set (entry_names w') \<longleftrightarrow> nm \<in> set (entry_names w)"
  using assms unfolding fx_ext_def by force+

lemma ensure_test_ok:
  assumes env: "env_ok env" "calm env" and get: "get_ok env get" and inv: "fx_inv env H w"
    and def: "map_of (ev_registry env) nm = Some def" "fx_scope def = Test"
    and run: "ensure_test_fixture (fixture_setup get env) def w = (r, w')"
  shows "fx_ext (below (ev_registry env) nm) w w' \<and> (case r of
       Inl e \<Rightarrow> e \<noteq> Process_abort \<and> fx_inv env H w'
     | Inr p \<Rightarrow> fx_inv env H w' \<and> map_of (fw_tests w') nm = Some p)"
proof (cases "map_of (fw_tests w) nm")
  case (Some p)
  then show ?thesis using run inv env_ok_name [OF env(1) def(1)] by (auto simp: ensure_test_fixture_def)
next
  case None
  have nm: "fx_name def = nm" by (rule env_ok_name [OF env(1) def(1)])
  obtain r1 w1 where 1: "run_setup (fixture_setup get env) def w = (r1, w1)" by fastforce
  note s = run_setup_ok [OF env get inv def(1) 1]
  have e1: "fx_ext (below (ev_registry env) nm) w w1"
    using s by (auto simp: below_split [OF def(1)] intro: fx_ext_mono)
  show ?thesis
  proof (cases r1)
    case (Inl e)
    then show ?thesis using s e1 run None 1 nm by (auto simp: ensure_test_fixture_def)
  next
    case (Inr p)
    have "nm \<notin> set (test_names w)" using None by (simp add: map_of_eq_None_iff)
    then have new: "nm \<notin> set (test_names w1)"
      using fx_ext_notin(1) [OF conjunct1 [OF s] env_ok_not_below [OF env(1) def(1)]] by simp
    define w2 where "w2 = w1\<lparr>fw_tests := fw_tests w1 @ [(nm, p)]\<rparr>"
    have "r = Inr p" "w' = w2" using run None 1 Inr nm by (auto simp: ensure_test_fixture_def push_test_def w2_def)
    moreover have "fx_inv env H w2"
      unfolding w2_def using s Inr by (intro fx_inv_push_test [OF env(1) _ def new]) auto
    moreover have "fx_ext (below (ev_registry env) nm) w1 w2" by (simp add: w2_def fx_ext_def)
    then have "fx_ext (below (ev_registry env) nm) w w2" using fx_ext_trans [OF e1] by fastforce
    moreover have "map_of (fw_tests w2) nm = Some p"
      using new by (auto simp: w2_def map_add_def map_of_eq_None_iff split: option.splits dest: map_of_Some_key)
    ultimately show ?thesis by simp
  qed
qed

lemma ensure_process_ok:
  assumes env: "env_ok env" "calm env" and get: "get_ok env get" and inv: "fx_inv env H w"
    and def: "map_of (ev_registry env) nm = Some def" "fx_scope def = Process"
    and run: "ensure_process_fixture env (fixture_setup get env) def w = (r, w')"
  shows "fx_ext (below (ev_registry env) nm) w w' \<and> (case r of
       Inl e \<Rightarrow> e \<noteq> Process_abort \<and> fx_inv env H w'
     | Inr p \<Rightarrow> fx_inv env H w' \<and> map_of (ps_entries (fw_process w')) nm = Some p)"
proof (cases "map_of (ps_entries (fw_process w)) nm")
  case (Some p)
  then show ?thesis using run inv env_ok_name [OF env(1) def(1)] fx_inv_lookup [OF inv, of nm]
    by (auto simp: ensure_process_fixture_def)
next
  case None
  have nm: "fx_name def = nm" by (rule env_ok_name [OF env(1) def(1)])
  obtain r1 w1 where 1: "run_setup (fixture_setup get env) def w = (r1, w1)" by fastforce
  note s = run_setup_ok [OF env get inv def(1) 1]
  have e1: "fx_ext (below (ev_registry env) nm) w w1"
    using s by (auto simp: below_split [OF def(1)] intro: fx_ext_mono)
  have slow: "eff_bind (run_setup (fixture_setup get env) def) (publish env nm) w = (r, w')"
    using run None nm fx_inv_lookup [OF inv, of nm] by (simp add: ensure_process_fixture_def)
  show ?thesis
  proof (cases r1)
    case (Inl e)
    then show ?thesis using s e1 slow 1 by auto
  next
    case (Inr p)
    have inv1: "fx_inv env (p # H) w1" using s Inr by simp
    have "nm \<notin> set (entry_names w)" using None by (simp add: map_of_eq_None_iff)
    then have new: "nm \<notin> set (entry_names w1)"
      using fx_ext_notin(2) [OF conjunct1 [OF s] env_ok_not_below [OF env(1) def(1)]] by simp
    then have "process_lookup nm (fw_process w1) = None"
      by (simp add: fx_inv_lookup [OF inv1] map_of_eq_None_iff)
    moreover define w2 where "w2 = w1\<lparr>fw_process := process_push nm p (fw_process w1)\<rparr>"
    ultimately have "r = Inr p" "w' = w2" using slow 1 Inr by (auto simp: publish_def w2_def)
    moreover have "fx_inv env H w2"
      unfolding w2_def using s Inr by (intro fx_inv_push_process [OF env(1) _ def new]) auto
    moreover have "fx_ext (below (ev_registry env) nm) w1 w2" by (simp add: w2_def fx_ext_def process_push_def)
    then have "fx_ext (below (ev_registry env) nm) w w2" using fx_ext_trans [OF e1] by fastforce
    moreover have "map_of (ps_entries (fw_process w2)) nm = Some p"
      using new by (auto simp: w2_def process_push_def map_add_def map_of_eq_None_iff split: option.splits dest: map_of_Some_key)
    ultimately show ?thesis by simp
  qed
qed

section \<open>Obtaining a fixture\<close>

lemma calm_free_box: "calm env \<Longrightarrow> no_panic (free_box env p) (\<lambda>w. w\<lparr>fw_log := fw_log w @ [Dropped p]\<rparr>)"
  by (auto simp: no_panic_def free_box_def calm_def)

lemma borrow_handle_eq:
  "borrow_handle env def target p w =
     (if fixture_cast env def p target = None then Inl (cannot_provide def) else Inr \<lparr>fh_owner = None, fh_ref = p\<rparr>, w)"
  by (simp add: borrow_handle_def fixture_cast_def Let_def)

lemma get_variable_ok:
  assumes env: "env_ok env" "calm env" and get: "get_ok env get" and inv: "fx_inv env H w"
    and def: "map_of (ev_registry env) nm = Some def" "fx_scope def = Variable"
  shows "get_post env nm H w (get_variable env (fixture_setup get env) def target w)"
proof -
  obtain r1 w1 where 1: "run_setup (fixture_setup get env) def w = (r1, w1)" by fastforce
  note s = run_setup_ok [OF env get inv def(1) 1]
  have e1: "fx_ext (below (ev_registry env) nm) w w1"
    using s by (auto simp: below_split [OF def(1)] intro: fx_ext_mono)
  show ?thesis
  proof (cases r1)
    case (Inl e)
    then show ?thesis using s e1 1 by (auto simp: get_variable_def get_post_def)
  next
    case (Inr p)
    have inv1: "fx_inv env ([p] @ H) w1" using s Inr by simp
    show ?thesis
    proof (cases "fixture_cast env def p target")
      case None
      have "with_guard Process_abort (free_box env p) (raise (cannot_provide def) :: fixture_handle fx) w1
          = (Inl (cannot_provide def), w1\<lparr>fw_log := fw_log w1 @ [Dropped p]\<rparr>)"
        by (rule with_guard_no_panic [OF calm_free_box [OF env(2)] raise_apply]) (simp add: cannot_provide_def)
      moreover have "cannot_provide def \<noteq> Process_abort" by (simp add: cannot_provide_def)
      ultimately show ?thesis using None 1 Inr e1 fx_inv_drop [OF inv1]
        by (simp add: get_variable_def get_post_def)
    next
      case (Some q)
      then have "q = p" by (simp add: fixture_cast_def Let_def split: if_splits)
      then show ?thesis using Some 1 Inr e1 inv1 def by (simp add: get_variable_def get_post_def handle_ok_def)
    qed
  qed
qed

lemma get_or_create_test_ok:
  assumes env: "env_ok env" "calm env" and get: "get_ok env get" and inv: "fx_inv env H w"
    and def: "map_of (ev_registry env) nm = Some def" "fx_scope def = Test"
  shows "get_post env nm H w (get_or_create_test env (fixture_setup get env) def target w)"
proof -
  obtain r1 w1 where 1: "ensure_test_fixture (fixture_setup get env) def w = (r1, w1)" by fastforce
  note s = ensure_test_ok [OF env get inv def 1]
  show ?thesis
  proof (cases r1)
    case (Inl e)
    then show ?thesis using s 1 by (auto simp: get_or_create_test_def get_post_def)
  next
    case (Inr p)
    then show ?thesis using s 1 def
      by (auto simp: get_or_create_test_def get_post_def handle_ok_def cannot_provide_def borrow_handle_eq)
  qed
qed

lemma get_or_create_process_ok:
  assumes env: "env_ok env" "calm env" and get: "get_ok env get" and inv: "fx_inv env H w"
    and def: "map_of (ev_registry env) nm = Some def" "fx_scope def = Process"
  shows "get_post env nm H w (get_or_create_process env (fixture_setup get env) def target w)"
proof -
  obtain r1 w1 where 1: "ensure_process_fixture env (fixture_setup get env) def w = (r1, w1)" by fastforce
  note s = ensure_process_ok [OF env get inv def 1]
  show ?thesis
  proof (cases r1)
    case (Inl e)
    then show ?thesis using s 1 by (auto simp: get_or_create_process_def get_post_def)
  next
    case (Inr p)
    then show ?thesis using s 1 def
      by (auto simp: get_or_create_process_def get_post_def handle_ok_def cannot_provide_def borrow_handle_eq)
  qed
qed

lemma fixture_get_with_ok:
  assumes env: "env_ok env" "calm env" and get: "get_ok env get" and inv: "fx_inv env H w"
  shows "get_post env nm H w (fixture_get_with env (fixture_setup get env) nm target w)"
proof (cases "map_of (ev_registry env) nm")
  case None
  then show ?thesis using inv by (simp add: fixture_get_with_def get_post_def)
next
  case (Some def)
  show ?thesis
  proof (cases "fx_scope def \<noteq> Process \<and> fw_current w = None")
    case True
    then show ?thesis using Some inv by (simp add: fixture_get_with_def get_post_def)
  next
    case False
    then show ?thesis
      using get_variable_ok [OF env get inv Some] get_or_create_test_ok [OF env get inv Some]
        get_or_create_process_ok [OF env get inv Some] Some
      by (cases "fx_scope def") (auto simp: fixture_get_with_def)
  qed
qed

lemma fixture_get_ok: "env_ok env \<Longrightarrow> calm env \<Longrightarrow> get_ok env (fixture_get n env)"
proof (induction n)
  case 0
  show ?case by (simp add: get_ok_def get_post_def)
next
  case (Suc n)
  then show ?case using fixture_get_with_ok by (simp add: get_ok_def)
qed

section \<open>The fuel is enough\<close>

definition fuel_ok :: "'a fx \<Rightarrow> bool" where
  "fuel_ok m \<longleftrightarrow> (\<forall>w. fst (m w) \<noteq> Inl Fuel_exhausted)"

lemma fuel_ok_ret: "fuel_ok (ret a)"
  by (simp add: fuel_ok_def)

lemma fuel_ok_raise: "e \<noteq> Fuel_exhausted \<Longrightarrow> fuel_ok (raise e)"
  by (simp add: fuel_ok_def)

lemma fuel_ok_bind: "fuel_ok m \<Longrightarrow> (\<And>a. fuel_ok (k a)) \<Longrightarrow> fuel_ok (eff_bind m k)"
  unfolding fuel_ok_def eff_bind_def by (auto split: prod.split sum.split) (metis fst_conv)+

lemma fuel_ok_on_unwind: "fuel_ok m \<Longrightarrow> fuel_ok (on_unwind Process_abort fin m)"
  unfolding fuel_ok_def on_unwind_def after_unwind_def by (auto split: prod.split sum.split) (metis fst_conv)+

lemma fuel_ok_guard: "fuel_ok fin \<Longrightarrow> fuel_ok m \<Longrightarrow> fuel_ok (with_guard Process_abort fin m)"
  unfolding with_guard_def by (intro fuel_ok_bind fuel_ok_on_unwind fuel_ok_ret)

lemma fuel_ok_free_box: "fuel_ok (free_box env p)"
  by (auto simp: fuel_ok_def free_box_def split: option.split)

lemma fuel_ok_drop_handle: "fuel_ok (drop_handle env h)"
  by (simp add: drop_handle_def fuel_ok_ret fuel_ok_free_box split: option.split)

lemma fuel_ok_box_new: "fuel_ok (box_new nm)"
  by (simp add: fuel_ok_def box_new_def)

lemma fuel_ok_release: "fuel_ok m \<Longrightarrow> fuel_ok (release env hs m)"
  by (induction hs) (auto intro: fuel_ok_guard fuel_ok_drop_handle)

lemma fuel_ok_acquire:
  "(\<And>d target. d \<in> fst ` set ds \<Longrightarrow> fuel_ok (get d target)) \<Longrightarrow> fuel_ok (acquire get env ds)"
proof (induction get env ds rule: acquire.induct)
  case (2 get env d target ds)
  then show ?case by (auto intro!: fuel_ok_bind fuel_ok_ret fuel_ok_on_unwind)
qed (simp add: fuel_ok_ret)

lemma fuel_ok_fixture_fn: "fuel_ok (run_fixture_fn env def refs)"
  by (auto simp: fuel_ok_def run_fixture_fn_def split: body_outcome.split)

lemma fuel_ok_setup:
  assumes "\<And>d target. d \<in> set (fx_deps def) \<Longrightarrow> fuel_ok (get d target)"
  shows "fuel_ok (run_setup (fixture_setup get env) def)"
  unfolding run_setup_def fixture_setup_def
  by (intro fuel_ok_bind fuel_ok_acquire fuel_ok_release fuel_ok_fixture_fn)
     (auto simp: fuel_ok_ret fuel_ok_raise set_zip split: sum.split intro!: assms fuel_ok_bind fuel_ok_box_new)

lemma fuel_ok_ensure_test:
  "fuel_ok (run_setup setup def) \<Longrightarrow> fuel_ok (ensure_test_fixture setup def)"
  unfolding fuel_ok_def ensure_test_fixture_def eff_bind_def push_test_def
  by (auto split: option.split prod.split sum.split) (metis fst_conv)+

lemma fuel_ok_publish: "fuel_ok (publish env nm raw)"
  by (auto simp: fuel_ok_def publish_def eff_bind_def free_box_def split: option.split)

lemma fuel_ok_ensure_process:
  assumes "fuel_ok (run_setup setup def)"
  shows "fuel_ok (ensure_process_fixture env setup def)"
  using fuel_ok_bind [OF assms fuel_ok_publish]
  by (auto simp: fuel_ok_def ensure_process_fixture_def split: option.split)

lemma fuel_ok_borrow: "fuel_ok (borrow_handle env def target p)"
  by (simp add: fuel_ok_def borrow_handle_eq cannot_provide_def)

lemma fuel_ok_get_with:
  assumes "\<And>def d target. map_of (ev_registry env) nm = Some def \<Longrightarrow> d \<in> set (fx_deps def) \<Longrightarrow> fuel_ok (get d target)"
  shows "fuel_ok (fixture_get_with env (fixture_setup get env) nm target)"
proof (cases "map_of (ev_registry env) nm")
  case None
  then show ?thesis by (simp add: fuel_ok_def fixture_get_with_def)
next
  case (Some def)
  have s: "fuel_ok (run_setup (fixture_setup get env) def)" using assms [OF Some] by (rule fuel_ok_setup)
  have v: "fuel_ok (get_variable env (fixture_setup get env) def target)"
    unfolding get_variable_def using s
    by (intro fuel_ok_bind)
       (auto split: option.split intro: fuel_ok_ret fuel_ok_guard fuel_ok_free_box fuel_ok_raise simp: cannot_provide_def)
  have t: "fuel_ok (get_or_create_test env (fixture_setup get env) def target)"
    unfolding get_or_create_test_def using s by (intro fuel_ok_bind fuel_ok_ensure_test fuel_ok_borrow)
  have p: "fuel_ok (get_or_create_process env (fixture_setup get env) def target)"
    unfolding get_or_create_process_def using s by (intro fuel_ok_bind fuel_ok_ensure_process fuel_ok_borrow)
  show ?thesis using v t p Some by (auto simp: fuel_ok_def fixture_get_with_def split: fixture_scope.split)
qed

lemma fuel_ok_fixture_get:
  assumes "acyclic (dep_rel (ev_registry env))"
  shows "card (below (ev_registry env) nm \<inter> fst ` set (ev_registry env)) < n \<Longrightarrow> fuel_ok (fixture_get n env nm target)"
proof (induction n arbitrary: nm target)
  case (Suc n)
  have "fuel_ok (fixture_get n env d t)" if "map_of (ev_registry env) nm = Some def" "d \<in> set (fx_deps def)" for def d t
    using below_count_step [OF assms that] Suc by simp
  then show ?case using fuel_ok_get_with by simp
qed simp

lemma fuel_ok_top:
  assumes "env_ok env"
  shows "fuel_ok (fixture_get (fx_fuel env) env nm target)"
proof (rule fuel_ok_fixture_get)
  show "acyclic (dep_rel (ev_registry env))" using assms by (simp add: env_ok_def registry_ok_def)
  have "card (below (ev_registry env) nm \<inter> fst ` set (ev_registry env)) \<le> card (fst ` set (ev_registry env))"
    by (rule card_mono) auto
  also have "\<dots> \<le> length (ev_registry env)" by (metis card_length length_map set_map)
  finally show "card (below (ev_registry env) nm \<inter> fst ` set (ev_registry env)) < fx_fuel env" by (simp add: fx_fuel_def)
qed

end
