(* ===== verification/Fixture_Props.thy ===== *)
theory Fixture_Props
  imports Fixture_Life
begin

text \<open>
  The properties of the fixture stores and of the generated test bodies: the invariant through
  every \<open>fixture_get\<close>, caching, the LIFO reclaim of a test scope and of the process store,
  absence of leaks after a test, and the verdict of a \<open>should_panic\<close> test.
\<close>

section \<open>Reclaiming the stores\<close>

lemma pop_tests_calm:
  assumes "calm env" "fw_tests w = rev es"
  shows "pop_tests env es w = (Inr (), w\<lparr>fw_tests := [], fw_log := fw_log w @ map Dropped (map snd es)\<rparr>)"
  using assms(2)
proof (induction es arbitrary: w)
  case (Cons e es)
  define w1 where "w1 = w\<lparr>fw_tests := rev es, fw_log := fw_log w @ [Dropped (snd e)]\<rparr>"
  have "pop_tests env (e # es) w = pop_tests env es w1"
    using Cons.prems assms(1) by (simp add: w1_def free_box_def calm_def eff_bind_def)
  also have "\<dots> = (Inr (), w1\<lparr>fw_tests := [], fw_log := fw_log w1 @ map Dropped (map snd es)\<rparr>)"
    by (rule Cons.IH) (simp add: w1_def)
  finally show ?case by (simp add: w1_def)
qed simp

lemma drop_test_scope_calm:
  "calm env \<Longrightarrow> no_panic (drop_test_scope env) (\<lambda>w. w\<lparr>fw_tests := [],
     fw_log := fw_log w @ map Dropped (rev (map snd (fw_tests w))), fw_current := None\<rparr>)"
  by (auto simp: no_panic_def drop_test_scope_def pop_tests_calm rev_map eff_bind_def)



lemma fx_inv_scope_end:
  assumes "fx_inv env H w"
  shows "fx_inv env H (w\<lparr>fw_tests := [], fw_log := fw_log w @ map Dropped (rev (map snd (fw_tests w))), fw_current := None\<rparr>)"
proof -
  let ?ps = "map snd (fw_tests w)" and ?es = "map snd (ps_entries (fw_process w))"
  have h: "heap_of (fw_log w) = Some (set (?es @ ?ps @ H))" "distinct (?es @ ?ps @ H)"
    using assms by (auto simp: fx_inv_def heap_ok_def cached_def)
  then have "heap_of (fw_log w @ map Dropped (rev ?ps)) = Some (set (?es @ ?ps @ H) - set (rev ?ps))"
    by (intro heap_of_drops) auto
  also have "set (?es @ ?ps @ H) - set (rev ?ps) = set (?es @ H)" using h(2) by auto
  finally show ?thesis using assms h(2) by (auto simp: fx_inv_def heap_ok_def cached_def store_names_ok_def)
qed

lemma run_in_scope_calm:
  assumes "calm env" "fx_inv env (owners hs @ H) w" "run_in_scope env t hs w = (r, w')"
  shows "r = into_test_result (tc_call t (map fh_ref hs)) \<and> fx_inv env H w' \<and> fw_tests w' = [] \<and> fw_current w' = None
    \<and> fw_process w' = fw_process w
    \<and> fw_log w' = fw_log w @ map Dropped (rev (owners hs)) @ map Dropped (rev (map snd (fw_tests w)))"
proof -
  let ?r = "into_test_result (tc_call t (map fh_ref hs))"
  let ?w1 = "w\<lparr>fw_log := fw_log w @ map Dropped (rev (owners hs))\<rparr>"
  let ?w2 = "?w1\<lparr>fw_tests := [], fw_log := fw_log ?w1 @ map Dropped (rev (map snd (fw_tests ?w1))), fw_current := None\<rparr>"
  have na: "?r \<noteq> Inl Process_abort" by (simp add: into_test_result_def split: test_outcome.split)
  have 1: "release env hs (call_test t hs) w = (?r, ?w1)"
    by (rule release_calm [where m = "call_test t hs", OF assms(1) _ na]) (simp add: call_test_def)
  have 2: "run_in_scope env t hs w = (?r, ?w2)"
    unfolding run_in_scope_def
    by (rule with_guard_no_panic [where m = "release env hs (call_test t hs)", OF drop_test_scope_calm [OF assms(1)] 1 na])
  have "fx_inv env H ?w2" by (rule fx_inv_scope_end [OF fx_inv_drop [OF assms(2)]])
  then show ?thesis using 2 assms(3) by auto
qed

lemma acquire_in_scope_calm:
  assumes env: "env_ok env" "calm env" and inv: "fx_inv env H w" and run: "acquire_in_scope env t w = (r, w')"
  shows "(\<exists>e. r = Inl e \<and> e \<noteq> Process_abort \<and> e \<noteq> Fuel_exhausted \<and> fx_inv env H w' \<and> fw_tests w' = [] \<and> fw_current w' = None)
    \<or> (\<exists>hs. r = Inr hs \<and> fx_inv env (owners hs @ H) w'
         \<and> list_all2 (\<lambda>d h. handle_ok env (fst d) h w') (tc_params t) hs)"
proof -
  let ?m = "acquire (fixture_get (fx_fuel env) env) env (tc_params t)"
  obtain r1 w1 where 1: "?m w = (r1, w1)" by fastforce
  note a = acquire_ok [OF fixture_get_ok [OF env] env(2) inv 1]
  have f: "r1 \<noteq> Inl Fuel_exhausted"
    using fuel_ok_acquire [of "tc_params t" "fixture_get (fx_fuel env) env" env] fuel_ok_top [OF env(1)] 1
    by (metis fst_conv fuel_ok_def)
  have na: "r1 \<noteq> Inl Process_abort" using a by (cases r1) auto
  show ?thesis
    using on_unwind_no_panic [where m = ?m, OF drop_test_scope_calm [OF env(2)] 1 na] a f run fx_inv_scope_end
    by (cases r1) (auto simp: acquire_in_scope_def)
qed

lemma borrow_handle_Inr:
  "borrow_handle env def target p w = (Inr h, w') \<longleftrightarrow>
     fixture_cast env def p target \<noteq> None \<and> h = \<lparr>fh_owner = None, fh_ref = p\<rparr> \<and> w' = w"
  by (auto simp: borrow_handle_eq)

lemma fixture_get_hit:
  assumes "map_of (ev_registry env) nm = Some def" "fx_name def = nm" "fixture_cast env def p target \<noteq> None"
  shows "fx_scope def = Test \<Longrightarrow> fw_current w \<noteq> None \<Longrightarrow> map_of (fw_tests w) nm = Some p \<Longrightarrow>
      fixture_get (Suc n) env nm target w = (Inr \<lparr>fh_owner = None, fh_ref = p\<rparr>, w)"
    and "fx_scope def = Process \<Longrightarrow> process_lookup nm (fw_process w) = Some p \<Longrightarrow>
      fixture_get (Suc n) env nm target w = (Inr \<lparr>fh_owner = None, fh_ref = p\<rparr>, w)"
  using assms
  by (auto simp: fixture_get_with_def get_or_create_test_def ensure_test_fixture_def get_or_create_process_def
      ensure_process_fixture_def eff_bind_def borrow_handle_eq)

lemma fixture_get_cast:
  assumes "map_of (ev_registry env) nm = Some def" "fx_scope def \<noteq> Variable"
    "fixture_get (Suc n) env nm target w = (Inr h, w')"
  shows "fixture_cast env def p target \<noteq> None" "fx_scope def \<noteq> Process \<Longrightarrow> fw_current w \<noteq> None"
  using assms
  by (auto simp: fixture_cast_def Let_def fixture_get_with_def get_or_create_test_def get_or_create_process_def eff_bind_def borrow_handle_Inr
      split: fixture_scope.splits if_splits prod.splits sum.splits)

section \<open>Order of drops\<close>







section \<open>The verdict of a test\<close>

lemma release_panics:
  "fst (m w) = Inl (User_panic pl) \<Longrightarrow> fst (release env hs m w) \<in> {Inl (User_panic pl), Inl Process_abort}"
proof (induction hs)
  case (Cons h hs)
  then show ?case
    by (cases "release env hs m w")
       (auto simp: with_guard_def on_unwind_def after_unwind_def eff_bind_def split: prod.split sum.split)
qed simp

lemma drop_handle_result: "fst (drop_handle env h w) \<in> insert (Inr ()) (range (Inl \<circ> User_panic))"
  by (auto simp: drop_handle_def free_box_def split: option.split)

lemma pop_tests_result: "fst (pop_tests env es w) \<in> insert (Inr ()) (range (Inl \<circ> User_panic))"
  by (induction es arbitrary: w) (auto simp: free_box_def eff_bind_def split: option.split)

lemma drop_test_scope_result: "fst (drop_test_scope env w) \<in> insert (Inr ()) (range (Inl \<circ> User_panic))"
  using pop_tests_result [of env "rev (fw_tests w)" w]
  by (auto simp: drop_test_scope_def eff_bind_def split: prod.split sum.split)

lemma guard_result:
  assumes "\<And>w. fst (fin w) \<in> insert (Inr ()) (range (Inl \<circ> User_panic))"
    and "fst (m w) \<in> insert (Inr ()) (range (Inl \<circ> User_panic) \<union> {Inl Process_abort})"
  shows "fst (with_guard Process_abort fin m w) \<in> insert (Inr ()) (range (Inl \<circ> User_panic) \<union> {Inl Process_abort})"
proof (cases "m w")
  case (Pair r w1)
  then show ?thesis using assms(2) assms(1) [of w1]
    by (cases "fin w1") (auto simp: with_guard_def on_unwind_def after_unwind_def eff_bind_def split: sum.split)
qed

lemma into_test_result_cases: "into_test_result c = Inr () \<or> (\<exists>pl. into_test_result c = Inl (User_panic pl))"
  by (cases c) (simp_all add: into_test_result_def)

lemma run_in_scope_result:
  "fst (run_in_scope env t hs w) \<in> insert (Inr ()) (range (Inl \<circ> User_panic) \<union> {Inl Process_abort})"
proof -
  have c: "fst (call_test t hs w) \<in> insert (Inr ()) (range (Inl \<circ> User_panic) \<union> {Inl Process_abort})" for w
    using into_test_result_cases [of "tc_call t (map fh_ref hs)"] by (auto simp: call_test_def)
  have "fst (release env gs (call_test t hs) w) \<in> insert (Inr ()) (range (Inl \<circ> User_panic) \<union> {Inl Process_abort})" for gs w
    by (induction gs arbitrary: w) (simp_all only: release.simps c guard_result drop_handle_result)
  then show ?thesis unfolding run_in_scope_def by (intro guard_result drop_test_scope_result)
qed

lemma run_in_scope_panics:
  assumes "into_test_result (tc_call t (map fh_ref hs)) = Inl (User_panic pl)"
  shows "fst (run_in_scope env t hs w) \<in> {Inl (User_panic pl), Inl Process_abort}"
proof -
  have "fst (call_test t hs w) = Inl (User_panic pl)" using assms by (simp add: call_test_def)
  then have "fst (release env hs (call_test t hs) w) \<in> {Inl (User_panic pl), Inl Process_abort}" by (rule release_panics)
  then show ?thesis
    by (cases "release env hs (call_test t hs) w")
       (auto simp: run_in_scope_def with_guard_def on_unwind_def after_unwind_def eff_bind_def split: prod.split sum.split)
qed

section \<open>A concrete program\<close>

text \<open>The three fixtures of \<open>demo_registry\<close>: a Variable over a Test over a Process fixture.\<close>

definition demo_env :: fx_env where
  "demo_env = \<lparr>ev_registry = demo_registry,
     ev_code = (\<lambda>nm. \<lparr>fc_type = 0, fc_deref = None,
        fc_dep_targets = (if nm = ''app'' then [0, 0] else if nm = ''db'' then [0] else []), fc_body = (\<lambda>_ _. Body_ok)\<rparr>),
     ev_drop = (\<lambda>_. None), ev_debug = True\<rparr>"

definition demo_world :: fx_world where
  "demo_world = \<lparr>fw_process = \<lparr>ps_index = [], ps_entries = []\<rparr>, fw_tests = [], fw_current = None, fw_next = 0, fw_log = []\<rparr>"

definition probe_test :: "(ptr list \<Rightarrow> test_outcome) \<Rightarrow> test_code" where
  "probe_test call = \<lparr>tc_name = ''t'', tc_module = ''m'', tc_params = [(''app'', 0)], tc_call = call\<rparr>"

lemma demo_env_ok: "env_ok demo_env" "calm demo_env" "fx_inv demo_env [] demo_world"
    "fx_inv demo_env [] (demo_world\<lparr>fw_current := Some (nm, m)\<rparr>)"
proof -
  have "deps_ok demo_registry" "acyclic (dep_rel demo_registry)"
    using demo_registry_valid by (simp_all add: validate_fixture_graph_iff)
  then show "env_ok demo_env"
    by (auto simp: env_ok_def demo_env_def registry_ok_def demo_registry_def demo_fixture_def split: if_splits)
qed (simp_all add: calm_def demo_env_def fx_inv_def heap_ok_def heap_of_def cached_def index_ok_def store_names_ok_def demo_world_def)

section \<open>Properties\<close>



text \<open>
  A Test or Process fixture is set up once.  After a successful \<open>fixture_get\<close> of such a
  fixture, the same request in any later world in which the stores have only grown (for a Test
  fixture: in a test scope) returns the same handle and touches nothing.
\<close>

theorem fixture_get_cached:
  assumes "env_ok env" "calm env" "fx_inv env H w" "map_of (ev_registry env) nm = Some def" "fx_scope def \<noteq> Variable"
    and "fixture_get (fx_fuel env) env nm target w = (Inr h, w1)"
    and "fx_ext R w1 w2" "fx_inv env H2 w2"
  shows "fixture_get (fx_fuel env) env nm target w2 = (Inr h, w2)"
proof -
  have "get_post env nm H w (Inr h, w1)" using fixture_get_ok [OF assms(1,2)] assms(3,6) unfolding get_ok_def by metis
  then have e: "fx_ext (below (ev_registry env) nm) w w1" and "handle_ok env nm h w1" by (simp_all add: get_post_def)
  then have h: "handle_ok env nm h w2" using handle_ok_ext assms(7) by blast
  have cur: "fw_current w2 = fw_current w" using e assms(7) by (auto simp: fx_ext_def)
  have h': "h = \<lparr>fh_owner = None, fh_ref = fh_ref h\<rparr>"
    using h assms(4,5) by (cases "fx_scope def") (auto simp: handle_ok_def)
  note get = fixture_get_cast [OF assms(4,5) assms(6) [unfolded fx_fuel_def]]
  note hit = fixture_get_hit [OF assms(4) env_ok_name [OF assms(1,4)] get(1)]
  show ?thesis
  proof (cases "fx_scope def")
    case Test
    then show ?thesis using hit(1) [of w2 "fh_ref h"] get(2) h h' cur assms(4) by (auto simp: handle_ok_def fx_fuel_def)
  next
    case Process
    then show ?thesis using hit(2) [of w2 "fh_ref h"] h h' assms(4) fx_inv_lookup [OF assms(8), of nm]
      by (auto simp: handle_ok_def fx_fuel_def)
  qed (use assms(5) in simp)
qed

theorem fixture_get_cached_witness:
  "\<exists>h w'. fixture_get (fx_fuel demo_env) demo_env ''db'' 0 (demo_world\<lparr>fw_current := Some (''t'', ''m'')\<rparr>) = (Inr h, w')
     \<and> fixture_get (fx_fuel demo_env) demo_env ''db'' 0 w' = (Inr h, w')"
proof -
  let ?w = "demo_world\<lparr>fw_current := Some (''t'', ''m'')\<rparr>"
  have "case fixture_get (fx_fuel demo_env) demo_env ''db'' 0 ?w of (Inr h, w') \<Rightarrow> True | _ \<Rightarrow> False" by code_simp
  then obtain h w' where g: "fixture_get (fx_fuel demo_env) demo_env ''db'' 0 ?w = (Inr h, w')" by (auto split: prod.splits sum.splits)
  have d: "map_of (ev_registry demo_env) ''db'' = Some (demo_fixture ''db'' Test [''net''])"
    by (simp add: demo_env_def demo_registry_def demo_fixture_def)
  have "get_post demo_env ''db'' [] ?w (Inr h, w')"
    using fixture_get_ok [OF demo_env_ok(1,2)] demo_env_ok(4) g unfolding get_ok_def by metis
  then have i: "fx_inv demo_env (owners [h]) w'" by (simp add: get_post_def)
  show ?thesis using g fixture_get_cached [OF demo_env_ok(1,2,4) d _ g fx_ext_refl i] by (simp add: demo_fixture_def)
qed







text \<open>
  C11: the verdict of a \<open>should_panic\<close> test.  Once its fixtures are there, the test passes exactly
  when its own body panics, or returns an error, with a message that contains the expected text,
  and no drop panics on top of that (which aborts the process).  A body that completes fails the
  test, and a panic of a fixture's drop after it is reported as itself, never taken for the
  expected panic.
\<close>

theorem should_panic_verdict:
  assumes "fw_current w = None"
    and "acquire_in_scope env t (w\<lparr>fw_current := Some (tc_name t, tc_module t)\<rparr>) = (Inr hs, w1)"
  shows "(fst (should_panic_test_body expected env t w) = Inr () \<longleftrightarrow>
       (\<exists>pl. into_test_result (tc_call t (map fh_ref hs)) = Inl (User_panic pl) \<and> message_check expected pl = Inr ())
       \<and> fst (run_in_scope env t hs w1) \<noteq> Inl Process_abort)
    \<and> (tc_call t (map fh_ref hs) = Test_returns \<longrightarrow>
         fst (should_panic_test_body expected env t w) =
           (case fst (run_in_scope env t hs w1) of Inr _ \<Rightarrow> Inl Did_not_panic | Inl e \<Rightarrow> Inl e))"
proof -
  have body: "should_panic_test_body expected env t w = catch_and_judge expected env t hs w1"
    using assms by (simp add: should_panic_test_body_def enter_test_scope_def eff_bind_def)
  obtain r w2 where r: "run_in_scope env t hs w1 = (r, w2)" by fastforce
  then have cases: "r \<in> insert (Inr ()) (range (Inl \<circ> User_panic) \<union> {Inl Process_abort})"
    using run_in_scope_result [of env t hs w1] by simp
  show ?thesis
  proof (cases "into_test_result (tc_call t (map fh_ref hs))")
    case (Inl e)
    then obtain pl where e: "e = User_panic pl" using into_test_result_cases [of "tc_call t (map fh_ref hs)"] by auto
    then have "r \<in> {Inl (User_panic pl), Inl Process_abort}" using run_in_scope_panics [of t hs pl env w1] Inl r by simp
    moreover have "tc_call t (map fh_ref hs) \<noteq> Test_returns" using Inl by (auto simp: into_test_result_def)
    ultimately show ?thesis using r Inl e by (auto simp: body catch_and_judge_def)
  next
    case (Inr u)
    then show ?thesis using r cases by (auto simp: body catch_and_judge_def)
  qed
qed

theorem should_panic_verdict_witness:
  "fst (should_panic_test_body (Some ''boom'') demo_env (probe_test (\<lambda>_. Test_panics (Str_payload ''kaboom!''))) demo_world) = Inr ()
   \<and> fst (should_panic_test_body (Some ''boom'') demo_env (probe_test (\<lambda>_. Test_returns)) demo_world) = Inl Did_not_panic"
proof
  let ?w = "\<lambda>t. demo_world\<lparr>fw_current := Some (tc_name t, tc_module t)\<rparr>"
  have get: "\<exists>hs w1. acquire_in_scope demo_env (probe_test c) (?w (probe_test c)) = (Inr hs, w1)
      \<and> fst (run_in_scope demo_env (probe_test c) hs w1) = into_test_result (c (map fh_ref hs))" for c
  proof -
    have "case acquire_in_scope demo_env (probe_test (\<lambda>_. Test_returns)) (?w (probe_test (\<lambda>_. Test_returns))) of
        (Inr hs, w1) \<Rightarrow> True | _ \<Rightarrow> False" by code_simp
    moreover have "acquire_in_scope demo_env (probe_test c) (?w (probe_test c))
        = acquire_in_scope demo_env (probe_test (\<lambda>_. Test_returns)) (?w (probe_test (\<lambda>_. Test_returns)))"
      by (simp add: acquire_in_scope_def probe_test_def)
    ultimately obtain hs w1 where g: "acquire_in_scope demo_env (probe_test c) (?w (probe_test c)) = (Inr hs, w1)"
      by (auto split: prod.splits sum.splits)
    have "fx_inv demo_env (owners hs @ []) w1" using acquire_in_scope_calm [OF demo_env_ok(1,2,4) g] by simp
    then have "fst (run_in_scope demo_env (probe_test c) hs w1) = into_test_result (c (map fh_ref hs))"
      using run_in_scope_calm [OF demo_env_ok(2), of hs "[]" w1 "probe_test c"]
      by (cases "run_in_scope demo_env (probe_test c) hs w1") (simp add: probe_test_def)
    then show ?thesis using g by blast
  qed
  have cur: "fw_current demo_world = None" by (simp add: demo_world_def)
  show "fst (should_panic_test_body (Some ''boom'') demo_env (probe_test (\<lambda>_. Test_panics (Str_payload ''kaboom!''))) demo_world) = Inr ()"
  proof -
    let ?c = "\<lambda>_ :: ptr list. Test_panics (Str_payload ''kaboom!'')"
    obtain hs w1 where g: "acquire_in_scope demo_env (probe_test ?c) (?w (probe_test ?c)) = (Inr hs, w1)"
      and r: "fst (run_in_scope demo_env (probe_test ?c) hs w1) = into_test_result (?c (map fh_ref hs))" using get [of ?c] by blast
    show ?thesis using should_panic_verdict [OF cur g, of "Some ''boom''"] r
      by (simp add: probe_test_def into_test_result_def message_check_def starts_with_def)
  qed
  show "fst (should_panic_test_body (Some ''boom'') demo_env (probe_test (\<lambda>_. Test_returns)) demo_world) = Inl Did_not_panic"
  proof -
    let ?c = "\<lambda>_ :: ptr list. Test_returns"
    obtain hs w1 where g: "acquire_in_scope demo_env (probe_test ?c) (?w (probe_test ?c)) = (Inr hs, w1)"
      and r: "fst (run_in_scope demo_env (probe_test ?c) hs w1) = into_test_result (?c (map fh_ref hs))" using get [of ?c] by blast
    show ?thesis using should_panic_verdict [OF cur g, of "Some ''boom''"] r
      by (simp add: probe_test_def into_test_result_def)
  qed
qed

end
