(* ===== verification/Fixture_Threads.thy ===== *)
theory Fixture_Threads
  imports Fixture_Props
begin

text \<open>
  Concurrent initialisation of Process fixtures.  Trials run on several threads and share the
  process store; \<open>ensure_process_fixture\<close> locks it twice, for the fast path and for the
  publication, and runs the setup in between without the lock.  Each thread is a stack of the
  calls it is in, each step is one critical section or one setup, and the steps of all threads
  interleave freely.  The critical sections are \<open>process_lookup\<close> and \<open>publish\<close> of Fixture\_Store.
\<close>

datatype frame =
    Lookup_frame str
  | Setup_frame str "str list"       \<comment> \<open>the dependencies still to obtain\<close>
  | Publish_frame str ptr

record proc_sys =
  sy_world :: fx_world
  sy_stack :: "nat \<Rightarrow> frame list"
  sy_returned :: "(str \<times> ptr) list"

text \<open>A call of a setup closure returns to the setup that asked for the dependency.\<close>

fun return_to :: "frame list \<Rightarrow> frame list" where
  "return_to (Setup_frame nm (d # ds) # fs) = Setup_frame nm ds # fs"
| "return_to fs = fs"

inductive pstep :: "fx_env \<Rightarrow> proc_sys \<Rightarrow> proc_sys \<Rightarrow> bool" for env where
  pstep_call: "sy_stack s t = [] \<Longrightarrow> map_of (ev_registry env) nm = Some def \<Longrightarrow> fx_scope def = Process \<Longrightarrow>
     pstep env s (s\<lparr>sy_stack := (sy_stack s)(t := [Lookup_frame nm])\<rparr>)"
| pstep_hit: "sy_stack s t = Lookup_frame nm # fs \<Longrightarrow> process_lookup nm (fw_process (sy_world s)) = Some p \<Longrightarrow>
     pstep env s (s\<lparr>sy_stack := (sy_stack s)(t := return_to fs), sy_returned := (nm, p) # sy_returned s\<rparr>)"
| pstep_miss: "sy_stack s t = Lookup_frame nm # fs \<Longrightarrow> process_lookup nm (fw_process (sy_world s)) = None \<Longrightarrow>
     map_of (ev_registry env) nm = Some def \<Longrightarrow>
     pstep env s (s\<lparr>sy_stack := (sy_stack s)(t := Setup_frame nm (fx_deps def) # fs)\<rparr>)"
| pstep_dep: "sy_stack s t = Setup_frame nm (d # ds) # fs \<Longrightarrow>
     pstep env s (s\<lparr>sy_stack := (sy_stack s)(t := Lookup_frame d # Setup_frame nm (d # ds) # fs)\<rparr>)"
| pstep_setup: "sy_stack s t = Setup_frame nm [] # fs \<Longrightarrow> box_new nm (sy_world s) = (Inr p, w') \<Longrightarrow>
     pstep env s (s\<lparr>sy_world := w', sy_stack := (sy_stack s)(t := Publish_frame nm p # fs)\<rparr>)"
| pstep_unwind: "sy_stack s t = Setup_frame nm ds # fs \<Longrightarrow>
     pstep env s (s\<lparr>sy_stack := (sy_stack s)(t := [])\<rparr>)"
| pstep_publish: "sy_stack s t = Publish_frame nm raw # fs \<Longrightarrow> publish env nm raw (sy_world s) = (Inr p, w') \<Longrightarrow>
     pstep env s (s\<lparr>sy_world := w', sy_stack := (sy_stack s)(t := return_to fs), sy_returned := (nm, p) # sy_returned s\<rparr>)"

inductive_cases pstepE: "pstep env s s'"

definition proc_init :: "proc_sys \<Rightarrow> bool" where
  "proc_init s \<longleftrightarrow> fw_process (sy_world s) = \<lparr>ps_index = [], ps_entries = []\<rparr> \<and> fw_tests (sy_world s) = []
     \<and> fw_log (sy_world s) = [] \<and> sy_returned s = [] \<and> (\<forall>t. sy_stack s t = [])"

section \<open>The invariant\<close>

fun frame_ok :: "fx_env \<Rightarrow> str set \<Rightarrow> frame \<Rightarrow> bool" where
  "frame_ok env E (Lookup_frame nm) = (\<exists>def. map_of (ev_registry env) nm = Some def \<and> fx_scope def = Process)"
| "frame_ok env E (Setup_frame nm ds) = (\<exists>def. map_of (ev_registry env) nm = Some def \<and> fx_scope def = Process
     \<and> set ds \<subseteq> set (fx_deps def) \<and> set (fx_deps def) \<subseteq> set ds \<union> E)"
| "frame_ok env E (Publish_frame nm p) = (\<exists>def. map_of (ev_registry env) nm = Some def \<and> fx_scope def = Process
     \<and> set (fx_deps def) \<subseteq> E)"

fun frame_name :: "frame \<Rightarrow> str" where
  "frame_name (Lookup_frame nm) = nm"
| "frame_name (Setup_frame nm ds) = nm"
| "frame_name (Publish_frame nm p) = nm"

text \<open>Below the running call, every frame is a setup waiting for the call above it.\<close>

fun awaits :: "frame list \<Rightarrow> str \<Rightarrow> bool" where
  "awaits [] nm = True"
| "awaits (Setup_frame nm' (d # ds) # fs) nm = (d = nm \<and> awaits fs nm')"
| "awaits _ nm = False"

fun stack_ok :: "fx_env \<Rightarrow> str set \<Rightarrow> frame list \<Rightarrow> bool" where
  "stack_ok env E [] = True"
| "stack_ok env E (f # fs) = (frame_ok env E f \<and> list_all (frame_ok env E) fs \<and> awaits fs (frame_name f))"

fun owned :: "frame list \<Rightarrow> ptr option" where
  "owned (Publish_frame nm p # fs) = Some p"
| "owned _ = None"

definition sys_inv :: "fx_env \<Rightarrow> proc_sys \<Rightarrow> bool" where
  "sys_inv env s \<longleftrightarrow> (\<exists>H. fx_inv env H (sy_world s) \<and> (\<forall>p. p \<in> set H \<longleftrightarrow> (\<exists>t. owned (sy_stack s t) = Some p)))
     \<and> (\<forall>t t' p. owned (sy_stack s t) = Some p \<longrightarrow> owned (sy_stack s t') = Some p \<longrightarrow> t = t')
     \<and> (\<forall>t. stack_ok env (set (entry_names (sy_world s))) (sy_stack s t))
     \<and> (\<forall>(nm, p) \<in> set (sy_returned s). map_of (ps_entries (fw_process (sy_world s))) nm = Some p)"

lemma frame_ok_mono:
  assumes "E \<subseteq> E'"
  shows "frame_ok env E f \<Longrightarrow> frame_ok env E' f"
  using assms by (cases f) (simp_all, blast+)

lemma stack_ok_mono: "stack_ok env E fs \<Longrightarrow> E \<subseteq> E' \<Longrightarrow> stack_ok env E' fs"
  using frame_ok_mono [of E E' env] by (cases fs) (auto simp: list_all_iff)

lemma owned_return [simp]: "awaits fs nm \<Longrightarrow> owned (return_to fs) = None"
  by (induction fs nm rule: awaits.induct) auto

lemma stack_ok_return:
  assumes "awaits fs nm" "list_all (frame_ok env E) fs" "nm \<in> E"
  shows "stack_ok env E (return_to fs)"
  using assms by (cases fs rule: return_to.cases) auto

lemma fx_inv_perm: "fx_inv env H w \<Longrightarrow> set H' = set H \<Longrightarrow> distinct H' \<Longrightarrow> fx_inv env H' w"
  by (auto simp: fx_inv_def heap_ok_def)

lemma fx_inv_split:
  assumes "fx_inv env H w" "p \<in> set H"
  shows "fx_inv env (p # remove1 p H) w" "distinct H"
proof -
  show d: "distinct H" using assms(1) by (auto simp: fx_inv_def heap_ok_def)
  show "fx_inv env (p # remove1 p H) w" using assms d by (intro fx_inv_perm [OF assms(1)]) auto
qed

lemma publish_calm:
  assumes env: "env_ok env" "calm env" and inv: "fx_inv env (raw # H) w"
    and ok: "frame_ok env (set (entry_names w)) (Publish_frame nm raw)" and pub: "publish env nm raw w = (Inr p, w')"
  shows "fx_inv env H w'" "map_of (ps_entries (fw_process w')) nm = Some p"
    and "set (entry_names w) \<subseteq> set (entry_names w')"
    and "\<And>n q. map_of (ps_entries (fw_process w)) n = Some q \<Longrightarrow> map_of (ps_entries (fw_process w')) n = Some q"
proof -
  note look = fx_inv_lookup [OF inv, of nm]
  have "fx_inv env H w' \<and> map_of (ps_entries (fw_process w')) nm = Some p \<and> set (entry_names w) \<subseteq> set (entry_names w')
    \<and> (\<forall>n q. map_of (ps_entries (fw_process w)) n = Some q \<longrightarrow> map_of (ps_entries (fw_process w')) n = Some q)"
  proof (cases "map_of (ps_entries (fw_process w)) nm")
    case (Some q)
    then have "p = q" "w' = w\<lparr>fw_log := fw_log w @ [Dropped raw]\<rparr>"
      using pub look env(2) by (auto simp: publish_def free_box_def calm_def eff_bind_def)
    then show ?thesis using Some fx_inv_drop [of env "[raw]" H w] inv by simp
  next
    case None
    then have new: "nm \<notin> set (entry_names w)" by (simp add: map_of_eq_None_iff)
    obtain def where def: "map_of (ev_registry env) nm = Some def" "fx_scope def = Process" "set (fx_deps def) \<subseteq> set (entry_names w)"
      using ok by auto
    have present: "\<forall>d \<in> set (fx_deps def). dep_present env w d"
    proof
      fix d assume d: "d \<in> set (fx_deps def)"
      obtain dep where "map_of (ev_registry env) d = Some dep" "fx_scope def \<le> fx_scope dep"
        using env_ok_dep [OF env(1) def(1) d] by blast
      then show "dep_present env w d" using d def(2,3)
        by (cases "fx_scope dep") (auto simp: dep_present_def less_eq_fixture_scope_def)
    qed
    have "p = raw" "w' = w\<lparr>fw_process := process_push nm raw (fw_process w)\<rparr>"
      using pub look None by (auto simp: publish_def)
    then show ?thesis using None fx_inv_push_process [OF env(1) inv def(1,2) new present]
      by (auto simp: process_push_def map_add_def)
  qed
  then show "fx_inv env H w'" "map_of (ps_entries (fw_process w')) nm = Some p"
    "set (entry_names w) \<subseteq> set (entry_names w')"
    "\<And>n q. map_of (ps_entries (fw_process w)) n = Some q \<Longrightarrow> map_of (ps_entries (fw_process w')) n = Some q" by blast+
qed

section \<open>Every step keeps it\<close>

lemma sys_inv_step:
  assumes inv: "sys_inv env s" and "fx_inv env H w'"
    and H: "\<And>p. p \<in> set H \<longleftrightarrow> owned fs = Some p \<or> (\<exists>t'. t' \<noteq> t \<and> owned (sy_stack s t') = Some p)"
    and fresh: "\<And>p t'. owned fs = Some p \<Longrightarrow> t' \<noteq> t \<Longrightarrow> owned (sy_stack s t') \<noteq> Some p"
    and stack: "stack_ok env (set (entry_names w')) fs" "set (entry_names (sy_world s)) \<subseteq> set (entry_names w')"
    and ret: "\<forall>(n, q) \<in> set rs. map_of (ps_entries (fw_process w')) n = Some q"
    and s': "sy_world s' = w'" "sy_stack s' = (sy_stack s)(t := fs)" "sy_returned s' = rs"
  shows "sys_inv env s'"
  unfolding sys_inv_def
proof (intro conjI)
  show "\<exists>H. fx_inv env H (sy_world s') \<and> (\<forall>p. p \<in> set H \<longleftrightarrow> (\<exists>t. owned (sy_stack s' t) = Some p))"
    using assms(2) H by (intro exI [of _ H]) (auto simp: s')
  show "\<forall>t t' p. owned (sy_stack s' t) = Some p \<longrightarrow> owned (sy_stack s' t') = Some p \<longrightarrow> t = t'"
  proof (intro allI impI)
    fix x y p assume o: "owned (sy_stack s' x) = Some p" "owned (sy_stack s' y) = Some p"
    have "x \<noteq> t \<Longrightarrow> y \<noteq> t \<Longrightarrow> x = y" using inv o by (simp add: s' sys_inv_def)
    then show "x = y" using o fresh [of p x] fresh [of p y] by (cases "x = t"; cases "y = t") (simp_all add: s')
  qed
  have "stack_ok env (set (entry_names (sy_world s))) (sy_stack s x)" for x using inv by (simp add: sys_inv_def)
  then show "\<forall>x. stack_ok env (set (entry_names (sy_world s'))) (sy_stack s' x)"
    using stack stack_ok_mono [OF _ stack(2)] by (simp add: s')
  show "\<forall>(nm, p) \<in> set (sy_returned s'). map_of (ps_entries (fw_process (sy_world s'))) nm = Some p"
    using ret by (simp add: s')
qed

lemma sys_inv_local:
  assumes inv: "sys_inv env s" and own: "owned (sy_stack s t) = None" "owned fs = None"
    and "stack_ok env (set (entry_names (sy_world s))) fs"
    and "\<forall>(n, q) \<in> set rs. map_of (ps_entries (fw_process (sy_world s))) n = Some q"
    and s': "sy_world s' = sy_world s" "sy_stack s' = (sy_stack s)(t := fs)" "sy_returned s' = rs"
  shows "sys_inv env s'"
proof -
  obtain H where H: "fx_inv env H (sy_world s)" "\<forall>p. p \<in> set H \<longleftrightarrow> (\<exists>t. owned (sy_stack s t) = Some p)"
    using inv by (auto simp: sys_inv_def)
  have "p \<in> set H \<longleftrightarrow> owned fs = Some p \<or> (\<exists>t'. t' \<noteq> t \<and> owned (sy_stack s t') = Some p)" for p
    using H(2) own by (metis option.distinct(1))
  then show ?thesis by (rule sys_inv_step [OF inv H(1) _ _ assms(4) order_refl assms(5) s']) (use own in simp)
qed

lemma sys_inv_top:
  assumes "sys_inv env s" "sy_stack s t = f # fs"
  shows "frame_ok env (set (entry_names (sy_world s))) f" "list_all (frame_ok env (set (entry_names (sy_world s)))) fs"
    "awaits fs (frame_name f)"
proof -
  have "stack_ok env (set (entry_names (sy_world s))) (f # fs)" using assms unfolding sys_inv_def by metis
  then show "frame_ok env (set (entry_names (sy_world s))) f" "list_all (frame_ok env (set (entry_names (sy_world s)))) fs"
    "awaits fs (frame_name f)" by simp_all
qed

lemma pstep_inv_setup:
  assumes inv: "sys_inv env s" and st: "sy_stack s t = Setup_frame nm [] # fs" and box: "box_new nm (sy_world s) = (Inr p, w')"
  shows "sys_inv env (s\<lparr>sy_world := w', sy_stack := (sy_stack s)(t := Publish_frame nm p # fs)\<rparr>)"
proof -
  obtain H where H: "fx_inv env H (sy_world s)" "\<forall>p. p \<in> set H \<longleftrightarrow> (\<exists>t. owned (sy_stack s t) = Some p)"
    using inv by (auto simp: sys_inv_def)
  have w': "fx_inv env (p # H) w'" using fx_inv_box [OF H(1) box] by simp
  have names: "entry_names w' = entry_names (sy_world s)" and proc: "fw_process w' = fw_process (sy_world s)"
    using box by (auto simp: box_new_def)
  have new: "p \<notin> set H" using w' by (auto simp: fx_inv_def heap_ok_def)
  have o: "owned (sy_stack s t) = None" by (simp add: st)
  note top = sys_inv_top [OF inv st]
  show ?thesis
  proof (rule sys_inv_step [OF inv w'])
    show "q \<in> set (p # H) \<longleftrightarrow> owned (Publish_frame nm p # fs) = Some q \<or> (\<exists>t'. t' \<noteq> t \<and> owned (sy_stack s t') = Some q)" for q
      using H(2) o by (auto) (metis option.distinct(1))
    show "owned (sy_stack s t') \<noteq> Some q" if "owned (Publish_frame nm p # fs) = Some q" "t' \<noteq> t" for q t'
      using that new H(2) by auto
    show "stack_ok env (set (entry_names w')) (Publish_frame nm p # fs)" using top by (simp add: names)
    show "\<forall>(n, q) \<in> set (sy_returned s). map_of (ps_entries (fw_process w')) n = Some q"
      using inv by (simp add: sys_inv_def proc)
  qed (simp_all add: names)
qed

lemma pstep_inv_publish:
  assumes env: "env_ok env" "calm env" and inv: "sys_inv env s" and st: "sy_stack s t = Publish_frame nm raw # fs"
    and pub: "publish env nm raw (sy_world s) = (Inr p, w')"
  shows "sys_inv env (s\<lparr>sy_world := w', sy_stack := (sy_stack s)(t := return_to fs), sy_returned := (nm, p) # sy_returned s\<rparr>)"
proof -
  obtain H where H: "fx_inv env H (sy_world s)" "\<forall>p. p \<in> set H \<longleftrightarrow> (\<exists>t. owned (sy_stack s t) = Some p)"
    using inv by (auto simp: sys_inv_def)
  have o: "owned (sy_stack s t) = Some raw" by (simp add: st)
  then have raw: "raw \<in> set H" using H(2) by blast
  have uniq: "owned (sy_stack s t') = Some raw \<Longrightarrow> t' = t" for t' using inv o by (auto simp: sys_inv_def)
  note top = sys_inv_top [OF inv st] and sp = fx_inv_split [OF H(1) raw]
  note pc = publish_calm [OF env sp(1) top(1) pub]
  have ret: "owned (return_to fs) = None" using top(3) by simp
  show ?thesis
  proof (rule sys_inv_step [OF inv pc(1)])
    show "q \<in> set (remove1 raw H) \<longleftrightarrow> owned (return_to fs) = Some q \<or> (\<exists>t'. t' \<noteq> t \<and> owned (sy_stack s t') = Some q)" for q
    proof -
      have "q \<in> set (remove1 raw H) \<longleftrightarrow> q \<in> set H \<and> q \<noteq> raw" using sp(2) by simp
      moreover have "(\<exists>t'. owned (sy_stack s t') = Some q) \<and> q \<noteq> raw \<longleftrightarrow> (\<exists>t'. t' \<noteq> t \<and> owned (sy_stack s t') = Some q)"
        using uniq o by (metis option.inject)
      ultimately show ?thesis using H(2) ret by simp
    qed
    show "owned (sy_stack s t') \<noteq> Some q" if "owned (return_to fs) = Some q" for q t' using that ret by simp
    have "nm \<in> set (entry_names w')" using map_of_Some_key [OF pc(2)] by simp
    moreover have "list_all (frame_ok env (set (entry_names w'))) fs"
      using top(2) frame_ok_mono [OF pc(3)] by (auto simp: list_all_iff)
    ultimately show "stack_ok env (set (entry_names w')) (return_to fs)" using top(3) by (intro stack_ok_return) auto
    show "set (entry_names (sy_world s)) \<subseteq> set (entry_names w')" by (rule pc(3))
    have "\<forall>(n, q) \<in> set (sy_returned s). map_of (ps_entries (fw_process (sy_world s))) n = Some q" using inv by (simp add: sys_inv_def)
    then show "\<forall>(n, q) \<in> set ((nm, p) # sy_returned s). map_of (ps_entries (fw_process w')) n = Some q"
      using pc(2) pc(4) by (simp add: case_prod_beta)
  qed simp_all
qed

lemma pstep_inv:
  assumes "env_ok env" "calm env" "pstep env s s'" "sys_inv env s"
  shows "sys_inv env s'"
  using assms(3,4)
proof (induction rule: pstep.induct)
  case (pstep_call s t nm def)
  then show ?case by (intro sys_inv_local [OF pstep_call(4), of t "[Lookup_frame nm]" "sy_returned s"]) (simp_all add: sys_inv_def)
next
  case (pstep_hit s t nm fs p)
  note top = sys_inv_top [OF pstep_hit(3,1)]
  obtain H where "fx_inv env H (sy_world s)" using pstep_hit(3) by (auto simp: sys_inv_def)
  then have p: "map_of (ps_entries (fw_process (sy_world s))) nm = Some p" using pstep_hit(2) by (simp add: fx_inv_lookup)
  have "stack_ok env (set (entry_names (sy_world s))) (return_to fs)"
    using top map_of_Some_key [OF p] by (intro stack_ok_return) auto
  then show ?case using pstep_hit(1,3) p top(3)
    by (intro sys_inv_local [OF pstep_hit(3), of t "return_to fs" "(nm, p) # sy_returned s"]) (simp_all add: sys_inv_def)
next
  case (pstep_miss s t nm fs def)
  note top = sys_inv_top [OF pstep_miss(4,1)]
  show ?case using pstep_miss(1,3,4) top
    by (intro sys_inv_local [OF pstep_miss(4), of t "Setup_frame nm (fx_deps def) # fs" "sy_returned s"]) (simp_all add: sys_inv_def)
next
  case (pstep_dep s t nm d ds fs)
  note top = sys_inv_top [OF pstep_dep(2,1)]
  obtain def where def: "map_of (ev_registry env) nm = Some def" "fx_scope def = Process" "d \<in> set (fx_deps def)" using top(1) by auto
  obtain dep where "map_of (ev_registry env) d = Some dep" "fx_scope def \<le> fx_scope dep"
    using env_ok_dep [OF assms(1) def(1,3)] by blast
  then have "frame_ok env (set (entry_names (sy_world s))) (Lookup_frame d)"
    using def(2) by (cases "fx_scope dep") (auto simp: less_eq_fixture_scope_def)
  then show ?case using pstep_dep top
    by (intro sys_inv_local [OF pstep_dep(2), of t "Lookup_frame d # Setup_frame nm (d # ds) # fs" "sy_returned s"])
       (simp_all add: sys_inv_def)
next
  case (pstep_setup s t nm fs p w')
  then show ?case by (intro pstep_inv_setup)
next
  case (pstep_unwind s t nm ds fs)
  then show ?case by (intro sys_inv_local [OF pstep_unwind(2), of t "[]" "sy_returned s"]) (simp_all add: sys_inv_def)
next
  case (pstep_publish s t nm raw fs p w')
  then show ?case using assms by (intro pstep_inv_publish)
qed

lemma proc_init_inv:
  assumes "proc_init s"
  shows "sys_inv env s"
proof -
  have "fx_inv env [] (sy_world s)"
    using assms by (simp add: fx_inv_def proc_init_def heap_ok_def heap_of_def cached_def index_ok_def store_names_ok_def)
  then show ?thesis using assms by (auto simp: sys_inv_def proc_init_def intro!: exI [of _ "[]"])
qed

lemma pstep_reachable_inv:
  assumes "env_ok env" "calm env" "(pstep env)\<^sup>*\<^sup>* s0 s" "proc_init s0"
  shows "sys_inv env s"
  using assms(3) by (induction rule: rtranclp_induct) (auto intro: proc_init_inv [OF assms(4)] pstep_inv [OF assms(1,2)])

section \<open>Property\<close>

text \<open>
  C8: however the threads interleave, a Process fixture is one value.  In every reachable state the
  store holds each name once, with everything it depends on before it; every call that returned
  for a name got that one live value, although several threads may have run the setup; no box is
  freed twice; and when no call is in flight, every value that lost the race has been freed: the
  heap is exactly the store.
\<close>

theorem process_fixture_shared:
  assumes "env_ok env" "calm env" "proc_init s0" "(pstep env)\<^sup>*\<^sup>* s0 s"
  shows "store_names_ok (ev_registry env) Process {} (entry_names (sy_world s))
    \<and> (\<forall>(nm, p) \<in> set (sy_returned s). map_of (ps_entries (fw_process (sy_world s))) nm = Some p)
    \<and> (\<exists>S. heap_of (fw_log (sy_world s)) = Some S \<and> snd ` set (ps_entries (fw_process (sy_world s))) \<subseteq> S)
    \<and> ((\<forall>t. sy_stack s t = []) \<longrightarrow>
         heap_of (fw_log (sy_world s)) = Some (set (cached (sy_world s))))"
proof -
  have inv: "sys_inv env s" by (rule pstep_reachable_inv [OF assms(1,2,4,3)])
  then obtain H where H: "fx_inv env H (sy_world s)" "\<forall>p. p \<in> set H \<longleftrightarrow> (\<exists>t. owned (sy_stack s t) = Some p)"
    and ret: "\<forall>(nm, p) \<in> set (sy_returned s). map_of (ps_entries (fw_process (sy_world s))) nm = Some p"
    by (auto simp: sys_inv_def)
  have "H = []" if "\<forall>t. sy_stack s t = []" using H(2) that by (cases H) auto
  then show ?thesis using H(1) ret by (auto simp: fx_inv_def heap_ok_def cached_def)
qed

definition race_sys :: "proc_sys" where
  "race_sys = \<lparr>sy_world = demo_world, sy_stack = (\<lambda>_. []), sy_returned = []\<rparr>"

definition race_end :: "proc_sys" where
  "race_end = \<lparr>sy_world = demo_world\<lparr>fw_process := \<lparr>ps_index = [(''net'', 0)], ps_entries = [(''net'', 0)]\<rparr>, fw_next := 2,
     fw_log := [Created ''net'' 0, Created ''net'' 1, Dropped 1]\<rparr>,
     sy_stack = (\<lambda>_. []), sy_returned = [(''net'', 0), (''net'', 0)]\<rparr>"

text \<open>Two threads miss on the fast path, both run the setup, and the second publication loses.\<close>

lemma race_run: "(pstep demo_env)\<^sup>*\<^sup>* race_sys race_end"
proof -
  let ?n = "''net''" and ?w = demo_world
  let ?st = "\<lambda>f g. (\<lambda>_. [])(0 := f, 1 := g) :: nat \<Rightarrow> frame list"
  let ?mk = "\<lambda>w f g r. \<lparr>sy_world = w, sy_stack = ?st f g, sy_returned = r\<rparr>"
  let ?w1 = "?w\<lparr>fw_next := 1, fw_log := [Created ?n 0]\<rparr>"
  let ?w2 = "?w\<lparr>fw_next := 2, fw_log := [Created ?n 0, Created ?n 1]\<rparr>"
  let ?w3 = "?w2\<lparr>fw_process := \<lparr>ps_index = [(?n, 0)], ps_entries = [(?n, 0)]\<rparr>\<rparr>"
  let ?w4 = "?w3\<lparr>fw_log := [Created ?n 0, Created ?n 1, Dropped 1]\<rparr>"
  have reg: "map_of (ev_registry demo_env) ?n = Some (demo_fixture ?n Process [])"
    by (simp add: demo_env_def demo_registry_def demo_fixture_def)
  have eq: "race_sys = ?mk ?w [] [] []" "race_end = ?mk ?w4 [] [] [(?n, 0), (?n, 0)]"
    by (auto simp: race_sys_def race_end_def)
  have 1: "pstep demo_env (?mk ?w [] [] []) (?mk ?w [Lookup_frame ?n] [] [])"
    using pstep_call [of "?mk ?w [] [] []" 0, OF _ reg] by (simp add: demo_fixture_def fun_upd_twist)
  have 2: "pstep demo_env (?mk ?w [Lookup_frame ?n] [] []) (?mk ?w [Lookup_frame ?n] [Lookup_frame ?n] [])"
    using pstep_call [of "?mk ?w [Lookup_frame ?n] [] []" 1, OF _ reg] by (simp add: demo_fixture_def fun_upd_twist)
  have 3: "pstep demo_env (?mk ?w [Lookup_frame ?n] [Lookup_frame ?n] []) (?mk ?w [Setup_frame ?n []] [Lookup_frame ?n] [])"
    using pstep_miss [of "?mk ?w [Lookup_frame ?n] [Lookup_frame ?n] []" 0, OF _ _ reg]
    by (simp add: demo_fixture_def fun_upd_twist process_lookup_def demo_world_def)
  have 4: "pstep demo_env (?mk ?w [Setup_frame ?n []] [Lookup_frame ?n] []) (?mk ?w [Setup_frame ?n []] [Setup_frame ?n []] [])"
    using pstep_miss [of "?mk ?w [Setup_frame ?n []] [Lookup_frame ?n] []" 1, OF _ _ reg]
    by (simp add: demo_fixture_def fun_upd_twist process_lookup_def demo_world_def)
  have 5: "pstep demo_env (?mk ?w [Setup_frame ?n []] [Setup_frame ?n []] []) (?mk ?w1 [Publish_frame ?n 0] [Setup_frame ?n []] [])"
    using pstep_setup [of "?mk ?w [Setup_frame ?n []] [Setup_frame ?n []] []" 0 ?n "[]" 0 ?w1]
    by (simp add: fun_upd_twist box_new_def demo_world_def)
  have 6: "pstep demo_env (?mk ?w1 [Publish_frame ?n 0] [Setup_frame ?n []] []) (?mk ?w2 [Publish_frame ?n 0] [Publish_frame ?n 1] [])"
    using pstep_setup [of "?mk ?w1 [Publish_frame ?n 0] [Setup_frame ?n []] []" 1 ?n "[]" 1 ?w2]
    by (simp add: fun_upd_twist box_new_def demo_world_def)
  have 7: "pstep demo_env (?mk ?w2 [Publish_frame ?n 0] [Publish_frame ?n 1] []) (?mk ?w3 [] [Publish_frame ?n 1] [(?n, 0)])"
    using pstep_publish [of "?mk ?w2 [Publish_frame ?n 0] [Publish_frame ?n 1] []" 0 ?n 0 "[]" demo_env 0 ?w3]
    by (simp add: fun_upd_twist publish_def process_lookup_def process_push_def demo_world_def)
  have 8: "pstep demo_env (?mk ?w3 [] [Publish_frame ?n 1] [(?n, 0)]) (?mk ?w4 [] [] [(?n, 0), (?n, 0)])"
    using pstep_publish [of "?mk ?w3 [] [Publish_frame ?n 1] [(?n, 0)]" 1 ?n 1 "[]" demo_env 0 ?w4]
    by (simp add: fun_upd_twist publish_def process_lookup_def free_box_def eff_bind_def demo_world_def demo_env_def)
  note step = converse_rtranclp_into_rtranclp [where r = "pstep demo_env"]
  show ?thesis unfolding eq
    by (rule step [OF 1 step [OF 2 step [OF 3 step [OF 4 step [OF 5 step [OF 6 step [OF 7
        r_into_rtranclp [where r = "pstep demo_env", OF 8]]]]]]]])
qed

theorem process_fixture_shared_witness:
  "fw_log (sy_world race_end) = [Created ''net'' 0, Created ''net'' 1, Dropped 1]
   \<and> heap_of (fw_log (sy_world race_end)) = Some (set (cached (sy_world race_end)))"
proof -
  have "proc_init race_sys" by (simp add: proc_init_def race_sys_def demo_world_def)
  then show ?thesis using process_fixture_shared [OF demo_env_ok(1,2) _ race_run] by (simp add: race_end_def)
qed

end
