(* ===== verification/Nextest.thy ===== *)
theory Nextest
  imports Coord_Checks "HOL-Library.Product_Lexorder"
begin

text \<open>
  The \<open>cargo-skuld\<close> tool (\<open>src/cargo-skuld/src\<close>): collecting the metadata dumps of the
  discovered binaries, the conflict graph, its connected components as nextest groups, and
  the rendering of the tool configuration.

  Parameters stand for code outside the repository: the record \<open>unionfind\<close> for
  petgraph's \<open>UnionFind\<close>, \<open>blake3\<close> for the hash (its hex digest), \<open>toml\<close> for the serializer, \<open>probe\<close> for what running a
  binary with \<open>--list\<close> yields, \<open>shell\<close> for the files and processes of the command line.
\<close>

section \<open>Metadata\<close>

record nextest_test =
  nt_name :: str
  nt_labels :: "str list"
  nt_serial :: str

record test_metadata =
  tm_binary_id :: str
  tm_name :: str
  tm_labels :: "str list"
  tm_serial :: str

text \<open>
  Discovery: what \<open>cargo nextest list\<close> printed; the JSON map is its entries, each a binary id and
  path under its key, or the message of the parse error.
\<close>

record list_output =
  lo_success :: bool
  lo_stderr :: str
  lo_parsed :: "(str, (str \<times> str \<times> str) list) result"

definition discover_binaries :: "(str, list_output) result \<Rightarrow> (str, (str \<times> str) list) result" where
  "discover_binaries run = result_bind run (\<lambda>out.
     if \<not> lo_success out then
       (if str_contains (lo_stderr out) ''the workspace has no members'' then Inr []
        else Inl (''cargo nextest list failed: '' @ lo_stderr out))
     else map_sum id (\<lambda>m. map snd (sort_key fst m)) (lo_parsed out))"

text \<open>
  What probing a binary yields: an error of the temporary directory or the stderr file, which
  ends the collection, one of the outcomes that skip the binary, or its dump.
\<close>

datatype probe_result =
    Probe_io_error str
  | Spawn_failed | Wait_failed | Timed_out | Exit_failure | No_dump | Dump_unreadable
  | Dump_malformed | Dump "nextest_test list"

definition dump_test :: "boolexpr \<Rightarrow> str \<Rightarrow> nextest_test \<Rightarrow> test_metadata list" where
  "dump_test X binary_id m =
     (if nt_serial m \<noteq> [] \<and> nt_serial m \<noteq> ''*''
         \<and> (case LabelFilter_parse X (nt_serial m) of Inl _ \<Rightarrow> True | Inr _ \<Rightarrow> False)
      then []
      else [\<lparr>tm_binary_id = binary_id, tm_name = nt_name m, tm_labels = nt_labels m, tm_serial = nt_serial m\<rparr>])"

definition collect_binary :: "boolexpr \<Rightarrow> (str \<Rightarrow> probe_result) \<Rightarrow> str \<times> str
    \<Rightarrow> test_metadata list \<Rightarrow> (str, test_metadata list) result" where
  "collect_binary X probe b all = (case probe (snd b) of
       Probe_io_error e \<Rightarrow> Inl e
     | Dump tests \<Rightarrow> Inr (all @ concat (map (dump_test X (fst b)) tests))
     | _ \<Rightarrow> Inr all)"

definition collect_metadata ::
    "boolexpr \<Rightarrow> (str \<Rightarrow> probe_result) \<Rightarrow> (str \<times> str) list \<Rightarrow> (str, test_metadata list) result" where
  "collect_metadata X probe binaries = for_each (collect_binary X probe) binaries []"

section \<open>The conflict graph\<close>

datatype graph_panic = Invalid_serial_filter | Group_name_collision str

definition filter_hits :: "boolexpr \<Rightarrow> str \<Rightarrow> str list \<Rightarrow> (graph_panic, bool) result" where
  "filter_hits X serial names = (case LabelFilter_parse X serial of
       Inl _ \<Rightarrow> Inl Invalid_serial_filter | Inr f \<Rightarrow> Inr (matches_names X f names))"

definition conflicts :: "boolexpr \<Rightarrow> test_metadata \<Rightarrow> test_metadata \<Rightarrow> (graph_panic, bool) result" where
  "conflicts X a b =
     (if tm_serial a = ''*'' \<or> tm_serial b = ''*'' then Inr True
      else result_bind (if tm_serial a \<noteq> [] then filter_hits X (tm_serial a) (tm_labels b) else Inr False)
        (\<lambda>hit. if hit then Inr True
               else if tm_serial b \<noteq> [] then filter_hits X (tm_serial b) (tm_labels a) else Inr False))"

record 'u unionfind =
  uf_new :: "nat \<Rightarrow> 'u"
  uf_union :: "nat \<Rightarrow> nat \<Rightarrow> 'u \<Rightarrow> 'u"
  uf_find :: "'u \<Rightarrow> nat \<Rightarrow> nat"

record test_group =
  tg_name :: str
  tg_members :: "(str \<times> str) list"

definition union_if_conflict ::
    "boolexpr \<Rightarrow> 'u unionfind \<Rightarrow> test_metadata list \<Rightarrow> nat \<times> nat \<Rightarrow> 'u \<Rightarrow> (graph_panic, 'u) result" where
  "union_if_conflict X U tests ij uf = (case ij of (i, j) \<Rightarrow>
     map_sum id (\<lambda>c. if c then uf_union U i j uf else uf) (conflicts X (tests ! i) (tests ! j)))"

definition index_pairs :: "nat \<Rightarrow> (nat \<times> nat) list" where
  "index_pairs n = concat (map (\<lambda>i. map (Product_Type.Pair i) [i + 1..<n]) [0..<n])"

text \<open>The bytes hashed for a group: each name followed by a NUL.\<close>

definition group_bytes :: "(str \<times> str) list \<Rightarrow> str" where
  "group_bytes members = concat (map (\<lambda>(binary_id, nm). binary_id @ [CHR 0x00] @ nm @ [CHR 0x00]) members)"

definition group_name :: "(str \<Rightarrow> str) \<Rightarrow> (str \<times> str) list \<Rightarrow> str" where
  "group_name blake3 members = ''@tool:skuld:skuld_group_'' @ take 16 (blake3 (group_bytes members))"

definition components :: "'u unionfind \<Rightarrow> 'u \<Rightarrow> nat \<Rightarrow> nat list list" where
  "components U uf n = map snd (sort_key fst (buckets (map (\<lambda>i. (uf_find U uf i, i)) [0..<n])))"

definition insert_group :: "(str \<Rightarrow> str) \<Rightarrow> test_metadata list \<Rightarrow> nat list
    \<Rightarrow> (str \<times> (str \<times> str) list) list \<Rightarrow> (graph_panic, (str \<times> (str \<times> str) list) list) result" where
  "insert_group blake3 tests indices by_name =
     (let members = sort (map (\<lambda>i. (tm_binary_id (tests ! i), tm_name (tests ! i))) indices);
          nm = group_name blake3 members
      in case map_of by_name nm of
           Some existing \<Rightarrow> if existing = members then Inr by_name else Inl (Group_name_collision nm)
         | None \<Rightarrow> Inr (by_name @ [(nm, members)]))"

definition build_groups ::
    "boolexpr \<Rightarrow> 'u unionfind \<Rightarrow> (str \<Rightarrow> str) \<Rightarrow> test_metadata list \<Rightarrow> (graph_panic, test_group list) result" where
  "build_groups X U blake3 tests =
     result_bind (for_each (union_if_conflict X U tests) (index_pairs (length tests)) (uf_new U (length tests))) (\<lambda>uf.
     result_bind (for_each (insert_group blake3 tests)
         (filter (\<lambda>indices. length indices > 1) (components U uf (length tests))) []) (\<lambda>by_name.
     Inr (map (\<lambda>(nm, members). \<lparr>tg_name = nm, tg_members = members\<rparr>) (sort_key fst by_name))))"

section \<open>Rendering\<close>

definition escape_char :: "char \<Rightarrow> str" where
  "escape_char c =
     (if c = CHR 0x0A then [CHR 0x5C, CHR ''n'']
      else if c = CHR 0x0D then [CHR 0x5C, CHR ''r'']
      else if c = CHR 0x09 then [CHR 0x5C, CHR ''t'']
      else if c = CHR 0x5C then [CHR 0x5C, CHR 0x5C]
      else if c = CHR ''/'' then [CHR 0x5C, CHR ''/'']
      else if c = CHR '')'' then [CHR 0x5C, CHR '')'']
      else if c = CHR '','' then [CHR 0x5C, CHR '','']
      else [c])"

definition escape_nextest_name :: "str \<Rightarrow> str" where
  "escape_nextest_name nm = concat (map escape_char nm)"

definition member_clause :: "str \<times> str \<Rightarrow> str" where
  "member_clause m = ''(binary_id(='' @ escape_nextest_name (fst m) @ '') and test(=''
     @ escape_nextest_name (snd m) @ ''))''"

definition filter_for_group :: "test_group \<Rightarrow> str" where
  "filter_for_group g = join '' or '' (map member_clause (tg_members g))"

record tool_config =
  tc_required :: str
  tc_groups :: "(str \<times> nat) list"         \<comment> \<open>group name and max-threads\<close>
  tc_overrides :: "(str \<times> str) list"      \<comment> \<open>filter and test-group\<close>

definition MIN_NEXTEST_VERSION :: str where "MIN_NEXTEST_VERSION = ''0.9.85''"

text \<open>\<open>toml\<close> is the serializer; the group table is a \<open>BTreeMap\<close>.\<close>

definition tool_config :: "test_group list \<Rightarrow> tool_config" where
  "tool_config groups = \<lparr>tc_required = MIN_NEXTEST_VERSION,
     tc_groups = sort_key fst (map (\<lambda>nm. (nm, 1)) (remdups (map tg_name groups))),
     tc_overrides = map (\<lambda>g. (filter_for_group g, tg_name g)) groups\<rparr>"

definition render_tool_config :: "(tool_config \<Rightarrow> str) \<Rightarrow> test_group list \<Rightarrow> str" where
  "render_tool_config toml groups = toml (tool_config groups)"

datatype gen_failure = Gen_error str | Gen_panic graph_panic

definition generate :: "boolexpr \<Rightarrow> 'u unionfind \<Rightarrow> (str \<Rightarrow> str) \<Rightarrow> (tool_config \<Rightarrow> str)
    \<Rightarrow> (str, list_output) result \<Rightarrow> (str \<Rightarrow> probe_result) \<Rightarrow> (gen_failure, str) result" where
  "generate X U blake3 toml listing probe =
     result_bind (map_sum Gen_error id (discover_binaries listing)) (\<lambda>binaries.
     result_bind (map_sum Gen_error id (collect_metadata X probe binaries)) (\<lambda>metadata.
     result_bind (map_sum Gen_panic id (build_groups X U blake3 metadata)) (\<lambda>groups.
     Inr (render_tool_config toml groups))))"

definition build_nextest_run_command :: "str \<Rightarrow> str list \<Rightarrow> str list" where
  "build_nextest_run_command tool_config_path passthrough =
     [''cargo'', ''nextest'', ''run'', ''--tool-config-file'', ''skuld:'' @ tool_config_path] @ passthrough"

section \<open>The command line\<close>

definition strip_subcommand :: "str list \<Rightarrow> str list" where
  "strip_subcommand args = (if length args > 1 \<and> args ! 1 = ''skuld'' then take 1 args @ drop 2 args else args)"

datatype nextest_command = Gen str bool | Run str "str list"

text \<open>
  The file system and processes \<open>main\<close> uses, by what they answer: reading a file (\<open>Inr None\<close> is
  \<open>NotFound\<close>), writing one with its parent directory, canonicalizing a path, running a command
  (\<open>None\<close> is a child killed by a signal).
\<close>

record shell =
  sh_read :: "str \<Rightarrow> (str, str option) result"
  sh_write :: "str \<Rightarrow> str \<Rightarrow> (str, unit) result"
  sh_canonicalize :: "str \<Rightarrow> (str, str) result"
  sh_run :: "str list \<Rightarrow> (str, int option) result"

datatype main_result = Main_ok | Main_wrote str str | Main_exit int

definition check_up_to_date :: "shell \<Rightarrow> str \<Rightarrow> str \<Rightarrow> (gen_failure, main_result) result" where
  "check_up_to_date sh output rendered =
     result_bind (map_sum (\<lambda>e. Gen_error (''failed to read '' @ output @ '': '' @ e)) id (sh_read sh output)) (\<lambda>existing.
     if existing = Some rendered then Inr Main_ok else Inl (Gen_error (output @ '' is stale'')))"

definition run_main :: "shell \<Rightarrow> (gen_failure, str) result \<Rightarrow> nextest_command \<Rightarrow> (gen_failure, main_result) result" where
  "run_main sh generated command = (case command of
       Gen output check \<Rightarrow> result_bind generated (\<lambda>rendered.
         if check then check_up_to_date sh output rendered
         else map_sum Gen_error (\<lambda>_. Main_wrote output rendered) (sh_write sh output rendered))
     | Run output nextest_args \<Rightarrow> result_bind generated (\<lambda>rendered.
         result_bind (map_sum Gen_error id (sh_write sh output rendered)) (\<lambda>_.
         result_bind (map_sum Gen_error id (sh_canonicalize sh output)) (\<lambda>path.
         map_sum Gen_error (\<lambda>status. Main_exit (case status of Some c \<Rightarrow> c | None \<Rightarrow> 1))
           (sh_run sh (build_nextest_run_command path nextest_args))))))"

section \<open>Conflicts\<close>

lemma dump_test_valid: "t \<in> set (dump_test X b m) \<Longrightarrow> serial_valid X (tm_serial t)"
  by (auto simp: dump_test_def serial_valid_def split: if_splits sum.splits)

lemma collect_metadata_valid:
  assumes "collect_metadata X probe bs = Inr all" "t \<in> set all"
  shows "serial_valid X (tm_serial t)"
proof -
  have "for_each (collect_binary X probe) bs acc = Inr all \<Longrightarrow> (\<forall>t \<in> set acc. serial_valid X (tm_serial t)) \<Longrightarrow>
      \<forall>t \<in> set all. serial_valid X (tm_serial t)" for acc
  proof (induction bs arbitrary: acc)
    case (Cons b bs)
    obtain acc' where acc': "collect_binary X probe b acc = Inr acc'" "for_each (collect_binary X probe) bs acc' = Inr all"
      using Cons.prems(1) by (cases "collect_binary X probe b acc") auto
    have "\<forall>t \<in> set acc'. serial_valid X (tm_serial t)"
      using acc'(1) Cons.prems(2)
      by (auto simp: collect_binary_def dest: dump_test_valid split: probe_result.splits)
    then show ?case using Cons.IH [OF acc'(2)] by blast
  qed simp
  from this [of "[]"] show ?thesis using assms by (simp add: collect_metadata_def)
qed

lemma conflicts_decides:
  assumes "serial_valid X (tm_serial a)" "serial_valid X (tm_serial b)"
  shows "conflicts X a b = Inr (test_conflict X (tm_labels a) (tm_serial a) (tm_labels b) (tm_serial b))"
  using assms
  by (auto simp: conflicts_def test_conflict_def serial_hits_def serial_valid_def filter_hits_def
      split: sum.splits)

section \<open>Components\<close>

text \<open>What the code relies on of \<open>UnionFind\<close>: \<open>find\<close> separates exactly the merged classes.\<close>

locale union_find =
  fixes U :: "'u unionfind" and rel :: "'u \<Rightarrow> (nat \<times> nat) set"
  assumes rel_new: "rel (uf_new U n) = Id_on {..<n}"
    and rel_union: "equiv {..<n} (rel u) \<Longrightarrow> i < n \<Longrightarrow> j < n \<Longrightarrow>
      rel (uf_union U i j u) = rel u \<union> rel u `` {i} \<times> rel u `` {j} \<union> rel u `` {j} \<times> rel u `` {i}"
    and find_iff: "equiv {..<n} (rel u) \<Longrightarrow> i < n \<Longrightarrow> j < n \<Longrightarrow>
      uf_find U u i = uf_find U u j \<longleftrightarrow> (i, j) \<in> rel u"
begin

lemma union_equiv:
  assumes e: "equiv {..<n} (rel u)" and ij: "i < n" "j < n"
  shows "equiv {..<n} (rel (uf_union U i j u)) \<and> rel u \<subseteq> rel (uf_union U i j u) \<and> (i, j) \<in> rel (uf_union U i j u)"
proof -
  have refl: "refl_on {..<n} (rel u)" and sub: "rel u \<subseteq> {..<n} \<times> {..<n}" and s: "sym (rel u)" and t: "trans (rel u)"
    using e by (auto simp: equiv_def)
  have "refl_on {..<n} (rel (uf_union U i j u))" using refl sub ij
    by (auto simp: rel_union [OF e ij] refl_on_def)
  moreover have "sym (rel (uf_union U i j u))" using s by (auto simp: rel_union [OF e ij] sym_def)
  moreover have "trans (rel (uf_union U i j u))"
    unfolding rel_union [OF e ij] using s t unfolding trans_def sym_def by blast
  moreover have "rel (uf_union U i j u) \<subseteq> {..<n} \<times> {..<n}" using sub by (auto simp: rel_union [OF e ij])
  moreover have "(i, j) \<in> rel (uf_union U i j u)" using refl ij by (auto simp: rel_union [OF e ij] refl_on_def)
  ultimately show ?thesis using rel_union [OF e ij] by (auto simp: equiv_def)
qed

text \<open>
  After the double loop, two indices are related exactly when a chain of conflicting pairs
  connects them.
\<close>

lemma unions_closure:
  assumes "for_each (union_if_conflict X U tests) ps u = Inr u'" "equiv {..<n} (rel u)"
    and "\<forall>(i, j) \<in> set ps. i < n \<and> j < n"
  shows "equiv {..<n} (rel u') \<and> rel u \<subseteq> rel u'
    \<and> (\<forall>(i, j) \<in> set ps. conflicts X (tests ! i) (tests ! j) = Inr True \<longrightarrow> (i, j) \<in> rel u')
    \<and> (\<forall>R. equiv {..<n} R \<and> rel u \<subseteq> R
         \<and> (\<forall>(i, j) \<in> set ps. conflicts X (tests ! i) (tests ! j) = Inr True \<longrightarrow> (i, j) \<in> R) \<longrightarrow> rel u' \<subseteq> R)"
  using assms
proof (induction ps arbitrary: u)
  case Nil
  then show ?case by auto
next
  case (Cons p ps)
  obtain i j where p: "p = (i, j)" by (cases p)
  then have ij: "i < n" "j < n" using Cons.prems(3) by auto
  obtain c where c: "conflicts X (tests ! i) (tests ! j) = Inr c"
    using Cons.prems(1) p by (cases "conflicts X (tests ! i) (tests ! j)") (auto simp: union_if_conflict_def)
  define v where "v = (if c then uf_union U i j u else u)"
  have rest: "for_each (union_if_conflict X U tests) ps v = Inr u'"
  proof -
    have "union_if_conflict X U tests (i, j) u = Inr v" using c by (simp add: union_if_conflict_def v_def)
    then show ?thesis using Cons.prems(1) by (simp add: p)
  qed
  have v: "equiv {..<n} (rel v)" "rel u \<subseteq> rel v" "c \<longrightarrow> (i, j) \<in> rel v"
    using union_equiv [OF Cons.prems(2) ij] Cons.prems(2) by (auto simp: v_def)
  have least: "rel v \<subseteq> R" if R: "equiv {..<n} R" "rel u \<subseteq> R" "c \<longrightarrow> (i, j) \<in> R" for R
  proof (cases c)
    case True
    then have "(i, j) \<in> R" "(j, i) \<in> R" using R by (auto elim: equivE dest: symD)
    moreover have "trans R" "sym R" using R(1) by (auto elim: equivE)
    ultimately have "(a, b) \<in> R" "(b, a) \<in> R" if "(i, a) \<in> rel u" "(j, b) \<in> rel u" for a b
      using that R(2) by (meson subsetD symD transD)+
    then show ?thesis
      using R(2) True unfolding v_def by (auto simp: rel_union [OF Cons.prems(2) ij])
  qed (use R in \<open>simp add: v_def\<close>)
  note IH = Cons.IH [OF rest v(1)]
  show ?case using IH Cons.prems(3) v least c by (auto simp: p)
qed

text \<open>The classes of \<open>find\<close> are the buckets the groups are made of.\<close>

lemma components_classes:
  assumes "equiv {..<n} (rel u)"
  shows "is \<in> set (components U u n) \<Longrightarrow> i \<in> set is \<Longrightarrow> j \<in> set is \<Longrightarrow> (i, j) \<in> rel u \<and> i < n"
    and "i < n \<Longrightarrow> \<exists>is \<in> set (components U u n). set is = rel u `` {i}"
    and "is \<in> set (components U u n) \<Longrightarrow> distinct is"
proof -
  have mem: "is \<in> set (components U u n) \<longleftrightarrow>
      (\<exists>k. is = filter (\<lambda>i. uf_find U u i = k) [0..<n] \<and> is \<noteq> [])" for "is"
  proof
    assume "is \<in> set (components U u n)"
    then obtain k where "(k, is) \<in> set (buckets (map (\<lambda>i. (uf_find U u i, i)) [0..<n]))"
      by (auto simp: components_def)
    then show "\<exists>k. is = filter (\<lambda>i. uf_find U u i = k) [0..<n] \<and> is \<noteq> []"
      by (auto simp: buckets_mem filter_map comp_def)
  next
    assume "\<exists>k. is = filter (\<lambda>i. uf_find U u i = k) [0..<n] \<and> is \<noteq> []"
    then obtain k where "(k, is) \<in> set (buckets (map (\<lambda>i. (uf_find U u i, i)) [0..<n]))"
      by (auto simp: buckets_mem filter_map comp_def)
    then show "is \<in> set (components U u n)" by (auto simp: components_def intro!: rev_image_eqI)
  qed
  show "(i, j) \<in> rel u \<and> i < n" if "is \<in> set (components U u n)" "i \<in> set is" "j \<in> set is" for "is" i j
    using that find_iff [OF assms, of i j] by (auto simp: mem)
  show "distinct is" if "is \<in> set (components U u n)" for "is"
    using that by (auto simp: mem)
  show "\<exists>is \<in> set (components U u n). set is = rel u `` {i}" if "i < n" for i
  proof -
    let ?is = "filter (\<lambda>j. uf_find U u j = uf_find U u i) [0..<n]"
    have "set ?is = rel u `` {i}"
      using find_iff [OF assms] that assms by (force elim: equivE simp: equiv_def sym_def)
    moreover have "?is \<in> set (components U u n)" using that by (auto simp: mem filter_empty_conv)
    ultimately show ?thesis by blast
  qed
qed

end

lemma index_pairs_mem: "(i, j) \<in> set (index_pairs n) \<longleftrightarrow> i < j \<and> j < n"
  by (auto simp: index_pairs_def intro!: bexI [of _ i])

lemma insert_groups:
  assumes "for_each (insert_group blake3 tests) iss by_name = Inr by_name'"
  shows "set (map snd by_name') = set (map snd by_name)
    \<union> (\<lambda>is. sort (map (\<lambda>i. (tm_binary_id (tests ! i), tm_name (tests ! i))) is)) ` set iss"
  using assms
proof (induction iss arbitrary: by_name)
  case (Cons "is" iss)
  let ?m = "sort (map (\<lambda>i. (tm_binary_id (tests ! i), tm_name (tests ! i))) is)"
  obtain b where b: "insert_group blake3 tests is by_name = Inr b" "for_each (insert_group blake3 tests) iss b = Inr by_name'"
    using Cons.prems by (cases "insert_group blake3 tests is by_name") auto
  have "set (map snd b) = insert ?m (set (map snd by_name))"
    using b(1) by (auto simp: insert_group_def Let_def split: option.splits if_splits dest!: map_of_SomeD)
       (force simp: image_iff)+
  then show ?case using Cons.IH [OF b(2)] by simp
qed simp

section \<open>A reference union-find\<close>

definition ref_uf :: "nat list unionfind" where
  "ref_uf = \<lparr>uf_new = (\<lambda>n. [0..<n]),
     uf_union = (\<lambda>i j u. map (\<lambda>x. if x = u ! i then u ! j else x) u), uf_find = (\<lambda>u i. u ! i)\<rparr>"

definition ref_rel :: "nat list \<Rightarrow> (nat \<times> nat) set" where
  "ref_rel u = {(i, j). i < length u \<and> j < length u \<and> u ! i = u ! j}"

lemma ref_rel_length: "equiv {..<n} (ref_rel u) \<Longrightarrow> length u = n"
proof -
  assume "equiv {..<n} (ref_rel u)"
  then have "Domain (ref_rel u) = {..<n}" by (auto simp: equiv_def refl_on_def sym_def)
  moreover have "Domain (ref_rel u) = {..<length u}" by (auto simp: ref_rel_def)
  ultimately show ?thesis by (metis lessThan_eq_iff)
qed

interpretation ref_uf: union_find ref_uf ref_rel
proof unfold_locales
  fix n u i j assume e: "equiv {..<n} (ref_rel u)" "i < n" "j < n"
  then have n: "length u = n" by (simp add: ref_rel_length)
  show "ref_rel (uf_union ref_uf i j u) = ref_rel u \<union> ref_rel u `` {i} \<times> ref_rel u `` {j} \<union> ref_rel u `` {j} \<times> ref_rel u `` {i}"
    using e n by (auto simp: ref_rel_def ref_uf_def split: if_splits)
  show "uf_find ref_uf u i = uf_find ref_uf u j \<longleftrightarrow> (i, j) \<in> ref_rel u"
    using e n by (simp add: ref_rel_def ref_uf_def)
qed (auto simp: ref_rel_def ref_uf_def Id_on_def)

section \<open>Groups are the connected components\<close>

definition conflict_rel :: "boolexpr \<Rightarrow> test_metadata list \<Rightarrow> (nat \<times> nat) set" where
  "conflict_rel X tests = {(i, j). i < length tests \<and> j < length tests \<and> i \<noteq> j
     \<and> test_conflict X (tm_labels (tests ! i)) (tm_serial (tests ! i)) (tm_labels (tests ! j)) (tm_serial (tests ! j))}"

definition member_of :: "test_metadata list \<Rightarrow> nat \<Rightarrow> str \<times> str" where
  "member_of tests i = (tm_binary_id (tests ! i), tm_name (tests ! i))"

lemma conflict_rel_sym: "(i, j) \<in> conflict_rel X tests \<Longrightarrow> (j, i) \<in> conflict_rel X tests"
  by (auto simp: conflict_rel_def test_conflict_def)

lemma conflict_equiv: "equiv {..<length tests} {(i, j). i < length tests \<and> j < length tests \<and> (i, j) \<in> (conflict_rel X tests)\<^sup>*}"
proof -
  have "sym ((conflict_rel X tests)\<^sup>*)"
    by (rule sym_rtrancl) (auto simp: sym_def conflict_rel_sym)
  then show ?thesis by (auto simp: equiv_def refl_on_def sym_def trans_def)
qed

lemma for_each_unions_total:
  assumes "\<forall>t \<in> set tests. serial_valid X (tm_serial t)" "\<forall>(i, j) \<in> set ps. i < length tests \<and> j < length tests"
  shows "\<exists>u'. for_each (union_if_conflict X U tests) ps u = Inr u'"
  using assms(2)
proof (induction ps arbitrary: u)
  case (Cons p ps)
  obtain i j where p: "p = (i, j)" by (cases p)
  then have "tests ! i \<in> set tests" "tests ! j \<in> set tests" using Cons.prems by auto
  then have "\<exists>v. union_if_conflict X U tests p u = Inr v"
    using assms(1) by (simp add: p union_if_conflict_def conflicts_decides)
  then show ?case using Cons by auto
qed simp

context union_find
begin

lemma unions_exact:
  assumes valid: "\<forall>t \<in> set tests. serial_valid X (tm_serial t)"
    and u: "for_each (union_if_conflict X U tests) (index_pairs (length tests)) (uf_new U (length tests)) = Inr u"
  shows "equiv {..<length tests} (rel u)"
    and "rel u = {(i, j). i < length tests \<and> j < length tests \<and> (i, j) \<in> (conflict_rel X tests)\<^sup>*}"
proof -
  let ?n = "length tests"
  let ?R = "{(i, j). i < ?n \<and> j < ?n \<and> (i, j) \<in> (conflict_rel X tests)\<^sup>*}"
  have e0: "equiv {..<?n} (rel (uf_new U ?n))"
    by (auto simp: rel_new equiv_def refl_on_def sym_def trans_def Id_on_def)
  have ps: "\<forall>(i, j) \<in> set (index_pairs ?n). i < ?n \<and> j < ?n" by (auto simp: index_pairs_mem)
  note c = unions_closure [OF u e0 ps]
  show e: "equiv {..<?n} (rel u)" using c by blast
  have conf: "conflicts X (tests ! i) (tests ! j) = Inr True \<longleftrightarrow> (i, j) \<in> conflict_rel X tests"
    if "i < j" "j < ?n" for i j
    using that valid by (simp add: conflicts_decides conflict_rel_def)
  have sub: "conflict_rel X tests \<subseteq> rel u"
  proof (rule subrelI)
    fix i j assume ij: "(i, j) \<in> conflict_rel X tests"
    then have "i < ?n" "j < ?n" "i \<noteq> j" by (auto simp: conflict_rel_def)
    then consider "i < j" | "j < i" by linarith
    then have "(i, j) \<in> rel u \<or> (j, i) \<in> rel u"
    proof cases
      case 1
      then show ?thesis using c conf [of i j] ij \<open>j < ?n\<close> by (auto simp: index_pairs_mem)
    next
      case 2
      then show ?thesis using c conf [of j i] conflict_rel_sym [OF ij] \<open>i < ?n\<close> by (auto simp: index_pairs_mem)
    qed
    then show "(i, j) \<in> rel u" using e by (auto simp: equiv_def dest: symD)
  qed
  have "(i, j) \<in> (conflict_rel X tests)\<^sup>* \<Longrightarrow> i < ?n \<Longrightarrow> (i, j) \<in> rel u" for i j
  proof (induction rule: rtrancl_induct)
    case base
    then show ?case using e by (auto simp: equiv_def refl_on_def)
  next
    case (step y z)
    then have "(i, y) \<in> rel u" "(y, z) \<in> rel u" using sub by auto
    then show ?case using e unfolding equiv_def by (blast dest: transD)
  qed
  moreover have "rel u \<subseteq> ?R"
  proof -
    have "rel (uf_new U ?n) \<subseteq> ?R" by (auto simp: rel_new Id_on_def)
    moreover have "\<forall>(i, j) \<in> set (index_pairs ?n). conflicts X (tests ! i) (tests ! j) = Inr True \<longrightarrow> (i, j) \<in> ?R"
      using conf by (auto simp: index_pairs_mem)
    ultimately show ?thesis using c conflict_equiv [of tests X] by blast
  qed
  ultimately show "rel u = ?R" by auto
qed

lemma build_groups_members:
  assumes valid: "\<forall>t \<in> set tests. serial_valid X (tm_serial t)" and g: "build_groups X U blake3 tests = Inr groups"
  shows "set (map tg_members groups) = (\<lambda>is. sort (map (member_of tests) is)) `
    {is. \<exists>i < length tests. set is = (conflict_rel X tests)\<^sup>* `` {i} \<and> sorted is \<and> distinct is \<and> length is > 1}"
proof -
  let ?n = "length tests"
  obtain u b where u: "for_each (union_if_conflict X U tests) (index_pairs ?n) (uf_new U ?n) = Inr u"
      and b: "for_each (insert_group blake3 tests) (filter (\<lambda>is. length is > 1) (components U u ?n)) [] = Inr b"
      and groups: "groups = map (\<lambda>(nm, members). \<lparr>tg_name = nm, tg_members = members\<rparr>) (sort_key fst b)"
    using g by (auto simp: build_groups_def)
  note e = unions_exact [OF valid u]
  have cls: "rel u `` {i} = (conflict_rel X tests)\<^sup>* `` {i}" if "i < ?n" for i
  proof -
    have "(i, j) \<in> (conflict_rel X tests)\<^sup>* \<Longrightarrow> i < ?n \<Longrightarrow> j < ?n" for j
      by (induction rule: rtrancl_induct) (auto simp: conflict_rel_def)
    then show ?thesis using that by (auto simp: e(2))
  qed
  have srt: "sorted is" if "is \<in> set (components U u ?n)" for "is"
  proof -
    have "sorted (filter P [0..<?n])" for P using sorted_filter [of "\<lambda>x. x" "[0..<?n]" P] by simp
    then show ?thesis using that by (auto simp: components_def buckets_mem filter_map comp_def)
  qed
  have "set (map tg_members groups) = snd ` set b"
    by (force simp: groups image_iff)
  also have "\<dots> = (\<lambda>is. sort (map (member_of tests) is)) ` {is \<in> set (components U u ?n). length is > 1}"
    using insert_groups [OF b] by (simp add: member_of_def [abs_def])
  also have "{is \<in> set (components U u ?n). length is > 1}
      = {is. \<exists>i < ?n. set is = (conflict_rel X tests)\<^sup>* `` {i} \<and> sorted is \<and> distinct is \<and> length is > 1}"
  proof (intro equalityI subsetI)
    fix "is" assume a: "is \<in> {is \<in> set (components U u ?n). length is > 1}"
    then obtain i where i: "i \<in> set is" by (cases "is") auto
    then have "i < ?n" "\<forall>j \<in> set is. (i, j) \<in> rel u" using components_classes(1) [OF e(1)] a by blast+
    moreover have "j \<in> set is" if "(i, j) \<in> rel u" for j
    proof -
      obtain k where k: "is = filter (\<lambda>i. uf_find U u i = k) [0..<?n]"
        using a by (auto simp: components_def buckets_mem filter_map comp_def)
      then show ?thesis using i that find_iff [OF e(1), of i j] e(2) by auto
    qed
    ultimately have "set is = rel u `` {i}" by auto
    then show "is \<in> {is. \<exists>i < ?n. set is = (conflict_rel X tests)\<^sup>* `` {i} \<and> sorted is \<and> distinct is \<and> length is > 1}"
      using cls \<open>i < ?n\<close> a srt components_classes(3) [OF e(1)] by blast
  next
    fix "is" assume "is \<in> {is. \<exists>i < ?n. set is = (conflict_rel X tests)\<^sup>* `` {i} \<and> sorted is \<and> distinct is \<and> length is > 1}"
    then obtain i where i: "i < ?n" "set is = rel u `` {i}" "sorted is" "distinct is" "length is > 1" using cls by auto
    obtain js where js: "js \<in> set (components U u ?n)" "set js = rel u `` {i}"
      using components_classes(2) [OF e(1) i(1)] by blast
    then have "is = js" using i srt components_classes(3) [OF e(1)] by (intro sorted_distinct_set_unique) auto
    then show "is \<in> {is \<in> set (components U u ?n). length is > 1}" using js i by simp
  qed
  finally show ?thesis .
qed

end

lemma insert_group_panic: "insert_group blake3 tests is b \<noteq> Inl Invalid_serial_filter"
  by (simp add: insert_group_def Let_def split: option.split)

lemma insert_groups_panic: "for_each (insert_group blake3 tests) iss b \<noteq> Inl Invalid_serial_filter"
proof (induction iss arbitrary: b)
  case (Cons "is" iss)
  then show ?case using insert_group_panic [of blake3 tests "is" b]
    by (cases "insert_group blake3 tests is b") simp_all
qed simp

lemma build_groups_valid:
  assumes "\<forall>t \<in> set tests. serial_valid X (tm_serial t)"
  shows "build_groups X U blake3 tests \<noteq> Inl Invalid_serial_filter"
proof -
  have ps: "\<forall>(i, j) \<in> set (index_pairs (length tests)). i < length tests \<and> j < length tests"
    by (auto simp: index_pairs_mem)
  obtain u where u: "for_each (union_if_conflict X U tests) (index_pairs (length tests)) (uf_new U (length tests)) = Inr u"
    using for_each_unions_total [OF assms ps, of U "uf_new U (length tests)"] by auto
  let ?iss = "filter (\<lambda>indices. length indices > 1) (components U u (length tests))"
  show ?thesis using insert_groups_panic [of blake3 tests ?iss "[]"]
    by (cases "for_each (insert_group blake3 tests) ?iss []") (simp_all add: build_groups_def u)
qed

section \<open>Reading an escaped name back\<close>

text \<open>
  nextest's reading of the text after \<open>=\<close>: up to the first parenthesis that no backslash
  escapes, with the seven documented escape sequences.
\<close>

fun read_name :: "str \<Rightarrow> (str \<times> str) option" where
  "read_name [] = None"
| "read_name (c # s) =
     (if c = CHR '')'' then Some ([], s)
      else if c = CHR 0x5C then
        (case s of [] \<Rightarrow> None
         | d # s' \<Rightarrow> map_option (\<lambda>(nm, rest). ((if d = CHR ''n'' then CHR 0x0A else if d = CHR ''r'' then CHR 0x0D
                        else if d = CHR ''t'' then CHR 0x09 else d) # nm, rest)) (read_name s'))
      else map_option (\<lambda>(nm, rest). (c # nm, rest)) (read_name s))"

lemma read_escaped: "read_name (escape_nextest_name nm @ '')'' @ rest) = Some (nm, rest)"
  by (induction nm) (auto simp: escape_nextest_name_def escape_char_def)

section \<open>Properties\<close>

text \<open>
  C23: the nextest groups are the connected components of the conflict graph.  On metadata whose
  filters parse, the double loop cannot panic on a filter, and the groups it yields are the
  components with more than one test, each group listing the sorted binary and test names of
  its component; so tests that conflict share a group.
\<close>

theorem build_groups_components:
  assumes "union_find U rel" "\<forall>t \<in> set tests. serial_valid X (tm_serial t)"
  shows "build_groups X U blake3 tests \<noteq> Inl Invalid_serial_filter
    \<and> (\<forall>groups. build_groups X U blake3 tests = Inr groups \<longrightarrow>
        set (map tg_members groups) = (\<lambda>is. sort (map (member_of tests) is)) `
          {is. \<exists>i < length tests. set is = (conflict_rel X tests)\<^sup>* `` {i} \<and> sorted is \<and> distinct is \<and> length is > 1}
        \<and> (\<forall>(i, j) \<in> conflict_rel X tests. \<exists>g \<in> set groups.
             member_of tests i \<in> set (tg_members g) \<and> member_of tests j \<in> set (tg_members g)))"
proof (intro conjI allI impI)
  show "build_groups X U blake3 tests \<noteq> Inl Invalid_serial_filter"
    by (rule build_groups_valid [OF assms(2)])
next
  fix groups assume g: "build_groups X U blake3 tests = Inr groups"
  note m = union_find.build_groups_members [OF assms g]
  then show "set (map tg_members groups) = (\<lambda>is. sort (map (member_of tests) is)) `
      {is. \<exists>i < length tests. set is = (conflict_rel X tests)\<^sup>* `` {i} \<and> sorted is \<and> distinct is \<and> length is > 1}" .
  have "\<exists>g \<in> set groups. member_of tests i \<in> set (tg_members g) \<and> member_of tests j \<in> set (tg_members g)"
    if ij: "(i, j) \<in> conflict_rel X tests" for i j
  proof -
    let ?C = "(conflict_rel X tests)\<^sup>* `` {i}"
    have i: "i < length tests" "i \<noteq> j" using ij by (auto simp: conflict_rel_def)
    have "(i, k) \<in> (conflict_rel X tests)\<^sup>* \<Longrightarrow> i < length tests \<Longrightarrow> k < length tests" for k
      by (induction rule: rtrancl_induct) (auto simp: conflict_rel_def)
    then have fin: "finite ?C" using i by (auto intro: finite_subset [of _ "{..<length tests}"])
    let ?is = "sorted_list_of_set ?C"
    have "{i, j} \<subseteq> ?C" using ij by auto
    then have "1 < card ?C" using fin i(2) card_mono [of ?C "{i, j}"] by simp
    then have "sort (map (member_of tests) ?is) \<in> set (map tg_members groups)"
      unfolding m using fin i(1) by (auto intro!: imageI exI [of _ i])
    then obtain g where "g \<in> set groups" "tg_members g = sort (map (member_of tests) ?is)" by auto
    then show ?thesis using fin ij by (intro bexI [of _ g]) auto
  qed
  then show "\<forall>(i, j) \<in> conflict_rel X tests. \<exists>g \<in> set groups.
      member_of tests i \<in> set (tg_members g) \<and> member_of tests j \<in> set (tg_members g)" by blast
qed

definition demo_tests :: "test_metadata list" where
  "demo_tests = map (\<lambda>(n, s). \<lparr>tm_binary_id = ''b'', tm_name = n, tm_labels = [n], tm_serial = s\<rparr>)
     [(''x'', ''*''), (''y'', [])]"

theorem build_groups_components_witness:
  "\<exists>groups. build_groups ref_boolexpr ref_uf (\<lambda>s. s) demo_tests = Inr groups
     \<and> (\<exists>g \<in> set groups. (''b'', ''x'') \<in> set (tg_members g) \<and> (''b'', ''y'') \<in> set (tg_members g))"
proof -
  have valid: "\<forall>t \<in> set demo_tests. serial_valid ref_boolexpr (tm_serial t)" by (simp add: demo_tests_def)
  have "\<exists>groups. build_groups ref_boolexpr ref_uf (\<lambda>s. s) demo_tests = Inr groups"
  proof -
    have "build_groups ref_boolexpr ref_uf (\<lambda>s. s) demo_tests
        = Inr [\<lparr>tg_name = group_name (\<lambda>s. s) [(''b'', ''x''), (''b'', ''y'')], tg_members = [(''b'', ''x''), (''b'', ''y'')]\<rparr>]"
      by code_simp
    then show ?thesis by blast
  qed
  moreover have "(0, 1) \<in> conflict_rel ref_boolexpr demo_tests"
    by (simp add: conflict_rel_def demo_tests_def test_conflict_def)
  ultimately show ?thesis
    using build_groups_components [OF ref_uf.union_find_axioms valid, of "\<lambda>s. s"]
    by (fastforce simp: member_of_def demo_tests_def)
qed

text \<open>
  The generated filter names exactly the test it is written for.  Whatever bytes a binary id
  or test name has, the escaped text inside the parentheses reads back as that name and ends at
  the closing parenthesis the clause adds.
\<close>

theorem member_clause_reads_back:
  "\<exists>rest. member_clause (binary_id, nm) = ''(binary_id(='' @ rest
     \<and> (\<exists>rest'. read_name rest = Some (binary_id, '' and test(='' @ rest')
          \<and> read_name rest' = Some (nm, '')''))"
proof -
  let ?r = "escape_nextest_name nm @ '')'' @ '')''"
  have "member_clause (binary_id, nm) = ''(binary_id(='' @ escape_nextest_name binary_id @ '')'' @ '' and test(='' @ ?r"
    by (simp add: member_clause_def)
  then show ?thesis
    using read_escaped [of binary_id "'' and test(='' @ ?r"] read_escaped [of nm "'')''"] by (intro exI conjI) auto
qed

text \<open>
  Generation never meets a filter it cannot parse.  Collecting the metadata drops tests with
  an unparsable serial filter and skips binaries whose probe fails, so the whole of
  \<open>generate\<close> ends in a configuration, in an error it reports, or in a collision of group names:
  the \<open>expect\<close> on the filters cannot fire.
\<close>

theorem generate_no_invalid_filter:
  "generate X U blake3 toml listing probe \<noteq> Inl (Gen_panic Invalid_serial_filter)"
proof
  assume g: "generate X U blake3 toml listing probe = Inl (Gen_panic Invalid_serial_filter)"
  obtain bs where bs: "discover_binaries listing = Inr bs"
    using g by (cases "discover_binaries listing") (auto simp: generate_def)
  obtain ms where ms: "collect_metadata X probe bs = Inr ms"
    using g bs by (cases "collect_metadata X probe bs") (auto simp: generate_def)
  have "build_groups X U blake3 ms \<noteq> Inl Invalid_serial_filter"
    using collect_metadata_valid [OF ms] by (intro build_groups_valid) blast
  then show False using g bs ms by (cases "build_groups X U blake3 ms") (auto simp: generate_def)
qed

text \<open>
  \<open>gen --check\<close> accepts exactly an up-to-date file.  It succeeds if and only if generation
  succeeds and the file has the generated text, so it succeeds on what \<open>gen\<close> just wrote, and a
  missing or different file is an error; it never writes.
\<close>

theorem gen_check_exact:
  "(run_main sh generated (Gen output True) = Inr r \<longleftrightarrow>
      r = Main_ok \<and> (\<exists>text. generated = Inr text \<and> sh_read sh output = Inr (Some text)))
   \<and> (run_main sh generated (Gen output False) = Inr (Main_wrote path text) \<longrightarrow>
        sh_read sh' path = Inr (Some text) \<longrightarrow> run_main sh' generated (Gen output True) = Inr Main_ok)"
  by (cases generated; cases "sh_read sh output")
     (auto simp: run_main_def check_up_to_date_def map_sum_def split: sum.splits)

theorem gen_check_exact_witness:
  "let sh = \<lparr>sh_read = (\<lambda>p. Inr (Some ''cfg'')), sh_write = (\<lambda>p t. Inr ()), sh_canonicalize = Inr, sh_run = (\<lambda>c. Inr (Some 0))\<rparr>
   in run_main sh (Inr ''cfg'') (Gen ''out'' False) = Inr (Main_wrote ''out'' ''cfg'')
      \<and> run_main sh (Inr ''cfg'') (Gen ''out'' True) = Inr Main_ok"
proof -
  define sh where "sh = \<lparr>sh_read = (\<lambda>p. Inr (Some ''cfg'')), sh_write = (\<lambda>p t. Inr ()), sh_canonicalize = Inr,
    sh_run = (\<lambda>c :: str list. Inr (Some 0) :: (str, int option) result)\<rparr>"
  have w: "run_main sh (Inr ''cfg'') (Gen ''out'' False) = Inr (Main_wrote ''out'' ''cfg'')" by (simp add: run_main_def sh_def)
  have "run_main sh (Inr ''cfg'') (Gen ''out'' True) = Inr Main_ok"
    using gen_check_exact [of sh "Inr ''cfg''" "''out''" Main_ok "''out''" "''cfg''" sh] w by (simp add: sh_def)
  then show ?thesis using w by (simp add: Let_def sh_def)
qed

end
