(* ===== verification/Test_Def.thy ===== *)
theory Test_Def
  imports Fixture_Collect
begin

text \<open>
  Test definitions (\<open>TestDef\<close> of \<open>src/src/lib.rs\<close>) and the resolution of a test's
  effective labels (end of \<open>src/src/label.rs\<close>): the explicit or module-default labels,
  then the labels inherited from fixtures.  The body of a test is code of the crate under
  test and is not part of the record.
\<close>

datatype ignore = Ignore_No | Ignore_Yes | Ignore_WithReason str

datatype should_panic = Panic_No | Panic_Yes | Panic_WithMessage str

record test_def =
  td_name :: str
  td_module :: str
  td_display_name :: "str option"
  td_requires :: "requirement list"
  td_fixture_names :: "str list"
  td_ignore :: ignore
  td_labels :: "label list"
  td_labels_explicit :: bool
  td_serial :: str
  td_should_panic :: should_panic

record module_labels =
  ml_module :: str
  ml_labels :: "label list"

definition covers :: "test_def \<Rightarrow> module_labels \<Rightarrow> bool" where
  "covers def m \<longleftrightarrow> td_module def = ml_module m
     \<or> (case strip_prefix (td_module def) (ml_module m) of
          None \<Rightarrow> False | Some rest \<Rightarrow> starts_with rest ''::'')"

definition own_labels :: "test_def \<Rightarrow> module_labels list \<Rightarrow> label list" where
  "own_labels def module_defaults =
     (if td_labels_explicit def then td_labels def
      else case max_by_key (\<lambda>m. length (ml_module m)) (filter (covers def) module_defaults) of
             Some m \<Rightarrow> ml_labels m
           | None \<Rightarrow> td_labels def)"

definition resolve_labels ::
    "bool \<Rightarrow> registry \<Rightarrow> test_def \<Rightarrow> module_labels list \<Rightarrow> (fixture_panic, label list) result" where
  "resolve_labels debug reg def module_defaults =
     map_sum id (push_unique (push_unique [] (own_labels def module_defaults)))
       (collect_fixture_labels debug reg (td_fixture_names def))"

definition unregistered_fixture_names :: "registry \<Rightarrow> test_def \<Rightarrow> str list" where
  "unregistered_fixture_names registry def =
     filter (\<lambda>nm. map_of registry nm = None) (td_fixture_names def)"

text \<open>The warnings are the lines \<open>resolve_labels_for\<close> writes to stderr.\<close>

definition resolve_labels_for :: "bool \<Rightarrow> registry \<Rightarrow> module_labels list \<Rightarrow> test_def
    \<Rightarrow> (str \<times> str) list \<times> (fixture_panic, label list) result" where
  "resolve_labels_for debug reg defaults def =
     (map (\<lambda>nm. (td_name def, nm)) (unregistered_fixture_names reg def),
      resolve_labels debug reg def defaults)"

definition validate_serial_filters ::
    "boolexpr \<Rightarrow> test_def list \<Rightarrow> fixture_def list \<Rightarrow> ((str \<times> str) list, unit) result" where
  "validate_serial_filters X tests fixtures =
     (let bad = (\<lambda>serial. serial \<noteq> [] \<and> serial \<noteq> ''*'' \<and>
                   (case LabelFilter_parse X serial of Inl _ \<Rightarrow> True | Inr _ \<Rightarrow> False));
          errors = map (\<lambda>d. (td_name d, td_serial d)) (filter (\<lambda>d. bad (td_serial d)) tests)
                   @ map (\<lambda>d. (fx_name d, fx_serial d)) (filter (\<lambda>d. bad (fx_serial d)) fixtures)
      in if errors \<noteq> [] then Inl errors else Inr ())"

section \<open>Lemmas\<close>

text \<open>\<open>covers\<close> is the ancestor relation of module paths.\<close>

definition module_ancestor :: "str \<Rightarrow> str \<Rightarrow> bool" where
  "module_ancestor m p \<longleftrightarrow> p = m \<or> (\<exists>rest. p = m @ ''::'' @ rest)"

lemma covers_iff: "covers def m \<longleftrightarrow> module_ancestor (ml_module m) (td_module def)"
  by (auto simp: covers_def module_ancestor_def strip_prefix_Some starts_with_iff split: option.splits)

lemma ancestors_unique_length:
  "module_ancestor a p \<Longrightarrow> module_ancestor b p \<Longrightarrow> length a = length b \<Longrightarrow> a = b"
  by (auto simp: module_ancestor_def)

lemma validate_serial_filters_ok:
  "validate_serial_filters X tests fixtures = Inr () \<longleftrightarrow>
     (\<forall>d \<in> set tests. serial_valid X (td_serial d)) \<and> (\<forall>d \<in> set fixtures. serial_valid X (fx_serial d))"
  by (auto simp: validate_serial_filters_def Let_def serial_valid_def filter_empty_conv split: sum.splits)

section \<open>Properties\<close>

text \<open>
  Without an explicit \<open>labels = [...]\<close> a test takes the labels of the closest
  \<open>default_labels!\<close> module: some registered module that is the test's module or an ancestor
  of it, such that no other covering module is longer; its own list applies only if no module
  covers it, and an explicit list always does.
\<close>

theorem own_labels_closest:
  "(td_labels_explicit def \<longrightarrow> own_labels def defaults = td_labels def)
   \<and> (\<not> td_labels_explicit def \<longrightarrow>
       (if \<exists>m \<in> set defaults. module_ancestor (ml_module m) (td_module def)
        then \<exists>m \<in> set defaults. own_labels def defaults = ml_labels m
               \<and> module_ancestor (ml_module m) (td_module def)
               \<and> (\<forall>m' \<in> set defaults. module_ancestor (ml_module m') (td_module def)
                    \<longrightarrow> length (ml_module m') \<le> length (ml_module m))
        else own_labels def defaults = td_labels def))"
proof (cases "max_by_key (\<lambda>m. length (ml_module m)) (filter (covers def) defaults)")
  case None
  then have "filter (covers def) defaults = []" by simp
  then have "\<not> (\<exists>m \<in> set defaults. module_ancestor (ml_module m) (td_module def))"
    by (auto simp: filter_empty_conv covers_iff)
  then show ?thesis using None by (simp add: own_labels_def)
next
  case (Some m)
  then have "m \<in> set (filter (covers def) defaults)" by (rule max_by_key_mem)
  moreover have "\<forall>m' \<in> set (filter (covers def) defaults). length (ml_module m') \<le> length (ml_module m)"
    using max_by_key_ge [OF Some] by blast
  ultimately show ?thesis using Some by (auto simp: own_labels_def covers_iff)
qed

definition demo_test :: test_def where
  "demo_test = \<lparr>td_name = ''t'', td_module = ''app::db::tests'', td_display_name = None, td_requires = [],
     td_fixture_names = [''db''], td_ignore = Ignore_No, td_labels = [], td_labels_explicit = False,
     td_serial = [], td_should_panic = Panic_No\<rparr>"

definition demo_defaults :: "module_labels list" where
  "demo_defaults = [\<lparr>ml_module = ''app'', ml_labels = [\<lparr>label_name = ''a''\<rparr>]\<rparr>,
     \<lparr>ml_module = ''app::db'', ml_labels = [\<lparr>label_name = ''b''\<rparr>]\<rparr>,
     \<lparr>ml_module = ''app::d'', ml_labels = [\<lparr>label_name = ''c''\<rparr>]\<rparr>]"

theorem own_labels_closest_witness:
  "\<not> td_labels_explicit demo_test
   \<and> (\<exists>m \<in> set demo_defaults. own_labels demo_test demo_defaults = ml_labels m)
   \<and> own_labels demo_test demo_defaults = [\<lparr>label_name = ''b''\<rparr>]"
proof -
  have "own_labels demo_test demo_defaults = [\<lparr>label_name = ''b''\<rparr>]" by code_simp
  moreover have "module_ancestor ''app'' (td_module demo_test)"
    by (simp add: module_ancestor_def demo_test_def)
  then have "\<exists>m \<in> set demo_defaults. module_ancestor (ml_module m) (td_module demo_test)"
    by (simp add: demo_defaults_def)
  moreover have "\<not> td_labels_explicit demo_test" by (simp add: demo_test_def)
  ultimately show ?thesis using own_labels_closest [of demo_test demo_defaults] by auto
qed

text \<open>
  The effective labels of a test are its own labels followed by inherited ones, each once:
  a label is effective exactly when it is an own label or a label of a registered fixture the
  test reaches.
\<close>

theorem resolve_labels_exact:
  assumes "validate_fixture_graph reg = Inr ()"
  shows "\<exists>labels. resolve_labels debug reg def defaults = Inr labels \<and> distinct labels
    \<and> prefix (push_unique [] (own_labels def defaults)) labels
    \<and> (\<forall>l. l \<in> set labels \<longleftrightarrow> l \<in> set (own_labels def defaults)
         \<or> (\<exists>n \<in> (dep_rel reg)\<^sup>* `` set (td_fixture_names def). \<exists>d. map_of reg n = Some d
              \<and> l \<in> set (fx_labels d)))"
proof -
  let ?ds = "lookups reg (walk_order reg (td_fixture_names def))"
  have w: "walk_fixture_deps_in debug reg (td_fixture_names def) = Inr ?ds"
      "set (walk_order reg (td_fixture_names def)) = (dep_rel reg)\<^sup>* `` set (td_fixture_names def)"
    using walk_all_total [of reg debug "td_fixture_names def"] assms
    by (auto simp: validate_fixture_graph_iff below_def)
  let ?inherited = "push_unique [] (concat (map fx_labels ?ds))"
  let ?own = "push_unique [] (own_labels def defaults)"
  have "resolve_labels debug reg def defaults = Inr (push_unique ?own ?inherited)"
    by (simp add: resolve_labels_def collect_fixture_labels_def w(1) foldl_push_unique)
  moreover have "distinct (push_unique ?own ?inherited)" by (simp add: push_unique_distinct)
  moreover have "set ?inherited = {l. \<exists>n \<in> (dep_rel reg)\<^sup>* `` set (td_fixture_names def).
      \<exists>d. map_of reg n = Some d \<and> l \<in> set (fx_labels d)}"
  proof -
    have "set ?inherited = (\<Union>d \<in> set ?ds. set (fx_labels d))" by simp
    also have "set ?ds = {d. \<exists>n \<in> (dep_rel reg)\<^sup>* `` set (td_fixture_names def). map_of reg n = Some d}"
      unfolding w(2) [symmetric] using lookups_mem by blast
    finally show ?thesis by blast
  qed
  ultimately show ?thesis using push_unique_prefix [of ?own ?inherited] by auto
qed

theorem resolve_labels_exact_witness:
  "\<exists>labels. resolve_labels True demo_registry demo_test demo_defaults = Inr labels
     \<and> labels = map (\<lambda>n. \<lparr>label_name = n\<rparr>) [''b'', ''db'', ''net''] \<and> distinct labels"
proof -
  have "resolve_labels True demo_registry demo_test demo_defaults
      = Inr (map (\<lambda>n. \<lparr>label_name = n\<rparr>) [''b'', ''db'', ''net''])" by code_simp
  with resolve_labels_exact [OF demo_registry_valid, of True demo_test demo_defaults]
  show ?thesis by auto
qed

end
