(* ===== verification/Runner.thy ===== *)
theory Runner
  imports Nextest Test_Def Fixture_Store "HOL-Library.Word"
begin

text \<open>
  The runner (\<open>src/src/runner.rs\<close>): trial names and their uniqueness, the builder, the startup
  checks, the collection of inventory and dynamic tests into trials and nextest metadata, the
  execution of one trial with its capture and report lines, and \<open>run_tests\<close> as a whole.

  libtest-mimic, clap and the threads are parameters: \<open>runner_env\<close> holds what the process was
  started with and what these answer, \<open>trial_io\<close> what the system calls around one trial answer.
\<close>

section \<open>Debug switch\<close>

definition skuld_debug :: "environment \<Rightarrow> (env_panic, bool) result" where
  "skuld_debug env = map_sum id (\<lambda>v. case v of
       Some s \<Rightarrow> (let t = to_ascii_lowercase (trim s) in
         t \<noteq> [] \<and> t \<noteq> ''0'' \<and> t \<noteq> ''false'' \<and> t \<noteq> ''no'' \<and> t \<noteq> ''off'')
     | None \<Rightarrow> False) (skuld_env_read env ''SKULD_DEBUG'')"

section \<open>Running one trial\<close>

datatype run_event = Capture_on | Capture_off | Thread_ran | Stderr str

text \<open>The capture either begins, or fails, before or after stdio was redirected.\<close>

datatype begin_result = Begun | Begin_failed str bool

record trial_io =
  io_begin :: begin_result
  io_end :: "(str, str) result"
  io_spawn :: "(str, unit) result"
  io_join :: "(payload, unit) result"    \<comment> \<open>\<open>coordinate\<close> and the body, on the trial's thread\<close>
  io_millis :: nat
  io_debug :: bool

datatype trial_end = Trial_ok | Trial_panics payload | Trial_bad_name str | Trial_spawn_failed str str | Trial_aborts

definition eprintln :: "str \<Rightarrow> run_event" where
  "eprintln s = Stderr (s @ [CHR 0x0A])"

definition skuld_debug_eprintln :: "trial_io \<Rightarrow> str \<Rightarrow> run_event list" where
  "skuld_debug_eprintln io s = (if io_debug io then [eprintln (''[skuld-debug] '' @ s)] else [])"

definition dump_captured_bytes_to :: "str \<Rightarrow> str \<Rightarrow> str list" where
  "dump_captured_bytes_to nm bytes =
     (if bytes = [] then []
      else [''[skuld] '' @ nm @ '': ---- captured ----'' @ [CHR 0x0A], bytes]
        @ (if ends_with bytes [CHR 0x0A] then [] else [[CHR 0x0A]])
        @ [''[skuld] '' @ nm @ '': ---- end capture ----'' @ [CHR 0x0A]])"

definition dump_captured_bytes :: "str \<Rightarrow> str \<Rightarrow> run_event list" where
  "dump_captured_bytes nm bytes = map Stderr (dump_captured_bytes_to nm bytes)"

definition captured_bytes_or_warn :: "str \<Rightarrow> (str, str) result \<Rightarrow> str list \<times> str" where
  "captured_bytes_or_warn nm r = (case r of
       Inr bytes \<Rightarrow> ([], bytes)
     | Inl e \<Rightarrow> ([''[skuld] '' @ nm @ '': warning: capture teardown failed: '' @ e], []))"

definition ensure_valid_thread_name :: "str \<Rightarrow> bool" where
  "ensure_valid_thread_name nm \<longleftrightarrow> CHR 0x00 \<notin> set nm"

text \<open>Ending the capture: stdio is restored, and a teardown failure is a warning with no bytes.\<close>

definition end_capture :: "trial_io \<Rightarrow> str \<Rightarrow> bool \<Rightarrow> run_event list \<times> str" where
  "end_capture io nm capture =
     (if capture then (case captured_bytes_or_warn nm (io_end io) of (warnings, bytes) \<Rightarrow>
        (Capture_off # map eprintln warnings, bytes)) else ([], []))"

definition run_spawned :: "trial_io \<Rightarrow> str \<Rightarrow> bool \<Rightarrow> run_event list \<times> trial_end" where
  "run_spawned io nm capture = (case end_capture io nm capture of (ended, bytes) \<Rightarrow>
     case io_spawn io of
       Inl e \<Rightarrow> (ended @ (if capture then dump_captured_bytes nm bytes else []), Trial_spawn_failed nm e)
     | Inr _ \<Rightarrow>
         (let failed = isl (io_join io);
              outcome = (if failed then ''fail'' else ''pass'')
          in ([Thread_ran] @ ended @ skuld_debug_eprintln io (nm @ '': capture disabled'')
                @ [eprintln (''[skuld] '' @ nm @ '': '' @ outcome @ '' ('' @ show_nat (io_millis io) @ '' ms)'')]
                @ (if failed then dump_captured_bytes nm bytes else []),
              case io_join io of Inl payload \<Rightarrow> Trial_panics payload | Inr _ \<Rightarrow> Trial_ok)))"

definition run_with_observability :: "trial_io \<Rightarrow> str \<Rightarrow> bool \<Rightarrow> run_event list \<times> trial_end" where
  "run_with_observability io nm capture =
     (if \<not> ensure_valid_thread_name nm then ([], Trial_bad_name nm)
      else
        let start = [eprintln (''[skuld] '' @ nm @ '': starting'')] @ skuld_debug_eprintln io (nm @ '': entering test scope'')
        in if capture then
             (let start' = start @ skuld_debug_eprintln io (nm @ '': capture enabled (fd redirect)'') in
              case io_begin io of
                Begun \<Rightarrow> (case run_spawned io nm True of (evs, r) \<Rightarrow> (start' @ Capture_on # evs, r))
              | Begin_failed e redirected \<Rightarrow>
                  (start' @ (if redirected then [Capture_on] else [])
                     @ [eprintln (''[skuld] '' @ nm @ '': FATAL: capture setup failed: '' @ e),
                        eprintln (''[skuld] '' @ nm @ '': refusing to run test with unknown stdio state; aborting.'')],
                   Trial_aborts))
           else (case run_spawned io nm False of (evs, r) \<Rightarrow> (start @ evs, r)))"

section \<open>Trial names\<close>

definition effective_trial_name :: "str \<Rightarrow> str \<Rightarrow> str option \<Rightarrow> bool \<Rightarrow> str" where
  "effective_trial_name module nm display_name libtest_names =
     (case display_name of
        Some d \<Rightarrow> d
      | None \<Rightarrow>
          if \<not> libtest_names then nm
          else case split_once module ''::'' of
                 Some (_, rest) \<Rightarrow> rest @ ''::'' @ nm
               | None \<Rightarrow> nm)"

record dyn_test =
  dy_name :: str
  dy_ignored :: bool
  dy_serial :: str
  dy_labels :: "label list"

definition collect_trial_name_entries :: "bool \<Rightarrow> test_def list \<Rightarrow> dyn_test list \<Rightarrow> (str \<times> str) list" where
  "collect_trial_name_entries libtest_names tests dynamic =
     map (\<lambda>def. (effective_trial_name (td_module def) (td_name def) (td_display_name def) libtest_names,
                 td_module def @ ''::'' @ td_name def)) tests
     @ map (\<lambda>d. (dy_name d, ''dynamically-added: '' @ dy_name d)) dynamic"

text \<open>The error is the offending names with their origins, in the order they are reported.\<close>

definition check_duplicate_trial_names :: "(str \<times> str) list \<Rightarrow> ((str \<times> str list) list, unit) result" where
  "check_duplicate_trial_names entries =
     (let errors = duplicate_buckets entries in if errors = [] then Inr () else Inl errors)"

section \<open>The builder\<close>

record test_runner =
  rn_dynamic :: "dyn_test list"
  rn_strip :: "str list"
  rn_libtest_names :: bool
  rn_require_known_labels :: bool

definition runner_new :: test_runner where
  "runner_new = \<lparr>rn_dynamic = [], rn_strip = [], rn_libtest_names = False, rn_require_known_labels = False\<rparr>"

definition strip_args :: "str list \<Rightarrow> test_runner \<Rightarrow> test_runner" where
  "strip_args args rn = rn\<lparr>rn_strip := rn_strip rn @ args\<rparr>"

definition set_libtest_names :: "test_runner \<Rightarrow> test_runner" where
  "set_libtest_names rn = rn\<lparr>rn_libtest_names := True\<rparr>"

definition set_require_known_labels :: "test_runner \<Rightarrow> test_runner" where
  "set_require_known_labels rn = rn\<lparr>rn_require_known_labels := True\<rparr>"

definition add_dyn :: "str \<Rightarrow> label list \<Rightarrow> bool \<Rightarrow> str \<Rightarrow> test_runner \<Rightarrow> test_runner" where
  "add_dyn nm labels ignored serial rn = rn\<lparr>rn_dynamic := rn_dynamic rn
     @ [\<lparr>dy_name = nm, dy_ignored = ignored, dy_serial = serial, dy_labels = labels\<rparr>]\<rparr>"

definition runner_add :: "str \<Rightarrow> label list \<Rightarrow> bool \<Rightarrow> test_runner \<Rightarrow> test_runner" where
  "runner_add nm labels ignored = add_dyn nm labels ignored []"

definition runner_add_serial :: "str \<Rightarrow> label list \<Rightarrow> bool \<Rightarrow> test_runner \<Rightarrow> test_runner" where
  "runner_add_serial nm labels ignored = add_dyn nm labels ignored ''*''"

definition runner_add_serial_with :: "str \<Rightarrow> label list \<Rightarrow> bool \<Rightarrow> label_filter \<Rightarrow> test_runner \<Rightarrow> test_runner" where
  "runner_add_serial_with nm labels ignored f = add_dyn nm labels ignored (display_filter f)"

section \<open>Startup\<close>

datatype runner_panic =
    Bad_label_registry "(str \<times> (str \<times> nat \<times> nat) list) list"
  | Bad_selection selection_panic
  | Unknown_labels "str list \<times> str list"
  | Bad_serial_filters "(str \<times> str) list"
  | Duplicate_trial_names "(str \<times> str list) list"
  | Fixture_panics fixture_panic
  | Storage_expect

definition validate_trial_names :: "bool \<Rightarrow> test_def list \<Rightarrow> dyn_test list \<Rightarrow> (runner_panic, unit) result" where
  "validate_trial_names libtest_names tests dynamic =
     map_sum Duplicate_trial_names id
       (check_duplicate_trial_names (collect_trial_name_entries libtest_names tests dynamic))"

definition startup_label_filter ::
    "boolexpr \<Rightarrow> environment \<Rightarrow> label_entry list \<Rightarrow> test_runner \<Rightarrow> (runner_panic, label_filter option) result" where
  "startup_label_filter X env entries rn =
     result_bind (map_sum Bad_selection id (read_label_selection X env)) (\<lambda>selection.
     result_bind (case selection of
         Some s \<Rightarrow> if rn_require_known_labels rn
                   then map_sum Unknown_labels id (validate_known_labels entries (sel_names s)) else Inr ()
       | None \<Rightarrow> Inr ()) (\<lambda>_.
     Inr (map_option sel_filter selection)))"

section \<open>Collection\<close>

record trial =
  tr_name :: str
  tr_labels :: "label list"
  tr_serial :: str
  tr_capture :: bool
  tr_ignored :: bool
  tr_scoped :: bool     \<comment> \<open>the runner enters a test scope around a dynamic body\<close>

record collected =
  cl_trials :: "trial list"
  cl_unavailable :: "(str \<times> str) list"
  cl_metadata :: "nextest_test list"

definition metadata_entry ::
    "boolexpr \<Rightarrow> str \<Rightarrow> label list \<Rightarrow> str \<Rightarrow> (runner_panic, nextest_test) result" where
  "metadata_entry X nm labels serial = map_sum (\<lambda>_. Storage_expect)
     (\<lambda>t. \<lparr>nt_name = nm, nt_labels = map label_name labels, nt_serial = t\<rparr>) (to_storage X serial)"

text \<open>The ignored flag and the reason a test is unavailable.\<close>

definition ignore_status :: "bool \<Rightarrow> registry \<Rightarrow> test_def \<Rightarrow> (runner_panic, bool \<times> str option) result" where
  "ignore_status debug reg def =
     (if td_ignore def \<noteq> Ignore_No then Inr (True, None)
      else map_sum Fixture_panics (\<lambda>fixture_requires.
        let reasons = concat (map (\<lambda>req. case req_check req of Inl e \<Rightarrow> [e] | Inr _ \<Rightarrow> [])
                                (td_requires def @ fixture_requires))
        in if reasons = [] then (False, None) else (True, Some (join ''; '' reasons)))
        (collect_fixture_requires debug reg (td_fixture_names def)))"

definition build_inventory_trial :: "str \<Rightarrow> label list \<Rightarrow> str \<Rightarrow> bool \<Rightarrow> bool \<Rightarrow> trial" where
  "build_inventory_trial nm labels serial capture ignored =
     \<lparr>tr_name = nm, tr_labels = labels, tr_serial = serial, tr_capture = capture, tr_ignored = ignored, tr_scoped = False\<rparr>"

definition selected :: "boolexpr \<Rightarrow> label_filter option \<Rightarrow> label list \<Rightarrow> bool" where
  "selected X label_filter labels = (case label_filter of Some f \<Rightarrow> filter_matches X f labels | None \<Rightarrow> True)"

definition collect_inventory_test :: "boolexpr \<Rightarrow> bool \<Rightarrow> registry \<Rightarrow> module_labels list \<Rightarrow> bool \<Rightarrow> label_filter option \<Rightarrow> bool
    \<Rightarrow> test_def \<Rightarrow> collected \<Rightarrow> (runner_panic, collected) result" where
  "collect_inventory_test X debug reg defaults libtest_names label_filter capture def st =
     result_bind (map_sum Fixture_panics id (snd (resolve_labels_for debug reg defaults def))) (\<lambda>resolved.
     if \<not> selected X label_filter resolved then Inr st
     else let trial_name = effective_trial_name (td_module def) (td_name def) (td_display_name def) libtest_names in
       result_bind (map_sum Fixture_panics id (collect_fixture_serial debug reg (td_fixture_names def))) (\<lambda>fixture_serial.
       let effective_serial = merge_serial_filters (td_serial def) fixture_serial in
       result_bind (ignore_status debug reg def) (\<lambda>(ignored, reason).
       result_bind (if ignored then Inr []
           else map_sum id (\<lambda>m. [m]) (metadata_entry X trial_name resolved effective_serial)) (\<lambda>meta.
       Inr (st\<lparr>cl_trials := cl_trials st @ [build_inventory_trial trial_name resolved effective_serial capture ignored],
               cl_unavailable := cl_unavailable st @ (case reason of Some r \<Rightarrow> [(trial_name, r)] | None \<Rightarrow> []),
               cl_metadata := cl_metadata st @ meta\<rparr>)))))"

definition collect_dynamic_test :: "boolexpr \<Rightarrow> label_filter option \<Rightarrow> bool
    \<Rightarrow> dyn_test \<Rightarrow> collected \<Rightarrow> (runner_panic, collected) result" where
  "collect_dynamic_test X label_filter capture d st =
     (if \<not> selected X label_filter (dy_labels d) then Inr st
      else result_bind (if dy_ignored d then Inr []
          else map_sum id (\<lambda>m. [m]) (metadata_entry X (dy_name d) (dy_labels d) (dy_serial d))) (\<lambda>meta.
        Inr (st\<lparr>cl_trials := cl_trials st @ [\<lparr>tr_name = dy_name d, tr_labels = dy_labels d, tr_serial = dy_serial d,
                   tr_capture = capture, tr_ignored = dy_ignored d, tr_scoped = True\<rparr>],
                cl_metadata := cl_metadata st @ meta\<rparr>)))"

text \<open>
  \<open>fixture_registry\<close> is built on first use, by the first inventory test; \<open>iter\<close> is the iteration
  order of its map.
\<close>

definition collect_inventory_tests :: "boolexpr \<Rightarrow> bool \<Rightarrow> (registry \<Rightarrow> registry) \<Rightarrow> fixture_def list \<Rightarrow> module_labels list
    \<Rightarrow> bool \<Rightarrow> label_filter option \<Rightarrow> bool \<Rightarrow> test_def list \<Rightarrow> collected \<Rightarrow> (runner_panic, collected) result" where
  "collect_inventory_tests X debug iter fixtures defaults libtest_names label_filter capture tests st =
     (if tests = [] then Inr st
      else result_bind (map_sum Fixture_panics id (fixture_registry iter fixtures)) (\<lambda>reg.
        for_each (collect_inventory_test X debug reg defaults libtest_names label_filter capture) tests st))"

definition collect_dynamic_tests ::
    "boolexpr \<Rightarrow> label_filter option \<Rightarrow> bool \<Rightarrow> dyn_test list \<Rightarrow> collected \<Rightarrow> (runner_panic, collected) result" where
  "collect_dynamic_tests X label_filter capture dynamic st = for_each (collect_dynamic_test X label_filter capture) dynamic st"

section \<open>The run\<close>

record conclusion =
  cn_num_failed :: "64 word"

definition fail_on_violations :: "conclusion \<Rightarrow> str list \<Rightarrow> conclusion" where
  "fail_on_violations c violations =
     (if violations \<noteq> [] then c\<lparr>cn_num_failed := cn_num_failed c + of_nat (length violations)\<rparr> else c)"

record arguments =
  ar_nocapture :: bool
  ar_list :: bool
  ar_test_threads :: "nat option"

record runner_env =
  re_tests :: "test_def list"
  re_fixtures :: "fixture_def list"
  re_iter :: "registry \<Rightarrow> registry"
  re_defaults :: "module_labels list"
  re_label_entries :: "label_entry list"
  re_vars :: environment
  re_args :: "str list"
  re_parse :: "str list \<Rightarrow> arguments"
  re_metadata_path :: "str option"
  re_libtest :: "arguments \<Rightarrow> trial list \<Rightarrow> conclusion \<times> str list"  \<comment> \<open>with the violations recorded meanwhile\<close>
  re_debug :: bool

definition effective_arguments :: "arguments \<Rightarrow> arguments" where
  "effective_arguments args = (if \<not> ar_nocapture args then args\<lparr>ar_test_threads := Some 1\<rparr> else args)"

record run_report =
  rp_conclusion :: conclusion
  rp_unavailable :: "(str \<times> str) list"
  rp_dump :: "(str \<times> nextest_test list) option"
  rp_arguments :: arguments
  rp_trials :: "trial list"

definition run_tests :: "boolexpr \<Rightarrow> runner_env \<Rightarrow> test_runner \<Rightarrow> (runner_panic, run_report) result" where
  "run_tests X re rn =
     result_bind (map_sum Bad_label_registry id (check_label_registry (re_label_entries re))) (\<lambda>_.
     result_bind (startup_label_filter X (re_vars re) (re_label_entries re) rn) (\<lambda>label_filter.
     result_bind (map_sum Bad_serial_filters id (validate_serial_filters X (re_tests re) (re_fixtures re))) (\<lambda>_.
     result_bind (validate_trial_names (rn_libtest_names rn) (re_tests re) (rn_dynamic rn)) (\<lambda>_.
     let remaining_args = filter (\<lambda>a. a \<notin> set (rn_strip rn)) (re_args re);
         args = effective_arguments (re_parse re remaining_args);
         capture = (\<not> ar_nocapture args)
     in
     result_bind (collect_inventory_tests X (re_debug re) (re_iter re) (re_fixtures re) (re_defaults re)
         (rn_libtest_names rn) label_filter capture (re_tests re)
         \<lparr>cl_trials = [], cl_unavailable = [], cl_metadata = []\<rparr>) (\<lambda>st1.
     result_bind (collect_dynamic_tests X label_filter capture (rn_dynamic rn) st1) (\<lambda>st.
     case re_libtest re args (cl_trials st) of (conclusion, violations) \<Rightarrow>
     Inr \<lparr>rp_conclusion = fail_on_violations conclusion violations,
          rp_unavailable = cl_unavailable st,
          rp_dump = (if ar_list args then map_option (\<lambda>path. (path, cl_metadata st)) (re_metadata_path re) else None),
          rp_arguments = args, rp_trials = cl_trials st\<rparr>))))))"

end
