(* ===== verification/Metadata.thy ===== *)
theory Metadata
  imports Test_Def
begin

text \<open>
  The serializable description of tests and fixtures (\<open>src/src/metadata.rs\<close>), which the built-in
  \<open>metadata\<close> fixture hands to a test.
\<close>

record requirement_info =
  ri_name :: str
  ri_met :: bool
  ri_reason :: "str option"

definition from_requirement :: "requirement \<Rightarrow> requirement_info" where
  "from_requirement req = (case req_check req of
       Inr _ \<Rightarrow> \<lparr>ri_name = req_name req, ri_met = True, ri_reason = None\<rparr>
     | Inl e \<Rightarrow> \<lparr>ri_name = req_name req, ri_met = False, ri_reason = Some e\<rparr>)"

record fixture_metadata =
  fm_name :: str
  fm_scope :: str
  fm_serial :: str
  fm_deps :: "str list"
  fm_labels :: "str list"
  fm_type_name :: str
  fm_requires :: "requirement_info list"

definition scope_text :: "fixture_scope \<Rightarrow> str" where
  "scope_text s = (case s of Variable \<Rightarrow> ''variable'' | Test \<Rightarrow> ''test'' | Process \<Rightarrow> ''process'')"

definition fixture_from_def :: "bool \<Rightarrow> registry \<Rightarrow> fixture_def \<Rightarrow> (fixture_panic, fixture_metadata) result" where
  "fixture_from_def debug reg def = map_sum id (\<lambda>labels.
     \<lparr>fm_name = fx_name def, fm_scope = scope_text (fx_scope def), fm_serial = fx_serial def, fm_deps = fx_deps def,
      fm_labels = map label_name labels, fm_type_name = fx_type_name def,
      fm_requires = map from_requirement (fx_requires def)\<rparr>) (fixture_labels_of debug reg def)"

record meta_test =
  mt_name :: str
  mt_module :: str
  mt_display_name :: "str option"
  mt_serial :: str
  mt_labels :: "str list"
  mt_ignore :: str
  mt_should_panic :: str
  mt_fixtures :: "fixture_metadata list"
  mt_requires :: "requirement_info list"

definition ignore_text :: "ignore \<Rightarrow> str" where
  "ignore_text i = (case i of Ignore_No \<Rightarrow> ''no'' | Ignore_Yes \<Rightarrow> ''yes'' | Ignore_WithReason r \<Rightarrow> ''yes: '' @ r)"

definition should_panic_text :: "should_panic \<Rightarrow> str" where
  "should_panic_text p = (case p of Panic_No \<Rightarrow> ''no'' | Panic_Yes \<Rightarrow> ''yes'' | Panic_WithMessage m \<Rightarrow> ''yes: '' @ m)"

text \<open>The fixtures a test names directly; unregistered names are skipped.\<close>

definition push_fixture_meta :: "bool \<Rightarrow> registry \<Rightarrow> str \<Rightarrow> fixture_metadata list \<Rightarrow> (fixture_panic, fixture_metadata list) result" where
  "push_fixture_meta debug reg nm acc = (case map_of reg nm of
       None \<Rightarrow> Inr acc
     | Some d \<Rightarrow> map_sum id (\<lambda>m. acc @ [m]) (fixture_from_def debug reg d))"

definition test_from_def :: "bool \<Rightarrow> registry \<Rightarrow> module_labels list \<Rightarrow> test_def \<Rightarrow> (fixture_panic, meta_test) result" where
  "test_from_def debug reg defaults def =
     result_bind (for_each (push_fixture_meta debug reg) (td_fixture_names def) []) (\<lambda>fixture_metas.
     result_bind (collect_fixture_serial debug reg (td_fixture_names def)) (\<lambda>fixture_serial.
     result_bind (snd (resolve_labels_for debug reg defaults def)) (\<lambda>labels.
     Inr \<lparr>mt_name = td_name def, mt_module = td_module def, mt_display_name = td_display_name def,
          mt_serial = merge_serial_filters (td_serial def) fixture_serial, mt_labels = map label_name labels,
          mt_ignore = ignore_text (td_ignore def), mt_should_panic = should_panic_text (td_should_panic def),
          mt_fixtures = fixture_metas, mt_requires = map from_requirement (td_requires def)\<rparr>)))"

datatype metadata_panic = Outside_test | No_test_def str str | Metadata_fixture_panic fixture_panic

text \<open>\<open>test_registry\<close> collects the inventory into a map, so the last definition of a key stays.\<close>

definition test_registry :: "test_def list \<Rightarrow> str \<times> str \<Rightarrow> test_def option" where
  "test_registry tests = map_of (rev (map (\<lambda>d. ((td_name d, td_module d), d)) tests))"

definition from_current :: "bool \<Rightarrow> registry \<Rightarrow> module_labels list \<Rightarrow> test_def list \<Rightarrow> (str \<times> str) option
    \<Rightarrow> (metadata_panic, meta_test) result" where
  "from_current debug reg defaults tests current = (case current of
       None \<Rightarrow> Inl Outside_test
     | Some ct \<Rightarrow> (case test_registry tests ct of
           None \<Rightarrow> Inl (No_test_def (fst ct) (snd ct))
         | Some d \<Rightarrow> map_sum Metadata_fixture_panic id (test_from_def debug reg defaults d)))"

end
