(* ===== verification/Runner_Props.thy ===== *)
theory Runner_Props
  imports Runner Metadata
begin

text \<open>
  The properties of the runner: unique trial names, the trials and the nextest metadata agree,
  startup accepts exactly what it should, and the report lines of a trial stay outside its
  capture.
\<close>

section \<open>Loops that collect\<close>

lemma for_each_Cons_Inr:
  "for_each f (x # xs) st = Inr st' \<longleftrightarrow> (\<exists>st1. f x st = Inr st1 \<and> for_each f xs st1 = Inr st')"
  by (auto split: sum.splits)

lemma for_each_invariant:
  assumes "for_each f xs st = Inr st'" "P st"
    and "\<And>x st st'. x \<in> set xs \<Longrightarrow> P st \<Longrightarrow> f x st = Inr st' \<Longrightarrow> P st'"
  shows "P st'"
  using assms
proof (induction xs arbitrary: st)
  case (Cons x xs)
  obtain st1 where st1: "f x st = Inr st1" "for_each f xs st1 = Inr st'"
    using Cons.prems(1) by (auto simp: for_each_Cons_Inr simp del: for_each.simps)
  have "P st1" using Cons.prems(3) [of x st st1] st1(1) Cons.prems(2) by simp
  then show ?case using Cons.IH [OF st1(2)] Cons.prems(3) by auto
qed simp

text \<open>A loop that appends at most one name per element yields a subsequence of the names.\<close>

lemma for_each_names:
  assumes "for_each f xs st = Inr st'"
    and "\<And>x st st'. x \<in> set xs \<Longrightarrow> f x st = Inr st' \<Longrightarrow> names st' = names st \<or> names st' = names st @ [nm x]"
  shows "\<exists>ys. names st' = names st @ ys \<and> subseq ys (map nm xs)"
  using assms
proof (induction xs arbitrary: st)
  case (Cons x xs)
  obtain st1 where st1: "f x st = Inr st1" "for_each f xs st1 = Inr st'"
    using Cons.prems(1) by (auto simp: for_each_Cons_Inr simp del: for_each.simps)
  obtain ys where ys: "names st' = names st1 @ ys" "subseq ys (map nm xs)"
    using Cons.IH [OF st1(2)] Cons.prems(2) by auto
  show ?case
  proof (cases "names st1 = names st")
    case True
    then show ?thesis using ys by auto
  next
    case False
    then have "names st1 = names st @ [nm x]" using Cons.prems(2) [of x st st1] st1(1) by auto
    then show ?thesis using ys by (intro exI [of _ "nm x # ys"]) auto
  qed
qed auto

lemma for_each_total:
  assumes "\<And>x st. x \<in> set xs \<Longrightarrow> \<exists>st'. f x st = Inr st'"
  shows "\<exists>st'. for_each f xs st = Inr st'"
  using assms
proof (induction xs arbitrary: st)
  case (Cons x xs)
  obtain st1 where "f x st = Inr st1" using Cons.prems [of x st] by auto
  then show ?case using Cons by auto
qed simp

section \<open>What the collection keeps\<close>

definition collected_ok :: "boolexpr \<Rightarrow> label_filter option \<Rightarrow> bool \<Rightarrow> collected \<Rightarrow> bool" where
  "collected_ok X label_filter capture st \<longleftrightarrow>
     map (\<lambda>t. metadata_entry X (tr_name t) (tr_labels t) (tr_serial t)) (filter (\<lambda>t. \<not> tr_ignored t) (cl_trials st))
       = map Inr (cl_metadata st)
     \<and> (\<forall>t \<in> set (cl_trials st). selected X label_filter (tr_labels t) \<and> tr_capture t = capture)
     \<and> (\<forall>(n, reason) \<in> set (cl_unavailable st). \<exists>t \<in> set (cl_trials st). tr_ignored t \<and> tr_name t = n)"

lemmas collect_step_simps = result_bind_Inr map_sum_Inr_iff Let_def

lemma ignore_status_reason: "ignore_status debug reg def = Inr (ignored, Some reason) \<Longrightarrow> ignored"
  by (auto simp: ignore_status_def map_sum_Inr_iff Let_def split: if_splits)

lemma collect_inventory_test_ok:
  assumes ok: "collected_ok X label_filter capture st"
    and run: "collect_inventory_test X debug reg defaults libtest label_filter capture def st = Inr st'"
  shows "collected_ok X label_filter capture st'"
    and "map tr_name (cl_trials st') = map tr_name (cl_trials st)
      \<or> map tr_name (cl_trials st') = map tr_name (cl_trials st)
          @ [effective_trial_name (td_module def) (td_name def) (td_display_name def) libtest]"
proof -
  let ?nm = "effective_trial_name (td_module def) (td_name def) (td_display_name def) libtest"
  obtain resolved where r: "snd (resolve_labels_for debug reg defaults def) = Inr resolved"
    using run by (auto simp: collect_inventory_test_def collect_step_simps)
  have "collected_ok X label_filter capture st' \<and> (map tr_name (cl_trials st') = map tr_name (cl_trials st)
      \<or> map tr_name (cl_trials st') = map tr_name (cl_trials st) @ [?nm])"
  proof (cases "selected X label_filter resolved")
    case False
    then show ?thesis using run ok r by (simp add: collect_inventory_test_def)
  next
    case True
    then obtain fs ignored reason meta where
        fs: "collect_fixture_serial debug reg (td_fixture_names def) = Inr fs"
        "ignore_status debug reg def = Inr (ignored, reason)"
        "(if ignored then Inr [] else map_sum id (\<lambda>m. [m]) (metadata_entry X ?nm resolved (merge_serial_filters (td_serial def) fs))) = Inr meta"
      and st': "st' = st\<lparr>cl_trials := cl_trials st @ [build_inventory_trial ?nm resolved (merge_serial_filters (td_serial def) fs) capture ignored],
         cl_unavailable := cl_unavailable st @ (case reason of Some r \<Rightarrow> [(?nm, r)] | None \<Rightarrow> []),
         cl_metadata := cl_metadata st @ meta\<rparr>"
      using run r by (auto simp: collect_inventory_test_def collect_step_simps)
    have "reason = None \<or> ignored" using fs(2) ignore_status_reason by (cases reason) auto
    then show ?thesis using ok fs(3) True unfolding st'
      by (auto simp: collected_ok_def build_inventory_trial_def map_sum_Inr_iff split: if_splits)
  qed
  then show "collected_ok X label_filter capture st'" "map tr_name (cl_trials st') = map tr_name (cl_trials st)
      \<or> map tr_name (cl_trials st') = map tr_name (cl_trials st) @ [?nm]" by blast+
qed

lemma collect_dynamic_test_ok:
  assumes ok: "collected_ok X label_filter capture st" and run: "collect_dynamic_test X label_filter capture d st = Inr st'"
  shows "collected_ok X label_filter capture st'"
    and "map tr_name (cl_trials st') = map tr_name (cl_trials st) \<or> map tr_name (cl_trials st') = map tr_name (cl_trials st) @ [dy_name d]"
proof -
  have "collected_ok X label_filter capture st' \<and> (map tr_name (cl_trials st') = map tr_name (cl_trials st)
      \<or> map tr_name (cl_trials st') = map tr_name (cl_trials st) @ [dy_name d])"
  proof (cases "selected X label_filter (dy_labels d)")
    case True
    then obtain meta where "(if dy_ignored d then Inr []
          else map_sum id (\<lambda>m. [m]) (metadata_entry X (dy_name d) (dy_labels d) (dy_serial d))) = Inr meta"
      and st': "st' = st\<lparr>cl_trials := cl_trials st @ [\<lparr>tr_name = dy_name d, tr_labels = dy_labels d, tr_serial = dy_serial d,
                   tr_capture = capture, tr_ignored = dy_ignored d, tr_scoped = True\<rparr>], cl_metadata := cl_metadata st @ meta\<rparr>"
      using run by (auto simp: collect_dynamic_test_def collect_step_simps)
    then show ?thesis using ok True unfolding st'
      by (auto simp: collected_ok_def map_sum_Inr_iff split: if_splits)
  qed (use run ok in \<open>simp add: collect_dynamic_test_def\<close>)
  then show "collected_ok X label_filter capture st'" "map tr_name (cl_trials st') = map tr_name (cl_trials st)
      \<or> map tr_name (cl_trials st') = map tr_name (cl_trials st) @ [dy_name d]" by blast+
qed

lemma collection_ok:
  assumes inv: "collect_inventory_tests X debug iter fixtures defaults libtest label_filter capture tests
      \<lparr>cl_trials = [], cl_unavailable = [], cl_metadata = []\<rparr> = Inr st1"
    and dyn: "collect_dynamic_tests X label_filter capture dynamic st1 = Inr st"
  shows "collected_ok X label_filter capture st"
    and "subseq (map tr_name (cl_trials st)) (map fst (collect_trial_name_entries libtest tests dynamic))"
proof -
  let ?st0 = "\<lparr>cl_trials = [], cl_unavailable = [], cl_metadata = []\<rparr>"
  let ?nm = "\<lambda>def. effective_trial_name (td_module def) (td_name def) (td_display_name def) libtest"
  have ok0: "collected_ok X label_filter capture ?st0" by (simp add: collected_ok_def)
  have one: "collected_ok X label_filter capture st1 \<and> (\<exists>ys. map tr_name (cl_trials st1) = ys \<and> subseq ys (map ?nm tests))"
  proof (cases "tests = []")
    case True
    then show ?thesis using inv ok0 by (auto simp: collect_inventory_tests_def)
  next
    case False
    then obtain reg where loop: "for_each (collect_inventory_test X debug reg defaults libtest label_filter capture) tests ?st0 = Inr st1"
      using inv by (auto simp: collect_inventory_tests_def collect_step_simps)
    let ?P = "\<lambda>s. collected_ok X label_filter capture s"
    have "?P st1" by (rule for_each_invariant [where P = ?P, OF loop ok0]) (rule collect_inventory_test_ok(1))
    moreover have "\<exists>ys. map tr_name (cl_trials st1) = map tr_name (cl_trials ?st0) @ ys \<and> subseq ys (map ?nm tests)"
    proof (rule for_each_names [OF loop])
      fix x s s' assume "collect_inventory_test X debug reg defaults libtest label_filter capture x s = Inr s'"
      then show "map tr_name (cl_trials s') = map tr_name (cl_trials s) \<or> map tr_name (cl_trials s') = map tr_name (cl_trials s) @ [?nm x]"
        by (auto simp: collect_inventory_test_def collect_step_simps build_inventory_trial_def split: if_splits)
    qed
    ultimately show ?thesis by simp
  qed
  have loop: "for_each (collect_dynamic_test X label_filter capture) dynamic st1 = Inr st" using dyn by (simp add: collect_dynamic_tests_def)
  show "collected_ok X label_filter capture st"
    by (rule for_each_invariant [where P = "collected_ok X label_filter capture", OF loop conjunct1 [OF one]]) (rule collect_dynamic_test_ok(1))
  have "\<exists>ys. map tr_name (cl_trials st) = map tr_name (cl_trials st1) @ ys \<and> subseq ys (map dy_name dynamic)"
  proof (rule for_each_names [OF loop])
    fix x s s' assume "collect_dynamic_test X label_filter capture x s = Inr s'"
    then show "map tr_name (cl_trials s') = map tr_name (cl_trials s) \<or> map tr_name (cl_trials s') = map tr_name (cl_trials s) @ [dy_name x]"
      by (auto simp: collect_dynamic_test_def collect_step_simps split: if_splits)
  qed
  then obtain ys where ys: "map tr_name (cl_trials st) = map tr_name (cl_trials st1) @ ys" "subseq ys (map dy_name dynamic)" by blast
  have "map fst (collect_trial_name_entries libtest tests dynamic) = map ?nm tests @ map dy_name dynamic"
    by (simp add: collect_trial_name_entries_def)
  then show "subseq (map tr_name (cl_trials st)) (map fst (collect_trial_name_entries libtest tests dynamic))"
    using one ys by (simp add: list_emb_append_mono)
qed

lemma check_duplicate_trial_names_ok: "check_duplicate_trial_names entries = Inr () \<longleftrightarrow> distinct (map fst entries)"
  by (simp add: check_duplicate_trial_names_def Let_def duplicate_buckets_empty)

lemma subseq_distinct: "subseq xs ys \<Longrightarrow> distinct ys \<Longrightarrow> distinct xs"
  by (metis subseq_conv_nths distinct_nthsI)

section \<open>Names\<close>

lemma split_once_module:
  assumes "CHR '':'' \<notin> set crate"
  shows "split_once (crate @ ''::'' @ rest) ''::'' = Some (crate, rest)"
  using assms by (induction crate) (auto simp: starts_with_def)

lemma split_once_no_colon: "CHR '':'' \<notin> set s \<Longrightarrow> split_once s ''::'' = None"
  by (induction s) (auto simp: starts_with_def split: option.splits)

lemma last_segment:
  assumes "r @ ''::'' @ n = r' @ ''::'' @ n'" "CHR '':'' \<notin> set n" "CHR '':'' \<notin> set n'"
  shows "r = r' \<and> n = n'"
proof -
  have "rev n @ ''::'' @ rev r = rev n' @ ''::'' @ rev r'" using assms(1) by (metis append.assoc rev_append rev_rev_ident rev.simps(1) rev.simps(2) append_Nil)
  then have "takeWhile (\<lambda>c. c \<noteq> CHR '':'') (rev n @ ''::'' @ rev r) = takeWhile (\<lambda>c. c \<noteq> CHR '':'') (rev n' @ ''::'' @ rev r')" by simp
  moreover have "takeWhile (\<lambda>c. c \<noteq> CHR '':'') (rev m) = rev m" if "CHR '':'' \<notin> set m" for m
    using that by (auto simp: takeWhile_eq_all_conv)
  ultimately have "rev n = rev n'" using assms(2,3) by (simp add: takeWhile_tail)
  then show ?thesis using assms(1) by simp
qed

section \<open>Stdio around a trial\<close>

text \<open>
  The discipline of the report: nothing is written to stderr between redirecting and restoring
  it, and it ends restored.
\<close>

fun stdio_ok :: "bool \<Rightarrow> run_event list \<Rightarrow> bool" where
  "stdio_ok captured [] = (\<not> captured)"
| "stdio_ok captured (Capture_on # es) = (\<not> captured \<and> stdio_ok True es)"
| "stdio_ok captured (Capture_off # es) = (captured \<and> stdio_ok False es)"
| "stdio_ok captured (Thread_ran # es) = stdio_ok captured es"
| "stdio_ok captured (Stderr s # es) = (\<not> captured \<and> stdio_ok captured es)"

lemma stdio_ok_lines: "stdio_ok False (map Stderr ls @ es) = stdio_ok False es"
  by (induction ls) auto

lemma stdio_ok_debug [simp]: "stdio_ok False (skuld_debug_eprintln io s @ es) = stdio_ok False es"
  by (simp add: skuld_debug_eprintln_def eprintln_def)

lemma stdio_ok_dump [simp]: "stdio_ok False (dump_captured_bytes nm bytes)"
  using stdio_ok_lines [of "dump_captured_bytes_to nm bytes" "[]"] by (simp add: dump_captured_bytes_def)


lemma stdio_ok_eprintln [simp]: "stdio_ok captured (eprintln s # es) = (\<not> captured \<and> stdio_ok captured es)"
  by (simp add: eprintln_def)




section \<open>Properties\<close>




lemma run_tests_InrE:
  assumes "run_tests X re rn = Inr rp"
  obtains label_filter st1 st where
    "check_label_registry (re_label_entries re) = Inr ()"
    "startup_label_filter X (re_vars re) (re_label_entries re) rn = Inr label_filter"
    "validate_serial_filters X (re_tests re) (re_fixtures re) = Inr ()"
    "check_duplicate_trial_names (collect_trial_name_entries (rn_libtest_names rn) (re_tests re) (rn_dynamic rn)) = Inr ()"
    "rp_arguments rp = effective_arguments (re_parse re (filter (\<lambda>a. a \<notin> set (rn_strip rn)) (re_args re)))"
    "collect_inventory_tests X (re_debug re) (re_iter re) (re_fixtures re) (re_defaults re) (rn_libtest_names rn) label_filter
       (\<not> ar_nocapture (rp_arguments rp)) (re_tests re) \<lparr>cl_trials = [], cl_unavailable = [], cl_metadata = []\<rparr> = Inr st1"
    "collect_dynamic_tests X label_filter (\<not> ar_nocapture (rp_arguments rp)) (rn_dynamic rn) st1 = Inr st"
    "rp_trials rp = cl_trials st" "rp_unavailable rp = cl_unavailable st"
    "rp_dump rp = (if ar_list (rp_arguments rp) then map_option (\<lambda>path. (path, cl_metadata st)) (re_metadata_path re) else None)"
    "rp_conclusion rp = (case re_libtest re (rp_arguments rp) (cl_trials st) of (c, vs) \<Rightarrow> fail_on_violations c vs)"
  using assms
  by (auto simp: run_tests_def validate_trial_names_def result_bind_Inr map_sum_Inr_iff Let_def case_prod_beta)

text \<open>
  C14: the trials a run executes.  When \<open>run_tests\<close> gets as far as running, no two trials have the
  same name, each carries labels the label filter selects, the capture setting is the same for
  all and forces one thread when on, tests reported unavailable are among the ignored trials, and
  the metadata written for nextest is, in order, exactly the trials that are not ignored, each
  with the canonical form of the serial filter it will be coordinated under.
\<close>

theorem run_tests_trials:
  assumes "run_tests X re rn = Inr rp"
  shows "distinct (map tr_name (rp_trials rp))
    \<and> (\<exists>label_filter. startup_label_filter X (re_vars re) (re_label_entries re) rn = Inr label_filter
         \<and> (\<forall>t \<in> set (rp_trials rp). selected X label_filter (tr_labels t)))
    \<and> (\<forall>t \<in> set (rp_trials rp). tr_capture t = (\<not> ar_nocapture (rp_arguments rp)))
    \<and> (\<not> ar_nocapture (rp_arguments rp) \<longrightarrow> ar_test_threads (rp_arguments rp) = Some 1)
    \<and> (\<forall>(n, reason) \<in> set (rp_unavailable rp). \<exists>t \<in> set (rp_trials rp). tr_ignored t \<and> tr_name t = n)
    \<and> (\<forall>path metadata. rp_dump rp = Some (path, metadata) \<longrightarrow>
         map (\<lambda>t. metadata_entry X (tr_name t) (tr_labels t) (tr_serial t)) (filter (\<lambda>t. \<not> tr_ignored t) (rp_trials rp))
           = map Inr metadata)"
proof -
  obtain label_filter st1 st where r:
    "startup_label_filter X (re_vars re) (re_label_entries re) rn = Inr label_filter"
    "check_duplicate_trial_names (collect_trial_name_entries (rn_libtest_names rn) (re_tests re) (rn_dynamic rn)) = Inr ()"
    "rp_arguments rp = effective_arguments (re_parse re (filter (\<lambda>a. a \<notin> set (rn_strip rn)) (re_args re)))"
    "collect_inventory_tests X (re_debug re) (re_iter re) (re_fixtures re) (re_defaults re) (rn_libtest_names rn) label_filter
       (\<not> ar_nocapture (rp_arguments rp)) (re_tests re) \<lparr>cl_trials = [], cl_unavailable = [], cl_metadata = []\<rparr> = Inr st1"
    "collect_dynamic_tests X label_filter (\<not> ar_nocapture (rp_arguments rp)) (rn_dynamic rn) st1 = Inr st"
    "rp_trials rp = cl_trials st" "rp_unavailable rp = cl_unavailable st"
    "rp_dump rp = (if ar_list (rp_arguments rp) then map_option (\<lambda>path. (path, cl_metadata st)) (re_metadata_path re) else None)"
    using run_tests_InrE [OF assms] by metis
  note ok = collection_ok [OF r(4,5)]
  have "distinct (map tr_name (cl_trials st))"
    using subseq_distinct [OF ok(2)] r(2) by (simp add: check_duplicate_trial_names_ok)
  moreover have "\<not> ar_nocapture (rp_arguments rp) \<longrightarrow> ar_test_threads (rp_arguments rp) = Some 1"
    by (simp add: r(3) effective_arguments_def)
  ultimately show ?thesis using ok(1) r(1,6-8) by (auto simp: collected_ok_def split: if_splits)
qed

definition demo_runner_env :: runner_env where
  "demo_runner_env = \<lparr>re_tests = [\<lparr>td_name = ''t'', td_module = ''krate::m'', td_display_name = None, td_requires = [],
        td_fixture_names = [], td_ignore = Ignore_No, td_labels = [], td_labels_explicit = True, td_serial = ''*'',
        td_should_panic = Panic_No\<rparr>],
     re_fixtures = [], re_iter = (\<lambda>m. m), re_defaults = [], re_label_entries = [], re_vars = (\<lambda>_. NotPresent), re_args = [''bin''],
     re_parse = (\<lambda>_. \<lparr>ar_nocapture = False, ar_list = True, ar_test_threads = None\<rparr>), re_metadata_path = Some ''meta.json'',
     re_libtest = (\<lambda>_ _. (\<lparr>cn_num_failed = 0\<rparr>, [])), re_debug = True\<rparr>"

lemma demo_run: "\<exists>rp. run_tests ref_boolexpr demo_runner_env (set_libtest_names (runner_add ''d'' [] False runner_new)) = Inr rp
    \<and> map tr_name (rp_trials rp) = [''m::t'', ''d'']"
proof -
  have "case run_tests ref_boolexpr demo_runner_env (set_libtest_names (runner_add ''d'' [] False runner_new)) of
      Inr rp \<Rightarrow> map tr_name (rp_trials rp) = [''m::t'', ''d''] | Inl _ \<Rightarrow> False"
    by code_simp
  then show ?thesis by (auto split: sum.splits)
qed

theorem run_tests_trials_witness:
  "\<exists>rp. run_tests ref_boolexpr demo_runner_env (set_libtest_names (runner_add ''d'' [] False runner_new)) = Inr rp
    \<and> map tr_name (rp_trials rp) = [''m::t'', ''d''] \<and> distinct (map tr_name (rp_trials rp))"
proof -
  obtain rp where rp: "run_tests ref_boolexpr demo_runner_env (set_libtest_names (runner_add ''d'' [] False runner_new)) = Inr rp"
    "map tr_name (rp_trials rp) = [''m::t'', ''d'']" using demo_run by (elim exE conjE)
  have "distinct (map tr_name (rp_trials rp))" by (rule run_tests_trials [OF rp(1), THEN conjunct1])
  with rp show ?thesis by (intro exI [of _ rp] conjI)
qed




text \<open>Tests added at run time have a filter that parses: none, \<open>*\<close>, or a printed filter.\<close>

lemma runner_add_valid:
  assumes "boolexpr_crate X" "filter_ok X f"
  shows "serial_valid X (display_filter f)"
  using boolexpr_crate.display_parse [OF assms] by (simp add: serial_valid_def)



text \<open>A module path as \<open>module_path!()\<close> gives it: the crate name, alone or followed by \<open>::\<close> and the rest.\<close>

definition module_of_crate :: "str \<Rightarrow> str \<Rightarrow> bool" where
  "module_of_crate krate module \<longleftrightarrow> CHR '':'' \<notin> set krate \<and> (module = krate \<or> (\<exists>rest. module = krate @ ''::'' @ rest))"

lemma effective_trial_name_module:
  assumes "CHR '':'' \<notin> set krate"
  shows "effective_trial_name krate nm None True = nm"
    and "effective_trial_name (krate @ ''::'' @ rest) nm None True = rest @ ''::'' @ nm"
  using assms split_once_module [OF assms, of rest] by (simp_all add: effective_trial_name_def split_once_no_colon)

text \<open>
  Libtest-style names are unambiguous.  With \<open>libtest_names\<close> on, two functions of the same crate
  (a function name has no colon) get the same trial name only if they are the same function of the
  same module; so the startup check can only fail on explicit display names or dynamic tests.
\<close>

theorem libtest_names_injective:
  assumes "module_of_crate krate m" "module_of_crate krate m'" "CHR '':'' \<notin> set nm" "CHR '':'' \<notin> set nm'"
    and "effective_trial_name m nm None True = effective_trial_name m' nm' None True"
  shows "m = m' \<and> nm = nm'"
proof -
  have k: "CHR '':'' \<notin> set krate" using assms(1) by (simp add: module_of_crate_def)
  note eff = effective_trial_name_module [OF k]
  have colon: "nm \<noteq> rest @ ''::'' @ nm'" "nm' \<noteq> rest @ ''::'' @ nm" for rest using assms(3,4) by auto
  consider "m = krate" "m' = krate" | r where "m = krate" "m' = krate @ ''::'' @ r" | r where "m = krate @ ''::'' @ r" "m' = krate"
    | r r' where "m = krate @ ''::'' @ r" "m' = krate @ ''::'' @ r'"
    using assms(1,2) by (auto simp: module_of_crate_def)
  then show ?thesis
  proof cases
    case 1
    then show ?thesis using assms(5) eff by simp
  next
    case (2 r)
    then have "nm = r @ ''::'' @ nm'" using assms(5) eff(1) [of nm] eff(2) [of r nm'] by simp
    then show ?thesis using colon by blast
  next
    case (3 r)
    then have "nm' = r @ ''::'' @ nm" using assms(5) eff(1) [of nm'] eff(2) [of r nm] by simp
    then show ?thesis using colon by blast
  next
    case (4 r r')
    then have "r @ ''::'' @ nm = r' @ ''::'' @ nm'" using assms(5) eff(2) [of r nm] eff(2) [of r' nm'] by simp
    then show ?thesis using last_segment [OF _ assms(3,4)] 4 by blast
  qed
qed

theorem libtest_names_injective_witness:
  "effective_trial_name ''k::a'' ''t'' None True \<noteq> effective_trial_name ''k::b'' ''t'' None True"
proof
  assume e: "effective_trial_name ''k::a'' ''t'' None True = effective_trial_name ''k::b'' ''t'' None True"
  have "module_of_crate ''k'' ''k::a''" "module_of_crate ''k'' ''k::b''" by (simp_all add: module_of_crate_def)
  then have "''k::a'' = ''k::b''" using libtest_names_injective [OF _ _ _ _ e, of "''k''"] by simp
  then show False by simp
qed

text \<open>
  A coordination failure that was only a warning still fails the run.  If cleanups recorded
  violations, the number of failed tests grows by exactly their number, as long as it fits the
  64-bit counter, so a run that had no failure is failed; without violations nothing changes.
\<close>

theorem violations_fail_the_run:
  assumes "unat (cn_num_failed c) + length violations < 2 ^ 64"
  shows "unat (cn_num_failed (fail_on_violations c violations)) = unat (cn_num_failed c) + length violations"
proof -
  have "unat (of_nat (length violations) :: 64 word) = length violations"
    using assms by (simp add: unat_of_nat take_bit_nat_eq_self)
  then show ?thesis using assms by (simp add: fail_on_violations_def unat_add_lem [THEN iffD1])
qed

theorem violations_fail_the_run_witness:
  "unat (cn_num_failed (fail_on_violations \<lparr>cn_num_failed = 0\<rparr> [''moved''])) = 1"
  using violations_fail_the_run [of "\<lparr>cn_num_failed = 0\<rparr>" "[''moved'']"] by simp

section \<open>The metadata fixture\<close>

lemma walk_total_valid:
  "validate_fixture_graph reg = Inr () \<Longrightarrow> \<exists>ds. walk_fixture_deps_in debug reg names = Inr ds"
  using walk_all_total [of reg debug names] by (auto simp: validate_fixture_graph_iff)

lemma fixture_metas_total:
  assumes "validate_fixture_graph reg = Inr ()"
  shows "\<exists>ms. for_each (push_fixture_meta debug reg) names acc = Inr ms"
proof (rule for_each_total)
  fix nm acc
  have m: "\<exists>m. fixture_from_def debug reg d = Inr m" for d
    using walk_total_valid [OF assms, of debug "fx_deps d"]
    by (auto simp: fixture_from_def_def fixture_labels_of_def collect_fixture_labels_def)
  show "\<exists>st'. push_fixture_meta debug reg nm acc = Inr st'"
  proof (cases "map_of reg nm")
    case (Some d)
    then show ?thesis using m [of d] by (auto simp: push_fixture_meta_def)
  qed (simp add: push_fixture_meta_def)
qed

lemma test_registry_unique:
  assumes "distinct (map (\<lambda>d. (td_name d, td_module d)) tests)" "def \<in> set tests"
  shows "test_registry tests (td_name def, td_module def) = Some def"
proof -
  have "distinct (map fst (rev (map (\<lambda>d. ((td_name d, td_module d), d)) tests)))"
    using assms(1) by (simp add: rev_map [symmetric] comp_def)
  then show ?thesis using assms(2) unfolding test_registry_def by (intro map_of_is_SomeI) auto
qed

text \<open>
  The \<open>metadata\<close> fixture tells a test what it runs under.  For a test the runner made a trial
  of, asking for the metadata inside its body returns the description of that very test, with the
  serial filter and the labels its trial is coordinated under.
\<close>

theorem metadata_describes_trial:
  assumes "validate_fixture_graph reg = Inr ()" "distinct (map (\<lambda>d. (td_name d, td_module d)) tests)" "def \<in> set tests"
    and "collect_inventory_test X debug reg defaults libtest label_filter capture def st = Inr st'"
    and "cl_trials st' = cl_trials st @ [t]"
  shows "\<exists>m. from_current debug reg defaults tests (Some (td_name def, td_module def)) = Inr m
    \<and> mt_name m = td_name def \<and> mt_serial m = tr_serial t \<and> mt_labels m = map label_name (tr_labels t)"
proof -
  obtain resolved where r: "snd (resolve_labels_for debug reg defaults def) = Inr resolved"
    using assms(4) by (auto simp: collect_inventory_test_def collect_step_simps)
  obtain fs where fs: "collect_fixture_serial debug reg (td_fixture_names def) = Inr fs"
      "tr_serial t = merge_serial_filters (td_serial def) fs" "tr_labels t = resolved"
    using assms(4,5) r
    by (auto simp: collect_inventory_test_def collect_step_simps build_inventory_trial_def split: if_splits)
  obtain ms where ms: "for_each (push_fixture_meta debug reg) (td_fixture_names def) [] = Inr ms"
    using fixture_metas_total [OF assms(1)] by blast
  show ?thesis
    by (simp add: from_current_def test_registry_unique [OF assms(2,3)] test_from_def_def ms fs r)
qed

theorem metadata_describes_trial_witness:
  "\<exists>m. from_current True [] [] (re_tests demo_runner_env) (Some (''t'', ''krate::m'')) = Inr m \<and> mt_serial m = ''*''"
proof -
  define def where "def = hd (re_tests demo_runner_env)"
  define t where "t = build_inventory_trial ''t'' [] ''*'' True False"
  have tests: "re_tests demo_runner_env = [def]" "td_name def = ''t''" "td_module def = ''krate::m''"
    by (simp_all add: def_def demo_runner_env_def)
  have run: "collect_inventory_test ref_boolexpr True [] [] False None True def \<lparr>cl_trials = [], cl_unavailable = [], cl_metadata = []\<rparr>
      = Inr \<lparr>cl_trials = [t], cl_unavailable = [], cl_metadata = [\<lparr>nt_name = ''t'', nt_labels = [], nt_serial = ''*''\<rparr>]\<rparr>"
    unfolding def_def t_def by code_simp
  have "validate_fixture_graph [] = Inr ()" by (simp add: validate_fixture_graph_def)
  from metadata_describes_trial [OF this _ _ run, of "[def]" t]
  show ?thesis by (simp add: tests t_def build_inventory_trial_def) blast
qed

end
