(* ===== verification/Version.thy ===== *)
theory Version
  imports Prelude "HOL-Library.Word"
begin

text \<open>
  The release check of the workspace (\<open>src/xtask/src\<close>): the shared version of the publishable
  members and their exact pins, the nearest ancestor version tags by breadth-first search over the
  commits, the successor relation on versions, and the \<open>version\<close> command.

  \<open>cargo metadata\<close>, the git repository and the semver parser are outside the repository; they are
  the arguments \<open>packages\<close>, \<open>git\<close> and \<open>parse_version\<close>.  Version components are 64-bit words;
  \<open>debug\<close> is \<open>overflow-checks\<close>, under which an overflowing addition panics.
\<close>

record version =
  ver_major :: "64 word"
  ver_minor :: "64 word"
  ver_patch :: "64 word"
  ver_pre :: str
  ver_build :: str

definition show_version :: "version \<Rightarrow> str" where
  "show_version v = show_nat (unat (ver_major v)) @ ''.'' @ show_nat (unat (ver_minor v)) @ ''.'' @ show_nat (unat (ver_patch v))
     @ (if ver_pre v = [] then [] else ''-'' @ ver_pre v) @ (if ver_build v = [] then [] else ''+'' @ ver_build v)"

datatype dep_kind = Normal | Development | Build

record dependency =
  dep_name :: str
  dep_kind :: dep_kind
  dep_req :: str

record package =
  pk_name :: str
  pk_manifest :: str
  pk_version :: version
  pk_publish :: "str list option"
  pk_deps :: "dependency list"

datatype version_error =
    Not_strict str version
  | Members_disagree str version str version
  | No_members
  | Bad_pin str str str
  | No_ancestor_tags
  | No_matching_tag version "str list"
  | Not_a_successor version "str list"
  | Git_error str
  | Metadata_error str
  | No_workspace_root
  | Overflow_panic

section \<open>The workspace version\<close>

definition publishable_members :: "package list \<Rightarrow> package list" where
  "publishable_members packages = filter (\<lambda>p. pk_publish p \<noteq> Some []) packages"

definition strict_version :: "version \<Rightarrow> bool" where
  "strict_version v \<longleftrightarrow> ver_pre v = [] \<and> ver_build v = []"

definition agree_on_version :: "package \<Rightarrow> package option \<Rightarrow> (version_error, package option) result" where
  "agree_on_version package shared =
     (if \<not> strict_version (pk_version package) then Inl (Not_strict (pk_manifest package) (pk_version package))
      else case shared of
        None \<Rightarrow> Inr (Some package)
      | Some first \<Rightarrow>
          if pk_version first \<noteq> pk_version package
          then Inl (Members_disagree (pk_manifest first) (pk_version first) (pk_manifest package) (pk_version package))
          else Inr shared)"

definition check_pin :: "str set \<Rightarrow> str \<Rightarrow> package \<Rightarrow> dependency \<Rightarrow> unit \<Rightarrow> (version_error, unit) result" where
  "check_pin names want package d _ =
     (if dep_kind d = Development then Inr ()
      else if dep_name d \<notin> names then Inr ()
      else if dep_req d \<noteq> want then Inl (Bad_pin (pk_manifest package) (dep_name d) (dep_req d))
      else Inr ())"

definition assert_intra_workspace_pins :: "package list \<Rightarrow> version \<Rightarrow> (version_error, unit) result" where
  "assert_intra_workspace_pins publishable expected =
     for_each (\<lambda>package. for_each (check_pin (set (map pk_name publishable)) (''='' @ show_version expected) package) (pk_deps package))
       publishable ()"

definition workspace_version :: "(str, package list) result \<Rightarrow> (version_error, version) result" where
  "workspace_version metadata =
     result_bind (map_sum Metadata_error id metadata) (\<lambda>packages.
     let publishable = publishable_members packages in
     result_bind (for_each agree_on_version publishable None) (\<lambda>shared.
     case shared of
       None \<Rightarrow> Inl No_members
     | Some first \<Rightarrow> map_sum id (\<lambda>_. pk_version first) (assert_intra_workspace_pins publishable (pk_version first))))"

section \<open>Successors\<close>

definition add_one :: "bool \<Rightarrow> 64 word \<Rightarrow> (version_error, 64 word) result" where
  "add_one debug x = (if debug \<and> x = - 1 then Inl Overflow_panic else Inr (x + 1))"

text \<open>The disjunction of \<open>is_valid_next\<close>, left to right with short-circuiting.\<close>

definition is_valid_next :: "bool \<Rightarrow> version \<Rightarrow> version \<Rightarrow> (version_error, bool) result" where
  "is_valid_next debug tag cur =
     (if cur = tag then Inr True
      else
        result_bind (if ver_major cur = ver_major tag \<and> ver_minor cur = ver_minor tag
                     then map_sum id (\<lambda>p. ver_patch cur = p) (add_one debug (ver_patch tag)) else Inr False) (\<lambda>patch_bump.
        if patch_bump then Inr True
        else
        result_bind (if ver_major cur = ver_major tag
                     then map_sum id (\<lambda>m. ver_minor cur = m \<and> ver_patch cur = 0) (add_one debug (ver_minor tag)) else Inr False) (\<lambda>minor_bump.
        if minor_bump then Inr True
        else map_sum id (\<lambda>m. ver_major cur = m \<and> ver_minor cur = 0 \<and> ver_patch cur = 0) (add_one debug (ver_major tag)))))"

record 'c tag_info =
  ti_name :: str
  ti_sha :: 'c
  ti_version :: version

fun any_valid_next :: "bool \<Rightarrow> 'c tag_info list \<Rightarrow> version \<Rightarrow> (version_error, bool) result" where
  "any_valid_next debug [] cur = Inr False"
| "any_valid_next debug (t # ts) cur =
     result_bind (is_valid_next debug (ti_version t) cur) (\<lambda>ok. if ok then Inr True else any_valid_next debug ts cur)"

definition validate_cargo_against_nearest :: "bool \<Rightarrow> version \<Rightarrow> 'c tag_info list \<Rightarrow> bool \<Rightarrow> (version_error, unit) result" where
  "validate_cargo_against_nearest debug cargo_ver nearest exact =
     (if nearest = [] then (if exact then Inl No_ancestor_tags else Inr ())
      else if exact then
        (if \<not> list_ex (\<lambda>t. ti_version t = cargo_ver) nearest then Inl (No_matching_tag cargo_ver (map ti_name nearest)) else Inr ())
      else result_bind (any_valid_next debug nearest cargo_ver) (\<lambda>ok.
        if \<not> ok then Inl (Not_a_successor cargo_ver (map ti_name nearest)) else Inr ()))"

section \<open>Nearest ancestor tags\<close>

datatype 'c peeled = Peel_failed str | Not_a_commit | Commit_id 'c

record 'c tag_ref =
  gr_name :: str
  gr_target :: "'c peeled"

record 'c git =
  git_open :: "(str, unit) result"
  git_tags :: "(str, (str, 'c tag_ref) result list) result"
  git_head :: "'c option"
  git_commits :: "('c \<times> 'c list) list"     \<comment> \<open>commits with their parents\<close>

definition insert_tag :: "(str \<Rightarrow> version option) \<Rightarrow> (str, 'c tag_ref) result \<Rightarrow> ('c \<times> 'c tag_info list) list
    \<Rightarrow> (version_error, ('c \<times> 'c tag_info list) list) result" where
  "insert_tag parse_version r m = result_bind (map_sum Git_error id r) (\<lambda>reference.
     case strip_prefix (gr_name reference) ''v'' of
       None \<Rightarrow> Inr m
     | Some s \<Rightarrow> (case parse_version s of
           None \<Rightarrow> Inr m
         | Some v \<Rightarrow>
             if \<not> strict_version v then Inr m
             else case gr_target reference of
               Peel_failed e \<Rightarrow> Inl (Git_error e)
             | Not_a_commit \<Rightarrow> Inr m
             | Commit_id sha \<Rightarrow> Inr (bucket_push sha \<lparr>ti_name = gr_name reference, ti_sha = sha, ti_version = v\<rparr> m)))"

definition build_tag_map ::
    "(str \<Rightarrow> version option) \<Rightarrow> 'c git \<Rightarrow> (version_error, ('c \<times> 'c tag_info list) list) result" where
  "build_tag_map parse_version repo = result_bind (map_sum Git_error id (git_tags repo)) (\<lambda>refs.
     for_each (insert_tag parse_version) refs [])"

text \<open>
  The breadth-first search.  It terminates because a commit is expanded only once: either the set
  of unvisited commits or the queue shrinks.
\<close>

lemma unvisited_le:
  "card (fst ` set commits - insert c visited) < card (fst ` set commits - visited)
     \<or> card (fst ` set commits - insert c visited) = card (fst ` set commits - visited)"
  by (rule le_imp_less_or_eq, rule card_mono) auto

lemma unvisited_less:
  assumes "map_of commits c = Some parents" "c \<notin> visited"
  shows "card (fst ` set commits - insert c visited) < card (fst ` set commits - visited)"
proof (rule psubset_card_mono)
  have "c \<in> fst ` set commits" using assms(1) by (force dest: map_of_SomeD)
  then show "fst ` set commits - insert c visited \<subset> fst ` set commits - visited" using assms(2) by auto
qed simp

function bfs :: "('c \<times> 'c list) list \<Rightarrow> ('c \<Rightarrow> 'c tag_info list option) \<Rightarrow> 'c set \<Rightarrow> 'c list \<Rightarrow> 'c tag_info list \<Rightarrow> 'c tag_info list" where
  "bfs commits tags visited [] nearest = nearest"
| "bfs commits tags visited (c # queue) nearest =
     (if c \<in> visited then bfs commits tags visited queue nearest
      else case tags c of
        Some ts \<Rightarrow> bfs commits tags (insert c visited) queue (nearest @ ts)
      | None \<Rightarrow> (case map_of commits c of
            None \<Rightarrow> bfs commits tags (insert c visited) queue nearest
          | Some parents \<Rightarrow>
              bfs commits tags (insert c visited) (queue @ filter (\<lambda>p. p \<notin> insert c visited) parents) nearest))"
  by pat_completeness auto
termination
  by (relation "measures [\<lambda>(commits, tags, visited, queue, nearest). card (fst ` set commits - visited),
      \<lambda>(commits, tags, visited, queue, nearest). length queue]") (auto simp: unvisited_le unvisited_less)

definition nearest_ancestor_version_tags ::
    "(str \<Rightarrow> version option) \<Rightarrow> 'c git \<Rightarrow> (version_error, 'c tag_info list) result" where
  "nearest_ancestor_version_tags parse_version repo =
     result_bind (map_sum Git_error id (git_open repo)) (\<lambda>_.
     result_bind (build_tag_map parse_version repo) (\<lambda>tag_map.
     case git_head repo of
       None \<Rightarrow> Inr []
     | Some head \<Rightarrow> Inr (bfs (git_commits repo) (map_of tag_map) {} [head] [])))"

section \<open>The command\<close>

definition validate_against_tag :: "bool \<Rightarrow> (str \<Rightarrow> version option) \<Rightarrow> (str, package list) result \<Rightarrow> 'c git \<Rightarrow> bool
    \<Rightarrow> (version_error, version) result" where
  "validate_against_tag debug parse_version metadata repo exact =
     result_bind (workspace_version metadata) (\<lambda>cargo_ver.
     result_bind (nearest_ancestor_version_tags parse_version repo) (\<lambda>nearest.
     map_sum id (\<lambda>_. cargo_ver) (validate_cargo_against_nearest debug cargo_ver nearest exact)))"

text \<open>
  A path is the list of its components; \<open>read\<close> is the content of a file, if it is one and can be
  read as text; the executable's path may be unknown.
\<close>

fun lines_of :: "str \<Rightarrow> str list" where
  "lines_of [] = []"
| "lines_of (c # s) = (case lines_of s of
       [] \<Rightarrow> if c = CHR 0x0A then [[]] else [[c]]
     | l # ls \<Rightarrow> if c = CHR 0x0A then [] # l # ls else (c # l) # ls)"

fun search_up :: "(str list \<Rightarrow> str option) \<Rightarrow> str list \<Rightarrow> str list option" where
  "search_up read [] = None"
| "search_up read (c # rev_parents) =
     (case read (rev rev_parents @ [''Cargo.toml'']) of
        Some s \<Rightarrow> if list_ex (\<lambda>l. starts_with (trim_with white_space l) ''[workspace]'') (lines_of s)
                  then Some (rev rev_parents) else search_up read rev_parents
      | None \<Rightarrow> search_up read rev_parents)"

definition repo_root :: "str list option \<Rightarrow> (str list \<Rightarrow> bool) \<Rightarrow> (str list \<Rightarrow> str option) \<Rightarrow> (str, str list) result
    \<Rightarrow> (version_error, str list) result" where
  "repo_root manifest_dir is_file read current_exe =
     (case manifest_dir of
        Some d \<Rightarrow> if d \<noteq> [] \<and> is_file (butlast d @ [''Cargo.toml'']) then Inr (butlast d)
                  else result_bind (map_sum Metadata_error id current_exe) (\<lambda>exe.
                    case search_up read (rev exe) of Some root \<Rightarrow> Inr root | None \<Rightarrow> Inl No_workspace_root)
      | None \<Rightarrow> result_bind (map_sum Metadata_error id current_exe) (\<lambda>exe.
          case search_up read (rev exe) of Some root \<Rightarrow> Inr root | None \<Rightarrow> Inl No_workspace_root))"

definition run_version :: "bool \<Rightarrow> (str \<Rightarrow> version option) \<Rightarrow> (version_error, str list) result
    \<Rightarrow> (str list \<Rightarrow> (str, package list) result) \<Rightarrow> (str list \<Rightarrow> 'c git) \<Rightarrow> bool \<Rightarrow> bool \<Rightarrow> (version_error, str) result" where
  "run_version debug parse_version root metadata repo check exact =
     result_bind root (\<lambda>repo_root.
     map_sum id show_version
       (if check then validate_against_tag debug parse_version (metadata repo_root) (repo repo_root) exact
        else workspace_version (metadata repo_root)))"

end
