(* ===== verification/Version_Props.thy ===== *)
theory Version_Props
  imports Version
begin

text \<open>
  The properties of the release check: what the search for the nearest tags returns, which
  versions are accepted, and what an accepted workspace guarantees.
\<close>

section \<open>The search\<close>

definition expands :: "('c \<times> 'c list) list \<Rightarrow> ('c \<Rightarrow> 'c tag_info list option) \<Rightarrow> ('c \<times> 'c) set" where
  "expands commits tags = {(a, b). tags a = None \<and> (\<exists>ps. map_of commits a = Some ps \<and> b \<in> set ps)}"

definition tags_of :: "('c \<Rightarrow> 'c tag_info list option) \<Rightarrow> 'c set \<Rightarrow> 'c tag_info set" where
  "tags_of tags C = {t. \<exists>c \<in> C. \<exists>ts. tags c = Some ts \<and> t \<in> set ts}"

text \<open>Leaving the visited commits means passing the queue.\<close>

lemma leaves_through_queue:
  assumes "E `` V \<subseteq> V \<union> Q" "(x, y) \<in> E\<^sup>*" "x \<in> V" "y \<notin> V"
  shows "\<exists>z \<in> Q. (z, y) \<in> E\<^sup>*"
  using assms(2-4)
proof (induction rule: converse_rtrancl_induct)
  case (step x z)
  then have "z \<in> V \<union> Q" using assms(1) by blast
  then show ?case using step by blast
qed simp

lemma bfs_exact:
  assumes "expands commits tags `` visited \<subseteq> visited \<union> set queue"
  shows "set (bfs commits tags visited queue nearest)
    = set nearest \<union> tags_of tags ((expands commits tags)\<^sup>* `` set queue - visited)"
  using assms
proof (induction commits tags visited queue nearest rule: bfs.induct)
  case (1 commits tags visited nearest)
  then show ?case by (simp add: tags_of_def)
next
  case (2 commits tags visited c queue nearest)
  let ?E = "expands commits tags"
  show ?case
  proof (cases "c \<in> visited")
    case True
    have cl: "?E `` visited \<subseteq> visited \<union> set queue" using "2.prems" True by auto
    have "?E\<^sup>* `` set (c # queue) - visited = ?E\<^sup>* `` set queue - visited"
      using leaves_through_queue [OF cl _ True] by auto
    then show ?thesis using "2.IH"(1) [OF True cl] True by simp
  next
    case new: False
    show ?thesis
    proof (cases "tags c")
      case (Some ts)
      have no: "?E `` {c} = {}" using Some by (auto simp: expands_def)
      then have cl: "?E `` insert c visited \<subseteq> insert c visited \<union> set queue" using "2.prems" by auto
      have "?E\<^sup>* `` {c} = {c}" using no by (auto elim: converse_rtranclE)
      then have "?E\<^sup>* `` set (c # queue) - visited = insert c (?E\<^sup>* `` set queue - insert c visited)" using new by auto
      then have "tags_of tags (?E\<^sup>* `` set (c # queue) - visited) = set ts \<union> tags_of tags (?E\<^sup>* `` set queue - insert c visited)"
        using Some by (auto simp: tags_of_def)
      then show ?thesis using "2.IH"(4) [OF new Some cl] new Some by auto
    next
      case None
      have drop: "tags_of tags (insert c S) = tags_of tags S" for S using None by (auto simp: tags_of_def)
      define more where "more = (case map_of commits c of None \<Rightarrow> [] | Some ps \<Rightarrow> filter (\<lambda>p. p \<notin> insert c visited) ps)"
      have succ: "?E `` {c} \<subseteq> insert c visited \<union> set more"
        by (auto simp: expands_def more_def split: option.splits)
      have cl: "?E `` insert c visited \<subseteq> insert c visited \<union> set (queue @ more)" using "2.prems" succ by auto
      have more: "set more \<subseteq> ?E `` {c}" using None by (cases "map_of commits c") (auto simp: expands_def more_def)
      have "?E\<^sup>* `` set (queue @ more) - insert c visited = ?E\<^sup>* `` set (c # queue) - insert c visited"
      proof
        show "?E\<^sup>* `` set (queue @ more) - insert c visited \<subseteq> ?E\<^sup>* `` set (c # queue) - insert c visited"
          using more by (auto intro: converse_rtrancl_into_rtrancl)
        show "?E\<^sup>* `` set (c # queue) - insert c visited \<subseteq> ?E\<^sup>* `` set (queue @ more) - insert c visited"
          using leaves_through_queue [OF cl, of c] by auto
      qed
      moreover have split: "?E\<^sup>* `` set (c # queue) - visited = insert c (?E\<^sup>* `` set (c # queue) - insert c visited)"
        using new by auto
      ultimately have "tags_of tags (?E\<^sup>* `` set (queue @ more) - insert c visited) = tags_of tags (?E\<^sup>* `` set (c # queue) - visited)"
        using drop [of "?E\<^sup>* `` set (c # queue) - insert c visited"] split by simp
      then show ?thesis using "2.IH"(2,3) [OF new None] cl new None
        by (cases "map_of commits c") (auto simp: more_def)
    qed
  qed
qed

section \<open>Properties\<close>

text \<open>
  The nearest tags are those reached before any other tag.  The search from HEAD terminates
  and returns exactly the version tags of the commits that some path of parents reaches through
  untagged commits only, whatever the shape of the history.
\<close>

theorem nearest_tags_exact:
  "set (bfs commits tags {} [head] []) = {t. \<exists>c ts. (head, c) \<in> (expands commits tags)\<^sup>* \<and> tags c = Some ts \<and> t \<in> set ts}"
  using bfs_exact [of commits tags "{}" "[head]" "[]"] by (auto simp: tags_of_def)

definition demo_version :: "64 word \<Rightarrow> 64 word \<Rightarrow> 64 word \<Rightarrow> version" where
  "demo_version a b c = \<lparr>ver_major = a, ver_minor = b, ver_patch = c, ver_pre = [], ver_build = []\<rparr>"

definition demo_tag :: "nat \<Rightarrow> 64 word \<Rightarrow> nat tag_info" where
  "demo_tag c major = \<lparr>ti_name = ''v'' @ show_nat (unat major) @ ''.0.0'', ti_sha = c, ti_version = demo_version major 0 0\<rparr>"

text \<open>
  A branch that forked at \<open>v1.0.0\<close> (commit 0) is merged at HEAD (commit 3) after \<open>v2.0.0\<close> (commit 2)
  was released on the main line: the search also reports \<open>v1.0.0\<close>, although the tagged commit 2 is
  a descendant of it in HEAD's history, and \<open>1.0.1\<close> passes the check.
\<close>

theorem superseded_tag_reported:
  "let commits = [(3, [2, 1]), (2, [0]), (1, [0]), (0, [])];
       tags = map_of [(2, [demo_tag 2 2]), (0, [demo_tag 0 1])];
       nearest = bfs commits tags {} [3] []
   in nearest = [demo_tag 2 2, demo_tag 0 1]
      \<and> validate_cargo_against_nearest True (demo_version 1 0 1) nearest False = Inr ()"
proof -
  let ?commits = "[(3, [2, 1]), (2, [0]), (1, [0]), (0, [])] :: (nat \<times> nat list) list"
  let ?tags = "map_of [(2, [demo_tag 2 2]), (0, [demo_tag 0 1])] :: nat \<Rightarrow> nat tag_info list option"
  have n: "bfs ?commits ?tags {} [3] [] = [demo_tag 2 2, demo_tag 0 1]" by simp
  have "validate_cargo_against_nearest True (demo_version 1 0 1) [demo_tag 2 2, demo_tag 0 1] False = Inr ()"
    by (simp add: validate_cargo_against_nearest_def is_valid_next_def add_one_def demo_tag_def demo_version_def)
  then show ?thesis by (simp only: Let_def n simp_thms)
qed

lemma add_one_ok: "x \<noteq> - 1 \<Longrightarrow> add_one debug x = Inr (x + 1)"
  by (simp add: add_one_def)

definition bump_patch :: "version \<Rightarrow> version" where
  "bump_patch v = v\<lparr>ver_patch := ver_patch v + 1\<rparr>"

definition bump_minor :: "version \<Rightarrow> version" where
  "bump_minor v = v\<lparr>ver_minor := ver_minor v + 1, ver_patch := 0\<rparr>"

definition bump_major :: "version \<Rightarrow> version" where
  "bump_major v = v\<lparr>ver_major := ver_major v + 1, ver_minor := 0, ver_patch := 0\<rparr>"

lemma is_valid_next_iff:
  assumes "strict_version tag" "strict_version cur" "ver_major tag \<noteq> - 1" "ver_minor tag \<noteq> - 1" "ver_patch tag \<noteq> - 1"
  shows "is_valid_next debug tag cur = Inr (cur \<in> {tag, bump_patch tag, bump_minor tag, bump_major tag})"
  using assms
  by (cases tag; cases cur)
     (auto simp: is_valid_next_def add_one_ok strict_version_def bump_patch_def bump_minor_def bump_major_def)

definition version_key :: "version \<Rightarrow> nat \<times> nat \<times> nat" where
  "version_key v = (unat (ver_major v), unat (ver_minor v), unat (ver_patch v))"

definition key_less :: "nat \<times> nat \<times> nat \<Rightarrow> nat \<times> nat \<times> nat \<Rightarrow> bool" where
  "key_less a b \<longleftrightarrow> fst a < fst b \<or> fst a = fst b \<and> (fst (snd a) < fst (snd b)
     \<or> fst (snd a) = fst (snd b) \<and> snd (snd a) < snd (snd b))"

lemma unat_inc: "(x :: 64 word) \<noteq> - 1 \<Longrightarrow> unat (x + 1) = Suc (unat x)"
  using unatSuc [of x] by (simp add: add.commute add_eq_0_iff)

text \<open>
  A version is accepted as the successor of a tag exactly when it is the tag's own version or
  its patch, minor or major bump; with components below the 64-bit maximum the comparison cannot
  panic, and each bump is a strictly later version.
\<close>

theorem is_valid_next_exact:
  assumes "strict_version tag" "strict_version cur" "ver_major tag \<noteq> - 1" "ver_minor tag \<noteq> - 1" "ver_patch tag \<noteq> - 1"
  shows "is_valid_next debug tag cur = Inr (cur \<in> {tag, bump_patch tag, bump_minor tag, bump_major tag})
    \<and> (\<forall>v \<in> {bump_patch tag, bump_minor tag, bump_major tag}. key_less (version_key tag) (version_key v))"
  using is_valid_next_iff [OF assms] assms(3-5)
  by (simp add: key_less_def version_key_def bump_patch_def bump_minor_def bump_major_def unat_inc)

theorem is_valid_next_exact_witness:
  "is_valid_next True (demo_version 1 2 3) (demo_version 1 3 0) = Inr True
   \<and> is_valid_next True (demo_version 1 2 3) (demo_version 1 4 0) = Inr False"
  using is_valid_next_exact [of "demo_version 1 2 3" "demo_version 1 3 0" True]
    is_valid_next_exact [of "demo_version 1 2 3" "demo_version 1 4 0" True]
  by (simp add: strict_version_def demo_version_def bump_patch_def bump_minor_def bump_major_def)

text \<open>At the maximum the addition wraps without overflow checks, and an older version is accepted.\<close>

lemma is_valid_next_wraps:
  "is_valid_next False (demo_version 1 2 (- 1)) (demo_version 1 2 0) = Inr True
   \<and> is_valid_next True (demo_version 1 2 (- 1)) (demo_version 1 2 0) = Inl Overflow_panic"
  by (simp add: is_valid_next_def add_one_def demo_version_def)

end
