(* ===== verification/Env_Cwd.thy ===== *)
theory Env_Cwd
  imports Effects
begin

text \<open>
  The built-in fixtures that change process-wide state and put it back: \<open>EnvGuard\<close>
  (\<open>src/fixtures/env.rs\<close>) and \<open>CwdGuard\<close> (\<open>src/fixtures/cwd.rs\<close>).  Each guard is a stack kept in a
  mutex; the operations are methods on a shared reference, so a caller that catches a panic may go
  on using the guard, and the guard is dropped when the test's scope ends.  The locale
  \<open>restoring_guard\<close> states what makes such a guard correct; both are interpretations of it.
\<close>

section \<open>A guard that restores what it changes\<close>

text \<open>The operations a test performs, one after the other, whatever each of them returns.\<close>

primrec run_ops :: "('op \<Rightarrow> ('s, 'e, unit) eff) \<Rightarrow> 'op list \<Rightarrow> 's \<Rightarrow> 's" where
  "run_ops step [] s = s"
| "run_ops step (x # xs) s = run_ops step xs (snd (step x s))"

locale restoring_guard =
  fixes observe :: "'s \<Rightarrow> 'o" and step :: "'op \<Rightarrow> ('s, 'e, unit) eff" and fin :: "('s, 'e, unit) eff"
    and allowed :: "'op \<Rightarrow> bool" and usable :: "'s \<Rightarrow> bool" and undoes :: "'o \<Rightarrow> 's \<Rightarrow> bool"
  assumes step_undoes: "undoes orig s \<Longrightarrow> allowed x \<Longrightarrow> undoes orig (snd (step x s))"
    and fin_restores: "undoes orig s \<Longrightarrow> usable s \<Longrightarrow> \<exists>s'. fin s = (Inr (), s') \<and> observe s' = orig"
begin

lemma run_ops_undoes: "undoes orig s \<Longrightarrow> list_all allowed xs \<Longrightarrow> undoes orig (run_ops step xs s)"
  by (induction xs arbitrary: s) (auto dest: step_undoes)

lemma restores:
  assumes "undoes orig s" "list_all allowed xs" "usable (run_ops step xs s)"
  shows "\<exists>s'. fin (run_ops step xs s) = (Inr (), s') \<and> observe s' = orig"
  using fin_restores [OF run_ops_undoes] assms by blast

end

section \<open>Environment variables\<close>

datatype guard_panic =
    Set_var_panic str
  | Remove_var_panic str
  | Current_dir_failed str
  | Set_current_dir_failed str str
  | No_previous_directory
  | Mutex_poisoned
  | Guard_abort

text \<open>
  The process environment and the guard's record of old values.  No statement of the module panics
  while it holds the mutex of \<open>EnvGuard\<close>, so \<open>lock().unwrap()\<close> always succeeds there.
\<close>

record env_state =
  es_vars :: "str \<Rightarrow> str option"
  es_original :: "(str \<times> str option) list"

text \<open>The names and values that \<open>std::env::set_var\<close> and \<open>remove_var\<close> accept on Unix; they panic on others.\<close>

definition valid_key :: "str \<Rightarrow> bool" where
  "valid_key k \<longleftrightarrow> k \<noteq> [] \<and> CHR ''='' \<notin> set k \<and> CHR 0x00 \<notin> set k"

definition valid_value :: "str \<Rightarrow> bool" where
  "valid_value v \<longleftrightarrow> CHR 0x00 \<notin> set v"

definition set_var :: "str \<Rightarrow> str \<Rightarrow> (env_state, guard_panic, unit) eff" where
  "set_var k v s =
     (if valid_key k \<and> valid_value v then (Inr (), s\<lparr>es_vars := (es_vars s)(k := Some v)\<rparr>)
      else (Inl (Set_var_panic k), s))"

definition remove_var :: "str \<Rightarrow> (env_state, guard_panic, unit) eff" where
  "remove_var k s =
     (if valid_key k then (Inr (), s\<lparr>es_vars := (es_vars s)(k := None)\<rparr>)
      else (Inl (Remove_var_panic k), s))"

definition env_guard_new :: "(str \<Rightarrow> str option) \<Rightarrow> env_state" where
  "env_guard_new vars = \<lparr>es_vars = vars, es_original = []\<rparr>"

definition record_old :: "str \<Rightarrow> (env_state, guard_panic, unit) eff" where
  "record_old k = modify (\<lambda>s. s\<lparr>es_original := es_original s @ [(k, es_vars s k)]\<rparr>)"

definition env_set :: "str \<Rightarrow> str \<Rightarrow> (env_state, guard_panic, unit) eff" where
  "env_set k v = eff_bind (record_old k) (\<lambda>_. set_var k v)"

definition env_remove :: "str \<Rightarrow> (env_state, guard_panic, unit) eff" where
  "env_remove k = eff_bind (record_old k) (\<lambda>_. remove_var k)"

primrec revert_all :: "(str \<times> str option) list \<Rightarrow> (env_state, guard_panic, unit) eff" where
  "revert_all [] = ret ()"
| "revert_all (e # es) = eff_bind (case snd e of Some v \<Rightarrow> set_var (fst e) v | None \<Rightarrow> remove_var (fst e))
     (\<lambda>_. revert_all es)"

definition env_guard_drop :: "(env_state, guard_panic, unit) eff" where
  "env_guard_drop s = revert_all (rev (es_original s)) s"

datatype env_op = Env_set str str | Env_remove str

primrec env_step :: "env_op \<Rightarrow> (env_state, guard_panic, unit) eff" where
  "env_step (Env_set k v) = env_set k v"
| "env_step (Env_remove k) = env_remove k"

primrec env_op_key :: "env_op \<Rightarrow> str" where
  "env_op_key (Env_set k v) = k"
| "env_op_key (Env_remove k) = k"

text \<open>What the operating system promises of an environment: its names and values are valid ones.\<close>

definition env_wf :: "(str \<Rightarrow> str option) \<Rightarrow> bool" where
  "env_wf vars \<longleftrightarrow> (\<forall>k v. vars k = Some v \<longrightarrow> valid_key k \<and> valid_value v)"

definition entry_ok :: "str \<times> str option \<Rightarrow> bool" where
  "entry_ok e \<longleftrightarrow> valid_key (fst e) \<and> (\<forall>v. snd e = Some v \<longrightarrow> valid_value v)"

definition undo_entries :: "(str \<times> str option) list \<Rightarrow> (str \<Rightarrow> str option) \<Rightarrow> str \<Rightarrow> str option" where
  "undo_entries es vars = fold (\<lambda>e m. m(fst e := snd e)) es vars"

definition env_undoes :: "(str \<Rightarrow> str option) \<Rightarrow> env_state \<Rightarrow> bool" where
  "env_undoes orig s \<longleftrightarrow> env_wf (es_vars s) \<and> list_all entry_ok (es_original s)
     \<and> undo_entries (rev (es_original s)) (es_vars s) = orig"

lemma env_wf_upd:
  "env_wf vars \<Longrightarrow> valid_key k \<Longrightarrow> (\<And>v. w = Some v \<Longrightarrow> valid_value v) \<Longrightarrow> env_wf (vars(k := w))"
  by (auto simp: env_wf_def)

lemma revert_all_undoes:
  "list_all entry_ok es \<Longrightarrow> revert_all es s = (Inr (), s\<lparr>es_vars := undo_entries es (es_vars s)\<rparr>)"
  by (induction es arbitrary: s)
     (auto simp: undo_entries_def entry_ok_def set_var_def remove_var_def eff_bind_def split: option.split)

lemma record_old_undoes:
  "env_undoes orig s \<Longrightarrow> valid_key k \<Longrightarrow> env_undoes orig (snd (record_old k s))"
  by (auto simp: env_undoes_def record_old_def undo_entries_def entry_ok_def env_wf_def)

lemma env_step_undoes:
  assumes "env_undoes orig s" "valid_key (env_op_key x)"
  shows "env_undoes orig (snd (env_step x s))"
  using assms record_old_undoes [OF assms]
  by (cases x)
     (auto simp: env_undoes_def record_old_def env_set_def env_remove_def set_var_def remove_var_def
        undo_entries_def intro!: env_wf_upd)

interpretation env_guard: restoring_guard es_vars env_step env_guard_drop "\<lambda>x. valid_key (env_op_key x)" "\<lambda>_. True" env_undoes
proof unfold_locales
  fix orig s
  assume "env_undoes orig s"
  then show "\<exists>s'. env_guard_drop s = (Inr (), s') \<and> es_vars s' = orig"
    by (simp add: env_guard_drop_def revert_all_undoes env_undoes_def)
qed (rule env_step_undoes)

section \<open>The working directory\<close>

text \<open>
  The operating system is a parameter: what \<open>getcwd\<close> answers in a location and where \<open>chdir\<close> leads
  from it.  \<open>cs_poisoned\<close> is the poison flag of the guard's mutex: \<open>back\<close> runs \<open>expect\<close> while the lock
  guard, a temporary of the same statement, is alive, so the panic there poisons the mutex.
\<close>

record 'l dir_os =
  os_getcwd :: "'l \<Rightarrow> (str, str) result"
  os_chdir :: "'l \<Rightarrow> str \<Rightarrow> (str, 'l) result"

record 'l cwd_state =
  cs_location :: 'l
  cs_stack :: "str list"
  cs_poisoned :: bool

definition cwd_guard_new :: "'l dir_os \<Rightarrow> 'l \<Rightarrow> (str, 'l cwd_state) result" where
  "cwd_guard_new os l = (case os_getcwd os l of
       Inl e \<Rightarrow> Inl (''failed to get current dir: '' @ e)
     | Inr original \<Rightarrow> Inr \<lparr>cs_location = l, cs_stack = [original], cs_poisoned = False\<rparr>)"

definition set_current_dir :: "'l dir_os \<Rightarrow> str \<Rightarrow> ('l cwd_state, guard_panic, unit) eff" where
  "set_current_dir os p s = (case os_chdir os (cs_location s) p of
       Inl e \<Rightarrow> (Inl (Set_current_dir_failed p e), s)
     | Inr l \<Rightarrow> (Inr (), s\<lparr>cs_location := l\<rparr>))"

definition cwd_set :: "'l dir_os \<Rightarrow> str \<Rightarrow> ('l cwd_state, guard_panic, unit) eff" where
  "cwd_set os p s = (case os_getcwd os (cs_location s) of
       Inl e \<Rightarrow> (Inl (Current_dir_failed e), s)
     | Inr current \<Rightarrow>
         if cs_poisoned s then (Inl Mutex_poisoned, s)
         else set_current_dir os p (s\<lparr>cs_stack := cs_stack s @ [current]\<rparr>))"

definition cwd_back :: "'l dir_os \<Rightarrow> ('l cwd_state, guard_panic, unit) eff" where
  "cwd_back os s =
     (if cs_poisoned s then (Inl Mutex_poisoned, s)
      else if cs_stack s = [] then (Inl No_previous_directory, s\<lparr>cs_poisoned := True\<rparr>)
      else set_current_dir os (last (cs_stack s)) (s\<lparr>cs_stack := butlast (cs_stack s)\<rparr>))"

definition cwd_guard_drop :: "'l dir_os \<Rightarrow> ('l cwd_state, guard_panic, unit) eff" where
  "cwd_guard_drop os s =
     (if cs_poisoned s then (Inl Mutex_poisoned, s)
      else case cs_stack s of
          [] \<Rightarrow> (Inr (), s)
        | original # _ \<Rightarrow> (Inr (), snd (set_current_dir os original s)))"

datatype cwd_op = Cwd_set str | Cwd_back

primrec cwd_step :: "'l dir_os \<Rightarrow> cwd_op \<Rightarrow> ('l cwd_state, guard_panic, unit) eff" where
  "cwd_step os (Cwd_set p) = cwd_set os p"
| "cwd_step os Cwd_back = cwd_back os"

text \<open>
  A directory that can be entered: \<open>getcwd\<close> names it, and its absolute name leads to it from anywhere.
\<close>

definition enterable :: "'l dir_os \<Rightarrow> 'l \<Rightarrow> bool" where
  "enterable os l \<longleftrightarrow> (\<exists>p. os_getcwd os l = Inr p \<and> (\<forall>c. os_chdir os c p = Inr l))"

definition cwd_undoes :: "'l dir_os \<Rightarrow> 'l \<Rightarrow> 'l cwd_state \<Rightarrow> bool" where
  "cwd_undoes os orig s \<longleftrightarrow> enterable os orig \<and> (case cs_stack s of
       [] \<Rightarrow> cs_location s = orig
     | p # _ \<Rightarrow> os_getcwd os orig = Inr p)"

lemma enterableD: "enterable os l \<Longrightarrow> os_getcwd os l = Inr p \<Longrightarrow> os_chdir os c p = Inr l"
  by (auto simp: enterable_def)

lemma set_current_dir_stack [simp]: "cs_stack (snd (set_current_dir os p s)) = cs_stack s"
  by (simp add: set_current_dir_def split: sum.split)

lemma set_current_dir_enters:
  "enterable os l \<Longrightarrow> os_getcwd os l = Inr p \<Longrightarrow> set_current_dir os p s = (Inr (), s\<lparr>cs_location := l\<rparr>)"
  by (simp add: set_current_dir_def enterableD)

lemma cwd_set_undoes: "cwd_undoes os orig s \<Longrightarrow> cwd_undoes os orig (snd (cwd_set os p s))"
  by (auto simp: cwd_undoes_def cwd_set_def split: sum.split list.splits)

lemma cwd_back_undoes:
  assumes "cwd_undoes os orig s"
  shows "cwd_undoes os orig (snd (cwd_back os s))"
proof (cases "cs_stack s")
  case Nil
  then show ?thesis using assms by (simp add: cwd_undoes_def cwd_back_def)
next
  case (Cons p ps)
  then have p: "enterable os orig" "os_getcwd os orig = Inr p" using assms by (simp_all add: cwd_undoes_def)
  show ?thesis
  proof (cases ps)
    case Nil
    then show ?thesis using Cons p by (simp add: cwd_undoes_def cwd_back_def set_current_dir_enters)
  next
    case (Cons q qs)
    then show ?thesis using \<open>cs_stack s = p # ps\<close> p by (simp add: cwd_undoes_def cwd_back_def)
  qed
qed

interpretation cwd_guard: restoring_guard cs_location "cwd_step os" "cwd_guard_drop os" "\<lambda>_. True" "\<lambda>s. \<not> cs_poisoned s"
    "cwd_undoes os" for os :: "'l dir_os"
proof unfold_locales
  fix orig s x
  assume "cwd_undoes os orig s"
  then show "cwd_undoes os orig (snd (cwd_step os x s))"
    by (cases x) (simp_all add: cwd_set_undoes cwd_back_undoes)
next
  fix orig s
  assume "cwd_undoes os orig s" "\<not> cs_poisoned s"
  then show "\<exists>s'. cwd_guard_drop os s = (Inr (), s') \<and> cs_location s' = orig"
    by (auto simp: cwd_undoes_def cwd_guard_drop_def set_current_dir_enters split: list.splits)
qed

section \<open>Properties\<close>

text \<open>
  The \<open>env\<close> fixture leaves the environment as it found it.  After any sequence of \<open>set\<close> and
  \<open>remove\<close> calls on valid names, repeated names and calls that panicked on a bad value included,
  dropping the guard does not panic and every variable has its original value or is absent again.
\<close>

theorem env_guard_restores:
  assumes "env_wf vars" "list_all (\<lambda>x. valid_key (env_op_key x)) xs"
  shows "\<exists>s. env_guard_drop (run_ops env_step xs (env_guard_new vars)) = (Inr (), s) \<and> es_vars s = vars"
  using assms by (intro env_guard.restores) (auto simp: env_undoes_def env_guard_new_def undo_entries_def)

theorem env_guard_restores_witness:
  "let vars = (\<lambda>k. if k = ''HOME'' then Some ''/root'' else None);
       xs = [Env_set ''HOME'' ''/tmp'', Env_remove ''HOME'', Env_set ''A'' ''1'', Env_set ''A'' [CHR 0x00]]
   in es_vars (run_ops env_step xs (env_guard_new vars)) = Map.empty(''A'' \<mapsto> ''1'')
      \<and> (\<exists>s. env_guard_drop (run_ops env_step xs (env_guard_new vars)) = (Inr (), s) \<and> es_vars s = vars)"
proof -
  let ?vars = "\<lambda>k. if k = ''HOME'' then Some ''/root'' else None"
  let ?xs = "[Env_set ''HOME'' ''/tmp'', Env_remove ''HOME'', Env_set ''A'' ''1'', Env_set ''A'' [CHR 0x00]]"
  have "env_wf ?vars" by (simp add: env_wf_def valid_key_def valid_value_def)
  moreover have "list_all (\<lambda>x. valid_key (env_op_key x)) ?xs" by (simp add: valid_key_def)
  ultimately have "\<exists>s. env_guard_drop (run_ops env_step ?xs (env_guard_new ?vars)) = (Inr (), s) \<and> es_vars s = ?vars"
    by (rule env_guard_restores)
  moreover have "es_vars (run_ops env_step ?xs (env_guard_new ?vars)) = Map.empty(''A'' \<mapsto> ''1'')"
    by (auto simp: env_set_def env_remove_def record_old_def set_var_def remove_var_def env_guard_new_def valid_key_def valid_value_def)
  ultimately show ?thesis by (simp only: Let_def simp_thms)
qed

text \<open>
  With an invalid name the old value is recorded before \<open>set_var\<close> panics, so the guard's \<open>Drop\<close> calls
  \<open>remove_var\<close> on the same name and panics again while unwinding, which aborts the process.
\<close>

theorem env_invalid_key_aborts:
  assumes "env_wf vars" "\<not> valid_key k"
  shows "fst (with_guard Guard_abort env_guard_drop (env_set k v) (env_guard_new vars)) = Inl Guard_abort"
proof -
  have "vars k = None" using assms by (cases "vars k") (auto simp: env_wf_def)
  then show ?thesis using assms(2)
    by (simp add: with_guard_def on_unwind_def after_unwind_def env_guard_drop_def env_set_def record_old_def
        set_var_def remove_var_def env_guard_new_def eff_bind_def)
qed

text \<open>
  The \<open>cwd\<close> fixture returns to the directory the test started in.  Whatever sequence of \<open>set\<close> and
  \<open>back\<close> calls the test makes, calls that panic because a directory cannot be entered included,
  dropping the guard does not panic and the process is in its original directory again, provided
  that directory can still be entered and \<open>back\<close> was never called on an empty stack.
\<close>

theorem cwd_guard_restores:
  assumes "enterable os l" "cwd_guard_new os l = Inr g" "\<not> cs_poisoned (run_ops (cwd_step os) xs g)"
  shows "\<exists>s. cwd_guard_drop os (run_ops (cwd_step os) xs g) = (Inr (), s) \<and> cs_location s = l"
  using assms by (intro cwd_guard.restores) (auto simp: cwd_undoes_def cwd_guard_new_def list_all_iff split: sum.splits)

definition demo_os :: "str dir_os" where
  "demo_os = \<lparr>os_getcwd = Inr, os_chdir = (\<lambda>c p. if p \<in> {''/'', ''/tmp''} then Inr p else Inl ''ENOENT'')\<rparr>"

theorem cwd_guard_restores_witness:
  "\<exists>g s. cwd_guard_new demo_os ''/'' = Inr g
    \<and> cs_location (run_ops (cwd_step demo_os) [Cwd_set ''/tmp'', Cwd_set ''/none'', Cwd_back] g) = ''/tmp''
    \<and> cwd_guard_drop demo_os (run_ops (cwd_step demo_os) [Cwd_set ''/tmp'', Cwd_set ''/none'', Cwd_back] g) = (Inr (), s)
    \<and> cs_location s = ''/''"
proof -
  let ?xs = "[Cwd_set ''/tmp'', Cwd_set ''/none'', Cwd_back]"
  let ?g = "\<lparr>cs_location = ''/'', cs_stack = [''/''], cs_poisoned = False\<rparr>"
  have r: "run_ops (cwd_step demo_os) ?xs ?g = \<lparr>cs_location = ''/tmp'', cs_stack = [''/'', ''/''], cs_poisoned = False\<rparr>"
    by (simp add: cwd_set_def cwd_back_def set_current_dir_def demo_os_def)
  have g: "cwd_guard_new demo_os ''/'' = Inr ?g" by (simp add: cwd_guard_new_def demo_os_def)
  obtain s where "cwd_guard_drop demo_os (run_ops (cwd_step demo_os) ?xs ?g) = (Inr (), s)" "cs_location s = ''/''"
  proof (rule exE)
    show "\<exists>s. cwd_guard_drop demo_os (run_ops (cwd_step demo_os) ?xs ?g) = (Inr (), s) \<and> cs_location s = ''/''"
      by (rule cwd_guard_restores [OF _ g]) (simp_all only: r enterable_def, simp_all add: demo_os_def)
  qed blast
  then show ?thesis using g r by (intro exI [of _ ?g] exI [of _ s]) (simp only: cwd_state.simps simp_thms)
qed

text \<open>
  The documentation of \<open>back\<close> promises a panic when \<open>set\<close> was never called.  The stack starts with the
  original directory in it, so that call succeeds; it is the second one that panics, and the mutex
  it poisons makes the guard's \<open>Drop\<close> panic while unwinding.
\<close>

theorem cwd_back_without_set:
  assumes "enterable os l" "cwd_guard_new os l = Inr g"
  shows "fst (cwd_back os g) = Inr ()
    \<and> fst (with_guard Guard_abort (cwd_guard_drop os) (eff_bind (cwd_back os) (\<lambda>_. cwd_back os)) g) = Inl Guard_abort"
proof -
  obtain p where p: "os_getcwd os l = Inr p" "g = \<lparr>cs_location = l, cs_stack = [p], cs_poisoned = False\<rparr>"
    using assms(2) by (auto simp: cwd_guard_new_def split: sum.splits)
  have b: "cwd_back os g = (Inr (), g\<lparr>cs_stack := []\<rparr>)"
    using p by (simp add: cwd_back_def set_current_dir_enters [OF assms(1) p(1)])
  have "cwd_back os (g\<lparr>cs_stack := []\<rparr>) = (Inl No_previous_directory, g\<lparr>cs_stack := [], cs_poisoned := True\<rparr>)"
    using p(2) by (simp add: cwd_back_def)
  then show ?thesis using b
    by (simp add: with_guard_def on_unwind_def after_unwind_def cwd_guard_drop_def eff_bind_def)
qed

end
