(* ===== verification/Syscalls.thy ===== *)
theory Syscalls
  imports Prelude "HOL-Library.Word"
begin

unbundle bit_operations_syntax

text \<open>
  The file-system side of the coordination database.  A piece of code that talks to the kernel is
  a resumption: it has returned, has panicked, or waits for the reply to a system call.  The
  kernel is a relation between a call, the file system before, the reply and the file system
  after; it leaves open what a program cannot know (which error a call fails with, which
  free inode is taken, which umask applies), so a fact about all its runs holds for every error.
  Processes share the file system and interleave between calls; whatever is not skuld is a step
  of the outside.
\<close>

type_synonym path = "str list"
type_synonym errno = int
type_synonym fd = nat
type_synonym mode = "32 word"

text \<open>The device and inode of a file.\<close>

datatype file_id = File_id (fi_dev: nat) (fi_ino: nat)

abbreviation EINTR :: errno where "EINTR \<equiv> 4"
abbreviation EEXIST :: errno where "EEXIST \<equiv> 17"
abbreviation ENOENT :: errno where "ENOENT \<equiv> 2"
abbreviation EINVAL :: errno where "EINVAL \<equiv> 22"
abbreviation ENOSYS :: errno where "ENOSYS \<equiv> 38"
abbreviation ENOTSUP :: errno where "ENOTSUP \<equiv> 95"

definition parent :: "path \<Rightarrow> path option" where
  "parent p = (if p = [] then None else Some (butlast p))"

definition file_name :: "path \<Rightarrow> str option" where
  "file_name p = (if p = [] then None else Some (last p))"

definition path_join :: "path \<Rightarrow> str \<Rightarrow> path" where
  "path_join d nm = d @ [nm]"

section \<open>Calls and programs\<close>

datatype unit_call =
    Lstat path
  | Fchmod fd mode
  | Unlink path
  | Rename_no_replace path path
  | Mkdir path mode
  | Chmod path mode
  | Rmdir path
  | Flock fd
  | Close fd

datatype fd_call = Open_excl path mode | Open_dir path

datatype stat_call = Fstat fd | Stat path

record file_stat =
  st_id :: file_id
  st_mode :: mode

datatype ('e, 'a) prog =
    Done 'a
  | Panic 'e
  | Ask unit_call "errno option \<Rightarrow> ('e, 'a) prog"
  | Ask_fd fd_call "(errno, fd) result \<Rightarrow> ('e, 'a) prog"
  | Ask_stat stat_call "(errno, file_stat) result \<Rightarrow> ('e, 'a) prog"

primrec prog_bind :: "('e, 'a) prog \<Rightarrow> ('a \<Rightarrow> ('e, 'b) prog) \<Rightarrow> ('e, 'b) prog" where
  "prog_bind (Done a) f = f a"
| "prog_bind (Panic e) f = Panic e"
| "prog_bind (Ask c k) f = Ask c (\<lambda>r. prog_bind (k r) f)"
| "prog_bind (Ask_fd c k) f = Ask_fd c (\<lambda>r. prog_bind (k r) f)"
| "prog_bind (Ask_stat c k) f = Ask_stat c (\<lambda>r. prog_bind (k r) f)"

text \<open>A local \<open>File\<close>: it is closed when its scope is left, by return or by unwinding.\<close>

primrec closing :: "fd \<Rightarrow> ('e, 'a) prog \<Rightarrow> ('e, 'a) prog" where
  "closing d (Done a) = Ask (Close d) (\<lambda>_. Done a)"
| "closing d (Panic e) = Ask (Close d) (\<lambda>_. Panic e)"
| "closing d (Ask c k) = Ask c (\<lambda>r. closing d (k r))"
| "closing d (Ask_fd c k) = Ask_fd c (\<lambda>r. closing d (k r))"
| "closing d (Ask_stat c k) = Ask_stat c (\<lambda>r. closing d (k r))"

section \<open>The kernel\<close>

record file_system =
  fs_entries :: "path \<Rightarrow> file_id option"
  fs_mode :: "file_id \<Rightarrow> mode"
  fs_open :: "fd \<Rightarrow> file_id option"
  fs_lock :: "file_id \<Rightarrow> fd option"

definition in_use :: "file_system \<Rightarrow> file_id \<Rightarrow> bool" where
  "in_use fs i \<longleftrightarrow> i \<in> ran (fs_entries fs) \<or> i \<in> ran (fs_open fs)"

definition created :: "file_system \<Rightarrow> path \<Rightarrow> file_id \<Rightarrow> mode \<Rightarrow> file_system" where
  "created fs p i m = fs\<lparr>fs_entries := (fs_entries fs)(p \<mapsto> i), fs_mode := (fs_mode fs)(i := m)\<rparr>"

definition unlock :: "file_system \<Rightarrow> fd \<Rightarrow> file_system" where
  "unlock fs d = fs\<lparr>fs_lock := (\<lambda>i. if fs_lock fs i = Some d then None else fs_lock fs i)\<rparr>"

text \<open>
  The calls that answer with an error number or nothing.  \<open>chmod\<close> may keep other bits than asked for:
  some file systems do not store modes.  \<open>flock\<close> blocks, so it has no step while another open file
  description holds the lock; a signal ends it with \<open>EINTR\<close>.
\<close>

inductive sys_unit :: "unit_call \<Rightarrow> file_system \<Rightarrow> errno option \<Rightarrow> file_system \<Rightarrow> bool" where
  sys_lstat: "fs_entries fs p \<noteq> None \<Longrightarrow> sys_unit (Lstat p) fs None fs"
| sys_lstat_none: "fs_entries fs p = None \<Longrightarrow> sys_unit (Lstat p) fs (Some ENOENT) fs"
| sys_lstat_err: "e \<noteq> ENOENT \<Longrightarrow> sys_unit (Lstat p) fs (Some e) fs"
| sys_fchmod: "fs_open fs d = Some i \<Longrightarrow> sys_unit (Fchmod d m) fs None (fs\<lparr>fs_mode := (fs_mode fs)(i := kept)\<rparr>)"
| sys_fchmod_err: "sys_unit (Fchmod d m) fs (Some e) fs"
| sys_unlink: "sys_unit (Unlink p) fs None (fs\<lparr>fs_entries := (fs_entries fs)(p := None)\<rparr>)"
| sys_unlink_err: "sys_unit (Unlink p) fs (Some e) fs"
| sys_rename: "fs_entries fs p = Some i \<Longrightarrow> fs_entries fs q = None \<Longrightarrow>
     sys_unit (Rename_no_replace p q) fs None (fs\<lparr>fs_entries := (fs_entries fs)(p := None, q \<mapsto> i)\<rparr>)"
| sys_rename_exists: "fs_entries fs q \<noteq> None \<Longrightarrow> sys_unit (Rename_no_replace p q) fs (Some EEXIST) fs"
| sys_rename_err: "e \<noteq> EEXIST \<Longrightarrow> sys_unit (Rename_no_replace p q) fs (Some e) fs"
| sys_mkdir: "fs_entries fs p = None \<Longrightarrow> \<not> in_use fs i \<Longrightarrow> sys_unit (Mkdir p m) fs None (created fs p i (m AND NOT umask))"
| sys_mkdir_exists: "fs_entries fs p \<noteq> None \<Longrightarrow> sys_unit (Mkdir p m) fs (Some EEXIST) fs"
| sys_mkdir_err: "e \<noteq> EEXIST \<Longrightarrow> sys_unit (Mkdir p m) fs (Some e) fs"
| sys_chmod: "fs_entries fs p = Some i \<Longrightarrow> sys_unit (Chmod p m) fs None (fs\<lparr>fs_mode := (fs_mode fs)(i := kept)\<rparr>)"
| sys_chmod_err: "sys_unit (Chmod p m) fs (Some e) fs"
| sys_rmdir: "sys_unit (Rmdir p) fs None (fs\<lparr>fs_entries := (fs_entries fs)(p := None)\<rparr>)"
| sys_rmdir_err: "sys_unit (Rmdir p) fs (Some e) fs"
| sys_flock: "fs_open fs d = Some i \<Longrightarrow> fs_lock fs i \<in> {None, Some d} \<Longrightarrow>
     sys_unit (Flock d) fs None (fs\<lparr>fs_lock := (fs_lock fs)(i \<mapsto> d)\<rparr>)"
| sys_flock_err: "sys_unit (Flock d) fs (Some e) fs"
| sys_close: "sys_unit (Close d) fs r ((unlock fs d)\<lparr>fs_open := (fs_open fs)(d := None)\<rparr>)"

inductive sys_fd :: "fd_call \<Rightarrow> file_system \<Rightarrow> (errno, fd) result \<Rightarrow> file_system \<Rightarrow> bool" where
  sys_open_excl: "fs_entries fs p = None \<Longrightarrow> \<not> in_use fs i \<Longrightarrow> fs_open fs d = None \<Longrightarrow>
     sys_fd (Open_excl p m) fs (Inr d)
       ((created fs p i (m AND NOT umask))\<lparr>fs_open := (fs_open fs)(d \<mapsto> i)\<rparr>)"
| sys_open_exists: "fs_entries fs p \<noteq> None \<Longrightarrow> sys_fd (Open_excl p m) fs (Inl EEXIST) fs"
| sys_open_err: "e \<noteq> EEXIST \<Longrightarrow> sys_fd (Open_excl p m) fs (Inl e) fs"
| sys_open_dir: "fs_entries fs p = Some i \<Longrightarrow> fs_open fs d = None \<Longrightarrow>
     sys_fd (Open_dir p) fs (Inr d) (fs\<lparr>fs_open := (fs_open fs)(d \<mapsto> i)\<rparr>)"
| sys_open_dir_err: "sys_fd (Open_dir p) fs (Inl e) fs"

inductive sys_stat :: "stat_call \<Rightarrow> file_system \<Rightarrow> (errno, file_stat) result \<Rightarrow> bool" where
  sys_fstat: "fs_open fs d = Some i \<Longrightarrow> sys_stat (Fstat d) fs (Inr \<lparr>st_id = i, st_mode = fs_mode fs i\<rparr>)"
| sys_fstat_err: "sys_stat (Fstat d) fs (Inl e)"
| sys_stat: "fs_entries fs p = Some i \<Longrightarrow> sys_stat (Stat p) fs (Inr \<lparr>st_id = i, st_mode = fs_mode fs i\<rparr>)"
| sys_stat_err: "sys_stat (Stat p) fs (Inl e)"

inductive_cases sys_unitE: "sys_unit c fs r fs'"
inductive_cases sys_fdE: "sys_fd c fs r fs'"
inductive_cases sys_statE: "sys_stat c fs r"

text \<open>One step of a program.\<close>

inductive prog_step :: "file_system \<times> ('e, 'a) prog \<Rightarrow> file_system \<times> ('e, 'a) prog \<Rightarrow> bool" where
  step_ask: "sys_unit c fs r fs' \<Longrightarrow> prog_step (fs, Ask c k) (fs', k r)"
| step_ask_fd: "sys_fd c fs r fs' \<Longrightarrow> prog_step (fs, Ask_fd c k) (fs', k r)"
| step_ask_stat: "sys_stat c fs r \<Longrightarrow> prog_step (fs, Ask_stat c k) (fs, k r)"

inductive_cases prog_stepE: "prog_step (fs, p) (fs', p')"

text \<open>
  Several processes over one file system.  The outside may remove an entry, or put one that no
  skuld process minds: \<open>outside\<close> says which file systems it may leave.
\<close>

record ('e, 'a) processes =
  pr_fs :: file_system
  pr_prog :: "nat \<Rightarrow> ('e, 'a) prog"

inductive procs_step :: "(file_system \<Rightarrow> file_system \<Rightarrow> bool) \<Rightarrow> ('e, 'a) processes \<Rightarrow> ('e, 'a) processes \<Rightarrow> bool"
  for outside where
  procs_prog: "prog_step (pr_fs s, pr_prog s n) (fs', p') \<Longrightarrow>
     procs_step outside s (s\<lparr>pr_fs := fs', pr_prog := (pr_prog s)(n := p')\<rparr>)"
| procs_outside: "outside (pr_fs s) fs' \<Longrightarrow> procs_step outside s (s\<lparr>pr_fs := fs'\<rparr>)"

inductive_cases procs_stepE: "procs_step outside s s'"

lemma prog_bind_assoc: "prog_bind (prog_bind p f) g = prog_bind p (\<lambda>a. prog_bind (f a) g)"
  by (induction p) simp_all

section \<open>A kernel without failures\<close>

text \<open>
  The run of one program on its own when no call fails, as a function: which free inode and
  descriptor are handed out and the umask are a parameter.  It is one of the runs of the relation.
\<close>

record calm_kernel =
  ck_id :: "file_system \<Rightarrow> file_id"
  ck_fd :: "file_system \<Rightarrow> fd"
  ck_umask :: mode

definition calm :: "calm_kernel \<Rightarrow> bool" where
  "calm K \<longleftrightarrow> (\<forall>fs. finite (dom (fs_entries fs)) \<longrightarrow> finite (dom (fs_open fs)) \<longrightarrow>
     \<not> in_use fs (ck_id K fs) \<and> fs_open fs (ck_fd K fs) = None)"

definition set_entries :: "file_system \<Rightarrow> (path \<Rightarrow> file_id option) \<Rightarrow> file_system" where
  "set_entries fs m = fs\<lparr>fs_entries := m\<rparr>"

fun calm_unit :: "calm_kernel \<Rightarrow> unit_call \<Rightarrow> file_system \<Rightarrow> errno option \<times> file_system" where
  "calm_unit K (Lstat p) fs = (if fs_entries fs p = None then Some ENOENT else None, fs)"
| "calm_unit K (Fchmod d m) fs = (case fs_open fs d of
     None \<Rightarrow> (Some EINVAL, fs) | Some i \<Rightarrow> (None, fs\<lparr>fs_mode := (fs_mode fs)(i := m)\<rparr>))"
| "calm_unit K (Unlink p) fs = (None, set_entries fs ((fs_entries fs)(p := None)))"
| "calm_unit K (Rename_no_replace p q) fs = (case fs_entries fs p of
     None \<Rightarrow> (Some ENOENT, fs)
   | Some i \<Rightarrow> if fs_entries fs q = None then (None, set_entries fs ((fs_entries fs)(p := None, q \<mapsto> i))) else (Some EEXIST, fs))"
| "calm_unit K (Mkdir p m) fs = (if fs_entries fs p = None then (None, created fs p (ck_id K fs) (m AND NOT (ck_umask K))) else (Some EEXIST, fs))"
| "calm_unit K (Chmod p m) fs = (case fs_entries fs p of
     None \<Rightarrow> (Some ENOENT, fs) | Some i \<Rightarrow> (None, fs\<lparr>fs_mode := (fs_mode fs)(i := m)\<rparr>))"
| "calm_unit K (Rmdir p) fs = (None, set_entries fs ((fs_entries fs)(p := None)))"
| "calm_unit K (Flock d) fs = (case fs_open fs d of
     None \<Rightarrow> (Some EINVAL, fs)
   | Some i \<Rightarrow> if fs_lock fs i \<in> {None, Some d} then (None, fs\<lparr>fs_lock := (fs_lock fs)(i \<mapsto> d)\<rparr>) else (Some EINVAL, fs))"
| "calm_unit K (Close d) fs = (None, (unlock fs d)\<lparr>fs_open := (fs_open fs)(d := None)\<rparr>)"

fun calm_fd :: "calm_kernel \<Rightarrow> fd_call \<Rightarrow> file_system \<Rightarrow> (errno, fd) result \<times> file_system" where
  "calm_fd K (Open_excl p m) fs =
     (if fs_entries fs p = None
      then (Inr (ck_fd K fs), (created fs p (ck_id K fs) (m AND NOT (ck_umask K)))\<lparr>fs_open := (fs_open fs)(ck_fd K fs \<mapsto> ck_id K fs)\<rparr>)
      else (Inl EEXIST, fs))"
| "calm_fd K (Open_dir p) fs = (case fs_entries fs p of
     None \<Rightarrow> (Inl ENOENT, fs) | Some i \<Rightarrow> (Inr (ck_fd K fs), fs\<lparr>fs_open := (fs_open fs)(ck_fd K fs \<mapsto> i)\<rparr>))"

fun calm_stat :: "stat_call \<Rightarrow> file_system \<Rightarrow> (errno, file_stat) result" where
  "calm_stat (Fstat d) fs = (case fs_open fs d of
     None \<Rightarrow> Inl EINVAL | Some i \<Rightarrow> Inr \<lparr>st_id = i, st_mode = fs_mode fs i\<rparr>)"
| "calm_stat (Stat p) fs = (case fs_entries fs p of
     None \<Rightarrow> Inl ENOENT | Some i \<Rightarrow> Inr \<lparr>st_id = i, st_mode = fs_mode fs i\<rparr>)"

primrec alone :: "('e, 'a) prog \<Rightarrow> calm_kernel \<Rightarrow> file_system \<Rightarrow> file_system \<times> ('e, 'a) result" where
  "alone (Done a) = (\<lambda>K fs. (fs, Inr a))"
| "alone (Panic e) = (\<lambda>K fs. (fs, Inl e))"
| "alone (Ask c k) = (\<lambda>K fs. case calm_unit K c fs of (r, fs') \<Rightarrow> alone (k r) K fs')"
| "alone (Ask_fd c k) = (\<lambda>K fs. case calm_fd K c fs of (r, fs') \<Rightarrow> alone (k r) K fs')"
| "alone (Ask_stat c k) = (\<lambda>K fs. alone (k (calm_stat c fs)) K fs)"

primrec ended :: "('e, 'a) result \<Rightarrow> ('e, 'a) prog" where
  "ended (Inl e) = Panic e"
| "ended (Inr a) = Done a"

lemma alone_bind:
  "alone (prog_bind p f) K fs = (case alone p K fs of (fs', Inl e) \<Rightarrow> (fs', Inl e) | (fs', Inr a) \<Rightarrow> alone (f a) K fs')"
  by (induction p arbitrary: fs) (simp_all add: case_prod_beta)

definition fs_finite :: "file_system \<Rightarrow> bool" where
  "fs_finite fs \<longleftrightarrow> finite (dom (fs_entries fs)) \<and> finite (dom (fs_open fs))"

lemma calm_unit_sys: "calm K \<Longrightarrow> fs_finite fs \<Longrightarrow> calm_unit K c fs = (r, fs') \<Longrightarrow> sys_unit c fs r fs' \<and> fs_finite fs'"
  by (cases c)
     (auto simp: set_entries_def fs_finite_def calm_def created_def unlock_def dom_if split: option.splits if_splits
       intro: sys_unit.intros sys_mkdir [unfolded created_def] sys_close [unfolded unlock_def])

lemma calm_fd_sys: "calm K \<Longrightarrow> fs_finite fs \<Longrightarrow> calm_fd K c fs = (r, fs') \<Longrightarrow> sys_fd c fs r fs' \<and> fs_finite fs'"
  by (cases c) (auto simp: fs_finite_def calm_def created_def split: option.splits if_splits
       intro: sys_fd.intros sys_open_excl [unfolded created_def])

lemma calm_stat_sys: "sys_stat c fs (calm_stat c fs)"
  by (cases c) (auto split: option.split intro: sys_stat.intros)

text \<open>Running alone is a run of the processes.\<close>

lemma alone_steps:
  assumes "calm K" "fs_finite fs" "alone p K fs = (fs', r)"
  shows "prog_step\<^sup>*\<^sup>* (fs, p) (fs', ended r)"
  using assms(2,3)
proof (induction p arbitrary: fs)
  case (Ask c k)
  obtain a fs1 where a: "calm_unit K c fs = (a, fs1)" by fastforce
  then have "sys_unit c fs a fs1" "fs_finite fs1" using calm_unit_sys [OF assms(1) Ask(2)] by blast+
  then show ?case using Ask.IH [OF rangeI, of fs1 a] Ask.prems(2) a converse_rtranclp_into_rtranclp [of prog_step, OF step_ask] by auto
next
  case (Ask_fd c k)
  obtain a fs1 where a: "calm_fd K c fs = (a, fs1)" by fastforce
  then have "sys_fd c fs a fs1" "fs_finite fs1" using calm_fd_sys [OF assms(1) Ask_fd(2)] by blast+
  then show ?case using Ask_fd.IH [OF rangeI, of fs1 a] Ask_fd.prems(2) a converse_rtranclp_into_rtranclp [of prog_step, OF step_ask_fd] by auto
next
  case (Ask_stat c k)
  then have "prog_step\<^sup>*\<^sup>* (fs, k (calm_stat c fs)) (fs', ended r)" by (intro Ask_stat.IH) simp_all
  then show ?case by (rule converse_rtranclp_into_rtranclp [of prog_step, OF step_ask_stat [OF calm_stat_sys]])
qed auto

lemma alone_procs:
  assumes "prog_step\<^sup>*\<^sup>* (pr_fs s, pr_prog s n) (fs', p')"
  shows "(procs_step outside)\<^sup>*\<^sup>* s (s\<lparr>pr_fs := fs', pr_prog := (pr_prog s)(n := p')\<rparr>)"
  using assms
proof (induction "(fs', p')" arbitrary: fs' p' rule: rtranclp_induct)
  case base
  then show ?case by simp
next
  case (step fp fs' p')
  obtain fs1 p1 where fp: "fp = (fs1, p1)" by (cases fp)
  let ?s1 = "s\<lparr>pr_fs := fs1, pr_prog := (pr_prog s)(n := p1)\<rparr>"
  have "procs_step outside ?s1 (?s1\<lparr>pr_fs := fs', pr_prog := (pr_prog ?s1)(n := p')\<rparr>)"
    by (rule procs_prog) (use step(2) fp in simp)
  then show ?case using rtranclp.rtrancl_into_rtrancl [OF step(3) [OF fp]] by simp
qed

text \<open>A kernel that hands out the lowest free numbers.\<close>

definition lowest_free :: calm_kernel where
  "lowest_free = \<lparr>ck_id = (\<lambda>fs. File_id 0 (LEAST n. \<not> in_use fs (File_id 0 n))),
     ck_fd = (\<lambda>fs. LEAST d. fs_open fs d = None), ck_umask = 0x12\<rparr>"

lemma finite_free: "finite A \<Longrightarrow> inj f \<Longrightarrow> \<exists>n::nat. f n \<notin> A"
  by (metis finite_imageD finite_subset image_subsetI infinite_UNIV_nat)

lemma calm_lowest_free: "calm lowest_free"
proof -
  have "\<not> in_use fs (File_id 0 (LEAST n. \<not> in_use fs (File_id 0 n)))" if "fs_finite fs" for fs
  proof (rule LeastI_ex)
    have "finite (ran (fs_entries fs) \<union> ran (fs_open fs))" using that by (simp add: fs_finite_def finite_ran)
    moreover have "inj (File_id 0)" by (simp add: inj_def)
    ultimately show "\<exists>n. \<not> in_use fs (File_id 0 n)" unfolding in_use_def using finite_free by blast
  qed
  moreover have "fs_open fs (LEAST d. fs_open fs d = None) = None" if "fs_finite fs" for fs
    by (rule LeastI_ex) (use that finite_free [of "dom (fs_open fs)" "\<lambda>n. n"] in \<open>auto simp: fs_finite_def\<close>)
  ultimately show ?thesis by (simp add: calm_def lowest_free_def fs_finite_def)
qed

end
