(* ===== verification/Init_Lock.thy ===== *)
theory Init_Lock
  imports Syscalls
begin

text \<open>
  The init lock (\<open>src/coordination/lock.rs\<close>, Unix): creating, publishing and initialising the
  database happens under an exclusive \<open>flock\<close> on the directory that holds it.  The lock is taken
  with one open and a blocking call that is repeated on \<open>EINTR\<close> only, the identity of what was
  locked is recorded in a token, and closing the directory releases the lock on return and on
  unwinding.  The repetition has a bound in the model; exhausting it is a panic.
\<close>

datatype 'e init_panic =
    Lock_dir_not_opened path errno
  | Lock_not_acquired path errno
  | Lock_target_not_inspected path errno
  | Lock_path_without_parent
  | Lock_interrupted_too_often
  | Body_panic 'e

record init_lock_held =
  held_path :: path
  held_identity :: file_id

definition lock_dir :: "path \<Rightarrow> (path \<Rightarrow> ('e init_panic, 'a) prog) \<Rightarrow> ('e init_panic, 'a) prog" where
  "lock_dir db_path k = (case parent db_path of None \<Rightarrow> Panic Lock_path_without_parent | Some dir \<Rightarrow> k dir)"

definition open_lock_target :: "path \<Rightarrow> ('e init_panic, fd) prog" where
  "open_lock_target db_path = lock_dir db_path (\<lambda>dir. Ask_fd (Open_dir dir) (\<lambda>r. case r of
       Inl e \<Rightarrow> Panic (Lock_dir_not_opened dir e)
     | Inr d \<Rightarrow> Done d))"

primrec lock_exclusive :: "nat \<Rightarrow> fd \<Rightarrow> ('e init_panic, (errno, unit) result) prog" where
  "lock_exclusive 0 d = Panic Lock_interrupted_too_often"
| "lock_exclusive (Suc n) d = Ask (Flock d) (\<lambda>r. case r of
       None \<Rightarrow> Done (Inr ())
     | Some errno \<Rightarrow> if errno = EINTR then lock_exclusive n d else Done (Inl errno))"

text \<open>The non-blocking attempt of the Unix code, by the error of \<open>flock\<close>.\<close>

datatype try_lock_error = Would_block | Try_lock_error errno

abbreviation EWOULDBLOCK :: errno where "EWOULDBLOCK \<equiv> 11"

definition try_lock_exclusive :: "errno option \<Rightarrow> (try_lock_error, unit) result" where
  "try_lock_exclusive r = (case r of
       None \<Rightarrow> Inr ()
     | Some e \<Rightarrow> Inl (if e = EWOULDBLOCK then Would_block else Try_lock_error e))"

definition record_and_run :: "path \<Rightarrow> fd \<Rightarrow> (init_lock_held \<Rightarrow> ('e init_panic, 'a) prog) \<Rightarrow> ('e init_panic, 'a) prog" where
  "record_and_run db_path d f = Ask_stat (Fstat d) (\<lambda>r. case r of
       Inl e \<Rightarrow> Panic (Lock_target_not_inspected db_path e)
     | Inr m \<Rightarrow> f \<lparr>held_path = db_path, held_identity = st_id m\<rparr>)"

definition run_locked :: "nat \<Rightarrow> path \<Rightarrow> fd \<Rightarrow> (init_lock_held \<Rightarrow> ('e init_panic, 'a) prog) \<Rightarrow> ('e init_panic, 'a) prog" where
  "run_locked n db_path d f = prog_bind (lock_exclusive n d) (\<lambda>r. case r of
       Inl e \<Rightarrow> Panic (Lock_not_acquired db_path e)
     | Inr _ \<Rightarrow> record_and_run db_path d f)"

definition with_init_lock :: "nat \<Rightarrow> path \<Rightarrow> (init_lock_held \<Rightarrow> ('e init_panic, 'a) prog) \<Rightarrow> ('e init_panic, 'a) prog" where
  "with_init_lock n db_path f = prog_bind (open_lock_target db_path) (\<lambda>d. closing d (run_locked n db_path d f))"

definition stat_target :: "init_lock_held \<Rightarrow> ('e init_panic, (errno, file_id) result) prog" where
  "stat_target tok = lock_dir (held_path tok) (\<lambda>dir. Ask_stat (Stat dir) (\<lambda>r. Done (map_sum id st_id r)))"

definition target_has_split :: "init_lock_held \<Rightarrow> ('e init_panic, bool) prog" where
  "target_has_split tok = prog_bind (stat_target tok) (\<lambda>r. Done (case r of
       Inr identity \<Rightarrow> identity \<noteq> held_identity tok
     | Inl e \<Rightarrow> True))"

section \<open>Where a process is\<close>

text \<open>
  A process that runs \<open>with_init_lock\<close> is before the open, waiting for the lock, recording the
  identity, inside the body, giving up, or done; \<open>stage_prog\<close> is the program of each stage.
\<close>

datatype ('e, 'a) stage =
    Not_open
  | Locking fd nat
  | Recording fd
  | Inside fd init_lock_held "('e init_panic, 'a) prog"
  | Giving_up fd "'e init_panic"
  | Ended "('e init_panic, 'a) result"

primrec stage_prog :: "nat \<Rightarrow> path \<Rightarrow> (init_lock_held \<Rightarrow> ('e init_panic, 'a) prog) \<Rightarrow> ('e, 'a) stage \<Rightarrow> ('e init_panic, 'a) prog" where
  "stage_prog fuel t f Not_open = with_init_lock fuel t f"
| "stage_prog fuel t f (Locking d n) = closing d (run_locked n t d f)"
| "stage_prog fuel t f (Recording d) = closing d (record_and_run t d f)"
| "stage_prog fuel t f (Inside d tok q) = closing d q"
| "stage_prog fuel t f (Giving_up d e) = closing d (Panic e)"
| "stage_prog fuel t f (Ended r) = ended r"

primrec lock_fd :: "('e, 'a) stage \<Rightarrow> fd option" where
  "lock_fd Not_open = None"
| "lock_fd (Locking d n) = Some d"
| "lock_fd (Recording d) = Some d"
| "lock_fd (Inside d tok q) = Some d"
| "lock_fd (Giving_up d e) = Some d"
| "lock_fd (Ended r) = None"

text \<open>A body that locks nothing and closes only what it opened itself.\<close>

primrec own_fds_only :: "('e, 'a) prog \<Rightarrow> fd set \<Rightarrow> bool" where
  "own_fds_only (Done a) = (\<lambda>D. True)"
| "own_fds_only (Panic e) = (\<lambda>D. True)"
| "own_fds_only (Ask c k) = (\<lambda>D. (case c of Flock d \<Rightarrow> False | Close d \<Rightarrow> d \<in> D | _ \<Rightarrow> True)
     \<and> (\<forall>r. own_fds_only (k r) (case c of Close d \<Rightarrow> D - {d} | _ \<Rightarrow> D)))"
| "own_fds_only (Ask_fd c k) = (\<lambda>D. (\<forall>d. own_fds_only (k (Inr d)) (insert d D)) \<and> (\<forall>e. own_fds_only (k (Inl e)) D))"
| "own_fds_only (Ask_stat c k) = (\<lambda>D. \<forall>r. own_fds_only (k r) D)"

text \<open>The stage of one process agrees with the kernel; \<open>D\<close> are the descriptors its body has open.\<close>

fun stage_ok :: "path \<Rightarrow> file_system \<Rightarrow> ('e, 'a) stage \<Rightarrow> fd set \<Rightarrow> bool" where
  "stage_ok t fs (Recording d) D = (case fs_open fs d of None \<Rightarrow> False | Some i \<Rightarrow> fs_lock fs i = Some d \<and> D = {})"
| "stage_ok t fs Not_open D = (D = {})"
| "stage_ok t fs (Locking d n) D = (D = {})"
| "stage_ok t fs (Inside d tok q) D = (fs_open fs d = Some (held_identity tok) \<and> fs_lock fs (held_identity tok) = Some d
     \<and> held_path tok = t \<and> own_fds_only q D)"
| "stage_ok t fs _ D = True"

definition fds_of :: "('e, 'a) stage \<Rightarrow> fd set \<Rightarrow> fd set" where
  "fds_of st D = D \<union> set_option (lock_fd st)"

definition locks_ok :: "path \<Rightarrow> file_system \<Rightarrow> (nat \<Rightarrow> ('e, 'a) stage) \<Rightarrow> (nat \<Rightarrow> fd set) \<Rightarrow> bool" where
  "locks_ok t fs st D \<longleftrightarrow> (\<forall>n. stage_ok t fs (st n) (D n))
     \<and> (\<forall>n. fds_of (st n) (D n) \<subseteq> dom (fs_open fs)) \<and> (\<forall>n. set_option (lock_fd (st n)) \<inter> D n = {})
     \<and> (\<forall>n m. n \<noteq> m \<longrightarrow> fds_of (st n) (D n) \<inter> fds_of (st m) (D m) = {})
     \<and> (\<forall>i d. fs_lock fs i = Some d \<longrightarrow> fs_open fs d = Some i \<and> (\<exists>n. lock_fd (st n) = Some d))"

lemma locks_okD:
  assumes "locks_ok t fs st D"
  shows "stage_ok t fs (st n) (D n)" and "d \<in> fds_of (st n) (D n) \<Longrightarrow> d \<in> dom (fs_open fs)"
    and "lock_fd (st n) = Some d \<Longrightarrow> d \<notin> D n"
    and "d \<in> fds_of (st n) (D n) \<Longrightarrow> d \<in> fds_of (st m) (D m) \<Longrightarrow> n = m"
    and "fs_lock fs i = Some d \<Longrightarrow> fs_open fs d = Some i" and "fs_lock fs i = Some d \<Longrightarrow> \<exists>n. lock_fd (st n) = Some d"
  using assms unfolding locks_ok_def by (blast, blast, fastforce, blast, blast, blast)

lemma lock_fd_fds: "lock_fd st = Some d \<Longrightarrow> d \<in> fds_of st D"
  by (simp add: fds_of_def)

text \<open>Only the process that moves has to be looked at again.\<close>

lemma locks_okI:
  assumes ok: "locks_ok t fs st D" and "stage_ok t fs' st' D'"
    and others: "\<And>m. m \<noteq> n \<Longrightarrow> stage_ok t fs' (st m) (D m)"
    and "fds_of st' D' \<subseteq> dom (fs_open fs')" "\<And>m. m \<noteq> n \<Longrightarrow> fds_of (st m) (D m) \<subseteq> dom (fs_open fs')"
    and "set_option (lock_fd st') \<inter> D' = {}" "\<And>m. m \<noteq> n \<Longrightarrow> fds_of st' D' \<inter> fds_of (st m) (D m) = {}"
    and "\<And>i d. fs_lock fs' i = Some d \<Longrightarrow> fs_open fs' d = Some i \<and> (lock_fd st' = Some d \<or> (\<exists>m. m \<noteq> n \<and> lock_fd (st m) = Some d))"
  shows "locks_ok t fs' (st(n := st')) (D(n := D'))"
proof -
  have "\<exists>m. lock_fd ((st(n := st')) m) = Some d" if "fs_lock fs' i = Some d" for i d
    using assms(8) [OF that] by (metis fun_upd_apply)
  moreover have "fds_of (st k) (D k) \<inter> fds_of (st m) (D m) = {}" if "k \<noteq> m" for k m
    using locks_okD(4) [OF ok, of _ k m] that by blast
  ultimately show ?thesis using assms unfolding locks_ok_def
    by (auto simp: Int_commute split: if_splits)
qed

text \<open>Calls that touch neither descriptors nor locks.\<close>

lemma stage_ok_quiet:
  "fs_open fs' = fs_open fs \<Longrightarrow> fs_lock fs' = fs_lock fs \<Longrightarrow> stage_ok t fs' st D = stage_ok t fs st D"
  by (cases st) (simp_all split: option.split)

lemma locks_quiet:
  assumes ok: "locks_ok t fs st D" and same: "fs_open fs' = fs_open fs" "fs_lock fs' = fs_lock fs"
    and "stage_ok t fs st' (D n)" "lock_fd st' = lock_fd (st n)"
  shows "locks_ok t fs' (st(n := st')) D"
proof -
  have fds: "fds_of st' (D n) = fds_of (st n) (D n)" using assms(5) by (simp add: fds_of_def)
  have "locks_ok t fs' (st(n := st')) (D(n := D n))"
  proof (rule locks_okI [OF ok], goal_cases)
    case (7 i d)
    then show ?case using locks_okD(5,6) [OF ok, of i d] assms(5) unfolding same by metis
  qed (use ok assms fds in \<open>auto simp: stage_ok_quiet [OF same] locks_ok_def\<close>)
  then show ?thesis by simp
qed

lemma sys_unit_quiet:
  "sys_unit c fs r fs' \<Longrightarrow> (\<And>d. c \<noteq> Flock d) \<Longrightarrow> (\<And>d. c \<noteq> Close d) \<Longrightarrow> fs_open fs' = fs_open fs \<and> fs_lock fs' = fs_lock fs"
  by (cases rule: sys_unit.cases) (auto simp: created_def)

lemma locks_close:
  assumes ok: "locks_ok t fs st D" and "d \<in> fds_of (st n) (D n)" "lock_fd st' = Some d \<Longrightarrow> False"
    and st': "stage_ok t ((unlock fs d)\<lparr>fs_open := (fs_open fs)(d := None)\<rparr>) st' (D n - {d})" (is "stage_ok t ?fs _ _")
    and "set_option (lock_fd st') \<subseteq> set_option (lock_fd (st n))" "\<And>c. lock_fd (st n) = Some c \<Longrightarrow> c \<noteq> d \<Longrightarrow> lock_fd st' = Some c"
  shows "locks_ok t ?fs (st(n := st')) (D(n := D n - {d}))"
proof (rule locks_okI [OF ok])
  fix m assume m: "m \<noteq> n"
  have d: "d \<notin> fds_of (st m) (D m)" using locks_okD(4) [OF ok assms(2), of m] m by blast
  show "stage_ok t ?fs (st m) (D m)"
    using locks_okD(1) [OF ok, of m] d by (cases "st m") (auto simp: fds_of_def unlock_def split: option.splits)
  show "fds_of (st m) (D m) \<subseteq> dom (fs_open ?fs)" using locks_okD(2) [OF ok, of _ m] d by auto
  show "fds_of st' (D n - {d}) \<inter> fds_of (st m) (D m) = {}"
    using locks_okD(4) [OF ok, of _ n m] m assms(5) by (auto simp: fds_of_def)
next
  show "fds_of st' (D n - {d}) \<subseteq> dom (fs_open ?fs)"
    using locks_okD(2) [OF ok, of _ n] assms(3,5) by (auto simp: fds_of_def)
  show "set_option (lock_fd st') \<inter> (D n - {d}) = {}"
    using locks_okD(3) [OF ok, of n] assms(5) by (auto simp: elem_set)
next
  fix i c
  assume "fs_lock ?fs i = Some c"
  then have c: "fs_lock fs i = Some c" "c \<noteq> d" by (auto simp: unlock_def split: if_splits)
  obtain m where "lock_fd (st m) = Some c" using locks_okD(6) [OF ok c(1)] by blast
  then show "fs_open ?fs c = Some i \<and> (lock_fd st' = Some c \<or> (\<exists>m. m \<noteq> n \<and> lock_fd (st m) = Some c))"
    using locks_okD(5) [OF ok c(1)] c(2) assms(6) by (cases "m = n") auto
qed (use st' in simp)

lemma locks_open:
  assumes ok: "locks_ok t fs st D" and fresh: "fs_open fs d = None"
    and st': "stage_ok t (fs'\<lparr>fs_open := (fs_open fs)(d \<mapsto> i)\<rparr>) st' D'" (is "stage_ok t ?fs _ _")
    and same: "fs_lock fs' = fs_lock fs" and "fds_of st' D' = insert d (fds_of (st n) (D n))" "set_option (lock_fd st') \<inter> D' = {}"
    and "\<And>c. lock_fd (st n) = Some c \<Longrightarrow> lock_fd st' = Some c"
  shows "locks_ok t ?fs (st(n := st')) (D(n := D'))"
proof (rule locks_okI [OF ok])
  fix m assume m: "m \<noteq> n"
  have d: "d \<notin> fds_of (st m) (D m)" using locks_okD(2) [OF ok, of d m] fresh by auto
  show "stage_ok t ?fs (st m) (D m)"
    using locks_okD(1) [OF ok, of m] d same by (cases "st m") (auto simp: fds_of_def split: option.splits)
  show "fds_of (st m) (D m) \<subseteq> dom (fs_open ?fs)" using locks_okD(2) [OF ok, of _ m] by auto
  show "fds_of st' D' \<inter> fds_of (st m) (D m) = {}"
    using locks_okD(4) [OF ok, of _ n m] m d unfolding assms(5) by auto
next
  show "fds_of st' D' \<subseteq> dom (fs_open ?fs)" using locks_okD(2) [OF ok, of _ n] unfolding assms(5) by auto
next
  fix j c
  assume "fs_lock ?fs j = Some c"
  then have c: "fs_lock fs j = Some c" using same by simp
  obtain m where "lock_fd (st m) = Some c" using locks_okD(6) [OF ok c] by blast
  moreover have "c \<noteq> d" using locks_okD(5) [OF ok c] fresh by auto
  ultimately show "fs_open ?fs c = Some j \<and> (lock_fd st' = Some c \<or> (\<exists>m. m \<noteq> n \<and> lock_fd (st m) = Some c))"
    using locks_okD(5) [OF ok c] assms(7) by (cases "m = n") auto
qed (use st' assms(6) in simp_all)

lemma locks_flock:
  assumes ok: "locks_ok t fs st D" and d: "st n = Locking d k" and i: "fs_open fs d = Some i" "fs_lock fs i \<in> {None, Some d}"
  shows "locks_ok t (fs\<lparr>fs_lock := (fs_lock fs)(i \<mapsto> d)\<rparr>) (st(n := Recording d)) D" (is "locks_ok t ?fs _ _")
proof -
  have fds: "fds_of (Recording d) (D n) = fds_of (st n) (D n)" by (simp add: fds_of_def d)
  have "locks_ok t ?fs (st(n := Recording d)) (D(n := D n))"
  proof (rule locks_okI [OF ok])
    fix m assume m: "m \<noteq> n"
    have "d \<notin> fds_of (st m) (D m)" using locks_okD(4) [OF ok, of d n m] m by (auto simp: fds_of_def d)
    then have free: "fs_lock fs i \<noteq> Some c" if "lock_fd (st m) = Some c" for c using i(2) that by (auto simp: fds_of_def)
    show "stage_ok t ?fs (st m) (D m)"
      using locks_okD(1) [OF ok, of m] free by (cases "st m") (auto split: option.splits)
    show "fds_of (st m) (D m) \<subseteq> dom (fs_open ?fs)" using locks_okD(2) [OF ok, of _ m] by auto
    show "fds_of (Recording d) (D n) \<inter> fds_of (st m) (D m) = {}"
      using locks_okD(4) [OF ok, of _ n m] m unfolding fds by blast
  next
    show "set_option (lock_fd (Recording d)) \<inter> D n = {}" using locks_okD(3) [OF ok, of n d] d by simp
    show "fds_of (Recording d) (D n) \<subseteq> dom (fs_open ?fs)" using locks_okD(2) [OF ok, of _ n] unfolding fds by auto
  next
    fix j c
    assume j: "fs_lock ?fs j = Some c"
    show "fs_open ?fs c = Some j \<and> (lock_fd (Recording d) = Some c \<or> (\<exists>m. m \<noteq> n \<and> lock_fd (st m) = Some c))"
    proof (cases "j = i")
      case False
      then have c: "fs_lock fs j = Some c" using j by simp
      then obtain m where "lock_fd (st m) = Some c" using locks_okD(6) [OF ok] by blast
      then show ?thesis using locks_okD(5) [OF ok c] d by (cases "m = n") auto
    qed (use j i(1) in auto)
  qed (use i(1) d locks_okD(1) [OF ok, of n] in simp)
  then show ?thesis by simp
qed

section \<open>Every step keeps the stages\<close>

text \<open>What is left of a program after some replies.\<close>

inductive residual :: "('e, 'a) prog \<Rightarrow> ('e, 'a) prog \<Rightarrow> bool" for p where
  residual_start: "residual p p"
| residual_ask: "residual p (Ask c k) \<Longrightarrow> residual p (k r)"
| residual_ask_fd: "residual p (Ask_fd c k') \<Longrightarrow> residual p (k' r')"
| residual_ask_stat: "residual p (Ask_stat c k'') \<Longrightarrow> residual p (k'' r'')"

fun from_body :: "(init_lock_held \<Rightarrow> ('e init_panic, 'a) prog) \<Rightarrow> ('e, 'a) stage \<Rightarrow> bool" where
  "from_body f (Inside d tok q) = residual (f tok) q"
| "from_body f _ = True"

definition stage_kept :: "nat \<Rightarrow> path \<Rightarrow> (init_lock_held \<Rightarrow> ('e init_panic, 'a) prog) \<Rightarrow> file_system
    \<Rightarrow> (nat \<Rightarrow> ('e, 'a) stage) \<Rightarrow> (nat \<Rightarrow> fd set) \<Rightarrow> nat \<Rightarrow> ('e init_panic, 'a) prog \<Rightarrow> bool" where
  "stage_kept fuel t f fs' st D n p' \<longleftrightarrow>
     (\<exists>st' D'. p' = stage_prog fuel t f st' \<and> from_body f st' \<and> locks_ok t fs' (st(n := st')) (D(n := D')))"

lemma stage_keptI:
  "p' = stage_prog fuel t f st' \<Longrightarrow> from_body f st' \<Longrightarrow> locks_ok t fs' (st(n := st')) (D(n := D')) \<Longrightarrow> stage_kept fuel t f fs' st D n p'"
  by (auto simp: stage_kept_def)

lemma stage_kept_quiet:
  assumes "locks_ok t fs st D" "p' = stage_prog fuel t f st'" "from_body f st'" "stage_ok t fs st' (D n)" "lock_fd st' = lock_fd (st n)"
  shows "stage_kept fuel t f fs st D n p'"
  by (rule stage_keptI [OF assms(2,3), of _ _ _ _ "D n"]) (use locks_quiet [OF assms(1) refl refl assms(4,5)] in simp)

lemma closing_steps:
  assumes "prog_step (fs, Ask (Close d) (\<lambda>_. ended r)) (fs', p')" and ok: "locks_ok t fs st D" and d: "lock_fd (st n) = Some d"
  shows "stage_kept fuel t f fs' st D n p'"
proof -
  have fs': "fs' = (unlock fs d)\<lparr>fs_open := (fs_open fs)(d := None)\<rparr>" "p' = ended r"
    using assms(1) by (auto elim!: prog_stepE sys_unitE)
  show ?thesis unfolding fs'
    by (rule stage_keptI [of _ _ _ _ "Ended r"]) (simp, simp, rule locks_close [OF ok lock_fd_fds [OF d]], use d in auto)
qed

lemma inside_step:
  assumes step: "prog_step (fs, closing d q) (fs', p')" and ok: "locks_ok t fs st D" and st: "st n = Inside d tok q"
    and res: "residual (f tok) q"
  shows "stage_kept fuel t f fs' st D n p'"
proof -
  have at: "stage_ok t fs (Inside d tok q) (D n)" using locks_okD(1) [OF ok, of n] st by simp
  have lock: "lock_fd (st n) = Some d" "d \<notin> D n" using locks_okD(3) [OF ok, of n] st by auto
  show ?thesis
  proof (cases q)
    case (Done a)
    then show ?thesis using closing_steps [of fs d "Inr a" fs' p', OF _ ok lock(1)] step by simp
  next
    case (Panic e)
    then show ?thesis using closing_steps [of fs d "Inl e" fs' p', OF _ ok lock(1)] step by simp
  next
    case (Ask c k)
    then obtain r where r: "sys_unit c fs r fs'" "p' = closing d (k r)" using step by (auto elim!: prog_stepE)
    show ?thesis
    proof (cases "\<exists>e. c = Close e")
      case True
      then obtain e where e: "c = Close e" by blast
      then have own: "e \<in> D n" "own_fds_only (k r) (D n - {e})" using at Ask by simp_all
      have fs': "fs' = (unlock fs e)\<lparr>fs_open := (fs_open fs)(e := None)\<rparr>" using r(1) e by (auto elim!: sys_unitE)
      show ?thesis unfolding fs'
        by (rule stage_keptI [of _ _ _ _ "Inside d tok (k r)" _ _ _ _ "D n - {e}"])
           (simp add: r(2), use res Ask in \<open>simp add: residual_ask\<close>, rule locks_close [OF ok], use own at lock st in \<open>auto simp: fds_of_def unlock_def\<close>)
    next
      case False
      then have same: "fs_open fs' = fs_open fs" "fs_lock fs' = fs_lock fs"
        using sys_unit_quiet [OF r(1)] at Ask by (auto split: unit_call.splits)
      have "own_fds_only (k r) (D n)" using at Ask False by (auto split: unit_call.splits)
      then show ?thesis
        by (intro stage_keptI [of _ _ _ _ "Inside d tok (k r)" _ _ _ _ "D n"])
           (simp add: r(2), use res Ask in \<open>simp add: residual_ask\<close>, use locks_quiet [OF ok same, of "Inside d tok (k r)" n] at st in simp)
    qed
  next
    case (Ask_fd c k)
    then obtain r where r: "sys_fd c fs r fs'" "p' = closing d (k r)" using step by (auto elim!: prog_stepE)
    show ?thesis
    proof (cases r)
      case (Inl e)
      have fs': "fs' = fs" using r(1) Inl by (auto elim: sys_fd.cases)
      show ?thesis unfolding fs'
        by (rule stage_kept_quiet [OF ok, of _ _ _ "Inside d tok (k r)"]) (use r Inl at Ask_fd st res residual_ask_fd in auto)
    next
      case (Inr e)
      then obtain i fs1 where i: "fs_open fs e = None" "fs' = fs1\<lparr>fs_open := (fs_open fs)(e \<mapsto> i)\<rparr>" "fs_lock fs1 = fs_lock fs"
        using r(1) by (auto elim!: sys_fdE simp: created_def)
      have "e \<noteq> d" using i(1) at by auto
      then show ?thesis unfolding i(2)
        by (intro stage_keptI [of _ _ _ _ "Inside d tok (k r)" _ _ _ _ "insert e (D n)"])
           (simp add: r(2), use res Ask_fd in \<open>simp add: residual_ask_fd\<close>, rule locks_open [OF ok i(1) _ i(3)], use at Ask_fd Inr st lock i in \<open>auto simp: fds_of_def\<close>)
    qed
  next
    case (Ask_stat c k)
    then obtain r where r: "fs' = fs" "p' = closing d (k r)" using step by (auto elim!: prog_stepE)
    show ?thesis unfolding r(1)
      by (rule stage_kept_quiet [OF ok, of _ _ _ "Inside d tok (k r)"]) (use r at Ask_stat st res residual_ask_stat in auto)
  qed
qed

lemma with_init_lock_Some:
  "parent t = Some dir \<Longrightarrow> with_init_lock fuel t f = Ask_fd (Open_dir dir) (\<lambda>r. case r of
     Inl e \<Rightarrow> Panic (Lock_dir_not_opened dir e) | Inr d \<Rightarrow> closing d (run_locked fuel t d f))"
  by (auto simp: with_init_lock_def open_lock_target_def lock_dir_def split: sum.split)

lemma with_init_lock_None: "parent t = None \<Longrightarrow> with_init_lock fuel t f = Panic Lock_path_without_parent"
  by (simp add: with_init_lock_def open_lock_target_def lock_dir_def)

lemma open_step:
  assumes step: "prog_step (fs, with_init_lock fuel t f) (fs', p')" and ok: "locks_ok t fs st D" and st: "st n = Not_open"
  shows "stage_kept fuel t f fs' st D n p'"
proof (cases "parent t")
  case None
  then show ?thesis using step by (auto simp: with_init_lock_None elim: prog_step.cases)
next
  case (Some dir)
  then obtain r where r: "sys_fd (Open_dir dir) fs r fs'"
      "p' = (case r of Inl e \<Rightarrow> Panic (Lock_dir_not_opened dir e) | Inr d \<Rightarrow> closing d (run_locked fuel t d f))"
    using step by (auto simp: with_init_lock_Some elim!: prog_stepE)
  show ?thesis
  proof (cases r)
    case (Inl e)
    have fs': "fs' = fs" using r(1) Inl by (auto elim: sys_fd.cases)
    show ?thesis unfolding fs'
      by (rule stage_kept_quiet [OF ok, of _ _ _ "Ended (Inl (Lock_dir_not_opened dir e))"]) (use r Inl st in simp_all)
  next
    case (Inr d)
    then obtain i where i: "fs_open fs d = None" "fs' = fs\<lparr>fs_open := (fs_open fs)(d \<mapsto> i)\<rparr>"
      using r(1) by (auto elim!: sys_fdE)
    have "D n = {}" using locks_okD(1) [OF ok, of n] st by simp
    then show ?thesis unfolding i(2)
      by (intro stage_keptI [of _ _ _ _ "Locking d fuel" _ _ _ _ "D n"])
         (simp add: r(2) Inr, simp, rule locks_open [OF ok i(1)], use st in \<open>auto simp: fds_of_def\<close>)
  qed
qed

lemma locking_step:
  assumes step: "prog_step (fs, closing d (run_locked k t d f)) (fs', p')" and ok: "locks_ok t fs st D" and st: "st n = Locking d k"
  shows "stage_kept fuel t f fs' st D n p'"
proof (cases k)
  case 0
  then show ?thesis
    using closing_steps [of fs d "Inl Lock_interrupted_too_often" fs' p', OF _ ok] step st by (simp add: run_locked_def)
next
  case (Suc l)
  then obtain r where r: "sys_unit (Flock d) fs r fs'" "p' = closing d (prog_bind (case r of
        None \<Rightarrow> Done (Inr ()) | Some errno \<Rightarrow> if errno = EINTR then lock_exclusive l d else Done (Inl errno))
      (\<lambda>r. case r of Inl e \<Rightarrow> Panic (Lock_not_acquired t e) | Inr _ \<Rightarrow> record_and_run t d f))"
    using step by (auto simp: run_locked_def elim!: prog_stepE)
  show ?thesis
  proof (cases r)
    case None
    then obtain i where i: "fs_open fs d = Some i" "fs_lock fs i \<in> {None, Some d}" "fs' = fs\<lparr>fs_lock := (fs_lock fs)(i \<mapsto> d)\<rparr>"
      using r(1) by (auto elim!: sys_unitE)
    show ?thesis unfolding i(3)
      by (rule stage_keptI [of _ _ _ _ "Recording d" _ _ _ _ "D n"])
         (use r(2) None locks_flock [where n = n, OF ok st i(1,2)] in simp_all)
  next
    case (Some e)
    have fs': "fs' = fs" using r(1) Some by (auto elim!: sys_unitE)
    show ?thesis
    proof (cases "e = EINTR")
      case True
      show ?thesis unfolding fs'
        by (rule stage_kept_quiet [OF ok, of _ _ _ "Locking d l"]) (use r(2) Some True st locks_okD(1) [OF ok, of n] in \<open>simp_all add: run_locked_def\<close>)
    next
      case False
      show ?thesis unfolding fs'
        by (rule stage_kept_quiet [OF ok, of _ _ _ "Giving_up d (Lock_not_acquired t e)"]) (use r(2) Some False st in simp_all)
    qed
  qed
qed

lemma recording_step:
  assumes step: "prog_step (fs, closing d (record_and_run t d f)) (fs', p')" and ok: "locks_ok t fs st D" and st: "st n = Recording d"
    and f: "\<And>tok. own_fds_only (f tok) {}"
  shows "stage_kept fuel t f fs' st D n p'"
proof -
  obtain r where r: "sys_stat (Fstat d) fs r" "fs' = fs" "p' = closing d (case r of
        Inl e \<Rightarrow> Panic (Lock_target_not_inspected t e) | Inr m \<Rightarrow> f \<lparr>held_path = t, held_identity = st_id m\<rparr>)"
    using step by (auto simp: record_and_run_def elim!: prog_stepE)
  show ?thesis
  proof (cases r)
    case (Inl e)
    show ?thesis unfolding r(2)
      by (rule stage_kept_quiet [OF ok, of _ _ _ "Giving_up d (Lock_target_not_inspected t e)"]) (use r(3) Inl st in simp_all)
  next
    case (Inr m)
    let ?tok = "\<lparr>held_path = t, held_identity = st_id m\<rparr>"
    have "fs_open fs d = Some (st_id m)" using r(1) Inr by (auto elim!: sys_statE)
    then have "stage_ok t fs (Inside d ?tok (f ?tok)) (D n)"
      using locks_okD(1) [OF ok, of n] st f by simp
    then show ?thesis unfolding r(2)
      by (intro stage_kept_quiet [OF ok, of _ _ _ "Inside d ?tok (f ?tok)"]) (use r(3) Inr st residual_start in simp_all)
  qed
qed

lemma stage_step:
  assumes step: "prog_step (fs, stage_prog fuel t f (st n)) (fs', p')" and ok: "locks_ok t fs st D"
    and "from_body f (st n)" "\<And>tok. own_fds_only (f tok) {}"
  shows "stage_kept fuel t f fs' st D n p'"
proof (cases "st n")
  case Not_open
  then show ?thesis using open_step [OF _ ok] step by simp
next
  case (Locking d k)
  then show ?thesis using locking_step [OF _ ok] step by simp
next
  case (Recording d)
  then show ?thesis using recording_step [OF _ ok] step assms(4) by simp
next
  case (Inside d tok q)
  then show ?thesis using inside_step [OF _ ok] step assms(3) by simp
next
  case (Giving_up d e)
  then show ?thesis using closing_steps [of fs d "Inl e", OF _ ok] step by simp
next
  case (Ended r)
  then show ?thesis using step by (cases r) (auto elim: prog_step.cases)
qed

definition lock_init :: "nat \<Rightarrow> path \<Rightarrow> (nat \<Rightarrow> init_lock_held \<Rightarrow> ('e init_panic, 'a) prog) \<Rightarrow> ('e init_panic, 'a) processes \<Rightarrow> bool" where
  "lock_init fuel t f s \<longleftrightarrow> (\<forall>n. pr_prog s n = with_init_lock fuel t (f n)) \<and> fs_lock (pr_fs s) = Map.empty
     \<and> (\<forall>n tok. own_fds_only (f n tok) {})"

text \<open>The outside may do anything to files and directories, but not to descriptors and locks.\<close>

definition outside_files :: "file_system \<Rightarrow> file_system \<Rightarrow> bool" where
  "outside_files fs fs' \<longleftrightarrow> fs_open fs' = fs_open fs \<and> fs_lock fs' = fs_lock fs"

lemma lock_reachable:
  assumes "(procs_step outside_files)\<^sup>*\<^sup>* s0 s" "lock_init fuel t f s0"
  shows "\<exists>st D. (\<forall>n. pr_prog s n = stage_prog fuel t (f n) (st n) \<and> from_body (f n) (st n)) \<and> locks_ok t (pr_fs s) st D"
  using assms(1)
proof (induction rule: rtranclp_induct)
  case base
  show ?case
    by (rule exI [of _ "\<lambda>_. Not_open"], rule exI [of _ "\<lambda>_. {}"])
       (use assms(2) in \<open>simp add: lock_init_def locks_ok_def fds_of_def\<close>)
next
  case (step s s')
  then obtain st D where inv: "pr_prog s n = stage_prog fuel t (f n) (st n)" "from_body (f n) (st n)" "locks_ok t (pr_fs s) st D" for n
    by blast
  have own: "own_fds_only (f n tok) {}" for n tok using assms(2) by (simp add: lock_init_def)
  from step(2) show ?case
  proof (cases rule: procs_step.cases)
    case (procs_prog n fs' p')
    have "stage_kept fuel t (f n) fs' st D n p'"
      by (rule stage_step [OF _ inv(3) inv(2) own]) (use procs_prog(2) inv(1) in simp)
    then obtain st' D' where k: "p' = stage_prog fuel t (f n) st'" "from_body (f n) st'" "locks_ok t fs' (st(n := st')) (D(n := D'))"
      unfolding stage_kept_def by blast
    have "pr_prog s' m = stage_prog fuel t (f m) ((st(n := st')) m) \<and> from_body (f m) ((st(n := st')) m)" for m
      using inv(1,2) procs_prog(1) k(1,2) by simp
    moreover have "locks_ok t (pr_fs s') (st(n := st')) (D(n := D'))" using k(3) procs_prog(1) by simp
    ultimately show ?thesis by blast
  next
    case (procs_outside fs')
    then have same: "fs_open fs' = fs_open (pr_fs s)" "fs_lock fs' = fs_lock (pr_fs s)" by (simp_all add: outside_files_def)
    have "locks_ok t fs' st D"
      using locks_quiet [OF inv(3) same, of "st 0" 0] locks_okD(1) [OF inv(3), of 0] by simp
    then show ?thesis using inv(1,2) procs_outside(1) by (intro exI [of _ st] exI [of _ D]) simp
  qed
qed

section \<open>Properties\<close>

text \<open>
  C5: the init lock excludes.  Any number of processes run \<open>with_init_lock\<close> for one database, with
  signals, failing calls and directories replaced at any time.  At every moment each of them is at
  a stage of the code, its body runs only while the directory recorded in its token is locked by
  its own descriptor, two processes are never inside with the same directory, and every lock
  belongs to a process that has not finished; so of the processes inside, at most one would be
  told by \<open>target_has_split\<close> that it still holds the lock a new opener contends for.
\<close>

theorem init_lock_exclusive:
  assumes "(procs_step outside_files)\<^sup>*\<^sup>* s0 s" "lock_init fuel t f s0"
  shows "\<exists>st. (\<forall>n. pr_prog s n = stage_prog fuel t (f n) (st n))
    \<and> (\<forall>n d tok q. st n = Inside d tok q \<longrightarrow> residual (f n tok) q \<and> held_path tok = t
         \<and> fs_open (pr_fs s) d = Some (held_identity tok) \<and> fs_lock (pr_fs s) (held_identity tok) = Some d)
    \<and> (\<forall>n m d tok q d' tok' q'. st n = Inside d tok q \<longrightarrow> st m = Inside d' tok' q'
         \<longrightarrow> held_identity tok = held_identity tok' \<longrightarrow> n = m)
    \<and> (\<forall>i d. fs_lock (pr_fs s) i = Some d \<longrightarrow> (\<exists>n. lock_fd (st n) = Some d))"
proof -
  obtain st D where inv: "pr_prog s n = stage_prog fuel t (f n) (st n)" "from_body (f n) (st n)" "locks_ok t (pr_fs s) st D" for n
    using lock_reachable [OF assms] by blast
  have at: "residual (f n tok) q \<and> held_path tok = t \<and> fs_open (pr_fs s) d = Some (held_identity tok)
      \<and> fs_lock (pr_fs s) (held_identity tok) = Some d" if "st n = Inside d tok q" for n d tok q
    using inv(2) [of n] locks_okD(1) [OF inv(3), of n] that by simp
  have "n = m" if i: "st n = Inside d tok q" "st m = Inside d' tok' q'" "held_identity tok = held_identity tok'" for n m d tok q d' tok' q'
  proof -
    have "d = d'" using at [OF i(1)] at [OF i(2)] i(3) by simp
    then show ?thesis using locks_okD(4) [OF inv(3), of d n m] i by (simp add: fds_of_def)
  qed
  then show ?thesis using inv(1) at locks_okD(6) [OF inv(3)] by (intro exI [of _ st]) blast
qed

text \<open>Two processes: the first is inside, the second still has to open the directory.\<close>

definition demo_body :: "nat \<Rightarrow> init_lock_held \<Rightarrow> (unit init_panic, bool) prog" where
  "demo_body n tok = target_has_split tok"

definition demo_dir :: file_system where
  "demo_dir = \<lparr>fs_entries = [[] \<mapsto> File_id 0 2], fs_mode = (\<lambda>_. 0x1FF), fs_open = Map.empty, fs_lock = Map.empty\<rparr>"

lemma demo_init:
  "lock_init 1 [''.skuld.db''] demo_body \<lparr>pr_fs = demo_dir, pr_prog = (\<lambda>n. with_init_lock 1 [''.skuld.db''] (demo_body n))\<rparr>"
  by (simp add: lock_init_def demo_dir_def demo_body_def target_has_split_def stat_target_def lock_dir_def split: option.split)

lemma demo_lock_run:
  "prog_step\<^sup>*\<^sup>* (demo_dir, with_init_lock 1 [''.skuld.db''] (demo_body 0))
     (demo_dir\<lparr>fs_open := [3 \<mapsto> File_id 0 2], fs_lock := [File_id 0 2 \<mapsto> 3]\<rparr>,
      closing 3 (demo_body 0 \<lparr>held_path = [''.skuld.db''], held_identity = File_id 0 2\<rparr>))"
proof -
  let ?t = "[''.skuld.db'']"
  let ?fs1 = "demo_dir\<lparr>fs_open := [3 \<mapsto> File_id 0 2]\<rparr>"
  let ?fs2 = "?fs1\<lparr>fs_lock := [File_id 0 2 \<mapsto> 3]\<rparr>"
  let ?rest = "closing 3 (record_and_run ?t 3 (demo_body 0))"
  have p: "parent ?t = Some []" by (simp add: parent_def)
  have "sys_fd (Open_dir []) demo_dir (Inr 3) ?fs1"
    using sys_open_dir [of demo_dir "[]" "File_id 0 2" 3] by (simp add: demo_dir_def)
  then have "prog_step (demo_dir, with_init_lock 1 ?t (demo_body 0)) (?fs1, closing 3 (run_locked 1 ?t 3 (demo_body 0)))"
    unfolding with_init_lock_Some [OF p]
    using step_ask_fd [where r = "Inr 3" and k = "case_sum (\<lambda>e. Panic (Lock_dir_not_opened [] e))
      (\<lambda>d. closing d (run_locked 1 ?t d (demo_body 0)))"] by simp
  moreover have "sys_unit (Flock 3) ?fs1 None ?fs2"
    using sys_flock [of ?fs1 3 "File_id 0 2"] by (simp add: demo_dir_def)
  then have "prog_step (?fs1, closing 3 (run_locked 1 ?t 3 (demo_body 0))) (?fs2, ?rest)"
    using step_ask [where r = None and k = "\<lambda>r. closing 3 (prog_bind (case r of None \<Rightarrow> Done (Inr ())
        | Some errno \<Rightarrow> if errno = EINTR then lock_exclusive 0 3 else Done (Inl errno)) (\<lambda>r. case r of
        Inl e \<Rightarrow> Panic (Lock_not_acquired ?t e) | Inr _ \<Rightarrow> record_and_run ?t 3 (demo_body 0)))"]
    by (simp add: run_locked_def)
  moreover have "sys_stat (Fstat 3) ?fs2 (Inr \<lparr>st_id = File_id 0 2, st_mode = 0x1FF\<rparr>)"
    using sys_fstat [of ?fs2 3 "File_id 0 2"] by (simp add: demo_dir_def)
  then have "prog_step (?fs2, ?rest) (?fs2, closing 3 (demo_body 0 \<lparr>held_path = ?t, held_identity = File_id 0 2\<rparr>))"
    using step_ask_stat [where r = "Inr \<lparr>st_id = File_id 0 2, st_mode = 0x1FF\<rparr>" and k = "\<lambda>r. closing 3 (case r of
        Inl e \<Rightarrow> Panic (Lock_target_not_inspected ?t e)
      | Inr m \<Rightarrow> demo_body 0 \<lparr>held_path = ?t, held_identity = st_id m\<rparr>)"] by (simp add: record_and_run_def)
  ultimately show ?thesis by (meson r_into_rtranclp rtranclp.rtrancl_into_rtrancl)
qed

theorem init_lock_exclusive_witness:
  "\<exists>s. (procs_step outside_files)\<^sup>*\<^sup>*
       \<lparr>pr_fs = demo_dir, pr_prog = (\<lambda>n. with_init_lock 1 [''.skuld.db''] (demo_body n))\<rparr> s
    \<and> fs_lock (pr_fs s) (File_id 0 2) = Some 3
    \<and> (\<exists>st. (\<forall>n. pr_prog s n = stage_prog 1 [''.skuld.db''] (demo_body n) (st n))
        \<and> (\<exists>n. lock_fd (st n) = Some 3))"
proof -
  let ?t = "[''.skuld.db'']"
  let ?init = "\<lparr>pr_fs = demo_dir, pr_prog = (\<lambda>n. with_init_lock 1 ?t (demo_body n))\<rparr>"
  let ?fs = "demo_dir\<lparr>fs_open := [3 \<mapsto> File_id 0 2], fs_lock := [File_id 0 2 \<mapsto> 3]\<rparr>"
  let ?q = "closing 3 (demo_body 0 \<lparr>held_path = ?t, held_identity = File_id 0 2\<rparr>)"
  let ?final = "?init\<lparr>pr_fs := ?fs, pr_prog := (pr_prog ?init)(0 := ?q)\<rparr>"
  have run: "(procs_step outside_files)\<^sup>*\<^sup>* ?init ?final"
    by (rule alone_procs [where s = ?init]) (use demo_lock_run in simp)
  have lock: "fs_lock (pr_fs ?final) (File_id 0 2) = Some 3" by simp
  obtain st where "\<forall>n. pr_prog ?final n = stage_prog 1 ?t (demo_body n) (st n)"
      "\<forall>i d. fs_lock (pr_fs ?final) i = Some d \<longrightarrow> (\<exists>n. lock_fd (st n) = Some d)"
    using init_lock_exclusive [OF run demo_init] by blast
  then show ?thesis using run lock by blast
qed

text \<open>
  An error counts as a split, so the answer "not split" always means that the directory of the
  database is the one that was locked, and that a new opener contends for this very lock.
\<close>

lemma target_has_split_sound:
  assumes "parent (held_path tok) = Some dir" "prog_step (fs, target_has_split tok) (fs', Done b)" "\<not> b"
  shows "fs_entries fs dir = Some (held_identity tok)"
proof -
  have p: "target_has_split tok = Ask_stat (Stat dir) (\<lambda>r. Done (case map_sum id st_id r of
      Inr identity \<Rightarrow> identity \<noteq> held_identity tok | Inl e \<Rightarrow> True))"
    using assms(1) by (simp add: target_has_split_def stat_target_def lock_dir_def)
  obtain r where "sys_stat (Stat dir) fs r" "b = (case map_sum id st_id r of Inr identity \<Rightarrow> identity \<noteq> held_identity tok | Inl e \<Rightarrow> True)"
    using assms(2) unfolding p by (cases rule: prog_step.cases) auto
  then show ?thesis using assms(3) by (cases rule: sys_stat.cases) auto
qed

end
