(* ===== verification/Publish.thy ===== *)
theory Publish
  imports Syscalls
begin

text \<open>
  The atomic publication of the coordination database (\<open>src/coordination/publish.rs\<close>, Unix).  The
  database file has to be writable for every user from the first moment it is visible, whichever
  process creates it: it is made as a private temporary file, given mode 0666, checked, and moved
  into place by a rename that does not replace.  Each function is a program of Syscalls; the loop
  over candidate names has a bound, and running out of it is a panic of the model, so what is
  proved of all runs covers every number of retries.
\<close>

datatype publish_panic =
    Temp_not_created path errno
  | Temp_not_chmodded path errno
  | Temp_not_statted path errno
  | Modes_not_kept path mode
  | No_atomic_rename path errno
  | Kernel_too_old path errno
  | Not_published str path errno
  | Nul_in_path path
  | No_parent
  | Names_exhausted

datatype rename_error = AlreadyExists | Unsupported errno | KernelTooOld errno | Other_errno errno

definition classify_rename_errno :: "errno \<Rightarrow> rename_error" where
  "classify_rename_errno errno =
     (if errno = EEXIST then AlreadyExists
      else if errno = EINVAL \<or> errno = ENOTSUP then Unsupported errno
      else if errno = ENOSYS then KernelTooOld errno
      else Other_errno errno)"

definition has_nul :: "path \<Rightarrow> bool" where
  "has_nul p \<longleftrightarrow> list_ex (\<lambda>c. CHR 0x00 \<in> set c) p"

text \<open>\<open>to_cstring\<close>: the check is what matters of it.\<close>

definition with_cstring :: "path \<Rightarrow> (publish_panic, 'a) prog \<Rightarrow> (publish_panic, 'a) prog" where
  "with_cstring p k = (if has_nul p then Panic (Nul_in_path p) else k)"

definition temp_prefix :: str where
  "temp_prefix = ''.skuld-publish-''"

definition make_temp_path :: "nat \<Rightarrow> nat \<Rightarrow> 64 word \<Rightarrow> path \<Rightarrow> path" where
  "make_temp_path pid nanos seq dir =
     path_join dir (temp_prefix @ show_nat pid @ ''-'' @ show_nat nanos @ ''-'' @ show_nat (unat seq) @ ''.tmp'')"

section \<open>Creating the temporary file\<close>

datatype create_temp_outcome = Created | NameTaken

text \<open>\<open>drop(file); let _ = remove_file(tmp_path); panic!(...)\<close>\<close>

definition discard_open_temp :: "fd \<Rightarrow> path \<Rightarrow> publish_panic \<Rightarrow> (publish_panic, 'a) prog" where
  "discard_open_temp d tmp_path e = Ask (Close d) (\<lambda>_. Ask (Unlink tmp_path) (\<lambda>_. Panic e))"

definition verify_temp :: "path \<Rightarrow> path \<Rightarrow> fd \<Rightarrow> (publish_panic, create_temp_outcome) prog" where
  "verify_temp dir tmp_path d = Ask_stat (Fstat d) (\<lambda>r. case r of
       Inl e \<Rightarrow> discard_open_temp d tmp_path (Temp_not_statted tmp_path e)
     | Inr meta \<Rightarrow>
         let got_mode = st_mode meta AND 0x1FF in
         if got_mode AND 0x1B6 \<noteq> 0x1B6 then discard_open_temp d tmp_path (Modes_not_kept dir got_mode)
         else Ask (Close d) (\<lambda>_. Done Created))"

definition try_create_publish_temp :: "path \<Rightarrow> path \<Rightarrow> (publish_panic, create_temp_outcome) prog" where
  "try_create_publish_temp dir tmp_path = with_cstring tmp_path
     (Ask_fd (Open_excl tmp_path 0x180) (\<lambda>r. case r of
          Inl err \<Rightarrow> if err = EEXIST then Done NameTaken else Panic (Temp_not_created tmp_path err)
        | Inr d \<Rightarrow> Ask (Fchmod d 0x1B6) (\<lambda>r. case r of
              Some err \<Rightarrow> discard_open_temp d tmp_path (Temp_not_chmodded tmp_path err)
            | None \<Rightarrow> verify_temp dir tmp_path d)))"

primrec create_publish_temp_with :: "nat \<Rightarrow> path \<Rightarrow> (nat \<Rightarrow> path \<Rightarrow> path) \<Rightarrow> (publish_panic, path) prog" where
  "create_publish_temp_with 0 dir candidate = Panic Names_exhausted"
| "create_publish_temp_with (Suc n) dir candidate =
     (let tmp_path = candidate n dir in
      prog_bind (try_create_publish_temp dir tmp_path) (\<lambda>outcome. case outcome of
          Created \<Rightarrow> Done tmp_path
        | NameTaken \<Rightarrow> create_publish_temp_with n dir candidate))"

text \<open>
  What a process draws its candidate names from: its pid, the clock at each call and the counter;
  the \<open>n\<close>-th last of \<open>fuel\<close> candidates is the one of counter value \<open>seq + (fuel - n)\<close>.
\<close>

record namer =
  nm_pid :: nat
  nm_clock :: "nat \<Rightarrow> nat"
  nm_seq :: "64 word"
  nm_fuel :: nat

definition candidate :: "namer \<Rightarrow> nat \<Rightarrow> path \<Rightarrow> path" where
  "candidate nm n dir = make_temp_path (nm_pid nm) (nm_clock nm n) (nm_seq nm + of_nat (nm_fuel nm - Suc n)) dir"

definition create_publish_temp :: "namer \<Rightarrow> path \<Rightarrow> (publish_panic, path) prog" where
  "create_publish_temp nm dir = create_publish_temp_with (nm_fuel nm) dir (candidate nm)"

section \<open>Moving it into place\<close>

definition handle_rename_result :: "path \<Rightarrow> path \<Rightarrow> path \<Rightarrow> (rename_error, unit) result \<Rightarrow> (publish_panic, unit) prog" where
  "handle_rename_result dir tmp_path target r = (case r of
       Inr _ \<Rightarrow> Done ()
     | Inl AlreadyExists \<Rightarrow> Ask (Unlink tmp_path) (\<lambda>_. Done ())
     | Inl (Unsupported errno) \<Rightarrow> Ask (Unlink tmp_path) (\<lambda>_. Panic (No_atomic_rename dir errno))
     | Inl (KernelTooOld errno) \<Rightarrow> Ask (Unlink tmp_path) (\<lambda>_. Panic (Kernel_too_old dir errno))
     | Inl (Other_errno errno) \<Rightarrow> Ask (Unlink tmp_path) (\<lambda>_.
         Panic (Not_published (case file_name target of None \<Rightarrow> [] | Some n \<Rightarrow> n) dir errno)))"

definition rename_result :: "errno option \<Rightarrow> (rename_error, unit) result" where
  "rename_result r = (case r of None \<Rightarrow> Inr () | Some errno \<Rightarrow> Inl (classify_rename_errno errno))"

definition atomic_rename_no_replace :: "path \<Rightarrow> path \<Rightarrow> ('e, (rename_error, unit) result) prog" where
  "atomic_rename_no_replace from to = Ask (Rename_no_replace from to) (\<lambda>r. Done (rename_result r))"

definition rename_publish_temp :: "path \<Rightarrow> path \<Rightarrow> path \<Rightarrow> (publish_panic, unit) prog" where
  "rename_publish_temp dir tmp_path target = with_cstring tmp_path (with_cstring target
     (prog_bind (atomic_rename_no_replace tmp_path target) (handle_rename_result dir tmp_path target)))"

definition publish_one :: "namer \<Rightarrow> path \<Rightarrow> path \<Rightarrow> (publish_panic, unit) prog" where
  "publish_one nm dir target = prog_bind (create_publish_temp nm dir) (\<lambda>tmp_path. rename_publish_temp dir tmp_path target)"

definition ensure_published :: "namer \<Rightarrow> path \<Rightarrow> (publish_panic, unit) prog" where
  "ensure_published nm db_path = Ask (Lstat db_path) (\<lambda>r.
     if r = None then Done ()
     else case parent db_path of
         None \<Rightarrow> Panic No_parent
       | Some dir \<Rightarrow> publish_one nm dir db_path)"

section \<open>Names\<close>

definition is_temp :: "path \<Rightarrow> bool" where
  "is_temp p \<longleftrightarrow> (\<exists>n. file_name p = Some n \<and> starts_with n temp_prefix)"

lemma candidate_is_temp: "is_temp (candidate nm n dir)"
  by (simp add: is_temp_def candidate_def make_temp_path_def file_name_def path_join_def starts_with_iff)

end
