(* ===== verification/DB_Dir.thy ===== *)
theory DB_Dir
  imports Publish
begin

text \<open>
  Where the coordination database lives (\<open>src/coordination/db_dir.rs\<close>, Unix, and \<open>db_path\<close> of
  \<open>src/coordination.rs\<close>).  \<open>SKULD_DB_DIR\<close> wins; otherwise the directory follows from the layout of
  the cargo build tree the executable is in.  The directory named by the variable is created level
  by level, each level published like the database itself.  Queries about the file system that
  only read it are parameters.
\<close>

section \<open>The layout rules\<close>

text \<open>\<open>str::rsplit_once('-')\<close>\<close>

definition rsplit_once :: "char \<Rightarrow> str \<Rightarrow> (str \<times> str) option" where
  "rsplit_once c s = (if c \<in> set s
     then Some (rev (tl (dropWhile (\<lambda>x. x \<noteq> c) (rev s))), rev (takeWhile (\<lambda>x. x \<noteq> c) (rev s))) else None)"

definition is_cargo_hashed :: "path \<Rightarrow> bool" where
  "is_cargo_hashed exe = (case file_name exe of
       None \<Rightarrow> False
     | Some name \<Rightarrow>
         let name = (case strip_suffix name '' (deleted)'' of Some s \<Rightarrow> s | None \<Rightarrow> name);
             stem = (case strip_suffix name ''.exe'' of Some s \<Rightarrow> s | None \<Rightarrow> name)
         in case rsplit_once CHR ''-'' stem of
              None \<Rightarrow> False
            | Some (_, hash) \<Rightarrow> length hash = 16 \<and> list_all is_ascii_hexdigit hash)"

definition parent_of :: "path option \<Rightarrow> path option" where
  "parent_of p = Option.bind p parent"

definition step_up :: "bool \<Rightarrow> (path \<Rightarrow> bool) \<Rightarrow> path option \<Rightarrow> path option" where
  "step_up hashed has_marker profile = (case profile of
       None \<Rightarrow> None | Some p \<Rightarrow> if hashed \<or> has_marker p then Some p else None)"

definition layout_dir :: "(path \<Rightarrow> bool) \<Rightarrow> path \<Rightarrow> path option" where
  "layout_dir has_marker exe = (case parent exe of
       None \<Rightarrow> None
     | Some par \<Rightarrow>
         let hashed = is_cargo_hashed exe in
         if file_name par \<in> {Some ''deps'', Some ''examples''} then
           (case step_up hashed has_marker (parent par) of Some profile \<Rightarrow> Some profile | None \<Rightarrow> Some par)
         else if file_name par = Some ''out'' then
           (case parent_of (parent_of (parent par)) of
              None \<Rightarrow> Some par
            | Some build \<Rightarrow>
                if file_name build = Some ''build'' then
                  (case step_up hashed has_marker (parent build) of Some profile \<Rightarrow> Some profile | None \<Rightarrow> Some par)
                else Some par)
         else Some par)"

text \<open>The probes of the file system the resolution makes.\<close>

datatype io_error = Not_found | Io_error str

record dir_env =
  de_is_dir :: "path \<Rightarrow> bool"
  de_is_file :: "path \<Rightarrow> bool"
  de_canonicalize :: "path \<Rightarrow> (io_error, path) result"
  de_access :: "path \<Rightarrow> (str, unit) result"
  de_metadata :: "path \<Rightarrow> (str, bool) result"
  de_linux :: bool

definition has_cargo_marker :: "dir_env \<Rightarrow> path \<Rightarrow> bool" where
  "has_cargo_marker E profile \<longleftrightarrow> de_is_dir E (path_join profile ''.fingerprint'')
     \<or> (case parent profile of None \<Rightarrow> False | Some t \<Rightarrow> de_is_file E (path_join t ''CACHEDIR.TAG''))"

definition canonical_exe :: "dir_env \<Rightarrow> path \<Rightarrow> (io_error, path) result" where
  "canonical_exe E exe = (case de_canonicalize E exe of
       Inl Not_found \<Rightarrow>
         if de_linux E then
           let deleted = (case file_name exe of None \<Rightarrow> False | Some n \<Rightarrow> ends_with n '' (deleted)'') in
           (case (deleted, parent exe, file_name exe) of
              (True, Some par, Some file) \<Rightarrow> map_sum id (\<lambda>d. path_join d file) (de_canonicalize E par)
            | _ \<Rightarrow> Inl Not_found)
         else Inl Not_found
     | other \<Rightarrow> other)"

definition check_usable :: "dir_env \<Rightarrow> path \<Rightarrow> (str, unit) result" where
  "check_usable E dir = (case de_metadata E dir of
       Inl e \<Rightarrow> Inl e
     | Inr is_dir \<Rightarrow>
         if \<not> is_dir then Inl ''not a directory''
         else if has_nul dir then Inl ''path contains a NUL byte''
         else de_access E dir)"

section \<open>Resolution\<close>

datatype raw_path = Absolute path | Relative str

datatype resolve_error =
    Not_absolute str
  | No_current_exe str
  | Not_canonical path io_error
  | No_layout path
  | Unusable path str
  | Not_created path str

text \<open>
  \<open>create\<close> is what \<open>create_dir_all_open\<close> answered and the file system as it left it; the checks that
  follow see that file system.
\<close>

definition resolve :: "(path \<Rightarrow> (str, unit) result \<times> dir_env) \<Rightarrow> dir_env \<Rightarrow> raw_path option \<Rightarrow> (str, path) result
    \<Rightarrow> (resolve_error, path) result" where
  "resolve create E override_dir exe =
     result_bind
       (case override_dir of
          Some (Relative s) \<Rightarrow> Inl (Not_absolute s)
        | Some (Absolute dir) \<Rightarrow> Inr (dir, create dir)
        | None \<Rightarrow> (case exe of
              Inl e \<Rightarrow> Inl (No_current_exe e)
            | Inr exe \<Rightarrow> (case canonical_exe E exe of
                  Inl e \<Rightarrow> Inl (Not_canonical exe e)
                | Inr exe \<Rightarrow> (case layout_dir (has_cargo_marker E) exe of
                      None \<Rightarrow> Inl (No_layout exe)
                    | Some dir \<Rightarrow> Inr (dir, Inr (), E)))))
       (\<lambda>(dir, created, E'). case check_usable E' dir of
            Inl e \<Rightarrow> Inl (Unusable dir e)
          | Inr _ \<Rightarrow> (case created of Inl e \<Rightarrow> Inl (Not_created dir e) | Inr _ \<Rightarrow> Inr dir))"

definition db_path :: "(path \<Rightarrow> (str, unit) result \<times> dir_env) \<Rightarrow> dir_env \<Rightarrow> raw_path option \<Rightarrow> (str, path) result
    \<Rightarrow> (resolve_error, path) result" where
  "db_path create E over exe = map_sum id (\<lambda>dir. path_join dir ''.skuld.db'') (resolve create E over exe)"

section \<open>Creating the directory\<close>

datatype dir_error = Dir_errno errno | Dir_not_published path rename_error

text \<open>\<open>while !cur.exists()\<close>: the missing levels, innermost first.\<close>

function missing_levels :: "path \<Rightarrow> (publish_panic, path list) prog" where
  "missing_levels cur = Ask_stat (Stat cur) (\<lambda>r. case r of
       Inr _ \<Rightarrow> Done []
     | Inl _ \<Rightarrow> if cur = [] then Done [cur] else prog_bind (missing_levels (butlast cur)) (\<lambda>ms. Done (cur # ms)))"
  by pat_completeness auto
termination by (relation "measure length") auto

declare missing_levels.simps [simp del]

primrec make_temp_dir :: "nat \<Rightarrow> path \<Rightarrow> (nat \<Rightarrow> path \<Rightarrow> path) \<Rightarrow> (publish_panic, (dir_error, path) result) prog" where
  "make_temp_dir 0 par cand = Panic Names_exhausted"
| "make_temp_dir (Suc n) par cand = Ask (Mkdir (cand n par) 0x1C0) (\<lambda>r. case r of
       None \<Rightarrow> Done (Inr (cand n par))
     | Some e \<Rightarrow> if e = EEXIST then make_temp_dir n par cand else Done (Inl (Dir_errno e)))"

definition rename_no_replace :: "path \<Rightarrow> path \<Rightarrow> (publish_panic, (rename_error, unit) result) prog" where
  "rename_no_replace from to = with_cstring from (with_cstring to (atomic_rename_no_replace from to))"

definition publish_dir :: "path \<Rightarrow> path \<Rightarrow> (publish_panic, (dir_error, bool) result) prog" where
  "publish_dir temp target = Ask (Chmod temp 0x1FF) (\<lambda>r. case r of
       Some e \<Rightarrow> Done (Inl (Dir_errno e))
     | None \<Rightarrow> prog_bind (rename_no_replace temp target) (\<lambda>r. Done (case r of
           Inr _ \<Rightarrow> Inr True
         | Inl AlreadyExists \<Rightarrow> Inr False
         | Inl e \<Rightarrow> Inl (Dir_not_published target e))))"

definition finish_dir :: "path \<Rightarrow> (dir_error, bool) result \<Rightarrow> (publish_panic, (dir_error, unit) result) prog" where
  "finish_dir temp published = (case published of
       Inr True \<Rightarrow> Done (Inr ())
     | Inr False \<Rightarrow> Ask (Rmdir temp) (\<lambda>r. Done (case r of None \<Rightarrow> Inr () | Some e \<Rightarrow> Inl (Dir_errno e)))
     | Inl e \<Rightarrow> Ask (Rmdir temp) (\<lambda>_. Done (Inl e)))"

definition create_level :: "namer \<Rightarrow> path \<Rightarrow> (publish_panic, (dir_error, unit) result) prog" where
  "create_level nm target = (case parent target of
       None \<Rightarrow> Panic No_parent
     | Some par \<Rightarrow> prog_bind (make_temp_dir (nm_fuel nm) par (candidate nm)) (\<lambda>r. case r of
           Inl e \<Rightarrow> Done (Inl e)
         | Inr temp \<Rightarrow> prog_bind (publish_dir temp target) (finish_dir temp)))"

primrec create_levels :: "(nat \<Rightarrow> namer) \<Rightarrow> path list \<Rightarrow> (publish_panic, (dir_error, unit) result) prog" where
  "create_levels nm [] = Done (Inr ())"
| "create_levels nm (target # targets) = prog_bind (create_level (nm (length targets)) target) (\<lambda>r. case r of
       Inl e \<Rightarrow> Done (Inl e)
     | Inr _ \<Rightarrow> create_levels nm targets)"

definition create_dir_all_open :: "(nat \<Rightarrow> namer) \<Rightarrow> path \<Rightarrow> (publish_panic, (dir_error, unit) result) prog" where
  "create_dir_all_open nm dir = prog_bind (missing_levels dir) (\<lambda>missing. create_levels nm (rev missing))"

end
