(* ===== verification/Publish_Props.thy ===== *)
theory Publish_Props
  imports Publish
begin

text \<open>
  The publication under concurrency.  A program keeps the publication discipline when it touches
  only temporary files it created itself, renames one of them only after \<open>fstat\<close> showed it
  world-writable and it was closed, and returns only once it knows the target exists.  Programs
  that keep it cannot disturb each other, whatever the interleaving and whichever calls fail; and
  \<open>ensure_published\<close> keeps it.
\<close>

definition world_writable :: "mode \<Rightarrow> bool" where
  "world_writable m \<longleftrightarrow> m AND 0x1B6 = 0x1B6"

section \<open>The discipline\<close>

text \<open>
  \<open>own\<close> are the temporary files of the process, with whether they were verified; \<open>fds\<close> the
  descriptors it has on them; \<open>seen\<close> whether it saw the target.
\<close>

primrec disciplined ::
    "('e, 'a) prog \<Rightarrow> path \<Rightarrow> (path \<Rightarrow> bool option) \<Rightarrow> (fd \<Rightarrow> path option) \<Rightarrow> bool \<Rightarrow> bool" where
  "disciplined (Done a) = (\<lambda>t own fds seen. seen)"
| "disciplined (Panic e) = (\<lambda>t own fds seen. True)"
| "disciplined (Ask c k) = (\<lambda>t own fds seen. case c of
      Lstat p \<Rightarrow> \<forall>r. disciplined (k r) t own fds (seen \<or> p = t \<and> r = None)
    | Fchmod d m \<Rightarrow> \<exists>p. fds d = Some p \<and> (\<forall>r. disciplined (k r) t (own(p \<mapsto> False)) fds seen)
    | Unlink p \<Rightarrow> own p \<noteq> None \<and> p \<notin> ran fds \<and> (\<forall>r. disciplined (k r) t (own(p := None)) fds seen)
    | Rename_no_replace p q \<Rightarrow> q = t \<and> own p = Some True \<and> p \<notin> ran fds
        \<and> disciplined (k None) t (own(p := None)) fds True \<and> disciplined (k (Some EEXIST)) t own fds True
        \<and> (\<forall>e. disciplined (k (Some e)) t own fds (seen \<or> e = EEXIST))
    | Close d \<Rightarrow> fds d \<noteq> None \<and> (\<forall>r. disciplined (k r) t own (fds(d := None)) seen)
    | _ \<Rightarrow> False)"
| "disciplined (Ask_fd c k) = (\<lambda>t own fds seen. case c of
      Open_excl p m \<Rightarrow> is_temp p \<and> (\<forall>d. disciplined (k (Inr d)) t (own(p \<mapsto> False)) (fds(d \<mapsto> p)) seen)
        \<and> (\<forall>e. disciplined (k (Inl e)) t own fds seen)
    | Open_dir p \<Rightarrow> False)"
| "disciplined (Ask_stat c k) = (\<lambda>t own fds seen. case c of
      Fstat d \<Rightarrow> \<exists>p. fds d = Some p
        \<and> (\<forall>st. disciplined (k (Inr st)) t (if world_writable (st_mode st) then own(p \<mapsto> True) else own) fds seen)
        \<and> (\<forall>e. disciplined (k (Inl e)) t own fds seen)
    | Stat p \<Rightarrow> False)"

text \<open>The file system agrees with what all processes own.\<close>

definition owns_ok :: "path \<Rightarrow> file_system \<Rightarrow> (nat \<Rightarrow> path \<Rightarrow> bool option) \<Rightarrow> (nat \<Rightarrow> fd \<Rightarrow> path option) \<Rightarrow> bool" where
  "owns_ok t fs own fds \<longleftrightarrow>
     (\<forall>n. \<forall>p \<in> dom (own n). is_temp p \<and> p \<in> dom (fs_entries fs))
     \<and> (\<forall>n. \<forall>p \<in> dom (own n). \<forall>q. fs_entries fs q = fs_entries fs p \<longrightarrow> q = p)
     \<and> (\<forall>n p i. own n p = Some True \<longrightarrow> fs_entries fs p = Some i \<longrightarrow> world_writable (fs_mode fs i))
     \<and> (\<forall>n m p. p \<in> dom (own n) \<longrightarrow> p \<in> dom (own m) \<longrightarrow> n = m)
     \<and> (\<forall>n d p. fds n d = Some p \<longrightarrow> p \<in> dom (own n) \<and> fs_open fs d = fs_entries fs p)
     \<and> (\<forall>n m d. d \<in> dom (fds n) \<longrightarrow> d \<in> dom (fds m) \<longrightarrow> n = m)
     \<and> (\<forall>i. fs_entries fs t = Some i \<longrightarrow> world_writable (fs_mode fs i))"

definition discipline_kept :: "path \<Rightarrow> ('e, 'a) processes \<Rightarrow> bool \<Rightarrow> (nat \<Rightarrow> path \<Rightarrow> bool option) \<Rightarrow> (nat \<Rightarrow> fd \<Rightarrow> path option) \<Rightarrow> (nat \<Rightarrow> bool) \<Rightarrow> bool" where
  "discipline_kept t s stays own fds seen \<longleftrightarrow> owns_ok t (pr_fs s) own fds
     \<and> (\<forall>n. disciplined (pr_prog s n) t (own n) (fds n) (seen n))
     \<and> (stays \<longrightarrow> (\<forall>n. seen n \<longrightarrow> fs_entries (pr_fs s) t \<noteq> None))"

lemma owns_okD:
  assumes "owns_ok t fs own fds"
  shows "p \<in> dom (own n) \<Longrightarrow> is_temp p"
    and "p \<in> dom (own n) \<Longrightarrow> p \<in> dom (fs_entries fs)"
    and "p \<in> dom (own n) \<Longrightarrow> fs_entries fs q = fs_entries fs p \<Longrightarrow> q = p"
    and "own n p = Some True \<Longrightarrow> fs_entries fs p = Some i \<Longrightarrow> world_writable (fs_mode fs i)"
    and "p \<in> dom (own n) \<Longrightarrow> p \<in> dom (own m) \<Longrightarrow> n = m"
    and "fds n d = Some p \<Longrightarrow> p \<in> dom (own n)"
    and "fds n d = Some p \<Longrightarrow> fs_open fs d = fs_entries fs p"
    and "d \<in> dom (fds n) \<Longrightarrow> d \<in> dom (fds m) \<Longrightarrow> n = m"
    and "fs_entries fs t = Some i \<Longrightarrow> world_writable (fs_mode fs i)"
  using assms unfolding owns_ok_def by blast+

lemma owns_okI:
  assumes "\<And>n p. p \<in> dom (own n) \<Longrightarrow> is_temp p" "\<And>n p. p \<in> dom (own n) \<Longrightarrow> p \<in> dom (fs_entries fs)"
    and "\<And>n p q. p \<in> dom (own n) \<Longrightarrow> fs_entries fs q = fs_entries fs p \<Longrightarrow> q = p"
    and "\<And>n p i. own n p = Some True \<Longrightarrow> fs_entries fs p = Some i \<Longrightarrow> world_writable (fs_mode fs i)"
    and "\<And>n m p. p \<in> dom (own n) \<Longrightarrow> p \<in> dom (own m) \<Longrightarrow> n = m"
    and "\<And>n d p. fds n d = Some p \<Longrightarrow> p \<in> dom (own n)" "\<And>n d p. fds n d = Some p \<Longrightarrow> fs_open fs d = fs_entries fs p"
    and "\<And>n m d. d \<in> dom (fds n) \<Longrightarrow> d \<in> dom (fds m) \<Longrightarrow> n = m"
    and "\<And>i. fs_entries fs t = Some i \<Longrightarrow> world_writable (fs_mode fs i)"
  shows "owns_ok t fs own fds"
  unfolding owns_ok_def by (intro conjI allI ballI impI) (rule assms; assumption)+

text \<open>Changing what one process owns without changing which files it owns.\<close>

lemma dom_upd_same: "p \<in> dom (own n) \<Longrightarrow> dom ((own(n := (own n)(p \<mapsto> v))) k) = dom (own k)"
  by auto

lemma dom_upd_none: "dom ((own(n := (own n)(p := None))) k) = dom (own k) - (if k = n then {p} else {})"
  by auto

section \<open>Each call keeps the agreement\<close>

lemma owns_create:
  assumes ok: "owns_ok t fs own fds" and "\<not> is_temp t" "is_temp p" "fs_entries fs p = None" "\<not> in_use fs i" "fs_open fs d = None"
  shows "owns_ok t ((created fs p i m)\<lparr>fs_open := (fs_open fs)(d \<mapsto> i)\<rparr>) (own(n := (own n)(p \<mapsto> False))) (fds(n := (fds n)(d \<mapsto> p)))"
    (is "owns_ok t ?fs ?own ?fds")
proof -
  have free: "fs_entries fs q \<noteq> Some i" for q using assms(5) by (auto simp: in_use_def ran_def)
  have unowned: "p \<notin> dom (own k)" for k using owns_okD(2) [OF ok, of p k] assms(4) by auto
  have unopened: "d \<notin> dom (fds k)" for k
    using owns_okD(2) [OF ok owns_okD(6) [OF ok]] owns_okD(7) [OF ok, of k d] assms(6) by fastforce
  have tp: "t \<noteq> p" using assms(2,3) by auto
  have dom: "q \<in> dom (?own k) \<longleftrightarrow> k = n \<and> q = p \<or> q \<in> dom (own k)" for k q by auto
  have fdom: "c \<in> dom (?fds k) \<longleftrightarrow> k = n \<and> c = d \<or> c \<in> dom (fds k)" for k c by auto
  show ?thesis
  proof (rule owns_okI, goal_cases)
    case (3 k q q')
    then show ?case using owns_okD(2,3) [OF ok, of q k] free unowned [of k] unfolding dom by (auto simp: created_def split: if_splits)
  next
    case (4 k q j)
    then show ?case using owns_okD(4) [OF ok, of k q j] free unowned [of k] by (auto simp: created_def split: if_splits)
  next
    case (5 k l q)
    then show ?case using owns_okD(5) [OF ok, of q k l] unowned unfolding dom by blast
  next
    case (7 k c q)
    then show ?case using owns_okD(6,7) [OF ok, of k c q] unopened [of k] unowned [of k] by (auto simp: created_def split: if_splits)
  next
    case (8 k l c)
    then show ?case using owns_okD(8) [OF ok, of c k l] unopened unfolding fdom by blast
  next
    case (1 k q)
    then show ?case using owns_okD(1) [OF ok, of q k] assms(3) unfolding dom by blast
  next
    case (2 k q)
    then show ?case using owns_okD(2) [OF ok, of q k] unfolding dom by (auto simp: created_def)
  next
    case (6 k c q)
    then show ?case using owns_okD(6) [OF ok, of k c q] unfolding dom by (auto split: if_splits)
  next
    case (9 j)
    then show ?case using owns_okD(9) [OF ok, of j] tp free by (auto simp: created_def)
  qed
qed

lemma owns_forget:
  assumes ok: "owns_ok t fs own fds" and p: "fds n d = Some p"
  shows "owns_ok t fs (own(n := (own n)(p \<mapsto> False))) fds"
proof -
  note dom = dom_upd_same [of p own n False, OF owns_okD(6) [OF ok p]]
  show ?thesis
  proof (rule owns_okI, unfold dom, goal_cases)
    case (4 k q j)
    then show ?case using owns_okD(4) [OF ok, of k q j] by (auto split: if_splits)
  qed (rule owns_okD [OF ok], assumption+)+
qed

lemma owns_fchmod:
  assumes ok: "owns_ok t fs own fds" and "\<not> is_temp t" "fds n d = Some p" "fs_open fs d = Some i"
  shows "owns_ok t (fs\<lparr>fs_mode := (fs_mode fs)(i := m)\<rparr>) (own(n := (own n)(p \<mapsto> False))) fds"
    (is "owns_ok t ?fs ?own fds")
proof -
  have own: "p \<in> dom (own n)" and i: "fs_entries fs p = Some i"
    using owns_okD(6,7) [OF ok assms(3)] assms(4) by simp_all
  have only: "q = p" if "fs_entries fs q = Some i" for q using owns_okD(3) [OF ok own] i that by simp
  have "t \<noteq> p" using owns_okD(1) [OF ok own] assms(2) by auto
  note weak = owns_forget [OF ok assms(3)]
  have same: "fs_entries ?fs = fs_entries fs" "fs_open ?fs = fs_open fs" by simp_all
  show ?thesis
  proof (rule owns_okI, unfold same, goal_cases)
    case (4 k q j)
    have "q \<noteq> p" using owns_okD(5) [OF ok own, of k] 4(1) by (cases "k = n") (auto simp: dom_def)
    then have "j \<noteq> i" using only 4(2) by auto
    then show ?case using owns_okD(4) [OF weak 4] by simp
  next
    case (9 j)
    then show ?case using owns_okD(9) [OF ok, of j] only \<open>t \<noteq> p\<close> by auto
  qed (rule owns_okD [OF weak], assumption+)+
qed

lemma owns_verified:
  assumes ok: "owns_ok t fs own fds" and p: "fds n d = Some p" and "fs_open fs d = Some i" "world_writable (fs_mode fs i)"
  shows "owns_ok t fs (own(n := (own n)(p \<mapsto> True))) fds"
proof -
  have own: "p \<in> dom (own n)" and i: "fs_entries fs p = Some i"
    using owns_okD(6,7) [OF ok p] assms(3) by simp_all
  note dom = dom_upd_same [of p own n True, OF own]
  show ?thesis
  proof (rule owns_okI, unfold dom, goal_cases)
    case (4 k q j)
    then show ?case using owns_okD(4) [OF ok, of k q j] i assms(4) by (auto split: if_splits)
  qed (rule owns_okD [OF ok], assumption+)+
qed

lemma owns_disown:
  assumes ok: "owns_ok t fs own fds" and "p \<notin> ran (fds n)"
  shows "owns_ok t fs (own(n := (own n)(p := None))) fds"
proof (rule owns_okI, unfold dom_upd_none, goal_cases)
  case (4 k q j)
  then show ?case using owns_okD(4) [OF ok, of k q j] by (auto split: if_splits)
next
  case (6 k d q)
  then show ?case using owns_okD(6) [OF ok 6] assms(2) by (auto simp: ran_def split: if_splits)
next
  case (5 k l q)
  then show ?case using owns_okD(5) [OF ok, of q k l] by blast
next
  case (3 k q q')
  then show ?case using owns_okD(3) [OF ok, of q k q'] by blast
next
  case (9 j)
  then show ?case by (rule owns_okD(9) [OF ok])
qed (rule owns_okD [OF ok], assumption | erule DiffE)+

text \<open>An entry that no process owns may vanish.\<close>

lemma owns_remove:
  assumes ok: "owns_ok t fs own fds" and free: "\<And>k. p \<notin> dom (own k)"
  shows "owns_ok t (fs\<lparr>fs_entries := (fs_entries fs)(p := None)\<rparr>) own fds" (is "owns_ok t ?fs own fds")
proof -
  have other: "fs_entries ?fs q = fs_entries fs q" if "q \<in> dom (own k)" for k q using that free [of k] by auto
  show ?thesis
  proof (rule owns_okI, goal_cases)
    case (2 k q)
    then show ?case using owns_okD(2) [OF ok 2] other [OF 2] by (simp add: dom_def)
  next
    case (3 k q q')
    then show ?case using owns_okD(2) [OF ok 3(1)] owns_okD(3) [OF ok 3(1), of q'] other [OF 3(1)] by (auto split: if_splits)
  next
    case (4 k q j)
    then show ?case using owns_okD(4) [OF ok 4(1), of j] by (auto split: if_splits)
  next
    case (7 k d q)
    then show ?case using owns_okD(7) [OF ok 7] other [OF owns_okD(6) [OF ok 7]] by simp
  next
    case (9 j)
    then show ?case using owns_okD(9) [OF ok, of j] by (auto split: if_splits)
  qed (rule owns_okD [OF ok], assumption+)+
qed

lemma owns_unlink:
  assumes "owns_ok t fs own fds" "p \<in> dom (own n)" "p \<notin> ran (fds n)"
  shows "owns_ok t (fs\<lparr>fs_entries := (fs_entries fs)(p := None)\<rparr>) (own(n := (own n)(p := None))) fds"
proof (rule owns_remove [OF owns_disown [OF assms(1,3)]])
  show "p \<notin> dom ((own(n := (own n)(p := None))) k)" for k
    using owns_okD(5) [OF assms(1,2), of k] unfolding dom_upd_none by auto
qed

lemma owns_rename:
  assumes ok: "owns_ok t fs own fds" and "\<not> is_temp t" "own n p = Some True" "p \<notin> ran (fds n)"
    and i: "fs_entries fs p = Some i" and "fs_entries fs t = None"
  shows "owns_ok t (fs\<lparr>fs_entries := (fs_entries fs)(p := None, t \<mapsto> i)\<rparr>) (own(n := (own n)(p := None))) fds"
    (is "owns_ok t ?fs' ?own fds")
proof -
  have own: "p \<in> dom (own n)" using assms(3) by auto
  have removed: "owns_ok t (fs\<lparr>fs_entries := (fs_entries fs)(p := None)\<rparr>) ?own fds" (is "owns_ok t ?fs ?own fds")
    using owns_unlink [OF ok own assms(4)] .
  have other: "fs_entries ?fs' q = fs_entries ?fs q" if "q \<in> dom (?own k)" for k q
    using owns_okD(1) [OF removed that] assms(2) by auto
  have noti: "fs_entries ?fs q \<noteq> Some i" for q
    using owns_okD(3) [OF ok own, of q] i by auto
  show ?thesis
  proof (rule owns_okI, goal_cases)
    case (2 k q)
    then show ?case using owns_okD(2) [OF removed 2] other [OF 2] by (simp add: dom_def)
  next
    case (3 k q q')
    then have q: "fs_entries ?fs' q' = fs_entries ?fs q" using other [OF 3(1)] by simp
    then have "q' \<noteq> t" using noti [of q] by auto
    then show ?case using owns_okD(3) [OF removed 3(1), of q'] q by simp
  next
    case (4 k q j)
    then have q: "q \<in> dom (?own k)" by (auto split: if_splits)
    show ?case using owns_okD(4) [OF removed 4(1), of j] 4(2) other [OF q] by simp
  next
    case (7 k d q)
    then show ?case using owns_okD(7) [OF removed 7] other [OF owns_okD(6) [OF removed 7]] by simp
  next
    case (9 j)
    then show ?case using owns_okD(4) [OF ok assms(3) i] by simp
  qed (rule owns_okD [OF removed], assumption+)+
qed

lemma owns_close:
  assumes ok: "owns_ok t fs own fds" and "d \<in> dom (fds n)"
  shows "owns_ok t ((unlock fs d)\<lparr>fs_open := (fs_open fs)(d := None)\<rparr>) own (fds(n := (fds n)(d := None)))"
    (is "owns_ok t ?fs own ?fds")
proof -
  have same: "fs_entries ?fs = fs_entries fs" "fs_mode ?fs = fs_mode fs" by (simp_all add: unlock_def)
  show ?thesis
  proof (rule owns_okI, unfold same dom_upd_none, goal_cases)
    case (6 k c q)
    then show ?case using owns_okD(6) [OF ok, of k c q] by (auto split: if_splits)
  next
    case (7 k c q)
    then have "fds k c = Some q" "c = d \<Longrightarrow> k \<noteq> n" by (auto split: if_splits)
    then show ?case using owns_okD(7) [OF ok, of k c q] owns_okD(8) [OF ok assms(2), of k] by auto
  next
    case (8 k l c)
    then have "c \<in> dom (fds k)" "c \<in> dom (fds l)" by simp_all
    then show ?case by (rule owns_okD(8) [OF ok])
  qed (rule owns_okD [OF ok], assumption+)+
qed

section \<open>Every step keeps the discipline\<close>

definition step_kept :: "path \<Rightarrow> file_system \<Rightarrow> file_system \<Rightarrow> (nat \<Rightarrow> path \<Rightarrow> bool option) \<Rightarrow> (nat \<Rightarrow> fd \<Rightarrow> path option)
    \<Rightarrow> nat \<Rightarrow> bool \<Rightarrow> ('e, 'a) prog \<Rightarrow> bool" where
  "step_kept t fs fs' own fds n seen p' \<longleftrightarrow> (\<exists>own' fds' seen'. owns_ok t fs' (own(n := own')) (fds(n := fds'))
     \<and> disciplined p' t own' fds' seen' \<and> (seen' \<longrightarrow> seen \<or> fs_entries fs' t \<noteq> None)
     \<and> (fs_entries fs t \<noteq> None \<longrightarrow> fs_entries fs' t = fs_entries fs t))"

lemma step_keptI:
  assumes "owns_ok t fs' (own(n := own')) (fds(n := fds'))" "disciplined p' t own' fds' seen'"
    and "seen' \<Longrightarrow> seen \<or> fs_entries fs' t \<noteq> None" "fs_entries fs t \<noteq> None \<Longrightarrow> fs_entries fs' t = fs_entries fs t"
  shows "step_kept t fs fs' own fds n seen p'"
  using assms unfolding step_kept_def by blast

lemma step_kept_same:
  assumes "owns_ok t fs own fds" "disciplined p' t (own n) (fds n) seen'" "seen' \<Longrightarrow> seen \<or> fs_entries fs t \<noteq> None"
  shows "step_kept t fs fs own fds n seen p'"
  by (rule step_keptI [of t fs own n "own n" fds "fds n" p' seen']) (use assms in simp_all)

lemma unit_step_kept:
  assumes "sys_unit c fs r fs'" and ok: "owns_ok t fs own fds" and d: "disciplined (Ask c k) t (own n) (fds n) seen" and t: "\<not> is_temp t"
  shows "step_kept t fs fs' own fds n seen (k r)"
  using assms(1)
proof (cases rule: sys_unit.cases)
  case (sys_lstat p)
  show ?thesis unfolding sys_lstat(3)
    by (rule step_kept_same [OF ok, where seen' = "seen \<or> p = t"]) (use d sys_lstat in \<open>auto dest: spec [of _ None]\<close>)
next
  case (sys_lstat_none p)
  show ?thesis unfolding sys_lstat_none(3)
    by (rule step_kept_same [OF ok, where seen' = seen]) (use d sys_lstat_none in \<open>auto dest: spec [of _ r]\<close>)
next
  case (sys_lstat_err e p)
  show ?thesis unfolding sys_lstat_err(3)
    by (rule step_kept_same [OF ok, where seen' = seen]) (use d sys_lstat_err in \<open>auto dest: spec [of _ r]\<close>)
next
  case (sys_fchmod d i m kept)
  obtain p where p: "fds n d = Some p" "disciplined (k r) t ((own n)(p \<mapsto> False)) (fds n) seen"
    using assms(3) sys_fchmod by auto
  show ?thesis unfolding sys_fchmod(3)
    by (rule step_keptI [OF _ p(2)]) (use owns_fchmod [OF ok t p(1) sys_fchmod(4)] in simp_all)
next
  case (sys_fchmod_err d m e)
  obtain p where p: "fds n d = Some p" "disciplined (k r) t ((own n)(p \<mapsto> False)) (fds n) seen"
    using assms(3) sys_fchmod_err by auto
  show ?thesis unfolding sys_fchmod_err(3)
    by (rule step_keptI [OF _ p(2)]) (use owns_forget [OF ok p(1)] in simp_all)
next
  case (sys_unlink p)
  have p: "p \<in> dom (own n)" "p \<notin> ran (fds n)" "disciplined (k r) t ((own n)(p := None)) (fds n) seen"
    using d sys_unlink by auto
  have "p \<noteq> t" using owns_okD(1) [OF ok p(1)] t by auto
  then show ?thesis unfolding sys_unlink(3)
    by (intro step_keptI [OF _ p(3)]) (use owns_unlink [OF ok p(1,2)] in simp_all)
next
  case (sys_unlink_err p e)
  have p: "p \<notin> ran (fds n)" "disciplined (k r) t ((own n)(p := None)) (fds n) seen"
    using d sys_unlink_err by auto
  show ?thesis unfolding sys_unlink_err(3)
    by (rule step_keptI [OF _ p(2)]) (use owns_disown [OF ok p(1)] in simp_all)
next
  case (sys_rename p i q)
  have p: "own n p = Some True" "p \<notin> ran (fds n)" "q = t" "disciplined (k r) t ((own n)(p := None)) (fds n) True"
    using d sys_rename by auto
  show ?thesis unfolding sys_rename(3)
    by (rule step_keptI [OF _ p(4)]) (use owns_rename [OF ok t p(1,2)] sys_rename p(3) in simp_all)
next
  case (sys_rename_exists q p)
  show ?thesis unfolding sys_rename_exists(3)
    by (rule step_kept_same [OF ok, where seen' = True]) (use d sys_rename_exists in \<open>auto\<close>)
next
  case (sys_rename_err e p q)
  show ?thesis unfolding sys_rename_err(3)
    by (rule step_kept_same [OF ok, where seen' = seen]) (use d sys_rename_err in \<open>auto dest: spec [of _ e]\<close>)
next
  case (sys_close c)
  have c: "c \<in> dom (fds n)" "disciplined (k r) t (own n) ((fds n)(c := None)) seen" using d sys_close by auto
  show ?thesis unfolding sys_close(2)
    by (rule step_keptI [OF _ c(2)]) (use owns_close [OF ok c(1)] in \<open>simp_all add: unlock_def\<close>)
qed (use d in auto)

lemma prog_step_kept:
  assumes step: "prog_step (fs, p) (fs', p')" and ok: "owns_ok t fs own fds"
    and d: "disciplined p t (own n) (fds n) seen" and t: "\<not> is_temp t"
  shows "step_kept t fs fs' own fds n seen p'"
  using step
proof (cases rule: prog_step.cases)
  case (step_ask c r k)
  show ?thesis unfolding step_ask(2) by (rule unit_step_kept [OF step_ask(3) ok _ t]) (use d step_ask(1) in simp)
next
  case (step_ask_fd c r k)
  from step_ask_fd(3) show ?thesis unfolding step_ask_fd(2)
  proof (cases rule: sys_fd.cases)
    case (sys_open_excl q i c m umask)
    have q: "is_temp q" "disciplined (k r) t ((own n)(q \<mapsto> False)) ((fds n)(c \<mapsto> q)) seen" using d step_ask_fd(1) sys_open_excl by auto
    then have "q \<noteq> t" using t by auto
    then show "step_kept t fs fs' own fds n seen (k r)" unfolding sys_open_excl(3)
      by (intro step_keptI [OF _ q(2)]) (use owns_create [OF ok t q(1) sys_open_excl(4-6)] in \<open>simp_all add: created_def\<close>)
  next
    case (sys_open_exists q m)
    show "step_kept t fs fs' own fds n seen (k r)" unfolding sys_open_exists(3)
      by (rule step_kept_same [OF ok, where seen' = seen]) (use d step_ask_fd(1) sys_open_exists in auto)
  next
    case (sys_open_err e q m)
    show "step_kept t fs fs' own fds n seen (k r)" unfolding sys_open_err(3)
      by (rule step_kept_same [OF ok, where seen' = seen]) (use d step_ask_fd(1) sys_open_err in auto)
  qed (use d step_ask_fd(1) in auto)
next
  case (step_ask_stat c r k)
  from step_ask_stat(4) show ?thesis unfolding step_ask_stat(2,3)
  proof (cases rule: sys_stat.cases)
    case (sys_fstat c i)
    obtain q where q: "fds n c = Some q"
        "disciplined (k r) t (if world_writable (fs_mode fs i) then (own n)(q \<mapsto> True) else own n) (fds n) seen"
      using d step_ask_stat(1) sys_fstat by (auto dest!: spec [of _ "\<lparr>st_id = i, st_mode = fs_mode fs i\<rparr>"])
    show "step_kept t fs fs own fds n seen (k r)"
    proof (cases "world_writable (fs_mode fs i)")
      case True
      then have q': "disciplined (k r) t ((own n)(q \<mapsto> True)) (fds n) seen" using q(2) by simp
      show ?thesis by (rule step_keptI [OF _ q']) (use owns_verified [OF ok q(1) sys_fstat(3) True] in simp_all)
    next
      case False
      then show ?thesis by (intro step_kept_same [OF ok, where seen' = seen]) (use q(2) in simp_all)
    qed
  next
    case (sys_fstat_err c e)
    show "step_kept t fs fs own fds n seen (k r)"
      by (rule step_kept_same [OF ok, where seen' = seen]) (use d step_ask_stat(1) sys_fstat_err in auto)
  qed (use d step_ask_stat(1) in auto)
qed

text \<open>What the outside may do: remove an entry that is not a temporary file of a publication.\<close>

definition outside_removes :: "(path \<Rightarrow> bool) \<Rightarrow> file_system \<Rightarrow> file_system \<Rightarrow> bool" where
  "outside_removes del fs fs' \<longleftrightarrow> (\<exists>p. del p \<and> \<not> is_temp p \<and> fs' = fs\<lparr>fs_entries := (fs_entries fs)(p := None)\<rparr>)"

lemma discipline_step:
  assumes step: "procs_step (outside_removes del) s s'" and inv: "discipline_kept t s (\<not> del t) own fds seen" and t: "\<not> is_temp t"
  shows "(\<exists>own fds seen. discipline_kept t s' (\<not> del t) own fds seen)
    \<and> (\<not> del t \<longrightarrow> fs_entries (pr_fs s) t \<noteq> None \<longrightarrow> fs_entries (pr_fs s') t = fs_entries (pr_fs s) t)"
proof -
  have ok: "owns_ok t (pr_fs s) own fds" and d: "disciplined (pr_prog s n) t (own n) (fds n) (seen n)"
    and sn: "\<not> del t \<Longrightarrow> seen n \<Longrightarrow> fs_entries (pr_fs s) t \<noteq> None" for n
    using inv by (auto simp: discipline_kept_def)
  from step show ?thesis
  proof (cases rule: procs_step.cases)
    case (procs_prog n fs' p')
    then obtain own' fds' seen' where k: "owns_ok t fs' (own(n := own')) (fds(n := fds'))" "disciplined p' t own' fds' seen'"
        "seen' \<longrightarrow> seen n \<or> fs_entries fs' t \<noteq> None" "fs_entries (pr_fs s) t \<noteq> None \<longrightarrow> fs_entries fs' t = fs_entries (pr_fs s) t"
      using prog_step_kept [OF procs_prog(2) ok d t] unfolding step_kept_def by blast
    have "discipline_kept t s' (\<not> del t) (own(n := own')) (fds(n := fds')) (seen(n := seen'))"
      unfolding discipline_kept_def using k d sn procs_prog(1) by auto
    then show ?thesis using k(4) procs_prog(1) by auto
  next
    case (procs_outside fs')
    then obtain p where p: "del p" "\<not> is_temp p" "fs' = (pr_fs s)\<lparr>fs_entries := (fs_entries (pr_fs s))(p := None)\<rparr>"
      by (auto simp: outside_removes_def)
    have "p \<notin> dom (own n)" for n using owns_okD(1) [OF ok, of p n] p(2) by blast
    then have "owns_ok t fs' own fds" unfolding p(3) by (rule owns_remove [OF ok])
    then have "discipline_kept t s' (\<not> del t) own fds seen"
      unfolding discipline_kept_def using d sn procs_outside(1) p by auto
    then have "\<exists>own fds seen. discipline_kept t s' (\<not> del t) own fds seen" by blast
    moreover have "\<not> del t \<longrightarrow> fs_entries (pr_fs s') t = fs_entries (pr_fs s) t" using procs_outside(1) p by auto
    ultimately show ?thesis by simp
  qed
qed

section \<open>The code keeps it\<close>

lemma temp_mode_ok: "(m AND 0x1FF) AND 0x1B6 = 0x1B6 \<longleftrightarrow> world_writable m" for m :: mode
  by (simp add: world_writable_def and.assoc)

lemma create_disciplined:
  assumes "\<And>n d. is_temp (cand n d)" "\<And>p. is_temp p \<Longrightarrow> disciplined (f p) t [p \<mapsto> True] Map.empty False"
  shows "disciplined (prog_bind (create_publish_temp_with n dir cand) f) t Map.empty Map.empty False"
proof (induction n)
  case (Suc n)
  then show ?case using assms
    by (auto simp: Let_def try_create_publish_temp_def with_cstring_def verify_temp_def discard_open_temp_def temp_mode_ok
        split: option.split sum.split)
qed simp

lemma rename_disciplined:
  assumes "is_temp p"
  shows "disciplined (rename_publish_temp dir p t) t [p \<mapsto> True] Map.empty False"
  by (auto simp: rename_publish_temp_def with_cstring_def atomic_rename_no_replace_def handle_rename_result_def rename_result_def
      classify_rename_errno_def)

lemma ensure_published_disciplined: "disciplined (ensure_published nm t) t Map.empty Map.empty False"
  by (auto simp: ensure_published_def publish_one_def create_publish_temp_def candidate_is_temp rename_disciplined
      intro!: create_disciplined split: option.split)

definition publish_init :: "(nat \<Rightarrow> namer) \<Rightarrow> path \<Rightarrow> (publish_panic, unit) processes \<Rightarrow> bool" where
  "publish_init nm t s \<longleftrightarrow> (\<forall>n. pr_prog s n = ensure_published (nm n) t)
     \<and> (\<forall>i. fs_entries (pr_fs s) t = Some i \<longrightarrow> world_writable (fs_mode (pr_fs s) i))"

lemma publish_reachable:
  assumes "(procs_step (outside_removes del))\<^sup>*\<^sup>* s0 s" "publish_init nm t s0" "\<not> is_temp t"
  shows "\<exists>own fds seen. discipline_kept t s (\<not> del t) own fds seen"
  using assms(1)
proof (induction rule: rtranclp_induct)
  case base
  have "owns_ok t (pr_fs s0) (\<lambda>_. Map.empty) (\<lambda>_. Map.empty)"
    using assms(2) by (simp add: owns_ok_def publish_init_def)
  then have "discipline_kept t s0 (\<not> del t) (\<lambda>_. Map.empty) (\<lambda>_. Map.empty) (\<lambda>_. False)"
    using assms(2) ensure_published_disciplined by (simp add: discipline_kept_def publish_init_def)
  then show ?case by blast
next
  case (step s s')
  then show ?case using discipline_step [OF step(2) _ assms(3)] by blast
qed

section \<open>A publication that meets no error\<close>

lemma created_sel [simp]:
  "fs_entries (created fs p i m) = (fs_entries fs)(p \<mapsto> i)" "fs_mode (created fs p i m) = (fs_mode fs)(i := m)"
  "fs_open (created fs p i m) = fs_open fs" "fs_lock (created fs p i m) = fs_lock fs"
  by (simp_all add: created_def)

lemma unlock_sel [simp]:
  "fs_entries (unlock fs d) = fs_entries fs" "fs_mode (unlock fs d) = fs_mode fs" "fs_open (unlock fs d) = fs_open fs"
  by (simp_all add: unlock_def)

lemma create_alone:
  assumes "calm K" "fs_finite fs" "\<exists>n < fuel. fs_entries fs (cand n dir) = None" "\<forall>n < fuel. \<not> has_nul (cand n dir)"
  shows "\<exists>fs' n i. alone (create_publish_temp_with fuel dir cand) K fs = (fs', Inr (cand n dir)) \<and> n < fuel
    \<and> fs_entries fs (cand n dir) = None \<and> fs_entries fs' = (fs_entries fs)(cand n dir \<mapsto> i) \<and> fs_mode fs' i = 0x1B6"
  using assms(3,4)
proof (induction fuel)
  case (Suc fuel)
  show ?case
  proof (cases "fs_entries fs (cand fuel dir)")
    case None
    then show ?thesis using Suc.prems
      by (auto simp: Let_def alone_bind try_create_publish_temp_def with_cstring_def verify_temp_def temp_mode_ok world_writable_def
          intro!: exI [of _ fuel] exI [of _ "ck_id K fs"])
  next
    case (Some i)
    then have "\<exists>n < fuel. fs_entries fs (cand n dir) = None" using Suc.prems(1) less_Suc_eq by fastforce
    then show ?thesis using Suc.IH Suc.prems(2) Some
      by (fastforce simp: Let_def alone_bind try_create_publish_temp_def with_cstring_def)
  qed
qed simp

lemma show_nat_no_nul: "CHR 0x00 \<notin> set (show_nat n)"
  using show_nat_digits [of n] by (auto simp: list_all_iff is_ascii_digit_def)

lemma candidate_no_nul: "\<not> has_nul t \<Longrightarrow> \<not> has_nul (candidate nm m (butlast t))"
  by (auto simp: has_nul_def list_ex_iff candidate_def make_temp_path_def path_join_def temp_prefix_def show_nat_no_nul
      dest: in_set_butlastD)

lemma ensure_published_alone:
  assumes "calm K" "fs_finite fs" "fs_entries fs t = None" "parent t = Some dir" "\<not> has_nul t" "\<not> is_temp t"
    and "n < nm_fuel nm" "fs_entries fs (candidate nm n dir) = None"
  shows "\<exists>fs' i. alone (ensure_published nm t) K fs = (fs', Inr ())
    \<and> fs_entries fs' = (fs_entries fs)(t \<mapsto> i) \<and> world_writable (fs_mode fs' i)"
proof -
  have nul: "\<not> has_nul (candidate nm m dir)" for m
    using assms(4,5) by (auto simp: parent_def dest: candidate_no_nul split: if_splits)
  obtain fs1 m i where 1: "alone (create_publish_temp nm dir) K fs = (fs1, Inr (candidate nm m dir))"
      "fs_entries fs (candidate nm m dir) = None" "fs_entries fs1 = (fs_entries fs)(candidate nm m dir \<mapsto> i)" "fs_mode fs1 i = 0x1B6"
    using create_alone [OF assms(1,2), of "nm_fuel nm" "candidate nm" dir] assms(7,8) nul unfolding create_publish_temp_def by blast
  have ne: "candidate nm m dir \<noteq> t" using candidate_is_temp assms(6) by metis
  have "alone (rename_publish_temp dir (candidate nm m dir) t) K fs1
      = (set_entries fs1 ((fs_entries fs1)(candidate nm m dir := None, t \<mapsto> i)), Inr ())"
    using 1(3) ne assms(3,5) nul
    by (simp add: rename_publish_temp_def with_cstring_def atomic_rename_no_replace_def handle_rename_result_def rename_result_def)
  then show ?thesis using 1 assms(3,4) ne
    by (auto simp: ensure_published_def publish_one_def alone_bind set_entries_def world_writable_def fun_upd_idem)
qed

text \<open>
  C40: \<open>ensure_published\<close> gets the database into place.  If no call fails and one of the candidate
  names is free, it returns, however many names were taken; afterwards the target exists, is
  world-writable whatever the umask, and no other entry of the file system has changed.
\<close>

theorem ensure_published_publishes:
  assumes "calm K" "fs_finite fs" "fs_entries fs t = None" "parent t = Some dir" "\<not> has_nul t" "\<not> is_temp t"
    and "n < nm_fuel nm" "fs_entries fs (candidate nm n dir) = None"
  shows "\<exists>fs' i. alone (ensure_published nm t) K fs = (fs', Inr ())
    \<and> fs_entries fs' = (fs_entries fs)(t \<mapsto> i) \<and> world_writable (fs_mode fs' i)"
  using ensure_published_alone [OF assms] .

definition demo_fs :: file_system where
  "demo_fs = \<lparr>fs_entries = [[] \<mapsto> File_id 0 0], fs_mode = (\<lambda>_. 0x1ED), fs_open = Map.empty, fs_lock = Map.empty\<rparr>"

definition demo_namer :: "nat \<Rightarrow> namer" where
  "demo_namer pid = \<lparr>nm_pid = pid, nm_clock = (\<lambda>_. 5), nm_seq = 0, nm_fuel = 1\<rparr>"

lemma demo_publish_facts:
  "fs_finite demo_fs" "parent [''.skuld.db''] = Some []" "\<not> has_nul [''.skuld.db'']" "\<not> is_temp [''.skuld.db'']"
  "fs_entries demo_fs [''.skuld.db''] = None" "fs_entries demo_fs (candidate nm n []) = None"
  by (simp_all add: fs_finite_def demo_fs_def parent_def has_nul_def is_temp_def file_name_def starts_with_def temp_prefix_def
      candidate_def make_temp_path_def path_join_def)

theorem ensure_published_publishes_witness:
  "\<exists>fs' i. alone (ensure_published (demo_namer 7) [''.skuld.db'']) lowest_free demo_fs = (fs', Inr ())
    \<and> fs_entries fs' = (fs_entries demo_fs)([''.skuld.db''] \<mapsto> i) \<and> world_writable (fs_mode fs' i)"
  by (rule ensure_published_publishes [OF calm_lowest_free, where dir = "[]" and n = 0])
     (simp_all only: demo_publish_facts simp_thms, simp_all add: demo_namer_def)

text \<open>
  C6: the database is never seen without its permissions.  Any number of processes publish at once,
  their calls interleaved in any order, each call free to fail and each file system free to ignore
  modes, while the outside may delete anything but the temporary files.  In every state that can
  be reached, a database file at the target is world-writable; a process step never replaces or
  removes one; and unless the outside deletes it, it is there whenever a process has returned.
\<close>

theorem publish_safe:
  assumes "(procs_step (outside_removes del))\<^sup>*\<^sup>* s0 s" "publish_init nm t s0" "\<not> is_temp t"
  shows "(\<forall>i. fs_entries (pr_fs s) t = Some i \<longrightarrow> world_writable (fs_mode (pr_fs s) i))
    \<and> (\<forall>s' i. procs_step (outside_removes del) s s' \<longrightarrow> fs_entries (pr_fs s) t = Some i \<longrightarrow> \<not> del t \<longrightarrow> fs_entries (pr_fs s') t = Some i)
    \<and> (\<forall>n. pr_prog s n = Done () \<longrightarrow> \<not> del t \<longrightarrow> fs_entries (pr_fs s) t \<noteq> None)"
proof -
  obtain own fds seen where inv: "discipline_kept t s (\<not> del t) own fds seen" using publish_reachable [OF assms] by blast
  then have ok: "owns_ok t (pr_fs s) own fds" and d: "disciplined (pr_prog s n) t (own n) (fds n) (seen n)" for n
    by (auto simp: discipline_kept_def)
  have "fs_entries (pr_fs s) t \<noteq> None" if "pr_prog s n = Done ()" "\<not> del t" for n
    using d [of n] that inv by (auto simp: discipline_kept_def)
  then show ?thesis using owns_okD(9) [OF ok] discipline_step [where del = del, OF _ inv assms(3)] by auto
qed

text \<open>Two processes: the first publishes while the second has not started.\<close>

theorem publish_safe_witness:
  "\<exists>s i. (procs_step (outside_removes (\<lambda>_. False)))\<^sup>*\<^sup>*
       \<lparr>pr_fs = demo_fs, pr_prog = (\<lambda>n. ensure_published (demo_namer n) [''.skuld.db''])\<rparr> s
    \<and> pr_prog s 0 = Done () \<and> pr_prog s 1 = ensure_published (demo_namer 1) [''.skuld.db'']
    \<and> fs_entries (pr_fs s) [''.skuld.db''] = Some i \<and> world_writable (fs_mode (pr_fs s) i)"
proof -
  let ?t = "[''.skuld.db'']"
  let ?init = "\<lparr>pr_fs = demo_fs, pr_prog = (\<lambda>n. ensure_published (demo_namer n) ?t)\<rparr>"
  obtain fs i where fs: "alone (ensure_published (demo_namer 0) ?t) lowest_free demo_fs = (fs, Inr ())" "fs_entries fs ?t = Some i"
    using ensure_published_alone [OF calm_lowest_free demo_publish_facts(1,5,2,3,4), of 0 "demo_namer 0"] demo_publish_facts(6)
    by (auto simp: demo_namer_def)
  let ?s = "?init\<lparr>pr_fs := fs, pr_prog := (pr_prog ?init)(0 := Done ())\<rparr>"
  have run: "(procs_step (outside_removes (\<lambda>_. False)))\<^sup>*\<^sup>* ?init ?s"
    by (rule alone_procs [where s = ?init]) (use alone_steps [OF calm_lowest_free demo_publish_facts(1) fs(1)] in simp)
  moreover have "publish_init demo_namer ?t ?init" by (simp add: publish_init_def demo_publish_facts(5))
  ultimately have "world_writable (fs_mode fs i)"
    using publish_safe [of "\<lambda>_. False" ?init ?s demo_namer ?t] demo_publish_facts(4) fs(2) by simp
  then show ?thesis using run fs(2) by (intro exI [of _ ?s] exI [of _ i]) simp
qed

end
