(* ===== verification/DB_Dir_Props.thy ===== *)
theory DB_Dir_Props
  imports DB_Dir Publish_Props
begin

text \<open>
  Properties of the directory of the database: the layout rules, what a resolved directory
  guarantees, and that a missing directory is created with every level open to all users.
\<close>

section \<open>The layout\<close>

definition cargo_profile :: "(path \<Rightarrow> bool) \<Rightarrow> path \<Rightarrow> path \<Rightarrow> bool" where
  "cargo_profile has_marker exe profile \<longleftrightarrow> (is_cargo_hashed exe \<or> has_marker profile)
     \<and> ((\<exists>d n. exe = profile @ [d, n] \<and> d \<in> {''deps'', ''examples''})
        \<or> (\<exists>pkg hash n. exe = profile @ [''build'', pkg, hash, ''out'', n]))"

lemma layout_deps:
  assumes "d = ''deps'' \<or> d = ''examples''"
  shows "layout_dir m (p @ [d, n]) = Some (if is_cargo_hashed (p @ [d, n]) \<or> m p then p else p @ [d])"
  using assms by (auto simp: layout_dir_def parent_def file_name_def step_up_def Let_def butlast_append)

lemma layout_out:
  "layout_dir m (p @ [''build'', pkg, hash, ''out'', n])
     = Some (if is_cargo_hashed (p @ [''build'', pkg, hash, ''out'', n]) \<or> m p then p else p @ [''build'', pkg, hash, ''out''])"
  by (simp add: layout_dir_def parent_def parent_of_def file_name_def step_up_def Let_def butlast_append)

lemma file_name_Some: "file_name p = Some c \<longleftrightarrow> (\<exists>q. p = q @ [c])"
  by (cases p rule: rev_cases) (auto simp: file_name_def)

lemma parent_Some: "parent p = Some q \<longleftrightarrow> (\<exists>c. p = q @ [c])"
  by (cases p rule: rev_cases) (auto simp: parent_def)

lemma layout_other:
  assumes "\<And>p d. par @ [n] = p @ [d, n] \<Longrightarrow> d \<notin> {''deps'', ''examples''}"
    and "\<And>p pkg hash. par @ [n] \<noteq> p @ [''build'', pkg, hash, ''out'', n]"
  shows "layout_dir m (par @ [n]) = Some par"
proof -
  have p: "parent (par @ [n]) = Some par" by (simp add: parent_def)
  have "file_name par \<notin> {Some ''deps'', Some ''examples''}"
    using assms(1) by (auto simp: file_name_Some)
  moreover have "file_name b \<noteq> Some ''build''"
    if out: "file_name par = Some ''out''" "parent_of (parent_of (parent par)) = Some b" for b
  proof
    assume "file_name b = Some ''build''"
    then obtain q h k x where "par = q @ [''out'']" "b = k @ [''build'']" "q = (b @ [x]) @ [h]"
      using out by (auto simp: file_name_Some parent_of_def parent_Some bind_eq_Some_conv)
    then show False using assms(2) [of k x h] by simp
  qed
  ultimately show ?thesis
    unfolding layout_dir_def p by (simp split: option.split)
qed

lemma layout_dir_Nil: "layout_dir m [] = None"
  by (simp add: layout_dir_def parent_def)

text \<open>
  The database directory follows the cargo layout.  The directory derived from an executable is
  the profile directory of \<open>deps\<close>, \<open>examples\<close> or the \<open>build\<close> tree it stands in, provided the name is
  a cargo-hashed one or the directory carries a cargo marker; in every other case it is the
  directory of the executable itself, so all binaries of one profile share a database.
\<close>

theorem layout_dir_exact:
  "layout_dir m exe = Some dir \<longleftrightarrow>
     exe \<noteq> [] \<and> (cargo_profile m exe dir \<or> (\<forall>p. \<not> cargo_profile m exe p) \<and> dir = butlast exe)"
proof (cases "(\<exists>p d n. exe = p @ [d, n] \<and> d \<in> {''deps'', ''examples''}) \<or> (\<exists>p pkg hash n. exe = p @ [''build'', pkg, hash, ''out'', n])")
  case True
  then show ?thesis
  proof (elim disjE exE conjE)
    fix p d n assume e: "exe = p @ [d, n]" "d \<in> {''deps'', ''examples''}"
    then have "cargo_profile m exe q \<longleftrightarrow> (is_cargo_hashed exe \<or> m p) \<and> q = p" for q
      by (auto simp: cargo_profile_def)
    then show ?thesis using layout_deps [of d m p n] e by (auto simp: butlast_append)
  next
    fix p pkg hash n assume e: "exe = p @ [''build'', pkg, hash, ''out'', n]"
    then have "cargo_profile m exe q \<longleftrightarrow> (is_cargo_hashed exe \<or> m p) \<and> q = p" for q
      by (auto simp: cargo_profile_def)
    then show ?thesis using layout_out [of m p pkg hash n] e by (auto simp: butlast_append)
  qed
next
  case False
  then have no: "\<not> cargo_profile m exe p" for p by (auto simp: cargo_profile_def)
  show ?thesis
  proof (cases exe rule: rev_cases)
    case (snoc par n)
    have "layout_dir m (par @ [n]) = Some par"
    proof (rule layout_other)
      show "d \<notin> {''deps'', ''examples''}" if "par @ [n] = p @ [d, n]" for p d
        using False snoc that by simp
      show "par @ [n] \<noteq> p @ [''build'', pkg, hash, ''out'', n]" for p pkg hash
        using False snoc by simp
    qed
    then show ?thesis using no snoc by auto
  qed (simp add: layout_dir_Nil)
qed

lemma settled:
  "(case a of Inl e \<Rightarrow> Inl (f e) | Inr u \<Rightarrow> (case b of Inl e \<Rightarrow> Inl (g e) | Inr v \<Rightarrow> Inr x)) = Inr y
     \<longleftrightarrow> a = Inr () \<and> b = Inr () \<and> y = x"
  by (cases a; cases b) auto

text \<open>
  A resolved directory is usable and is the one that was asked for.  Resolution succeeds
  exactly when \<open>SKULD_DB_DIR\<close> is an absolute path whose creation and check both succeeded, or when
  it is unset and the layout of the canonical executable gives a directory that passes the check;
  a relative value, an executable that cannot be located or an unusable directory are errors, and
  there is no fallback to another directory.
\<close>

theorem resolve_exact:
  "resolve create E override_dir exe = Inr dir \<longleftrightarrow> (case override_dir of
      Some (Relative s) \<Rightarrow> False
    | Some (Absolute d) \<Rightarrow> dir = d \<and> fst (create d) = Inr () \<and> check_usable (snd (create d)) d = Inr ()
    | None \<Rightarrow> (\<exists>e c. exe = Inr e \<and> canonical_exe E e = Inr c \<and> layout_dir (has_cargo_marker E) c = Some dir
        \<and> check_usable E dir = Inr ()))"
proof (cases override_dir)
  case None
  show ?thesis
  proof (cases exe)
    case (Inr e)
    then show ?thesis using None
      by (cases "canonical_exe E e") (auto simp: resolve_def result_bind_Inr settled split: option.splits)
  qed (use None in \<open>auto simp: resolve_def\<close>)
next
  case (Some r)
  then show ?thesis by (cases r) (auto simp: resolve_def settled case_prod_beta)
qed

section \<open>Creating the directory\<close>

text \<open>What one level leaves: the target on a new inode, with all permissions.\<close>

definition opened_at :: "path \<Rightarrow> file_system \<Rightarrow> file_system \<Rightarrow> bool" where
  "opened_at p fs fs' \<longleftrightarrow> (\<exists>i. \<not> in_use fs i \<and> fs_entries fs' = (fs_entries fs)(p \<mapsto> i)
     \<and> fs_mode fs' = (fs_mode fs)(i := 0x1FF) \<and> fs_open fs' = fs_open fs)"

lemma make_temp_dir_alone:
  assumes "calm K" "fs_finite fs" "\<exists>n < fuel. fs_entries fs (cand n par) = None"
  shows "\<exists>n < fuel. fs_entries fs (cand n par) = None \<and> alone (make_temp_dir fuel par cand) K fs
    = (created fs (cand n par) (ck_id K fs) (0x1C0 AND NOT (ck_umask K)), Inr (Inr (cand n par)))"
  using assms(3)
proof (induction fuel)
  case (Suc fuel)
  show ?case
  proof (cases "fs_entries fs (cand fuel par)")
    case (Some i)
    then have "\<exists>n < fuel. fs_entries fs (cand n par) = None" using Suc.prems less_Suc_eq by fastforce
    then obtain n where "n < fuel" "fs_entries fs (cand n par) = None" "alone (make_temp_dir fuel par cand) K fs
        = (created fs (cand n par) (ck_id K fs) (0x1C0 AND NOT (ck_umask K)), Inr (Inr (cand n par)))" using Suc.IH by blast
    then show ?thesis using Some by (intro exI [of _ n]) simp
  qed (auto intro!: exI [of _ fuel])
qed simp

lemma create_level_alone:
  assumes K: "calm K" "fs_finite fs" and t: "t \<noteq> []" "\<not> has_nul t" "\<not> is_temp t" "fs_entries fs t = None"
    and free: "n < nm_fuel nm" "fs_entries fs (candidate nm n (butlast t)) = None"
  shows "\<exists>fs'. alone (create_level nm t) K fs = (fs', Inr (Inr ())) \<and> opened_at t fs fs'"
proof -
  obtain k where k: "fs_entries fs (candidate nm k (butlast t)) = None" "alone (make_temp_dir (nm_fuel nm) (butlast t) (candidate nm)) K fs
      = (created fs (candidate nm k (butlast t)) (ck_id K fs) (0x1C0 AND NOT (ck_umask K)), Inr (Inr (candidate nm k (butlast t))))"
    using make_temp_dir_alone [OF K, of "nm_fuel nm" "candidate nm" "butlast t"] free by blast
  let ?p = "candidate nm k (butlast t)"
  let ?fs1 = "created fs ?p (ck_id K fs) (0x1C0 AND NOT (ck_umask K))"
  let ?fs2 = "?fs1\<lparr>fs_mode := (fs_mode ?fs1)(ck_id K fs := 0x1FF)\<rparr>"
  let ?fs3 = "set_entries ?fs2 ((fs_entries ?fs2)(?p := None, t \<mapsto> ck_id K fs))"
  have nul: "\<not> has_nul ?p" and ne: "?p \<noteq> t" using candidate_no_nul [OF t(2)] candidate_is_temp [of nm k "butlast t"] t(3) by auto
  have run: "alone (create_level nm t) K fs = (?fs3, Inr (Inr ()))"
    using k(2) t nul ne
    by (simp add: create_level_def parent_def alone_bind publish_dir_def rename_no_replace_def with_cstring_def
        atomic_rename_no_replace_def rename_result_def finish_dir_def)
  have "\<not> in_use fs (ck_id K fs)" using K by (simp add: calm_def fs_finite_def)
  then have "opened_at t fs ?fs3"
    unfolding opened_at_def using k(1) ne by (intro exI [of _ "ck_id K fs"]) (auto simp: set_entries_def)
  then show ?thesis using run by blast
qed

lemma opened_at_finite: "opened_at p fs fs' \<Longrightarrow> fs_finite fs \<Longrightarrow> fs_finite fs'"
  by (auto simp: opened_at_def fs_finite_def)

text \<open>Several levels: what was there is unchanged, what is new is a target with all permissions.\<close>

definition opened_all :: "path set \<Rightarrow> file_system \<Rightarrow> file_system \<Rightarrow> bool" where
  "opened_all P fs fs' \<longleftrightarrow> dom (fs_entries fs') = dom (fs_entries fs) \<union> P
     \<and> (\<forall>p i. fs_entries fs p = Some i \<longrightarrow> fs_entries fs' p = Some i \<and> fs_mode fs' i = fs_mode fs i)
     \<and> (\<forall>p \<in> P. \<forall>i. fs_entries fs' p = Some i \<longrightarrow> fs_mode fs' i = 0x1FF)"

lemma opened_at_entries:
  assumes "opened_at p fs fs'" "fs_entries fs p = None"
  shows "dom (fs_entries fs') = insert p (dom (fs_entries fs))"
    and "fs_entries fs q = Some i \<Longrightarrow> fs_entries fs' q = Some i \<and> fs_mode fs' i = fs_mode fs i"
    and "fs_entries fs' p = Some i \<Longrightarrow> fs_mode fs' i = 0x1FF"
proof -
  obtain j where j: "\<not> in_use fs j" "fs_entries fs' = (fs_entries fs)(p \<mapsto> j)" "fs_mode fs' = (fs_mode fs)(j := 0x1FF)"
    using assms(1) by (auto simp: opened_at_def)
  show "dom (fs_entries fs') = insert p (dom (fs_entries fs))" using j(2) by auto
  show "fs_entries fs q = Some i \<Longrightarrow> fs_entries fs' q = Some i \<and> fs_mode fs' i = fs_mode fs i"
    using j assms(2) by (auto simp: in_use_def ran_def)
  show "fs_entries fs' p = Some i \<Longrightarrow> fs_mode fs' i = 0x1FF" using j by auto
qed

lemma create_levels_alone:
  assumes "calm K" "fs_finite fs" "distinct ts"
    and "\<And>t. t \<in> set ts \<Longrightarrow> t \<noteq> [] \<and> \<not> has_nul t \<and> \<not> is_temp t \<and> fs_entries fs t = None"
    and "\<And>k t. t \<in> set ts \<Longrightarrow> \<exists>n < nm_fuel (nm k). fs_entries fs (candidate (nm k) n (butlast t)) = None"
  shows "\<exists>fs'. alone (create_levels nm ts) K fs = (fs', Inr (Inr ())) \<and> opened_all (set ts) fs fs'"
  using assms(2-5)
proof (induction ts arbitrary: fs)
  case Nil
  then show ?case by (simp add: opened_all_def)
next
  case (Cons t ts)
  obtain n where n: "n < nm_fuel (nm (length ts))" "fs_entries fs (candidate (nm (length ts)) n (butlast t)) = None"
    using Cons.prems(4) [of t "length ts"] by auto
  have t: "t \<noteq> []" "\<not> has_nul t" "\<not> is_temp t" "fs_entries fs t = None" using Cons.prems(3) [of t] by auto
  obtain fs1 where fs1: "alone (create_level (nm (length ts)) t) K fs = (fs1, Inr (Inr ()))" "opened_at t fs fs1"
    using create_level_alone [OF assms(1) Cons.prems(1) t n] by blast
  note new = opened_at_entries [OF fs1(2) t(4)]
  have keep: "fs_entries fs1 p = None" if "fs_entries fs p = None" "p \<noteq> t" for p using that new(1) by auto
  have "\<exists>fs'. alone (create_levels nm ts) K fs1 = (fs', Inr (Inr ())) \<and> opened_all (set ts) fs1 fs'"
  proof (rule Cons.IH)
    show "fs_finite fs1" using opened_at_finite [OF fs1(2) Cons.prems(1)] .
    show "distinct ts" using Cons.prems(2) by simp
    show "u \<noteq> [] \<and> \<not> has_nul u \<and> \<not> is_temp u \<and> fs_entries fs1 u = None" if "u \<in> set ts" for u
      using Cons.prems(2,3) that keep by auto
    show "\<exists>n < nm_fuel (nm k). fs_entries fs1 (candidate (nm k) n (butlast u)) = None" if u: "u \<in> set ts" for k u
    proof -
      obtain n where "n < nm_fuel (nm k)" "fs_entries fs (candidate (nm k) n (butlast u)) = None" using Cons.prems(4) [of u k] u by auto
      moreover have "candidate (nm k) n (butlast u) \<noteq> t" using candidate_is_temp t(3) by metis
      ultimately show ?thesis using keep by blast
    qed
  qed
  then obtain fs' where fs': "alone (create_levels nm ts) K fs1 = (fs', Inr (Inr ()))" "opened_all (set ts) fs1 fs'" by blast
  have "opened_all (set (t # ts)) fs fs'"
    unfolding opened_all_def
  proof (intro conjI allI ballI impI)
    show "dom (fs_entries fs') = dom (fs_entries fs) \<union> set (t # ts)" using fs'(2) new(1) by (auto simp: opened_all_def)
  next
    fix p i assume "fs_entries fs p = Some i"
    then show "fs_entries fs' p = Some i" "fs_mode fs' i = fs_mode fs i"
      using new(2) [of p i] fs'(2) unfolding opened_all_def by metis+
  next
    fix p i assume "p \<in> set (t # ts)" "fs_entries fs' p = Some i"
    moreover obtain j where "fs_entries fs1 t = Some j" using new(1) by auto
    ultimately show "fs_mode fs' i = 0x1FF" using new(3) [of j] fs'(2) by (auto simp: opened_all_def)
  qed
  then show ?case using fs1(1) fs'(1) by (simp add: alone_bind)
qed

text \<open>The ancestors of a directory, itself included.\<close>

definition ancestors :: "path \<Rightarrow> path set" where
  "ancestors dir = {p. \<exists>q. dir = p @ q}"

definition tree_closed :: "file_system \<Rightarrow> bool" where
  "tree_closed fs \<longleftrightarrow> fs_entries fs [] \<noteq> None \<and> (\<forall>p c. fs_entries fs (p @ [c]) \<noteq> None \<longrightarrow> fs_entries fs p \<noteq> None)"

lemma ancestors_snoc: "ancestors (p @ [c]) = insert (p @ [c]) (ancestors p)"
proof -
  have "x \<in> insert (p @ [c]) (ancestors p)" if "p @ [c] = x @ q" for x q
    using that by (cases q rule: rev_cases) (auto simp: ancestors_def)
  then have "ancestors (p @ [c]) \<subseteq> insert (p @ [c]) (ancestors p)" unfolding ancestors_def by blast
  then show ?thesis by (auto simp: ancestors_def)
qed

lemma tree_closed_ancestors: "tree_closed fs \<Longrightarrow> fs_entries fs dir \<noteq> None \<Longrightarrow> ancestors dir \<subseteq> dom (fs_entries fs)"
proof (induction dir rule: rev_induct)
  case Nil
  then show ?case by (auto simp: ancestors_def)
next
  case (snoc c p)
  then have "fs_entries fs p \<noteq> None" unfolding tree_closed_def by blast
  then show ?case using snoc by (auto simp: ancestors_snoc)
qed

lemma missing_levels_alone:
  assumes "tree_closed fs"
  shows "\<exists>ms. alone (missing_levels dir) K fs = (fs, Inr ms) \<and> distinct ms \<and> set ms \<subseteq> ancestors dir - dom (fs_entries fs) - {[]}
    \<and> ancestors dir \<subseteq> dom (fs_entries fs) \<union> set ms"
proof (induction dir rule: rev_induct)
  case Nil
  then obtain i where "fs_entries fs [] = Some i" using assms by (auto simp: tree_closed_def)
  then show ?case by (subst missing_levels.simps) (auto simp: ancestors_def)
next
  case (snoc c p)
  obtain ms where ms: "alone (missing_levels p) K fs = (fs, Inr ms)" "distinct ms" "set ms \<subseteq> ancestors p - dom (fs_entries fs) - {[]}"
      "ancestors p \<subseteq> dom (fs_entries fs) \<union> set ms" using snoc by blast
  show ?case
  proof (cases "fs_entries fs (p @ [c])")
    case None
    have "p @ [c] \<notin> set ms" using ms(3) by (auto simp: ancestors_def)
    then show ?thesis using None ms
      by (subst missing_levels.simps) (auto simp: alone_bind ancestors_snoc)
  next
    case (Some i)
    then have "ancestors (p @ [c]) \<subseteq> dom (fs_entries fs)" using tree_closed_ancestors [OF assms] by blast
    then show ?thesis using Some by (subst missing_levels.simps) simp
  qed
qed

text \<open>
  A directory named by \<open>SKULD_DB_DIR\<close> is created open to all users.  If no call fails and each
  level has a free temporary name, \<open>create_dir_all_open\<close> succeeds; then the directory and all its
  ancestors exist, every directory it created has mode 0777 whatever the umask, and what existed
  before is still there with its inode and mode.
\<close>

theorem create_dir_all_open_creates:
  assumes "calm K" "fs_finite fs" "tree_closed fs" "\<not> has_nul dir" "\<forall>p \<in> ancestors dir. \<not> is_temp p"
    and "\<forall>p \<in> ancestors dir. \<forall>k. \<exists>n < nm_fuel (nm k). fs_entries fs (candidate (nm k) n p) = None"
  shows "\<exists>fs'. alone (create_dir_all_open nm dir) K fs = (fs', Inr (Inr ()))
    \<and> opened_all (ancestors dir - dom (fs_entries fs)) fs fs'"
proof -
  obtain ms where ms: "alone (missing_levels dir) K fs = (fs, Inr ms)" "distinct ms" "set ms \<subseteq> ancestors dir - dom (fs_entries fs) - {[]}"
      "ancestors dir \<subseteq> dom (fs_entries fs) \<union> set ms" using missing_levels_alone [OF assms(3)] by blast
  have set: "set (rev ms) = ancestors dir - dom (fs_entries fs)" using ms(3,4) by auto
  have "\<exists>fs'. alone (create_levels nm (rev ms)) K fs = (fs', Inr (Inr ())) \<and> opened_all (set (rev ms)) fs fs'"
  proof (rule create_levels_alone [OF assms(1,2)])
    fix t assume t: "t \<in> set (rev ms)"
    then have a: "t \<in> ancestors dir" "t \<noteq> []" "fs_entries fs t = None" using ms(3) by auto
    then show "t \<noteq> [] \<and> \<not> has_nul t \<and> \<not> is_temp t \<and> fs_entries fs t = None"
      using assms(4,5) by (auto simp: ancestors_def has_nul_def)
    have "butlast t \<in> ancestors dir"
      using a by (auto simp: ancestors_def) (metis append_butlast_last_id append_assoc)
    then show "\<exists>n < nm_fuel (nm k). fs_entries fs (candidate (nm k) n (butlast t)) = None" for k using assms(6) by blast
  qed (use ms(2) in simp)
  then show ?thesis using ms(1) set by (auto simp: create_dir_all_open_def alone_bind)
qed

lemma demo_ancestors: "ancestors [''a'', ''b''] = {[], [''a''], [''a'', ''b'']}"
  using ancestors_snoc [of "[''a'']" "''b''"] ancestors_snoc [of "[]" "''a''"] by (auto simp: ancestors_def)

theorem create_dir_all_open_creates_witness:
  "\<exists>fs'. alone (create_dir_all_open demo_namer [''a'', ''b'']) lowest_free demo_fs = (fs', Inr (Inr ()))
    \<and> opened_all {[''a''], [''a'', ''b'']} demo_fs fs'"
proof -
  have "\<exists>fs'. alone (create_dir_all_open demo_namer [''a'', ''b'']) lowest_free demo_fs = (fs', Inr (Inr ()))
      \<and> opened_all (ancestors [''a'', ''b''] - dom (fs_entries demo_fs)) demo_fs fs'"
    by (rule create_dir_all_open_creates [OF calm_lowest_free demo_publish_facts(1)])
       (auto simp: demo_ancestors tree_closed_def demo_fs_def has_nul_def is_temp_def file_name_def temp_prefix_def starts_with_def
          demo_namer_def candidate_def make_temp_path_def path_join_def)
  moreover have "ancestors [''a'', ''b''] - dom (fs_entries demo_fs) = {[''a''], [''a'', ''b'']}"
    by (auto simp: demo_ancestors demo_fs_def)
  ultimately show ?thesis by simp
qed

end
