(* ===== verification/Moved_DB.thy ===== *)
theory Moved_DB
  imports Syscalls
begin

text \<open>
  Detecting a database that was moved away under a live connection
  (\<open>src/coordination/moved_db.rs\<close>, Unix), and opening it (\<open>connect_with\<close> of \<open>src/coordination.rs\<close>).
  A snapshot says what each path names at the moment of a check and what SQLite itself answers;
  a connection is known by its own path and the identities of the descriptors SQLite holds.
\<close>

section \<open>What is recorded\<close>

record snapshot =
  sn_disk :: "path \<Rightarrow> file_id option"                 \<comment> \<open>\<open>FileIdentity::of\<close>\<close>
  sn_fcntl :: "int \<times> bool"                            \<comment> \<open>\<open>SQLITE_FCNTL_HAS_MOVED\<close>: code and answer\<close>

record connection =
  cn_path :: "path option"
  cn_main :: "file_id option"                          \<comment> \<open>\<open>fstat\<close> of the main descriptor\<close>
  cn_wal :: "file_id option"
  cn_shm :: "file_id option"

record tracked =
  tr_path :: path
  tr_identity :: file_id

record db_identity =
  di_main :: file_id
  di_companions :: "(tracked \<times> tracked) option"        \<comment> \<open>\<open>-wal\<close> and \<open>-shm\<close>\<close>

datatype moved_panic =
    Fcntl_failed int
  | No_connection_path path
  | Descriptor_not_open path str
  | Replaced_before_recording path path
  | Retargeted_before_recording path
  | Companion_missing path str
  | Companion_replaced path str path
  | Moved_mid_run path

definition companion_path :: "path \<Rightarrow> str \<Rightarrow> path" where
  "companion_path p sfx = (if p = [] then [sfx] else butlast p @ [last p @ sfx])"

definition own_fd_identity :: "file_id option \<Rightarrow> path \<Rightarrow> str \<Rightarrow> (moved_panic, file_id) result" where
  "own_fd_identity fd p what = (case fd of None \<Rightarrow> Inl (Descriptor_not_open p what) | Some i \<Rightarrow> Inr i)"

definition record_main_identity :: "snapshot \<Rightarrow> connection \<Rightarrow> path \<Rightarrow> (moved_panic, file_id) result" where
  "record_main_identity sn conn p = (case cn_path conn of
       None \<Rightarrow> Inl (No_connection_path p)
     | Some sqlite_path \<Rightarrow> result_bind (own_fd_identity (cn_main conn) p ''main'') (\<lambda>identity.
         if sn_disk sn sqlite_path \<noteq> Some identity then Inl (Replaced_before_recording p sqlite_path)
         else if sn_disk sn p \<noteq> Some identity then Inl (Retargeted_before_recording p)
         else Inr identity))"

definition record_main :: "snapshot \<Rightarrow> connection \<Rightarrow> path \<Rightarrow> (moved_panic, db_identity) result" where
  "record_main sn conn p = map_sum id (\<lambda>i. \<lparr>di_main = i, di_companions = None\<rparr>) (record_main_identity sn conn p)"

definition companion_base :: "connection \<Rightarrow> path \<Rightarrow> (moved_panic, path) result" where
  "companion_base conn p = (case cn_path conn of None \<Rightarrow> Inl (No_connection_path p) | Some q \<Rightarrow> Inr q)"

definition track :: "snapshot \<Rightarrow> path \<Rightarrow> path \<Rightarrow> str \<Rightarrow> file_id \<Rightarrow> (moved_panic, tracked) result" where
  "track sn p base sfx own =
     (let companion = companion_path base sfx in
      case sn_disk sn companion of
        None \<Rightarrow> Inl (Companion_missing p sfx)
      | Some on_disk \<Rightarrow>
          if on_disk \<noteq> own then Inl (Companion_replaced p sfx companion)
          else Inr \<lparr>tr_path = companion, tr_identity = own\<rparr>)"

definition with_companions :: "snapshot \<Rightarrow> db_identity \<Rightarrow> connection \<Rightarrow> path \<Rightarrow> (moved_panic, db_identity) result" where
  "with_companions sn ident conn p =
     result_bind (companion_base conn p) (\<lambda>base.
     result_bind (own_fd_identity (cn_wal conn) p ''-wal'') (\<lambda>wal_id.
     result_bind (own_fd_identity (cn_shm conn) p ''-shm'') (\<lambda>shm_id.
     result_bind (track sn p base ''-wal'' wal_id) (\<lambda>wal.
     result_bind (track sn p base ''-shm'' shm_id) (\<lambda>shm.
       Inr \<lparr>di_main = di_main ident, di_companions = Some (wal, shm)\<rparr>)))))"

section \<open>What is checked\<close>

definition tracked_has_moved :: "snapshot \<Rightarrow> tracked \<Rightarrow> bool" where
  "tracked_has_moved sn tr \<longleftrightarrow> sn_disk sn (tr_path tr) \<noteq> Some (tr_identity tr)"

definition has_moved_via_fcntl :: "snapshot \<Rightarrow> (moved_panic, bool) result" where
  "has_moved_via_fcntl sn = (case sn_fcntl sn of (rc, moved) \<Rightarrow> if rc \<noteq> 0 then Inl (Fcntl_failed rc) else Inr moved)"

definition has_moved :: "snapshot \<Rightarrow> db_identity \<Rightarrow> path \<Rightarrow> (moved_panic, bool) result" where
  "has_moved sn ident p = result_bind (has_moved_via_fcntl sn) (\<lambda>moved.
     Inr (moved \<or> sn_disk sn p \<noteq> Some (di_main ident)
       \<or> (case di_companions ident of
            None \<Rightarrow> False
          | Some (wal, shm) \<Rightarrow> tracked_has_moved sn wal \<or> tracked_has_moved sn shm)))"

definition panic_if_moved :: "snapshot \<Rightarrow> db_identity \<Rightarrow> path \<Rightarrow> (moved_panic, unit) result" where
  "panic_if_moved sn ident p = result_bind (has_moved sn ident p) (\<lambda>moved.
     if moved then Inl (Moved_mid_run p) else Inr ())"

section \<open>What is reported\<close>

datatype error_code = Cannot_open | Read_only | System_io_failure | Permission_denied | Database_full_code | Other_code int

record sqlite_failure =
  sf_code :: "error_code option"
  sf_extended :: "int option"
  sf_text :: str

record failure =
  fl_err :: sqlite_failure
  fl_errno :: "int option"

definition capture :: "int \<Rightarrow> sqlite_failure \<Rightarrow> failure" where
  "capture system_errno err = \<lparr>fl_err = err,
     fl_errno = (if sf_code err \<in> {Some Cannot_open, Some System_io_failure} then Some system_errno else None)\<rparr>"

definition dir_unusable :: "failure \<Rightarrow> bool" where
  "dir_unusable f \<longleftrightarrow> sf_code (fl_err f) \<in> {Some Cannot_open, Some Read_only, Some System_io_failure, Some Permission_denied}"

definition show_int :: "int \<Rightarrow> str" where
  "show_int i = (if i < 0 then ''-'' @ show_nat (nat (- i)) else show_nat (nat i))"

definition debug_option :: "int option \<Rightarrow> str" where
  "debug_option x = (case x of None \<Rightarrow> ''None'' | Some i \<Rightarrow> ''Some('' @ show_int i @ '')'')"

definition failure_detail :: "failure \<Rightarrow> str" where
  "failure_detail f = sf_text (fl_err f) @ '' (extended code: '' @ debug_option (sf_extended (fl_err f)) @ '', system errno: ''
     @ (case fl_errno f of None \<Rightarrow> ''none recorded for this error class'' | Some n \<Rightarrow> show_int n) @ '')''"

definition DB_DIR_HINT :: str where
  "DB_DIR_HINT = ''if the directory is unusable, set SKULD_DB_DIR to a writable absolute directory''"

definition failure_message :: "(path \<Rightarrow> str) \<Rightarrow> snapshot \<Rightarrow> db_identity \<Rightarrow> failure \<Rightarrow> path \<Rightarrow> str \<Rightarrow> (moved_panic, str) result" where
  "failure_message debug sn ident f p context = map_sum id (\<lambda>moved.
     if moved then ''skuld coordination DB '' @ debug p @ '' was deleted or replaced mid-run: '' @ failure_detail f
     else ''skuld: '' @ context @ '' at '' @ debug p @ '': '' @ failure_detail f
       @ (if dir_unusable f then '' ('' @ DB_DIR_HINT @ '')'' else [])) (has_moved sn ident p)"

section \<open>Opening\<close>

text \<open>
  What the \<open>n\<close>-th pass of the loop meets: the open, the \<open>symlink_metadata\<close> after a failed one, and
  the publication.  The loop has no bound in the code; out of fuel is \<open>None\<close>.
\<close>

record ('c, 'p) open_pass =
  op_open :: "(sqlite_failure, 'c) result"
  op_absent :: bool
  op_publish :: "('p, unit) result"

datatype 'p connect_panic = Could_not_open sqlite_failure bool | Publish_panic 'p

definition is_cantopen :: "sqlite_failure \<Rightarrow> bool" where
  "is_cantopen e \<longleftrightarrow> sf_code e = Some Cannot_open"

fun connect_with :: "nat \<Rightarrow> (nat \<Rightarrow> ('c, 'p) open_pass) \<Rightarrow> nat \<Rightarrow> ('p connect_panic, 'c) result option" where
  "connect_with 0 passes n = None"
| "connect_with (Suc fuel) passes n = (case op_open (passes n) of
       Inr conn \<Rightarrow> Some (Inr conn)
     | Inl e \<Rightarrow>
         if \<not> is_cantopen e then Some (Inl (Could_not_open e False))
         else if \<not> op_absent (passes n) then Some (Inl (Could_not_open e True))
         else (case op_publish (passes n) of
             Inl p \<Rightarrow> Some (Inl (Publish_panic p))
           | Inr _ \<Rightarrow> connect_with fuel passes (Suc n)))"

section \<open>Properties\<close>

lemma record_main_identity_Inr:
  "record_main_identity sn conn p = Inr i \<longleftrightarrow>
     (\<exists>q. cn_path conn = Some q \<and> cn_main conn = Some i \<and> sn_disk sn q = Some i \<and> sn_disk sn p = Some i)"
  by (auto simp: record_main_identity_def own_fd_identity_def result_bind_Inr split: option.splits)

lemma track_Inr:
  "track sn p base sfx own = Inr tr \<longleftrightarrow>
     sn_disk sn (companion_path base sfx) = Some own \<and> tr = \<lparr>tr_path = companion_path base sfx, tr_identity = own\<rparr>"
  by (auto simp: track_def Let_def split: option.splits)

lemma with_companions_Inr:
  "with_companions sn ident conn p = Inr ident' \<longleftrightarrow>
     (\<exists>q w s. cn_path conn = Some q \<and> cn_wal conn = Some w \<and> cn_shm conn = Some s
        \<and> sn_disk sn (companion_path q ''-wal'') = Some w \<and> sn_disk sn (companion_path q ''-shm'') = Some s
        \<and> ident' = \<lparr>di_main = di_main ident,
             di_companions = Some (\<lparr>tr_path = companion_path q ''-wal'', tr_identity = w\<rparr>, \<lparr>tr_path = companion_path q ''-shm'', tr_identity = s\<rparr>)\<rparr>)"
  by (auto simp: with_companions_def companion_base_def own_fd_identity_def result_bind_Inr track_Inr split: option.splits)

lemma panic_if_moved_ok:
  "panic_if_moved sn ident p = Inr () \<longleftrightarrow> sn_fcntl sn = (0, False) \<and> sn_disk sn p = Some (di_main ident)
     \<and> (case di_companions ident of None \<Rightarrow> True | Some (wal, shm) \<Rightarrow> \<not> tracked_has_moved sn wal \<and> \<not> tracked_has_moved sn shm)"
proof -
  obtain rc moved where f: "sn_fcntl sn = (rc, moved)" by fastforce
  show ?thesis
    by (cases "di_companions ident")
       (auto simp: panic_if_moved_def has_moved_def has_moved_via_fcntl_def f split: prod.split)
qed

text \<open>
  A check that passes vouches for the files.  Once the identity of a connection was recorded,
  at whatever moments and whatever lay at the paths in between, a later \<open>panic_if_moved\<close> passes
  exactly when SQLite sees no move and the database path and both companions name, at that very
  moment, the files the connection has open; a file swapped in before the recording is never
  adopted.
\<close>

theorem moved_check_exact:
  assumes "record_main sn0 conn p = Inr ident0" "with_companions sn1 ident0 conn p = Inr ident"
    and "cn_path conn = Some q"
  shows "panic_if_moved sn ident p = Inr () \<longleftrightarrow> sn_fcntl sn = (0, False) \<and> sn_disk sn p = cn_main conn
    \<and> sn_disk sn (companion_path q ''-wal'') = cn_wal conn \<and> sn_disk sn (companion_path q ''-shm'') = cn_shm conn"
proof -
  have main: "cn_main conn = Some (di_main ident0)"
    using assms(1) by (auto simp: record_main_def map_sum_Inr_iff record_main_identity_Inr)
  obtain w h where c: "cn_wal conn = Some w" "cn_shm conn = Some h"
      "ident = \<lparr>di_main = di_main ident0,
         di_companions = Some (\<lparr>tr_path = companion_path q ''-wal'', tr_identity = w\<rparr>, \<lparr>tr_path = companion_path q ''-shm'', tr_identity = h\<rparr>)\<rparr>"
    using assms(2,3) unfolding with_companions_Inr by auto
  show ?thesis unfolding panic_if_moved_ok c main by (simp add: tracked_has_moved_def)
qed

theorem moved_check_exact_witness:
  "let conn = \<lparr>cn_path = Some [''db''], cn_main = Some (File_id 1 1), cn_wal = Some (File_id 1 2), cn_shm = Some (File_id 1 3)\<rparr>;
       disk = [[''db''] \<mapsto> File_id 1 1, [''db-wal''] \<mapsto> File_id 1 2, [''db-shm''] \<mapsto> File_id 1 3];
       sn = \<lparr>sn_disk = disk, sn_fcntl = (0, False)\<rparr>;
       swapped = \<lparr>sn_disk = disk([''db-wal''] \<mapsto> File_id 1 9), sn_fcntl = (0, False)\<rparr>
   in \<exists>ident0 ident. record_main sn conn [''db''] = Inr ident0 \<and> with_companions sn ident0 conn [''db''] = Inr ident
        \<and> panic_if_moved sn ident [''db''] = Inr () \<and> panic_if_moved swapped ident [''db''] \<noteq> Inr ()"
proof -
  let ?conn = "\<lparr>cn_path = Some [''db''], cn_main = Some (File_id 1 1), cn_wal = Some (File_id 1 2), cn_shm = Some (File_id 1 3)\<rparr>"
  let ?disk = "[[''db''] \<mapsto> File_id 1 1, [''db-wal''] \<mapsto> File_id 1 2, [''db-shm''] \<mapsto> File_id 1 3]"
  let ?sn = "\<lparr>sn_disk = ?disk, sn_fcntl = (0, False)\<rparr>"
  let ?swapped = "\<lparr>sn_disk = ?disk([''db-wal''] \<mapsto> File_id 1 9), sn_fcntl = (0, False)\<rparr>"
  have r: "record_main ?sn ?conn [''db''] = Inr \<lparr>di_main = File_id 1 1, di_companions = None\<rparr>"
    by (simp add: record_main_def record_main_identity_def own_fd_identity_def)
  obtain ident where c: "with_companions ?sn \<lparr>di_main = File_id 1 1, di_companions = None\<rparr> ?conn [''db''] = Inr ident"
    by (simp add: with_companions_def companion_base_def own_fd_identity_def track_def companion_path_def Let_def)
  have "panic_if_moved ?sn ident [''db''] = Inr ()" "panic_if_moved ?swapped ident [''db''] \<noteq> Inr ()"
    using moved_check_exact [OF r c, of "[''db'']"] by (simp_all add: companion_path_def)
  then show ?thesis unfolding Let_def using r c by blast
qed

text \<open>
  The loop that opens the database ends as soon as something decides it.  If the first \<open>k\<close> passes
  found nothing at the path and published it again, the result is that of pass \<open>k\<close>: the connection
  it opened, or the panic of its open, of a broken entry, or of its publication; only an absence
  that repeats forever keeps it looping.
\<close>

theorem connect_with_decides:
  assumes "\<forall>m < k. (\<exists>e. op_open (passes m) = Inl e \<and> is_cantopen e) \<and> op_absent (passes m) \<and> op_publish (passes m) = Inr ()"
    and "(\<exists>conn. op_open (passes k) = Inr conn) \<or> (\<exists>e. op_open (passes k) = Inl e \<and> (\<not> is_cantopen e \<or> \<not> op_absent (passes k)))
       \<or> (\<exists>p. op_publish (passes k) = Inl p)"
    and "k < fuel"
  shows "connect_with fuel passes 0 = Some (case op_open (passes k) of
      Inr conn \<Rightarrow> Inr conn
    | Inl e \<Rightarrow> Inl (if is_cantopen e \<and> op_absent (passes k)
        then Publish_panic (projl (op_publish (passes k))) else Could_not_open e (is_cantopen e)))"
proof -
  have skip: "connect_with (fuel - n) passes n = connect_with (fuel - k) passes k" if "n \<le> k" for n
    using that
  proof (induction rule: inc_induct)
    case (step n)
    then have "fuel - n = Suc (fuel - Suc n)" using assms(3) by simp
    then show ?case using step assms(1) by auto
  qed simp
  have "fuel - k = Suc (fuel - Suc k)" using assms(3) by simp
  then have "connect_with (fuel - k) passes k = Some (case op_open (passes k) of
      Inr conn \<Rightarrow> Inr conn
    | Inl e \<Rightarrow> Inl (if is_cantopen e \<and> op_absent (passes k)
        then Publish_panic (projl (op_publish (passes k))) else Could_not_open e (is_cantopen e)))"
    using assms(2) by (auto split: sum.splits)
  then show ?thesis using skip [of 0] by simp
qed

end
