(* ===== verification/Capture.thy ===== *)
theory Capture
  imports Effects
begin

text \<open>
  Capturing a test's output (\<open>src/capture.rs\<close>, Unix): descriptors 1 and 2 are pointed at a pipe,
  a thread drains it, and \<open>end\<close> points them back.  The state is the descriptor table of the process;
  any call may fail, as the list of faults says.  A failed restore aborts the process.  Flushing and
  the locks of the standard streams have no effect on the table.
\<close>

datatype fd_target = Stream nat | Pipe_write nat | Pipe_read nat

record fd_table =
  ft_fds :: "nat \<Rightarrow> fd_target option"
  ft_faults :: "int option list"                     \<comment> \<open>of the calls to come; none when exhausted\<close>
  ft_pipes :: nat

datatype capture_panic = Capture_abort str | Already_ended | Reader_missing

type_synonym 'a cap = "(fd_table, capture_panic, 'a) eff"

text \<open>Which free descriptor the kernel hands out is a parameter.\<close>

type_synonym allocator = "(nat \<Rightarrow> fd_target option) \<Rightarrow> nat"

section \<open>Calls\<close>

text \<open>A call that may fail: the next fault decides, and a failed call changes nothing.\<close>

definition syscall :: "(fd_table \<Rightarrow> 'a \<times> fd_table) \<Rightarrow> (int, 'a) result cap" where
  "syscall f s = (case ft_faults s of
       [] \<Rightarrow> (case f s of (a, s') \<Rightarrow> (Inr (Inr a), s'))
     | None # fs \<Rightarrow> (case f (s\<lparr>ft_faults := fs\<rparr>) of (a, s') \<Rightarrow> (Inr (Inr a), s'))
     | Some e # fs \<Rightarrow> (Inr (Inl e), s\<lparr>ft_faults := fs\<rparr>))"

definition point :: "nat \<Rightarrow> fd_target option \<Rightarrow> fd_table \<Rightarrow> fd_table" where
  "point d t s = s\<lparr>ft_fds := (ft_fds s)(d := t)\<rparr>"

definition sys_dup :: "allocator \<Rightarrow> nat \<Rightarrow> (int, nat) result cap" where
  "sys_dup alloc d = syscall (\<lambda>s. (alloc (ft_fds s), point (alloc (ft_fds s)) (ft_fds s d) s))"

definition sys_dup2 :: "nat \<Rightarrow> nat \<Rightarrow> (int, unit) result cap" where
  "sys_dup2 d d' = syscall (\<lambda>s. ((), point d' (ft_fds s d) s))"

definition sys_close :: "nat \<Rightarrow> unit cap" where
  "sys_close d = modify (point d None)"

definition sys_pipe :: "allocator \<Rightarrow> (int, nat \<times> nat) result cap" where
  "sys_pipe alloc = syscall (\<lambda>s.
     let r = alloc (ft_fds s); s1 = point r (Some (Pipe_read (ft_pipes s))) s;
         w = alloc (ft_fds s1)
     in ((r, w), (point w (Some (Pipe_write (ft_pipes s))) s1)\<lparr>ft_pipes := Suc (ft_pipes s)\<rparr>))"

text \<open>Spawning the drain thread.\<close>

definition sys_spawn :: "(int, unit) result cap" where
  "sys_spawn = syscall (\<lambda>s. ((), s))"

definition abort_with_broken_stdio :: "str \<Rightarrow> 'a cap" where
  "abort_with_broken_stdio context = raise (Capture_abort context)"

section \<open>The platform layer\<close>

record saved =
  sv_stdout :: nat
  sv_stderr :: nat

definition save :: "allocator \<Rightarrow> (int, saved) result cap" where
  "save alloc = eff_bind (sys_dup alloc 1) (\<lambda>r. case r of
       Inl e \<Rightarrow> ret (Inl e)
     | Inr out \<Rightarrow> eff_bind (sys_dup alloc 2) (\<lambda>r. case r of
           Inl e \<Rightarrow> eff_bind (sys_close out) (\<lambda>_. ret (Inl e))
         | Inr err \<Rightarrow> ret (Inr \<lparr>sv_stdout = out, sv_stderr = err\<rparr>)))"

text \<open>The pipe's write end is dropped, and so closed, on every path.\<close>

definition redirect_to_pipe :: "nat \<Rightarrow> saved \<Rightarrow> (int, unit) result cap" where
  "redirect_to_pipe writer sv = eff_bind (sys_dup2 writer 1) (\<lambda>r. case r of
       Inl e \<Rightarrow> eff_bind (sys_close writer) (\<lambda>_. ret (Inl e))
     | Inr _ \<Rightarrow> eff_bind (sys_dup2 writer 2) (\<lambda>r. case r of
           Inl e \<Rightarrow> eff_bind (sys_dup2 (sv_stdout sv) 1) (\<lambda>r. case r of
               Inl _ \<Rightarrow> abort_with_broken_stdio ''rollback of stdout after stderr dup2 failure''
             | Inr _ \<Rightarrow> eff_bind (sys_close writer) (\<lambda>_. ret (Inl e)))
         | Inr _ \<Rightarrow> eff_bind (sys_close writer) (\<lambda>_. ret (Inr ()))))"

definition restore :: "saved \<Rightarrow> (int, unit) result cap" where
  "restore sv = eff_bind (sys_dup2 (sv_stdout sv) 1) (\<lambda>r1. eff_bind (sys_dup2 (sv_stderr sv) 2) (\<lambda>r2.
     ret (case r1 of Inl e \<Rightarrow> Inl e | Inr _ \<Rightarrow> r2)))"

definition close_saved :: "saved \<Rightarrow> unit cap" where
  "close_saved sv = eff_bind (sys_close (sv_stdout sv)) (\<lambda>_. sys_close (sv_stderr sv))"

section \<open>The capture\<close>

record fd_capture =
  fc_saved :: "saved option"
  fc_reader :: "nat option"                          \<comment> \<open>the drain thread, by the read end it owns\<close>

datatype begin_error = Save_error int | Pipe_error int | Redirect_error int | Spawn_error int

definition capture_begin :: "allocator \<Rightarrow> (begin_error, fd_capture) result cap" where
  "capture_begin alloc = eff_bind (save alloc) (\<lambda>r. case r of
       Inl e \<Rightarrow> ret (Inl (Save_error e))
     | Inr sv \<Rightarrow> eff_bind (sys_pipe alloc) (\<lambda>r. case r of
           Inl e \<Rightarrow> ret (Inl (Pipe_error e))
         | Inr (reader, writer) \<Rightarrow> eff_bind (redirect_to_pipe writer sv) (\<lambda>r. case r of
               Inl e \<Rightarrow> eff_bind (close_saved sv) (\<lambda>_. eff_bind (sys_close reader) (\<lambda>_. ret (Inl (Redirect_error e))))
             | Inr _ \<Rightarrow> eff_bind sys_spawn (\<lambda>r. case r of
                   Inl e \<Rightarrow> eff_bind (sys_close reader) (\<lambda>_. ret (Inl (Spawn_error e)))
                 | Inr _ \<Rightarrow> ret (Inr \<lparr>fc_saved = Some sv, fc_reader = Some reader\<rparr>)))))"

text \<open>
  \<open>end\<close> joins the drain thread, which returns once no write end is open; \<open>drained\<close> is what it
  returns then.  The thread closes its read end.
\<close>

definition capture_end :: "(int, str) result \<Rightarrow> fd_capture \<Rightarrow> (int, str) result cap" where
  "capture_end drained c = (case fc_saved c of
       None \<Rightarrow> raise Already_ended
     | Some sv \<Rightarrow> eff_bind (restore sv) (\<lambda>r. case r of
           Inl _ \<Rightarrow> abort_with_broken_stdio ''FdCapture::end''
         | Inr _ \<Rightarrow> eff_bind (close_saved sv) (\<lambda>_. (case fc_reader c of
               None \<Rightarrow> raise Reader_missing
             | Some reader \<Rightarrow> eff_bind (sys_close reader) (\<lambda>_. ret drained)))))"

definition capture_drop :: "fd_capture \<Rightarrow> unit cap" where
  "capture_drop c = (case fc_saved c of
       None \<Rightarrow> ret ()
     | Some sv \<Rightarrow> eff_bind (restore sv) (\<lambda>r. case r of
           Inl _ \<Rightarrow> abort_with_broken_stdio ''FdCapture::drop''
         | Inr _ \<Rightarrow> close_saved sv))"

datatype read_error = Unexpected_eof | Broken_pipe | Other_read int

definition drain_pipe :: "str \<Rightarrow> read_error option \<Rightarrow> (read_error \<times> nat, str) result" where
  "drain_pipe buf err = (case err of
       None \<Rightarrow> Inr buf
     | Some Unexpected_eof \<Rightarrow> Inr buf
     | Some Broken_pipe \<Rightarrow> Inr buf
     | Some e \<Rightarrow> Inl (e, length buf))"

section \<open>What the calls do to the table\<close>

lemma eff_bind_ok:
  "eff_bind m k s = (r, s') \<longleftrightarrow> (\<exists>a s1. m s = (Inr a, s1) \<and> k a s1 = (r, s')) \<or> (\<exists>e. m s = (Inl e, s') \<and> r = Inl e)"
  by (auto simp: eff_bind_def split: prod.splits sum.splits)

definition same_table :: "fd_table \<Rightarrow> fd_table \<Rightarrow> bool" where
  "same_table s s' \<longleftrightarrow> ft_fds s' = ft_fds s \<and> ft_pipes s' = ft_pipes s"

definition table_with :: "fd_table \<Rightarrow> (nat \<Rightarrow> fd_target option) \<Rightarrow> fd_table \<Rightarrow> bool" where
  "table_with s m s' \<longleftrightarrow> ft_fds s' = m \<and> ft_pipes s' = ft_pipes s"

lemma sys_dup_cases:
  assumes "sys_dup alloc d s = (r, s')"
  obtains (fail) e where "r = Inr (Inl e)" "table_with s (ft_fds s) s'"
    | (ok) "r = Inr (Inr (alloc (ft_fds s)))" "table_with s ((ft_fds s)(alloc (ft_fds s) := ft_fds s d)) s'"
  using assms by (auto simp: sys_dup_def syscall_def point_def table_with_def split: list.splits option.splits)

lemma sys_dup2_cases:
  assumes "sys_dup2 d d' s = (r, s')"
  obtains (fail) e where "r = Inr (Inl e)" "table_with s (ft_fds s) s'"
    | (ok) "r = Inr (Inr ())" "table_with s ((ft_fds s)(d' := ft_fds s d)) s'"
  using assms by (auto simp: sys_dup2_def syscall_def point_def table_with_def split: list.splits option.splits)

lemma sys_spawn_cases:
  assumes "sys_spawn s = (r, s')"
  obtains (fail) e where "r = Inr (Inl e)" "table_with s (ft_fds s) s'" | (ok) "r = Inr (Inr ())" "table_with s (ft_fds s) s'"
  using assms by (auto simp: sys_spawn_def syscall_def table_with_def split: list.splits option.splits)

lemma sys_pipe_cases:
  assumes "sys_pipe alloc s = (r, s')"
  obtains (fail) e where "r = Inr (Inl e)" "table_with s (ft_fds s) s'"
    | (ok) rd wr m where "r = Inr (Inr (rd, wr))" "rd = alloc (ft_fds s)" "m = (ft_fds s)(rd \<mapsto> Pipe_read (ft_pipes s))" "wr = alloc m"
        "ft_fds s' = m(wr \<mapsto> Pipe_write (ft_pipes s))"
  using assms by (auto simp: sys_pipe_def syscall_def point_def table_with_def Let_def split: list.splits option.splits)

lemma sys_close_eq [simp]: "sys_close d s = (Inr (), point d None s)"
  by (simp add: sys_close_def)

lemma point_fds [simp]: "ft_fds (point d t s) = (ft_fds s)(d := t)" "ft_pipes (point d t s) = ft_pipes s"
  by (simp_all add: point_def)

definition free_alloc :: "allocator \<Rightarrow> bool" where
  "free_alloc alloc \<longleftrightarrow> (\<forall>m. finite (dom m) \<longrightarrow> m (alloc m) = None)"

lemma free_allocD: "free_alloc alloc \<Longrightarrow> finite (dom m) \<Longrightarrow> m (alloc m) = None"
  by (simp add: free_alloc_def)

text \<open>A pipe: two new descriptors, or nothing new.\<close>

lemma sys_pipe_fresh:
  assumes "sys_pipe alloc s = (r, s')" "free_alloc alloc" "finite (dom (ft_fds s))"
  obtains (fail) e where "r = Inr (Inl e)" "ft_fds s' = ft_fds s"
    | (ok) rd wr where "r = Inr (Inr (rd, wr))" "rd \<noteq> wr" "ft_fds s rd = None" "ft_fds s wr = None"
        "ft_fds s' = (ft_fds s)(rd \<mapsto> Pipe_read (ft_pipes s), wr \<mapsto> Pipe_write (ft_pipes s))"
  using assms(1)
proof (cases rule: sys_pipe_cases)
  case (ok rd wr m)
  have "m wr = None" using free_allocD [OF assms(2), of m] assms(3) ok(3,4) by simp
  then have w: "wr \<noteq> rd" "ft_fds s wr = None" using ok(3) by (auto split: if_splits)
  have "ft_fds s rd = None" using free_allocD [OF assms(2,3)] ok(2) by simp
  then show ?thesis using that(2) [of rd wr] ok w by simp
qed (use that(1) in \<open>auto simp: table_with_def\<close>)

text \<open>A snapshot: two new descriptors for the standard streams, or nothing new.\<close>

lemma save_cases:
  assumes "save alloc s = (r, s')" "free_alloc alloc" "finite (dom (ft_fds s))" "ft_fds s 1 = Some a" "ft_fds s 2 = Some b"
  obtains (fail) e where "r = Inr (Inl e)" "table_with s (ft_fds s) s'"
    | (ok) out err where "r = Inr (Inr \<lparr>sv_stdout = out, sv_stderr = err\<rparr>)" "ft_fds s out = None" "ft_fds s err = None" "out \<noteq> err"
        "table_with s ((ft_fds s)(out \<mapsto> a, err \<mapsto> b)) s'"
proof -
  let ?out = "alloc (ft_fds s)"
  have out: "ft_fds s ?out = None" "?out \<noteq> 1" "?out \<noteq> 2" using assms(2-5) by (auto simp: free_alloc_def)
  have f: "finite (dom ((ft_fds s)(?out \<mapsto> a)))" using assms(3) by simp
  obtain r1 s1 where d1: "sys_dup alloc 1 s = (r1, s1)" by fastforce
  from d1 show ?thesis
  proof (cases rule: sys_dup_cases)
    case (fail e)
    then show ?thesis using that(1) [of e] assms(1) d1 by (auto simp: save_def eff_bind_def)
  next
    case ok
    have t1: "ft_fds s1 = (ft_fds s)(?out \<mapsto> a)" "ft_pipes s1 = ft_pipes s" using ok(2) assms(4) by (simp_all add: table_with_def)
    let ?err = "alloc (ft_fds s1)"
    have err: "ft_fds s1 ?err = None" using free_allocD [OF assms(2) f] t1(1) by simp
    obtain r2 s2 where d2: "sys_dup alloc 2 s1 = (r2, s2)" by fastforce
    from d2 show ?thesis
    proof (cases rule: sys_dup_cases)
      case (fail e)
      have "s' = point ?out None s2" "r = Inr (Inl e)" using assms(1) d1 d2 ok(1) fail(1) by (simp_all add: save_def eff_bind_def)
      moreover have "(ft_fds s)(?out := None) = ft_fds s" using out(1) by (simp add: fun_upd_idem)
      ultimately show ?thesis using that(1) [of e] fail(2) t1 by (auto simp: table_with_def)
    next
      case ok2: ok
      have "s' = s2" "r = Inr (Inr \<lparr>sv_stdout = ?out, sv_stderr = ?err\<rparr>)"
        using assms(1) d1 d2 ok(1) ok2(1) by (simp_all add: save_def eff_bind_def)
      then show ?thesis using that(2) [of ?out ?err] ok2(2) t1 out err assms(5) by (auto simp: table_with_def split: if_splits)
    qed
  qed
qed

text \<open>A redirect: both streams at the pipe, or the table as before, or an abort.\<close>

lemma redirect_cases:
  assumes "redirect_to_pipe w sv s = (r, s')" "sv_stdout sv \<notin> {1, 2, w}" "w \<notin> {1, 2}" "ft_fds s (sv_stdout sv) = ft_fds s 1"
  obtains (fail) e where "r = Inr (Inl e)" "table_with s ((ft_fds s)(w := None)) s'"
    | (abort) c where "r = Inl (Capture_abort c)"
    | (ok) "r = Inr (Inr ())" "table_with s ((ft_fds s)(1 := ft_fds s w, 2 := ft_fds s w, w := None)) s'"
proof -
  obtain r1 s1 where d1: "sys_dup2 w 1 s = (r1, s1)" by fastforce
  from d1 show ?thesis
  proof (cases rule: sys_dup2_cases)
    case (fail e)
    then show ?thesis using that(1) [of e] assms(1) d1 by (auto simp: redirect_to_pipe_def eff_bind_def table_with_def)
  next
    case ok
    obtain r2 s2 where d2: "sys_dup2 w 2 s1 = (r2, s2)" by fastforce
    from d2 show ?thesis
    proof (cases rule: sys_dup2_cases)
      case (fail e)
      obtain r3 s3 where d3: "sys_dup2 (sv_stdout sv) 1 s2 = (r3, s3)" by fastforce
      from d3 show ?thesis
      proof (cases rule: sys_dup2_cases)
        case (fail e')
        then show ?thesis using that(2) assms(1) d1 d2 d3 ok(1) \<open>r2 = Inr (Inl e)\<close>
          by (auto simp: redirect_to_pipe_def eff_bind_def abort_with_broken_stdio_def)
      next
        case ok3: ok
        have r: "r = Inr (Inl e)" "s' = point w None s3"
          using assms(1) d1 d2 d3 ok(1) ok3(1) fail(1) by (simp_all add: redirect_to_pipe_def eff_bind_def)
        have "ft_fds s3 = ft_fds s"
          using ok(2) ok3(2) fail(2) assms(2-4) by (auto simp: table_with_def)
        then show ?thesis using that(1) [of e] r ok(2) ok3(2) fail(2) by (simp add: table_with_def)
      qed
    next
      case ok2: ok
      have "r = Inr (Inr ())" "s' = point w None s2" using assms(1) d1 d2 ok(1) ok2(1) by (simp_all add: redirect_to_pipe_def eff_bind_def)
      then show ?thesis using that(3) ok(2) ok2(2) assms(2,3) by (auto simp: table_with_def)
    qed
  qed
qed

lemma restore_ok:
  assumes "restore sv s = (Inr (Inr ()), s')" "sv_stderr sv \<noteq> 1"
  shows "ft_fds s' = (ft_fds s)(1 := ft_fds s (sv_stdout sv), 2 := ft_fds s (sv_stderr sv))"
proof -
  obtain r1 s1 where d1: "sys_dup2 (sv_stdout sv) 1 s = (Inr r1, s1)" by (metis sys_dup2_cases surj_pair)
  obtain r2 s2 where d2: "sys_dup2 (sv_stderr sv) 2 s1 = (Inr r2, s2)" by (metis sys_dup2_cases surj_pair)
  have "s' = s2" "r1 = Inr ()" "r2 = Inr ()"
    using assms(1) d1 d2 by (auto simp: restore_def eff_bind_def split: sum.splits)
  then show ?thesis using d1 d2 assms(2) by (auto elim!: sys_dup2_cases simp: table_with_def)
qed

section \<open>Properties\<close>

text \<open>What \<open>begin\<close> leaves when it succeeds.\<close>

definition capturing :: "fd_table \<Rightarrow> fd_capture \<Rightarrow> fd_table \<Rightarrow> bool" where
  "capturing s c s1 \<longleftrightarrow> (\<exists>out err rd. c = \<lparr>fc_saved = Some \<lparr>sv_stdout = out, sv_stderr = err\<rparr>, fc_reader = Some rd\<rparr>
     \<and> distinct [1, 2, out, err, rd] \<and> ft_fds s out = None \<and> ft_fds s err = None \<and> ft_fds s rd = None
     \<and> ft_fds s1 = (ft_fds s)(out := ft_fds s 1, err := ft_fds s 2, rd \<mapsto> Pipe_read (ft_pipes s),
         1 \<mapsto> Pipe_write (ft_pipes s), 2 \<mapsto> Pipe_write (ft_pipes s)))"

lemma capture_begin_cases:
  assumes "capture_begin alloc s = (r, s')" "free_alloc alloc" "finite (dom (ft_fds s))" "ft_fds s 1 = Some a" "ft_fds s 2 = Some b"
  obtains (undone) e where "r = Inr (Inl (Save_error e)) \<or> r = Inr (Inl (Redirect_error e))" "ft_fds s' = ft_fds s"
    | (no_pipe) e out err where "r = Inr (Inl (Pipe_error e))" "ft_fds s out = None" "ft_fds s err = None" "out \<noteq> err"
        "ft_fds s' = (ft_fds s)(out \<mapsto> a, err \<mapsto> b)"
    | (no_thread) e where "r = Inr (Inl (Spawn_error e))" "ft_fds s' 1 = Some (Pipe_write (ft_pipes s))" "ft_fds s' 2 = Some (Pipe_write (ft_pipes s))"
    | (abort) c where "r = Inl (Capture_abort c)"
    | (ok) c where "r = Inr (Inr c)" "capturing s c s'"
proof -
  obtain r1 s1 where d1: "save alloc s = (r1, s1)" by fastforce
  from d1 assms(2-5) show ?thesis
  proof (cases rule: save_cases)
    case (fail e)
    then show ?thesis using undone [of e] assms(1) d1 by (auto simp: capture_begin_def eff_bind_def table_with_def)
  next
    case sv: (ok out err)
    have s1: "ft_fds s1 = (ft_fds s)(out \<mapsto> a, err \<mapsto> b)" "ft_pipes s1 = ft_pipes s" using sv(5) by (simp_all add: table_with_def)
    have new: "out \<noteq> 1" "out \<noteq> 2" "err \<noteq> 1" "err \<noteq> 2" using sv(2,3) assms(4,5) by auto
    obtain r2 s2 where d2: "sys_pipe alloc s1 = (r2, s2)" by fastforce
    have "finite (dom (ft_fds s1))" using assms(3) s1 by simp
    with d2 assms(2) show ?thesis
    proof (cases rule: sys_pipe_fresh)
      case (fail e)
      then show ?thesis using no_pipe [of e out err] assms(1) d1 d2 sv s1 by (simp add: capture_begin_def eff_bind_def)
    next
      case pipe: (ok rd wr)
      have ends: "rd \<notin> {1, 2, out, err}" "wr \<notin> {1, 2, out, err}" "ft_fds s rd = None" "ft_fds s wr = None"
        using pipe(3,4) s1(1) assms(4,5) by (auto split: if_splits)
      let ?sv = "\<lparr>sv_stdout = out, sv_stderr = err\<rparr>"
      obtain r3 s3 where d3: "redirect_to_pipe wr ?sv s2 = (r3, s3)" by fastforce
      have same: "ft_fds s2 (sv_stdout ?sv) = ft_fds s2 1" using pipe(5) s1(1) ends(1,2) sv(4) new assms(4) by auto
      have apart: "sv_stdout ?sv \<notin> {1, 2, wr}" "wr \<notin> {1, 2}" using new ends by auto
      from d3 apart same show ?thesis
      proof (cases rule: redirect_cases)
        case (fail e)
        have "s' = point rd None (point err None (point out None s3))" "r = Inr (Inl (Redirect_error e))"
          using assms(1) d1 d2 d3 sv(1) pipe(1) fail(1) by (simp_all add: capture_begin_def eff_bind_def close_saved_def)
        moreover have "ft_fds s3 = (ft_fds s)(out \<mapsto> a, err \<mapsto> b, rd \<mapsto> Pipe_read (ft_pipes s), wr := None)"
          using fail(2) pipe(5) s1 by (simp add: table_with_def)
        ultimately show ?thesis using undone [of e] sv(2,3) ends(3,4) by (auto simp: fun_eq_iff)
      next
        case (abort c)
        then show ?thesis using that(4) [of c] assms(1) d1 d2 d3 sv(1) pipe(1) by (simp add: capture_begin_def eff_bind_def)
      next
        case rd: ok
        have s3: "ft_fds s3 = (ft_fds s)(out \<mapsto> a, err \<mapsto> b, rd \<mapsto> Pipe_read (ft_pipes s),
            1 \<mapsto> Pipe_write (ft_pipes s), 2 \<mapsto> Pipe_write (ft_pipes s))"
          using rd(2) pipe(5) s1 ends pipe(2) by (auto simp: table_with_def fun_eq_iff)
        obtain r4 s4 where d4: "sys_spawn s3 = (r4, s4)" by fastforce
        from d4 show ?thesis
        proof (cases rule: sys_spawn_cases)
          case (fail e)
          then show ?thesis using no_thread [of e] assms(1) d1 d2 d3 d4 sv(1) pipe(1) rd(1) s3 ends(1)
            by (auto simp: capture_begin_def eff_bind_def table_with_def)
        next
          case sp: ok
          have "s' = s4" "r = Inr (Inr \<lparr>fc_saved = Some ?sv, fc_reader = Some rd\<rparr>)"
            using assms(1) d1 d2 d3 d4 sv(1) pipe(1) rd(1) sp(1) by (simp_all add: capture_begin_def eff_bind_def)
          moreover have "capturing s \<lparr>fc_saved = Some ?sv, fc_reader = Some rd\<rparr> s4"
            using sp(2) s3 new ends sv(2-4) assms(4,5) by (auto simp: capturing_def table_with_def)
          ultimately show ?thesis using that(5) by simp
        qed
      qed
    qed
  qed
qed

text \<open>Restoring from the snapshot of a capture.\<close>

definition restored :: "fd_table \<Rightarrow> saved \<Rightarrow> fd_table \<Rightarrow> (nat \<Rightarrow> fd_target option)" where
  "restored s sv s2 = (ft_fds s2)(1 := ft_fds s 1, 2 := ft_fds s 2, sv_stdout sv := None, sv_stderr sv := None)"

lemma restore_total: "\<exists>r s'. restore sv s = (Inr r, s')"
  by (auto simp: restore_def eff_bind_def sys_dup2_def syscall_def split: list.splits option.splits sum.splits)

lemma restore_close:
  assumes "capturing s \<lparr>fc_saved = Some sv, fc_reader = Some rd\<rparr> s1" "restore sv s2 = (Inr (Inr ()), s3)" "close_saved sv s3 = (r, s4)"
    and "\<forall>d \<in> {sv_stdout sv, sv_stderr sv, rd}. ft_fds s2 d = ft_fds s1 d"
  shows "ft_fds s4 = restored s sv s2"
proof -
  have d: "distinct [1, 2, sv_stdout sv, sv_stderr sv, rd]" and "ft_fds s1 (sv_stdout sv) = ft_fds s 1" "ft_fds s1 (sv_stderr sv) = ft_fds s 2"
    using assms(1) by (auto simp: capturing_def)
  then have "ft_fds s3 = (ft_fds s2)(1 := ft_fds s 1, 2 := ft_fds s 2)"
    using restore_ok [OF assms(2)] assms(4) by auto
  moreover have "s4 = point (sv_stderr sv) None (point (sv_stdout sv) None s3)"
    using assms(3) by (simp add: close_saved_def eff_bind_def)
  ultimately show ?thesis by (simp add: restored_def)
qed

lemma capture_end_cases:
  assumes "capturing s c s1" "capture_end drained c s2 = (r, s3)"
    and "\<forall>d. ft_fds s d = None \<longrightarrow> ft_fds s2 d = ft_fds s1 d"
  obtains (abort) "r = Inl (Capture_abort ''FdCapture::end'')"
    | (ok) sv rd where "c = \<lparr>fc_saved = Some sv, fc_reader = Some rd\<rparr>" "r = Inr drained" "ft_fds s3 = (restored s sv s2)(rd := None)"
proof -
  obtain sv rd where c: "c = \<lparr>fc_saved = Some sv, fc_reader = Some rd\<rparr>"
    and free: "\<forall>d \<in> {sv_stdout sv, sv_stderr sv, rd}. ft_fds s2 d = ft_fds s1 d"
    using assms(1,3) by (auto simp: capturing_def)
  obtain x t where t: "restore sv s2 = (Inr x, t)" using restore_total by blast
  show ?thesis
  proof (cases x)
    case (Inl e)
    then show ?thesis using abort assms(2) t c by (simp add: capture_end_def eff_bind_def abort_with_broken_stdio_def)
  next
    case (Inr u)
    obtain u' where cl: "close_saved sv t = (Inr (), u')" by (simp add: close_saved_def eff_bind_def)
    have "ft_fds u' = restored s sv s2" using restore_close [OF assms(1) [unfolded c] _ cl free] t Inr by simp
    moreover have "r = Inr drained" "s3 = point rd None u'" using assms(2) t c Inr cl by (simp_all add: capture_end_def eff_bind_def)
    ultimately show ?thesis using ok [OF c] by simp
  qed
qed

text \<open>
  C18: a capture is undone.  Whenever \<open>begin\<close> succeeds, descriptors 1 and 2 write to a new pipe;
  whatever the test then does to the descriptors that were open before it, \<open>end\<close> either points 1
  and 2 back at the streams they had, closes every descriptor the capture opened and returns what
  the thread drained, or aborts the process.  No write end of the pipe stays open then, unless the
  test made one, so that the drain thread it joins sees the end of the pipe.  A test that leaves
  the table alone finds it exactly as it was before.
\<close>

theorem capture_restores:
  assumes "free_alloc alloc" "finite (dom (ft_fds s))" "ft_fds s 1 = Some a" "ft_fds s 2 = Some b"
    and "capture_begin alloc s = (Inr (Inr c), s1)" "capture_end drained c s2 = (r, s3)"
    and "\<forall>d. ft_fds s d = None \<longrightarrow> ft_fds s2 d = ft_fds s1 d"
  shows "ft_fds s1 1 = Some (Pipe_write (ft_pipes s)) \<and> ft_fds s1 2 = Some (Pipe_write (ft_pipes s))
    \<and> (r = Inl (Capture_abort ''FdCapture::end'')
      \<or> r = Inr drained \<and> ft_fds s3 1 = Some a \<and> ft_fds s3 2 = Some b
        \<and> (\<forall>d. ft_fds s d = None \<longrightarrow> ft_fds s3 d = None)
        \<and> (\<forall>d. d \<notin> {1, 2} \<and> ft_fds s d \<noteq> None \<longrightarrow> ft_fds s3 d = ft_fds s2 d)
        \<and> (ft_fds s2 = ft_fds s1 \<longrightarrow> ft_fds s3 = ft_fds s)
        \<and> (\<forall>d. ft_fds s3 d = Some (Pipe_write (ft_pipes s)) \<longrightarrow> d \<in> {1, 2} \<and> ft_fds s d = Some (Pipe_write (ft_pipes s))
              \<or> ft_fds s2 d = Some (Pipe_write (ft_pipes s)) \<and> d \<notin> {1, 2} \<and> ft_fds s d \<noteq> None))"
proof -
  have cap: "capturing s c s1" using assms(5,1-4) by (cases rule: capture_begin_cases) auto
  then have w: "ft_fds s1 1 = Some (Pipe_write (ft_pipes s))" "ft_fds s1 2 = Some (Pipe_write (ft_pipes s))"
    by (auto simp: capturing_def)
  from cap assms(6,7) show ?thesis
  proof (cases rule: capture_end_cases)
    case (ok sv rd)
    have d: "distinct [1, 2, sv_stdout sv, sv_stderr sv, rd]" and n: "ft_fds s (sv_stdout sv) = None" "ft_fds s (sv_stderr sv) = None" "ft_fds s rd = None"
      and s1: "ft_fds s1 = (ft_fds s)(sv_stdout sv := ft_fds s 1, sv_stderr sv := ft_fds s 2, rd \<mapsto> Pipe_read (ft_pipes s),
         1 \<mapsto> Pipe_write (ft_pipes s), 2 \<mapsto> Pipe_write (ft_pipes s))" using cap ok(1) by (auto simp: capturing_def)
    have t3: "ft_fds s3 = (\<lambda>d. if d = 1 \<or> d = 2 then ft_fds s d else if ft_fds s d = None then None else ft_fds s2 d)"
      using ok(3) d n assms(3,4,7) s1 by (auto simp: restored_def fun_eq_iff)
    have same: "ft_fds s2 = ft_fds s1 \<longrightarrow> ft_fds s3 = ft_fds s" using t3 s1 n d by (auto simp: fun_eq_iff)
    show ?thesis using w ok(2) same assms(3,4) by (auto simp: t3 split: if_splits)
  qed (use w in simp)
qed

definition demo_alloc :: allocator where
  "demo_alloc m = (if m 3 = None then 3 else if m 4 = None then 4 else if m 5 = None then 5 else if m 6 = None then 6
     else LEAST n. m n = None)"

lemma demo_alloc_free: "free_alloc demo_alloc"
proof -
  have "m (LEAST n. m n = None) = None" if fin: "finite (dom m)" for m :: "nat \<Rightarrow> fd_target option"
  proof -
    obtain n where "n \<notin> dom m" using ex_new_if_finite [OF infinite_UNIV_nat fin] by blast
    then have "m n = None" by auto
    then show ?thesis by (rule LeastI)
  qed
  then show ?thesis by (simp add: free_alloc_def demo_alloc_def)
qed

definition demo_table :: "int option list \<Rightarrow> fd_table" where
  "demo_table faults = \<lparr>ft_fds = [0 \<mapsto> Stream 0, 1 \<mapsto> Stream 1, 2 \<mapsto> Stream 2], ft_faults = faults, ft_pipes = 0\<rparr>"

lemmas capture_eval = demo_alloc_def demo_table_def capture_begin_def save_def redirect_to_pipe_def restore_def close_saved_def capture_end_def
  sys_dup_def sys_dup2_def sys_pipe_def sys_spawn_def syscall_def point_def eff_bind_def Let_def

theorem capture_restores_witness:
  "\<exists>c s1 r s3. capture_begin demo_alloc (demo_table []) = (Inr (Inr c), s1) \<and> capture_end (Inr ''out'') c s1 = (r, s3)
     \<and> r = Inr (Inr ''out'') \<and> ft_fds s3 = ft_fds (demo_table [])"
proof -
  define c where "c = \<lparr>fc_saved = Some \<lparr>sv_stdout = 3, sv_stderr = 4\<rparr>, fc_reader = Some 5\<rparr>"
  obtain s1 where b: "capture_begin demo_alloc (demo_table []) = (Inr (Inr c), s1)" "ft_faults s1 = []"
    by (simp add: capture_eval c_def)
  obtain r s3 where e: "capture_end (Inr ''out'') c s1 = (r, s3)" by fastforce
  have "r = Inr (Inr ''out'')"
    using e b(2) by (simp add: c_def capture_end_def restore_def close_saved_def sys_dup2_def syscall_def point_def eff_bind_def)
  moreover have "finite (dom (ft_fds (demo_table [])))" "ft_fds (demo_table []) 1 = Some (Stream 1)" "ft_fds (demo_table []) 2 = Some (Stream 2)"
    by (simp_all add: demo_table_def)
  note capture_restores [OF demo_alloc_free this b(1) e]
  ultimately show ?thesis using b(1) e by auto
qed

text \<open>
  When spawning the drain thread fails, \<open>begin\<close> returns the error with both streams still at the
  pipe, whose read end is closed: a line written to standard error afterwards is lost.
\<close>

theorem capture_begin_spawn_failure:
  "\<exists>s1. capture_begin demo_alloc (demo_table [None, None, None, None, None, Some 11]) = (Inr (Inl (Spawn_error 11)), s1)
     \<and> ft_fds s1 1 = Some (Pipe_write 0) \<and> ft_fds s1 2 = Some (Pipe_write 0) \<and> (\<forall>d. ft_fds s1 d \<noteq> Some (Pipe_read 0))"
  by (simp add: capture_eval)

end
