(* ===== verification/Macro_Syntax.thy ===== *)
theory Macro_Syntax
  imports Prelude
begin

text \<open>
  What the attribute macros (\<open>macros/src/lib.rs\<close>) read: token trees, and the parsers of the crate
  \<open>syn\<close> they call.  The crate is not part of the repository: its parsers are the fields of the
  record \<open>syn\<close>, an argument of every definition that uses them, and the locale \<open>syn_crate\<close> states
  what the macros rely on.  Spans and the wording of \<open>syn\<close>'s own errors are left out.
\<close>

datatype delimiter = Parenthesis | Bracket | Brace

datatype token_tree =
    T_group delimiter "token_tree list"
  | T_ident str
  | T_punct char
  | T_literal str

type_synonym tokens = "token_tree list"
type_synonym path = tokens

text \<open>The parts of a parsed function the macros look at; everything else of it is tokens.\<close>

datatype rust_type = Ty_reference rust_type | Ty_path "path_segment list" | Ty_other tokens
  and path_segment = Segment str path_arguments
  and path_arguments = Args_none | Args_angle "generic_argument list" | Args_parenthesized
  and generic_argument = Ga_type rust_type | Ga_other

datatype meta_value = Lit_str str | Lit_other | Expr_other
datatype meta = Meta_path | Meta_list tokens | Meta_name_value meta_value

record attribute =
  at_path :: "str list"
  at_meta :: meta

datatype pat = Pat_ident str | Pat_other tokens
datatype fn_arg = Receiver | Typed "attribute list" pat rust_type
datatype return_type = Ret_default | Ret_type rust_type

datatype syn_error =
    Syn_error str                                    \<comment> \<open>an error of \<open>syn\<close>'s own\<close>
  | Unexpected_token
  | Duplicate_argument str
  | Unknown_argument str
  | Unknown_scope str
  | Expected_expected str
  | Attribute_error str
  | Compile_error str
  | Macro_panic str
  | No_more_fuel

type_synonym 'a parse = "tokens \<Rightarrow> (syn_error, 'a \<times> tokens) result"

record syn =
  sy_ident :: "str parse"                            \<comment> \<open>\<open>Ident\<close>\<close>
  sy_punct :: "char \<Rightarrow> unit parse"                    \<comment> \<open>\<open>Token![c]\<close>\<close>
  sy_peek :: "char \<Rightarrow> tokens \<Rightarrow> bool"
  sy_peek_paren :: "tokens \<Rightarrow> bool"
  sy_group :: "delimiter \<Rightarrow> tokens parse"             \<comment> \<open>\<open>parenthesized!\<close>, \<open>bracketed!\<close>\<close>
  sy_lit_str :: "str parse"                          \<comment> \<open>\<open>LitStr\<close> and its \<open>value\<close>\<close>
  sy_path :: "path parse"
  sy_paths :: "tokens \<Rightarrow> (syn_error, path list) result" \<comment> \<open>\<open>Punctuated::<Path, Token![,]>::parse_terminated\<close>\<close>
  sy_to_string :: "tokens \<Rightarrow> str"                     \<comment> \<open>\<open>quote!(..).to_string()\<close>\<close>
  sy_type_to_string :: "rust_type \<Rightarrow> str"
  sy_valid_ident :: "str \<Rightarrow> bool"                     \<comment> \<open>\<open>format_ident!\<close> panics otherwise\<close>

definition pbind :: "'a parse \<Rightarrow> ('a \<Rightarrow> 'b parse) \<Rightarrow> 'b parse" where
  "pbind p k ts = result_bind (p ts) (\<lambda>(a, ts'). k a ts')"

definition preturn :: "'a \<Rightarrow> 'a parse" where
  "preturn a ts = Inr (a, ts)"

definition pfail :: "syn_error \<Rightarrow> 'a parse" where
  "pfail e ts = Inl e"

text \<open>
  Tokens a nested parser leaves in its group are an error: \<open>syn\<close> notes it when the group's buffer
  is dropped and reports it when the attribute has been read; here it is reported at once.
\<close>

definition within :: "'a parse \<Rightarrow> tokens \<Rightarrow> (syn_error, 'a) result" where
  "within p content = result_bind (p content) (\<lambda>(a, left). if left = [] then Inr a else Inl Unexpected_token)"

lemma pbind_Inr: "pbind p k ts = Inr x \<longleftrightarrow> (\<exists>a r. p ts = Inr (a, r) \<and> k a r = Inr x)"
  by (auto simp: pbind_def result_bind_Inr)

lemma preturn_Inr [simp]: "preturn a ts = Inr x \<longleftrightarrow> x = (a, ts)"
  by (auto simp: preturn_def)

lemma pfail_Inr [simp]: "pfail e ts \<noteq> Inr x"
  by (simp add: pfail_def)

lemma within_Inr: "within p ts = Inr a \<longleftrightarrow> p ts = Inr (a, [])"
  by (auto simp: within_def result_bind_Inr split: if_splits)

section \<open>What the macros rely on of \<open>syn\<close>\<close>

text \<open>
  An identifier is one token that is not a reserved word; a one-character token and a delimited
  group are one token each; peeking says whether parsing succeeds; a path takes at least a token.
\<close>

locale syn_crate =
  fixes S :: syn and reserved :: "str \<Rightarrow> bool" and str_value :: "str \<Rightarrow> str option"
  assumes ident_iff: "sy_ident S ts = Inr (i, r) \<longleftrightarrow> ts = T_ident i # r \<and> \<not> reserved i"
    and punct_iff: "sy_punct S c ts = Inr (u, r) \<longleftrightarrow> ts = T_punct c # r"
    and peek_iff: "sy_peek S c ts \<longleftrightarrow> (\<exists>r. ts = T_punct c # r)"
    and peek_paren_iff: "sy_peek_paren S ts \<longleftrightarrow> (\<exists>g r. ts = T_group Parenthesis g # r)"
    and group_iff: "sy_group S d ts = Inr (g, r) \<longleftrightarrow> ts = T_group d g # r"
    and lit_str_iff: "sy_lit_str S ts = Inr (v, r) \<longleftrightarrow> (\<exists>l. ts = T_literal l # r \<and> str_value l = Some v)"
    and ident_valid: "sy_ident S ts = Inr (i, r) \<Longrightarrow> sy_valid_ident S i"
    and path_consumes: "sy_path S ts = Inr (p, r) \<Longrightarrow> \<exists>u. u \<noteq> [] \<and> ts = u @ r"

text \<open>
  A reference: paths are single identifiers, string literals are quoted and have no escapes, and
  a few words are reserved.
\<close>

definition ref_reserved :: "str \<Rightarrow> bool" where
  "ref_reserved i \<longleftrightarrow> i \<in> {''true'', ''false'', ''self'', ''fn'', ''_'', ''const''} \<or> CHR ''-'' \<in> set i"

definition ref_str_value :: "str \<Rightarrow> str option" where
  "ref_str_value l = (case l of c # cs \<Rightarrow> if c = CHR 0x22 \<and> cs \<noteq> [] \<and> last cs = CHR 0x22 then Some (butlast cs) else None
     | [] \<Rightarrow> None)"

definition ref_ident :: "str parse" where
  "ref_ident ts = (case ts of T_ident i # r \<Rightarrow> if ref_reserved i then Inl (Syn_error ''expected identifier'') else Inr (i, r)
     | _ \<Rightarrow> Inl (Syn_error ''expected identifier''))"

definition ref_punct :: "char \<Rightarrow> unit parse" where
  "ref_punct c ts = (case ts of T_punct d # r \<Rightarrow> if c = d then Inr ((), r) else Inl (Syn_error ''expected token'')
     | _ \<Rightarrow> Inl (Syn_error ''expected token''))"

fun ref_paths :: "tokens \<Rightarrow> (syn_error, path list) result" where
  "ref_paths [] = Inr []"
| "ref_paths [T_ident i] = Inr [[T_ident i]]"
| "ref_paths (T_ident i # T_punct c # r) =
     (if c = CHR '','' then result_bind (ref_paths r) (\<lambda>ps. Inr ([T_ident i] # ps)) else Inl (Syn_error ''expected comma''))"
| "ref_paths _ = Inl (Syn_error ''expected path'')"

definition ref_syn :: syn where
  "ref_syn = \<lparr>sy_ident = ref_ident, sy_punct = ref_punct,
     sy_peek = (\<lambda>c ts. case ts of T_punct d # _ \<Rightarrow> c = d | _ \<Rightarrow> False),
     sy_peek_paren = (\<lambda>ts. case ts of T_group Parenthesis _ # _ \<Rightarrow> True | _ \<Rightarrow> False),
     sy_group = (\<lambda>d ts. case ts of T_group d' c # r \<Rightarrow> if d = d' then Inr (c, r) else Inl (Syn_error ''expected group'')
       | _ \<Rightarrow> Inl (Syn_error ''expected group'')),
     sy_lit_str = (\<lambda>ts. case ts of T_literal l # r \<Rightarrow> (case ref_str_value l of Some v \<Rightarrow> Inr (v, r) | None \<Rightarrow> Inl (Syn_error ''expected string''))
       | _ \<Rightarrow> Inl (Syn_error ''expected string'')),
     sy_path = (\<lambda>ts. result_bind (ref_ident ts) (\<lambda>(i, r). Inr ([T_ident i], r))), sy_paths = ref_paths,
     sy_to_string = (\<lambda>ts. join '' '' (map (\<lambda>t. case t of T_ident i \<Rightarrow> i | _ \<Rightarrow> ''?'') ts)),
     sy_type_to_string = (\<lambda>_. ''T''), sy_valid_ident = (\<lambda>i. CHR ''-'' \<notin> set i)\<rparr>"

interpretation refsyn: syn_crate ref_syn ref_reserved ref_str_value
  by unfold_locales (auto simp: ref_syn_def ref_ident_def ref_punct_def ref_reserved_def result_bind_Inr
      split: list.splits token_tree.splits delimiter.splits option.splits if_splits sum.splits)

end
