(* ===== verification/Macro_Serial.thy ===== *)
theory Macro_Serial
  imports Macro_Syntax Label_Case Label_Roundtrip
begin

text \<open>
  The serial expression of \<open>#[skuld::test(serial = ...)]\<close> (\<open>macros/src/lib.rs\<close>,
  \<open>parse_serial_expr\<close>): the macro reads it from tokens into the text of a label filter and the list of
  the labels it names; the runtime parses that text again (\<open>Label_Parser\<close>).  The recursion is on
  fuel, which \<open>parse_serial_expr\<close> gives enough of.
\<close>

section \<open>The parser\<close>

type_synonym serial_parse = "(str \<times> str list) parse"   \<comment> \<open>the text, and the labels collected so far\<close>

text \<open>The loop of \<open>parse_serial_or\<close> and \<open>parse_serial_and\<close>: operators and their right operands.\<close>

primrec serial_loop :: "syn \<Rightarrow> char \<Rightarrow> (str list \<Rightarrow> serial_parse) \<Rightarrow> nat \<Rightarrow> str \<Rightarrow> str list \<Rightarrow> serial_parse" where
  "serial_loop S op item 0 left labels ts = Inl No_more_fuel"
| "serial_loop S op item (Suc n) left labels ts =
     (if sy_peek S op ts
      then pbind (sy_punct S op) (\<lambda>_. pbind (item labels) (\<lambda>(right, labels).
             serial_loop S op item n (left @ '' '' @ [op] @ '' '' @ right) labels)) ts
      else preturn (left, labels) ts)"

definition parse_serial_primary :: "syn \<Rightarrow> (str list \<Rightarrow> serial_parse) \<Rightarrow> str list \<Rightarrow> serial_parse" where
  "parse_serial_primary S expr labels ts =
     (if sy_peek_paren S ts
      then pbind (sy_group S Parenthesis) (\<lambda>content ts'.
             result_bind (within (expr labels) content) (\<lambda>(inner, labels).
             preturn (''('' @ inner @ '')'', labels) ts')) ts
      else pbind (sy_ident S) (\<lambda>ident. preturn (ident, labels @ [ident])) ts)"

primrec parse_serial_not :: "syn \<Rightarrow> (str list \<Rightarrow> serial_parse) \<Rightarrow> nat \<Rightarrow> str list \<Rightarrow> serial_parse" where
  "parse_serial_not S expr 0 labels ts = Inl No_more_fuel"
| "parse_serial_not S expr (Suc n) labels ts =
     (if sy_peek S CHR ''!'' ts
      then pbind (sy_punct S CHR ''!'') (\<lambda>_. pbind (parse_serial_not S expr n labels) (\<lambda>(inner, labels).
             preturn (''!'' @ inner, labels))) ts
      else parse_serial_primary S expr labels ts)"

definition parse_serial_and :: "syn \<Rightarrow> (str list \<Rightarrow> serial_parse) \<Rightarrow> nat \<Rightarrow> str list \<Rightarrow> serial_parse" where
  "parse_serial_and S expr n labels =
     pbind (parse_serial_not S expr n labels) (\<lambda>(left, labels).
       serial_loop S CHR ''&'' (parse_serial_not S expr n) n left labels)"

primrec parse_serial_or :: "syn \<Rightarrow> nat \<Rightarrow> str list \<Rightarrow> serial_parse" where
  "parse_serial_or S 0 labels = pfail No_more_fuel"
| "parse_serial_or S (Suc n) labels =
     pbind (parse_serial_and S (parse_serial_or S n) n labels) (\<lambda>(left, labels).
       serial_loop S CHR ''|'' (parse_serial_and S (parse_serial_or S n) n) n left labels)"

abbreviation weight :: "tokens \<Rightarrow> nat" where
  "weight ts \<equiv> size_list size ts"

definition parse_serial_expr :: "syn \<Rightarrow> serial_parse" where
  "parse_serial_expr S ts = parse_serial_or S (weight ts + 2) [] ts"

section \<open>The grammar\<close>

text \<open>
  A serial expression as it is written, parentheses included, with its tokens, its labels, the text
  the macro makes of it and what it means.
\<close>

datatype sexp = S_label str | S_paren sexp | S_not sexp | S_and sexp sexp | S_or sexp sexp

fun sx_tokens :: "sexp \<Rightarrow> tokens" where
  "sx_tokens (S_label i) = [T_ident i]"
| "sx_tokens (S_paren x) = [T_group Parenthesis (sx_tokens x)]"
| "sx_tokens (S_not x) = T_punct CHR ''!'' # sx_tokens x"
| "sx_tokens (S_and x y) = sx_tokens x @ T_punct CHR ''&'' # sx_tokens y"
| "sx_tokens (S_or x y) = sx_tokens x @ T_punct CHR ''|'' # sx_tokens y"

fun sx_labels :: "sexp \<Rightarrow> str list" where
  "sx_labels (S_label i) = [i]"
| "sx_labels (S_paren x) = sx_labels x"
| "sx_labels (S_not x) = sx_labels x"
| "sx_labels (S_and x y) = sx_labels x @ sx_labels y"
| "sx_labels (S_or x y) = sx_labels x @ sx_labels y"

fun sx_text :: "sexp \<Rightarrow> str" where
  "sx_text (S_label i) = i"
| "sx_text (S_paren x) = ''('' @ sx_text x @ '')''"
| "sx_text (S_not x) = ''!'' @ sx_text x"
| "sx_text (S_and x y) = sx_text x @ '' & '' @ sx_text y"
| "sx_text (S_or x y) = sx_text x @ '' | '' @ sx_text y"

fun sx_expr :: "sexp \<Rightarrow> expr" where
  "sx_expr (S_label i) = ETerminal (to_ascii_lowercase i)"
| "sx_expr (S_paren x) = sx_expr x"
| "sx_expr (S_not x) = ENot (sx_expr x)"
| "sx_expr (S_and x y) = EAnd (sx_expr x) (sx_expr y)"
| "sx_expr (S_or x y) = EOr (sx_expr x) (sx_expr y)"

text \<open>
  \<open>!\<close> binds tightest, then \<open>&\<close>, then \<open>|\<close>, and the binary operators associate to the left:
  an expression of a level is written without parentheses around it at that level.
\<close>

fun sx_or :: "sexp \<Rightarrow> bool" and sx_and :: "sexp \<Rightarrow> bool" and sx_not :: "sexp \<Rightarrow> bool" where
  "sx_or (S_or x y) = (sx_or x \<and> sx_and y)"
| "sx_or (S_and x y) = (sx_and x \<and> sx_not y)"
| "sx_or (S_not x) = sx_not x"
| "sx_or (S_paren x) = sx_or x"
| "sx_or (S_label i) = True"
| "sx_and (S_or x y) = False"
| "sx_and (S_and x y) = (sx_and x \<and> sx_not y)"
| "sx_and (S_not x) = sx_not x"
| "sx_and (S_paren x) = sx_or x"
| "sx_and (S_label i) = True"
| "sx_not (S_or x y) = False"
| "sx_not (S_and x y) = False"
| "sx_not (S_not x) = sx_not x"
| "sx_not (S_paren x) = sx_or x"
| "sx_not (S_label i) = True"

lemma sx_levels: "sx_and x \<Longrightarrow> sx_or x" "sx_not x \<Longrightarrow> sx_and x" "sx_not x \<Longrightarrow> sx_or x"
  by (cases x; simp)+

lemma sx_tokens_ne [simp]: "sx_tokens x \<noteq> []" "[] \<noteq> sx_tokens x"
  by (induction x) auto

lemma weight_append [simp]: "weight (a @ b) = weight a + weight b"
  by (induction a) auto

lemma weight_sx [simp]: "0 < weight (sx_tokens x)"
  by (cases "sx_tokens x") auto

definition next_is :: "char list \<Rightarrow> tokens \<Rightarrow> bool" where
  "next_is cs ts \<longleftrightarrow> (\<exists>c r. c \<in> set cs \<and> ts = T_punct c # r)"

section \<open>The macro reads the grammar\<close>

text \<open>
  \<open>took P ops labels ts res r\<close>: the result is an expression of level \<open>P\<close> at the front of \<open>ts\<close>, as long
  as the operators allow.
\<close>

definition took :: "(str \<Rightarrow> bool) \<Rightarrow> (sexp \<Rightarrow> bool) \<Rightarrow> char list \<Rightarrow> str list \<Rightarrow> tokens \<Rightarrow> str \<times> str list \<Rightarrow> tokens \<Rightarrow> bool" where
  "took reserved level ops labels ts res r \<longleftrightarrow> (\<exists>x. level x \<and> ts = sx_tokens x @ r \<and> res = (sx_text x, labels @ sx_labels x)
     \<and> (\<forall>i \<in> set (sx_labels x). \<not> reserved i) \<and> \<not> next_is ops r)"

text \<open>The operators of a chain of \<open>|\<close> (or of \<open>&\<close>).\<close>

fun chain_ops :: "bool \<Rightarrow> sexp \<Rightarrow> nat" where
  "chain_ops b (S_or x y) = (if b then Suc (chain_ops b x) else 0)"
| "chain_ops b (S_and x y) = (if b then 0 else Suc (chain_ops b x))"
| "chain_ops b x = 0"

lemma chain_ops_weight: "chain_ops b x < weight (sx_tokens x)"
proof (induction b x rule: chain_ops.induct)
  case (1 b x y)
  then show ?case using weight_sx [of x] by (auto simp del: weight_sx)
next
  case (2 b x y)
  then show ?case using weight_sx [of x] by (auto simp del: weight_sx)
qed (use weight_sx in auto)

context syn_crate
begin

lemma serial_loop_took:
  assumes item: "\<And>labels ts res r. item labels ts = Inr (res, r) \<Longrightarrow> took reserved P ops labels ts res r"
    and step: "\<And>x y. Q x \<Longrightarrow> P y \<Longrightarrow> Q (mk x y)"
    and mk: "\<And>x y. sx_tokens (mk x y) = sx_tokens x @ T_punct c # sx_tokens y" "\<And>x y. sx_labels (mk x y) = sx_labels x @ sx_labels y"
      "\<And>x y. sx_text (mk x y) = sx_text x @ '' '' @ [c] @ '' '' @ sx_text y"
  shows "serial_loop S c item n (sx_text x) (labels @ sx_labels x) ts = Inr (res, r) \<Longrightarrow> Q x \<Longrightarrow> \<forall>i \<in> set (sx_labels x). \<not> reserved i
    \<Longrightarrow> \<not> next_is ops ts \<Longrightarrow> took reserved Q (c # ops) labels (sx_tokens x @ ts) res r"
proof (induction n arbitrary: x ts)
  case (Suc n)
  show ?case
  proof (cases "sy_peek S c ts")
    case False
    then have "res = (sx_text x, labels @ sx_labels x)" "r = ts" "\<not> next_is (c # ops) ts"
      using Suc.prems by (auto simp: peek_iff next_is_def)
    then show ?thesis using Suc.prems by (auto simp: took_def)
  next
    case True
    then obtain ts1 right ls ts2 where t: "ts = T_punct c # ts1" "item (labels @ sx_labels x) ts1 = Inr ((right, ls), ts2)"
      "serial_loop S c item n (sx_text x @ '' '' @ [c] @ '' '' @ right) ls ts2 = Inr (res, r)"
      using Suc.prems(1) by (auto simp: pbind_Inr punct_iff split: prod.splits)
    obtain y where y: "P y" "ts1 = sx_tokens y @ ts2" "right = sx_text y" "ls = labels @ sx_labels (mk x y)"
      "\<forall>i \<in> set (sx_labels y). \<not> reserved i" "\<not> next_is ops ts2"
      using item [OF t(2)] by (auto simp: took_def mk)
    have "took reserved Q (c # ops) labels (sx_tokens (mk x y) @ ts2) res r"
      by (rule Suc.IH) (use t y step Suc.prems in \<open>auto simp: mk\<close>)
    then show ?thesis using t(1) y(2) by (simp add: mk)
  qed
qed simp

lemma primary_took:
  assumes expr: "\<And>labels ts res r. expr labels ts = Inr (res, r) \<Longrightarrow> took reserved sx_or ops labels ts res r"
    and "parse_serial_primary S expr labels ts = Inr (res, r)"
  shows "took reserved sx_not [] labels ts res r"
proof (cases "sy_peek_paren S ts")
  case True
  then obtain g inner ls where g: "ts = T_group Parenthesis g # r" "expr labels g = Inr ((inner, ls), [])" "res = (''('' @ inner @ '')'', ls)"
    using assms(2) by (auto simp: parse_serial_primary_def pbind_Inr group_iff result_bind_Inr within_Inr)
  then obtain x where "sx_or x" "g = sx_tokens x" "inner = sx_text x" "ls = labels @ sx_labels x" "\<forall>i \<in> set (sx_labels x). \<not> reserved i"
    using expr [OF g(2)] by (auto simp: took_def)
  then show ?thesis using g by (auto simp: took_def next_is_def intro!: exI [of _ "S_paren x"])
next
  case False
  then obtain i where "ts = T_ident i # r" "\<not> reserved i" "res = (i, labels @ [i])"
    using assms(2) by (auto simp: parse_serial_primary_def pbind_Inr ident_iff)
  then show ?thesis by (auto simp: took_def next_is_def intro!: exI [of _ "S_label i"])
qed

lemma not_took:
  assumes expr: "\<And>labels ts res r. expr labels ts = Inr (res, r) \<Longrightarrow> took reserved sx_or ops labels ts res r"
  shows "parse_serial_not S expr n labels ts = Inr (res, r) \<Longrightarrow> took reserved sx_not [] labels ts res r"
proof (induction n arbitrary: labels ts res r)
  case (Suc n)
  show ?case
  proof (cases "sy_peek S CHR ''!'' ts")
    case True
    then obtain ts1 inner ls where t: "ts = T_punct CHR ''!'' # ts1" "parse_serial_not S expr n labels ts1 = Inr ((inner, ls), r)" "res = (''!'' @ inner, ls)"
      using Suc.prems by (auto simp: pbind_Inr punct_iff)
    obtain x where "sx_not x" "ts1 = sx_tokens x @ r" "inner = sx_text x" "ls = labels @ sx_labels x" "\<forall>i \<in> set (sx_labels x). \<not> reserved i"
      using Suc.IH [OF t(2)] by (auto simp: took_def)
    then show ?thesis using t by (auto simp: took_def next_is_def intro!: exI [of _ "S_not x"])
  qed (use Suc.prems primary_took [of expr, OF expr] in simp)
qed simp

lemma chain_took:
  assumes item: "\<And>labels ts res r. item labels ts = Inr (res, r) \<Longrightarrow> took reserved P ops labels ts res r"
    and step: "\<And>x y. Q x \<Longrightarrow> P y \<Longrightarrow> Q (mk x y)" and base: "\<And>x. P x \<Longrightarrow> Q x"
    and mk: "\<And>x y. sx_tokens (mk x y) = sx_tokens x @ T_punct c # sx_tokens y" "\<And>x y. sx_labels (mk x y) = sx_labels x @ sx_labels y"
      "\<And>x y. sx_text (mk x y) = sx_text x @ '' '' @ [c] @ '' '' @ sx_text y"
    and run: "pbind (item labels) (\<lambda>(left, labels). serial_loop S c item n left labels) ts = Inr (res, r)"
  shows "took reserved Q (c # ops) labels ts res r"
proof -
  obtain left ls ts1 where t: "item labels ts = Inr ((left, ls), ts1)" "serial_loop S c item n left ls ts1 = Inr (res, r)"
    using run by (auto simp: pbind_Inr)
  obtain x where x: "P x" "ts = sx_tokens x @ ts1" "left = sx_text x" "ls = labels @ sx_labels x"
    "\<forall>i \<in> set (sx_labels x). \<not> reserved i" "\<not> next_is ops ts1"
    using item [OF t(1)] by (auto simp: took_def)
  show ?thesis unfolding x(2)
    by (rule serial_loop_took [where item = item and n = n and mk = mk and P = P]) (use item step mk t x base in auto)
qed

lemma and_took:
  assumes expr: "\<And>labels ts res r. expr labels ts = Inr (res, r) \<Longrightarrow> took reserved sx_or ops labels ts res r"
    and "parse_serial_and S expr n labels ts = Inr (res, r)"
  shows "took reserved sx_and [CHR ''&''] labels ts res r"
  by (rule chain_took [where mk = S_and and item = "parse_serial_not S expr n" and P = sx_not and n = n])
    (use assms(2) sx_levels not_took [of expr, OF expr] in \<open>auto simp: parse_serial_and_def\<close>)

lemma or_took: "parse_serial_or S n labels ts = Inr (res, r) \<Longrightarrow> took reserved sx_or [CHR ''|'', CHR ''&''] labels ts res r"
proof (induction n arbitrary: labels ts res r)
  case (Suc n)
  show ?case
    by (rule chain_took [where mk = S_or and item = "parse_serial_and S (parse_serial_or S n) n" and P = sx_and and n = n])
      (use Suc.prems sx_levels and_took [of "parse_serial_or S n", OF Suc.IH] in auto)
qed simp

text \<open>Conversely, every expression is read, given enough fuel.\<close>

definition takes :: "(sexp \<Rightarrow> bool) \<Rightarrow> char list \<Rightarrow> nat \<Rightarrow> (str list \<Rightarrow> serial_parse) \<Rightarrow> bool" where
  "takes level ops n p \<longleftrightarrow> (\<forall>x r labels. level x \<longrightarrow> weight (sx_tokens x) \<le> n \<longrightarrow> (\<forall>i \<in> set (sx_labels x). \<not> reserved i) \<longrightarrow> \<not> next_is ops r
     \<longrightarrow> p labels (sx_tokens x @ r) = Inr ((sx_text x, labels @ sx_labels x), r))"

lemma takesD: "takes level ops n p \<Longrightarrow> level x \<Longrightarrow> weight (sx_tokens x) \<le> n \<Longrightarrow> \<forall>i \<in> set (sx_labels x). \<not> reserved i \<Longrightarrow> \<not> next_is ops r
    \<Longrightarrow> p labels (sx_tokens x @ r) = Inr ((sx_text x, labels @ sx_labels x), r)"
  by (simp add: takes_def)

lemma punct_eq: "sy_punct S c (T_punct c # r) = Inr ((), r)"
  by (simp add: punct_iff)

lemma peek_eq: "sy_peek S c (T_punct d # r) = (d = c)"
  by (simp add: peek_iff)

lemma primary_takes:
  assumes expr: "takes sx_or ops n expr" and x: "sx_not x" "\<not> (\<exists>y. x = S_not y)" "weight (sx_tokens x) \<le> Suc n" "\<forall>i \<in> set (sx_labels x). \<not> reserved i"
  shows "parse_serial_primary S expr labels (sx_tokens x @ r) = Inr ((sx_text x, labels @ sx_labels x), r)"
    and "\<not> sy_peek S CHR ''!'' (sx_tokens x @ r)"
proof -
  have "parse_serial_primary S expr labels (sx_tokens x @ r) = Inr ((sx_text x, labels @ sx_labels x), r) \<and> \<not> sy_peek S CHR ''!'' (sx_tokens x @ r)"
  proof (cases x)
    case (S_label i)
    have "sy_ident S (T_ident i # r) = Inr (i, r)" using S_label x(4) by (simp add: ident_iff)
    then show ?thesis using S_label by (auto simp: parse_serial_primary_def peek_paren_iff peek_iff pbind_def preturn_def)
  next
    case (S_paren y)
    have g: "sy_group S Parenthesis (T_group Parenthesis (sx_tokens y) # r) = Inr (sx_tokens y, r)" by (simp add: group_iff)
    have "expr labels (sx_tokens y @ []) = Inr ((sx_text y, labels @ sx_labels y), [])"
      by (rule takesD [OF expr]) (use S_paren x in \<open>auto simp: next_is_def\<close>)
    then show ?thesis using S_paren g
      by (auto simp: parse_serial_primary_def peek_paren_iff peek_iff pbind_def preturn_def within_def)
  qed (use x in auto)
  then show "parse_serial_primary S expr labels (sx_tokens x @ r) = Inr ((sx_text x, labels @ sx_labels x), r)"
    "\<not> sy_peek S CHR ''!'' (sx_tokens x @ r)" by auto
qed

lemma not_takes:
  assumes expr: "takes sx_or ops n expr"
  shows "sx_not x \<Longrightarrow> weight (sx_tokens x) \<le> Suc n \<Longrightarrow> weight (sx_tokens x) \<le> m \<Longrightarrow> \<forall>i \<in> set (sx_labels x). \<not> reserved i
    \<Longrightarrow> parse_serial_not S expr m labels (sx_tokens x @ r) = Inr ((sx_text x, labels @ sx_labels x), r)"
proof (induction m arbitrary: x)
  case 0
  then show ?case using weight_sx [of x] by simp
next
  case (Suc m)
  show ?case
  proof (cases "\<exists>y. x = S_not y")
    case True
    then obtain y where y: "x = S_not y" by blast
    have "parse_serial_not S expr m labels (sx_tokens y @ r) = Inr ((sx_text y, labels @ sx_labels y), r)"
      by (rule Suc.IH) (use Suc.prems y in auto)
    then show ?thesis using y by (simp add: peek_eq pbind_def punct_eq preturn_def)
  qed (use primary_takes [OF expr] Suc.prems in simp)
qed

lemma loop_step:
  assumes "item labels (sx_tokens y @ r) = Inr ((sx_text y, labels @ sx_labels y), r)"
  shows "serial_loop S c item (Suc k) left labels (T_punct c # sx_tokens y @ r)
    = serial_loop S c item k (left @ '' '' @ [c] @ '' '' @ sx_text y) (labels @ sx_labels y) r"
  using assms by (simp add: peek_eq pbind_def punct_eq)

lemma chain_base:
  assumes "takes level ops n item" "level x" "weight (sx_tokens x) \<le> n" "\<forall>i \<in> set (sx_labels x). \<not> reserved i" "\<not> next_is ops r" "chain_ops b x = 0"
  shows "pbind (item labels) (\<lambda>(left, labels). serial_loop S c item m left labels) (sx_tokens x @ r)
      = serial_loop S c item (m - chain_ops b x) (sx_text x) (labels @ sx_labels x) r"
  using takesD [OF assms(1-5)] assms(6) by (simp add: pbind_def)

lemma and_chain_takes:
  assumes item: "takes sx_not [] n item"
  shows "sx_and x \<Longrightarrow> weight (sx_tokens x) \<le> n \<Longrightarrow> \<forall>i \<in> set (sx_labels x). \<not> reserved i \<Longrightarrow> chain_ops False x \<le> m \<Longrightarrow>
    pbind (item labels) (\<lambda>(left, labels). serial_loop S CHR ''&'' item m left labels) (sx_tokens x @ r)
      = serial_loop S CHR ''&'' item (m - chain_ops False x) (sx_text x) (labels @ sx_labels x) r"
proof (induction x arbitrary: r)
  case (S_and x y)
  have y: "item (labels @ sx_labels x) (sx_tokens y @ r) = Inr ((sx_text y, (labels @ sx_labels x) @ sx_labels y), r)"
    by (rule takesD [OF item]) (use S_and.prems in \<open>auto simp: next_is_def\<close>)
  obtain k where k: "m - chain_ops False x = Suc k" "m - chain_ops False (S_and x y) = k" using S_and.prems(4) by (cases "m - chain_ops False x") auto
  have "pbind (item labels) (\<lambda>(left, labels). serial_loop S CHR ''&'' item m left labels) (sx_tokens x @ T_punct CHR ''&'' # sx_tokens y @ r)
      = serial_loop S CHR ''&'' item (m - chain_ops False x) (sx_text x) (labels @ sx_labels x) (T_punct CHR ''&'' # sx_tokens y @ r)"
    by (rule S_and.IH(1)) (use S_and.prems in auto)
  then show ?case using k loop_step [of item "labels @ sx_labels x" y r, OF y] by simp
next
  case (S_label i)
  show ?case by (rule chain_base [OF item]) (use S_label in \<open>auto simp: next_is_def\<close>)
next
  case (S_paren x)
  show ?case by (rule chain_base [OF item]) (use S_paren in \<open>auto simp: next_is_def\<close>)
next
  case (S_not x)
  show ?case by (rule chain_base [OF item]) (use S_not in \<open>auto simp: next_is_def\<close>)
qed simp

lemma or_chain_takes:
  assumes item: "takes sx_and [CHR ''&''] n item"
  shows "sx_or x \<Longrightarrow> weight (sx_tokens x) \<le> n \<Longrightarrow> \<forall>i \<in> set (sx_labels x). \<not> reserved i \<Longrightarrow> chain_ops True x \<le> m \<Longrightarrow> \<not> next_is [CHR ''&''] r \<Longrightarrow>
    pbind (item labels) (\<lambda>(left, labels). serial_loop S CHR ''|'' item m left labels) (sx_tokens x @ r)
      = serial_loop S CHR ''|'' item (m - chain_ops True x) (sx_text x) (labels @ sx_labels x) r"
proof (induction x arbitrary: r)
  case (S_or x y)
  have y: "item (labels @ sx_labels x) (sx_tokens y @ r) = Inr ((sx_text y, (labels @ sx_labels x) @ sx_labels y), r)"
    by (rule takesD [OF item]) (use S_or.prems in auto)
  obtain k where k: "m - chain_ops True x = Suc k" "m - chain_ops True (S_or x y) = k" using S_or.prems(4) by (cases "m - chain_ops True x") auto
  have "pbind (item labels) (\<lambda>(left, labels). serial_loop S CHR ''|'' item m left labels) (sx_tokens x @ T_punct CHR ''|'' # sx_tokens y @ r)
      = serial_loop S CHR ''|'' item (m - chain_ops True x) (sx_text x) (labels @ sx_labels x) (T_punct CHR ''|'' # sx_tokens y @ r)"
    by (rule S_or.IH(1)) (use S_or.prems in \<open>auto simp: next_is_def\<close>)
  then show ?case using k loop_step [of item "labels @ sx_labels x" y r, OF y] by simp
next
  case (S_label i)
  show ?case by (rule chain_base [OF item]) (use S_label in auto)
next
  case (S_paren x)
  show ?case by (rule chain_base [OF item]) (use S_paren in auto)
next
  case (S_not x)
  show ?case by (rule chain_base [OF item]) (use S_not in auto)
next
  case (S_and x y)
  show ?case by (rule chain_base [OF item]) (use S_and in auto)
qed

lemma serial_loop_done: "\<not> next_is [c] r \<Longrightarrow> serial_loop S c item (Suc k) left labels r = Inr ((left, labels), r)"
  by (auto simp: peek_iff next_is_def preturn_def)

lemma or_takes: "takes sx_or [CHR ''|'', CHR ''&''] n (parse_serial_or S (Suc n))"
proof (induction n)
  case 0
  then show ?case by (metis takes_def leD weight_sx)
next
  case (Suc n)
  let ?expr = "parse_serial_or S (Suc n)"
  have not: "takes sx_not [] (Suc n) (parse_serial_not S ?expr (Suc n))"
    unfolding takes_def by (intro allI impI) (rule not_takes [OF Suc.IH])
  have an: "takes sx_and [CHR ''&''] (Suc n) (parse_serial_and S ?expr (Suc n))"
    unfolding takes_def parse_serial_and_def
  proof (intro allI impI)
    fix x r labels
    assume x: "sx_and x" "weight (sx_tokens x) \<le> Suc n" "\<forall>i \<in> set (sx_labels x). \<not> reserved i" "\<not> next_is [CHR ''&''] r"
    obtain k where "Suc n - chain_ops False x = Suc k" using chain_ops_weight [of False x] x(2) by (cases "Suc n - chain_ops False x") auto
    then show "pbind (parse_serial_not S ?expr (Suc n) labels) (\<lambda>(left, labels). serial_loop S CHR ''&'' (parse_serial_not S ?expr (Suc n)) (Suc n) left labels) (sx_tokens x @ r)
        = Inr ((sx_text x, labels @ sx_labels x), r)"
      using and_chain_takes [OF not x(1-3), of "Suc n"] serial_loop_done [OF x(4)] chain_ops_weight [of False x] x(2) by simp
  qed
  show ?case
    unfolding takes_def parse_serial_or.simps(2) [of S "Suc n"]
  proof (intro allI impI)
    fix x r labels
    assume x: "sx_or x" "weight (sx_tokens x) \<le> Suc n" "\<forall>i \<in> set (sx_labels x). \<not> reserved i" "\<not> next_is [CHR ''|'', CHR ''&''] r"
    have r: "\<not> next_is [CHR ''&''] r" "\<not> next_is [CHR ''|''] r" using x(4) by (auto simp: next_is_def)
    obtain k where "Suc n - chain_ops True x = Suc k" using chain_ops_weight [of True x] x(2) by (cases "Suc n - chain_ops True x") auto
    then show "pbind (parse_serial_and S ?expr (Suc n) labels) (\<lambda>(left, labels). serial_loop S CHR ''|'' (parse_serial_and S ?expr (Suc n)) (Suc n) left labels) (sx_tokens x @ r)
        = Inr ((sx_text x, labels @ sx_labels x), r)"
      using or_chain_takes [OF an x(1-3), of "Suc n"] serial_loop_done [OF r(2)] chain_ops_weight [of True x] x(2) r(1) by simp
  qed
qed

text \<open>The macro accepts exactly the expressions of the grammar, and takes the longest one.\<close>

lemma parse_serial_expr_iff:
  "parse_serial_expr S ts = Inr ((text, labels), r) \<longleftrightarrow>
     (\<exists>x. sx_or x \<and> ts = sx_tokens x @ r \<and> text = sx_text x \<and> labels = sx_labels x \<and> (\<forall>i \<in> set labels. \<not> reserved i)
       \<and> \<not> next_is [CHR ''|'', CHR ''&''] r)"
proof
  assume "parse_serial_expr S ts = Inr ((text, labels), r)"
  then show "\<exists>x. sx_or x \<and> ts = sx_tokens x @ r \<and> text = sx_text x \<and> labels = sx_labels x \<and> (\<forall>i \<in> set labels. \<not> reserved i)
       \<and> \<not> next_is [CHR ''|'', CHR ''&''] r"
    using or_took [of "weight ts + 2" "[]" ts "(text, labels)" r] unfolding parse_serial_expr_def took_def by auto
next
  assume "\<exists>x. sx_or x \<and> ts = sx_tokens x @ r \<and> text = sx_text x \<and> labels = sx_labels x \<and> (\<forall>i \<in> set labels. \<not> reserved i)
       \<and> \<not> next_is [CHR ''|'', CHR ''&''] r"
  then show "parse_serial_expr S ts = Inr ((text, labels), r)"
    using takesD [OF or_takes [of "weight ts + 1"], where labels = "[]"] by (auto simp: parse_serial_expr_def)
qed

end

section \<open>The runtime reads the text\<close>

definition sx_ok :: "sexp \<Rightarrow> bool" where
  "sx_ok x \<longleftrightarrow> (\<forall>i \<in> set (sx_labels x). label_name_ok i)"

lemma sx_ok_simps [simp]:
  "sx_ok (S_label i) = label_name_ok i" "sx_ok (S_paren x) = sx_ok x" "sx_ok (S_not x) = sx_ok x"
  "sx_ok (S_and x y) = (sx_ok x \<and> sx_ok y)" "sx_ok (S_or x y) = (sx_ok x \<and> sx_ok y)"
  by (auto simp: sx_ok_def)

fun sx_conj :: "sexp \<Rightarrow> sexp list" where
  "sx_conj (S_and x y) = sx_conj x @ [y]"
| "sx_conj x = [x]"

fun sx_disj :: "sexp \<Rightarrow> sexp list" where
  "sx_disj (S_or x y) = sx_disj x @ [y]"
| "sx_disj x = [x]"

lemma sx_chain_ne [simp]: "sx_conj x \<noteq> []" "sx_disj x \<noteq> []"
  by (cases x; simp)+

lemma join_snoc: "xs \<noteq> [] \<Longrightarrow> join sep (xs @ [y]) = join sep xs @ sep @ y"
  by (induction sep xs rule: join.induct) auto

lemma sx_text_conj: "sx_and x \<Longrightarrow> sx_text x = join ('' '' @ ''&'' @ '' '') (map sx_text (sx_conj x))"
  by (induction x) (auto simp: join_snoc)

lemma sx_text_disj: "sx_text x = join ('' '' @ ''|'' @ '' '') (map sx_text (sx_disj x))"
  by (induction x) (auto simp: join_snoc)

lemma sx_conj_items: "sx_and x \<Longrightarrow> y \<in> set (sx_conj x) \<Longrightarrow> sx_not y \<and> (sx_ok x \<longrightarrow> sx_ok y) \<and> size y \<le> size x"
  by (induction x) auto

lemma sx_disj_items: "sx_or x \<Longrightarrow> y \<in> set (sx_disj x) \<Longrightarrow> sx_and y \<and> (sx_ok x \<longrightarrow> sx_ok y) \<and> size y \<le> size x"
  by (induction x) auto

lemma sx_conj_sem: "sem (sx_expr x) f \<longleftrightarrow> (\<forall>y \<in> set (sx_conj x). sem (sx_expr y) f)"
    "collect_terminals (sx_expr x) = concat (map (\<lambda>y. collect_terminals (sx_expr y)) (sx_conj x))"
  by (induction x) auto

lemma sx_disj_sem: "sem (sx_expr x) f \<longleftrightarrow> (\<exists>y \<in> set (sx_disj x). sem (sx_expr y) f)"
    "collect_terminals (sx_expr x) = concat (map (\<lambda>y. collect_terminals (sx_expr y)) (sx_disj x))"
  by (induction x) auto

lemma skip_sx: "sx_ok x \<Longrightarrow> skip (sx_text x @ s) = sx_text x @ s"
proof (induction x arbitrary: s)
  case (S_label i)
  then obtain c cs where "i = c # cs" "label_byte c"
    by (cases i) (auto simp: label_name_ok_def validate_label_name_ok intro: label_first_byte_imp)
  then show ?case using label_byte_not_ws [of c] by (simp add: skip_nonspace)
qed (auto simp: skip_nonspace is_whitespace_def)

lemma sx_text_ne: "sx_ok x \<Longrightarrow> sx_text x \<noteq> []" "sx_ok x \<Longrightarrow> [] \<noteq> sx_text x"
  by (induction x) (auto simp: label_name_ok_def validate_label_name_ok)

definition sx_reads :: "sexp \<Rightarrow> bool" where
  "sx_reads x \<longleftrightarrow> (\<forall>n m. length (sx_text x) \<le> n \<longrightarrow> length (sx_text x) \<le> Suc m \<longrightarrow>
     reads (rule_not_expr (rule_expr m) n) stop (sx_text x) (sx_expr x))"

lemma sx_and_reads:
  assumes x: "sx_and x" "sx_ok x" and items: "\<And>y. y \<in> set (sx_conj x) \<Longrightarrow> sx_reads y"
    and len: "length (sx_text x) \<le> n" "length (sx_text x) \<le> Suc m"
  shows "reads (rule_and_expr (rule_expr m) n) (\<lambda>rest. stop rest \<and> no_sep ''&'' rest) (sx_text x) (sx_expr x)"
proof -
  obtain y ys where ys: "sx_conj x = y # ys" using sx_chain_ne(1) [of x] by (cases "sx_conj x") auto
  have tx: "sx_text x = join ('' '' @ ''&'' @ '' '') (map sx_text (y # ys))" using sx_text_conj [OF x(1)] ys by simp
  have ok: "sx_ok z" if "z \<in> set (y # ys)" for z using that sx_conj_items [OF x(1)] x(2) ys by auto
  have "length (sx_text z) \<le> length (sx_text x)" if "z \<in> set (y # ys)" for z
    unfolding tx using that by (intro join_member_length) auto
  then have "reads (rule_not_expr (rule_expr m) n) stop (sx_text z) (sx_expr z)" if "z \<in> set (y # ys)" for z
    using that items [of z] ys len by (fastforce simp: sx_reads_def)
  moreover have "length ys < n"
  proof -
    have "length (map sx_text (y # ys)) \<le> length (sx_text x)" unfolding tx by (rule join_length) (use ok sx_text_ne in auto)
    then show ?thesis using len by simp
  qed
  moreover have "stop ('' '' @ ''&'' @ '' '' @ s)" for s by (simp add: stop_def ident_byte_def rust_def)
  moreover have "built (Pair R_and_expr s (t # ts)) (sx_expr x)" if "built t (sx_expr y)" "list_all2 built ts (map sx_expr ys)" for s t ts
    by (rule built_and_sem [OF that]) (use sx_conj_sem [of x] ys in \<open>auto simp: o_def\<close>)
  ultimately show ?thesis
    unfolding rule_and_expr_def tx using ok skip_sx by (intro chain_reads [where den = sx_expr]) auto
qed

lemma sx_or_reads:
  assumes x: "sx_or x" "sx_ok x" and items: "\<And>d y. d \<in> set (sx_disj x) \<Longrightarrow> y \<in> set (sx_conj d) \<Longrightarrow> sx_reads y"
    and len: "length (sx_text x) \<le> m"
  shows "reads (rule_expr (Suc m)) (\<lambda>rest. (stop rest \<and> no_sep ''&'' rest) \<and> no_sep ''|'' rest) (sx_text x) (sx_expr x)"
proof -
  obtain y ys where ys: "sx_disj x = y # ys" using sx_chain_ne(2) [of x] by (cases "sx_disj x") auto
  have tx: "sx_text x = join ('' '' @ ''|'' @ '' '') (map sx_text (y # ys))" using sx_text_disj [of x] ys by simp
  have ok: "sx_and z" "sx_ok z" if "z \<in> set (y # ys)" for z using that sx_disj_items [OF x(1)] x(2) ys by auto
  have "length (sx_text z) \<le> length (sx_text x)" if "z \<in> set (y # ys)" for z
    unfolding tx using that by (intro join_member_length) auto
  then have "reads (rule_and_expr (rule_expr m) m) (\<lambda>rest. stop rest \<and> no_sep ''&'' rest) (sx_text z) (sx_expr z)" if "z \<in> set (y # ys)" for z
    using that ok items [of z] ys len by (intro sx_and_reads) (auto intro: le_trans le_SucI)
  moreover have "length ys < m"
  proof -
    have "length (map sx_text (y # ys)) \<le> length (sx_text x)" unfolding tx by (rule join_length) (use ok sx_text_ne in auto)
    then show ?thesis using len by simp
  qed
  moreover have "stop ('' '' @ ''|'' @ '' '' @ s) \<and> no_sep ''&'' ('' '' @ ''|'' @ '' '' @ s)" for s
    by (simp add: stop_def ident_byte_def rust_def no_sep_def skip_nonspace is_whitespace_def)
  moreover have "built (Pair R_or_expr s (t # ts)) (sx_expr x)" if "built t (sx_expr y)" "list_all2 built ts (map sx_expr ys)" for s t ts
    by (rule built_or_sem [OF that]) (use sx_disj_sem [of x] ys in \<open>auto simp: o_def\<close>)
  ultimately have "reads (rule_or_expr (rule_expr m) m)
      (\<lambda>rest. (stop rest \<and> no_sep ''&'' rest) \<and> no_sep ''|'' rest) (sx_text x) (sx_expr x)"
    unfolding rule_or_expr_def tx using ok skip_sx by (intro chain_reads [where den = sx_expr]) auto
  then show ?thesis by (fastforce simp: reads_def built_def)
qed

lemma sx_reads_all: "sx_not x \<Longrightarrow> sx_ok x \<Longrightarrow> sx_reads x"
proof (induction "size x" arbitrary: x rule: less_induct)
  case less
  show ?case
    unfolding sx_reads_def
  proof (intro allI impI)
    fix n m assume len: "length (sx_text x) \<le> n" "length (sx_text x) \<le> Suc m"
    then obtain k where k: "n = Suc k" using sx_text_ne(1) [OF less.prems(2)] by (cases n) auto
    show "reads (rule_not_expr (rule_expr m) n) stop (sx_text x) (sx_expr x)"
    proof (cases x)
      case (S_label i)
      then have "label_name_ok i" using less.prems by simp
      note r = rule_label_reads [OF this]
      show ?thesis by (auto simp: reads_def k S_label rule_neg_def rule_primary_def peg_lit_def r built_def equiv_expr_def)
    next
      case (S_paren y)
      then obtain m' where m': "m = Suc m'" "length (sx_text y) \<le> m'" using len by (cases m) auto
      have y: "sx_or y" "sx_ok y" using less.prems S_paren by auto
      have "sx_reads z" if z: "d \<in> set (sx_disj y)" "z \<in> set (sx_conj d)" for d z
      proof (rule less.hyps)
        have d: "sx_and d" "sx_ok d" "size d \<le> size y" using sx_disj_items [OF y(1) z(1)] y(2) by auto
        then show "size z < size x" "sx_not z" "sx_ok z" using sx_conj_items [OF d(1) z(2)] S_paren by auto
      qed
      then have "reads (rule_expr m) (\<lambda>rest. (stop rest \<and> no_sep ''&'' rest) \<and> no_sep ''|'' rest) (sx_text y) (sx_expr y)"
        unfolding m'(1) by (intro sx_or_reads y) (use m' in auto)
      then show ?thesis using paren_reads [OF _ skip_sx [OF y(2)], of m "sx_expr y" n] S_paren k by simp
    next
      case (S_not y)
      then have y: "sx_reads y" "sx_ok y" using less by auto
      have "reads (rule_not_expr (rule_expr m) k) stop (sx_text y) (sx_expr y)"
        using y(1) len k S_not by (simp add: sx_reads_def)
      then show ?thesis using neg_reads [OF _ skip_sx [OF y(2)]] by (simp add: k S_not)
    qed (use less.prems in auto)
  qed
qed

lemma parse_raw_sx_ok:
  assumes "sx_or x" "sx_ok x"
  shows "\<exists>e. parse_raw_label_expr (sx_text x) = Inr e \<and> equiv_expr e (sx_expr x)"
proof -
  let ?s = "sx_text x"
  have s: "skip ?s = ?s" using skip_sx [OF assms(2), of "[]"] by simp
  have "sx_reads y" if d: "d \<in> set (sx_disj x)" "y \<in> set (sx_conj d)" for d y
    using sx_reads_all sx_conj_items [OF _ d(2)] sx_disj_items [OF assms(1) d(1)] assms(2) by blast
  then have r: "reads (rule_expr (length ?s + 2))
      (\<lambda>rest. (stop rest \<and> no_sep ''&'' rest) \<and> no_sep ''|'' rest) ?s (sx_expr x)"
    using sx_or_reads [OF assms, of "length ?s + 1"] by simp
  have "skip [] = []" "stop []" "no_sep ''&'' []" "no_sep ''|'' []"
    by (simp_all add: skip_def stop_def no_sep_def starts_with_def)
  with r [unfolded reads_def, rule_format, of "[]"] obtain t r where
    t: "rule_expr (length ?s + 2) ?s = Matched t r" "skip r = []" "built t (sx_expr x)" by auto
  then have "pair_rule t = R_expr" using rule_expr_Matched by blast
  then have "parse_raw_label_expr ?s = build_expr t" using t s by (simp add: parse_raw_label_expr_def rule_input_def)
  then show ?thesis using t(3) by (auto simp: built_def split: sum.splits)
qed

text \<open>The macro keeps the case of the identifiers, the runtime folds it.\<close>

fun sx_lower :: "sexp \<Rightarrow> sexp" where
  "sx_lower (S_label i) = S_label (to_ascii_lowercase i)"
| "sx_lower (S_paren x) = S_paren (sx_lower x)"
| "sx_lower (S_not x) = S_not (sx_lower x)"
| "sx_lower (S_and x y) = S_and (sx_lower x) (sx_lower y)"
| "sx_lower (S_or x y) = S_or (sx_lower x) (sx_lower y)"

lemma lower_append [simp]: "to_ascii_lowercase (a @ b) = to_ascii_lowercase a @ to_ascii_lowercase b"
  by (simp add: to_ascii_lowercase_def)

lemma lower_ops: "to_ascii_lowercase ''('' = ''(''" "to_ascii_lowercase '')'' = '')''" "to_ascii_lowercase ''!'' = ''!''"
    "to_ascii_lowercase '' & '' = '' & ''" "to_ascii_lowercase '' | '' = '' | ''"
  by (simp_all add: rust_def)

lemma sx_lower_level: "sx_or (sx_lower x) = sx_or x" "sx_and (sx_lower x) = sx_and x" "sx_not (sx_lower x) = sx_not x"
  by (induction x) auto

lemma sx_lower_expr [simp]: "sx_expr (sx_lower x) = sx_expr x"
  by (induction x) auto

lemma sx_lower_labels [simp]: "sx_labels (sx_lower x) = map to_ascii_lowercase (sx_labels x)"
  by (induction x) auto

lemma sx_lower_text: "sx_text (sx_lower x) = to_ascii_lowercase (sx_text x)"
  by (induction x) (simp_all only: sx_lower.simps sx_text.simps lower_append lower_ops)

lemma sx_expr_terminals: "collect_terminals (sx_expr x) = map to_ascii_lowercase (sx_labels x)"
  by (induction x) auto

lemma label_macro_ok: "label_macro i = Inr l \<Longrightarrow> label_name_ok (to_ascii_lowercase i)"
  by (auto simp: label_macro_def label_name_ok_def Label_new_def result_bind_Inr split: sum.splits if_splits)

lemma parse_raw_sx:
  assumes "sx_or x" "\<forall>i \<in> set (sx_labels x). label_name_ok (to_ascii_lowercase i)"
  shows "\<exists>e. parse_raw_label_expr (sx_text x) = Inr e \<and> equiv_expr e (sx_expr x)"
  using parse_raw_sx_ok [of "sx_lower x"] assms parse_raw_lower [of "sx_text x"]
  by (simp add: sx_lower_level sx_lower_text sx_ok_def)

section \<open>Property\<close>

text \<open>
  A serial expression means at run time what it says in the attribute.  The macro accepts
  exactly the expressions of its grammar, longest first; when the identifiers are labels declared
  with \<open>#[skuld::label]\<close>, the text it passes on is parsed by the runtime into an expression with
  the same meaning, whose labels are the identifiers the macro recorded for its own check.
\<close>

theorem serial_expr_reads_back:
  assumes "syn_crate S reserved str_value"
  shows "((\<exists>text labels. parse_serial_expr S ts = Inr ((text, labels), r)) \<longleftrightarrow>
      (\<exists>x. sx_or x \<and> ts = sx_tokens x @ r \<and> (\<forall>i \<in> set (sx_labels x). \<not> reserved i) \<and> \<not> next_is [CHR ''|'', CHR ''&''] r))
    \<and> (\<forall>text labels. parse_serial_expr S ts = Inr ((text, labels), r) \<and> (\<forall>i \<in> set labels. \<exists>l. label_macro i = Inr l) \<longrightarrow>
      (\<exists>x e. sx_or x \<and> ts = sx_tokens x @ r \<and> parse_raw_label_expr text = Inr e \<and> (\<forall>f. sem e f = sem (sx_expr x) f)
        \<and> labels = sx_labels x \<and> collect_terminals e = map to_ascii_lowercase labels))"
proof (intro conjI allI impI)
  note iff = syn_crate.parse_serial_expr_iff [OF assms]
  show "(\<exists>text labels. parse_serial_expr S ts = Inr ((text, labels), r)) \<longleftrightarrow>
      (\<exists>x. sx_or x \<and> ts = sx_tokens x @ r \<and> (\<forall>i \<in> set (sx_labels x). \<not> reserved i) \<and> \<not> next_is [CHR ''|'', CHR ''&''] r)"
    by (auto simp: iff)
  fix tx labels
  assume run: "parse_serial_expr S ts = Inr ((tx, labels), r) \<and> (\<forall>i \<in> set labels. \<exists>l. label_macro i = Inr l)"
  then obtain x where x: "sx_or x" "ts = sx_tokens x @ r" "tx = sx_text x" "labels = sx_labels x" by (auto simp: iff)
  have "\<exists>e. parse_raw_label_expr tx = Inr e \<and> equiv_expr e (sx_expr x)"
    unfolding x(3) by (rule parse_raw_sx [OF x(1)]) (use run label_macro_ok x(4) in blast)
  then show "\<exists>x e. sx_or x \<and> ts = sx_tokens x @ r \<and> parse_raw_label_expr tx = Inr e \<and> (\<forall>f. sem e f = sem (sx_expr x) f)
        \<and> labels = sx_labels x \<and> collect_terminals e = map to_ascii_lowercase labels"
    using x by (auto simp: equiv_expr_def sx_expr_terminals)
qed

definition demo_serial_tokens :: tokens where
  "demo_serial_tokens = [T_ident ''DB'', T_punct CHR ''&'', T_punct CHR ''!'',
     T_group Parenthesis [T_ident ''Slow'', T_punct CHR ''|'', T_ident ''net'']]"

lemma demo_serial_parses:
  "parse_serial_expr ref_syn demo_serial_tokens = Inr ((''DB & !(Slow | net)'', [''DB'', ''Slow'', ''net'']), [])"
  by (simp add: parse_serial_expr_def demo_serial_tokens_def ref_syn_def pbind_def ref_punct_def ref_ident_def ref_reserved_def
      parse_serial_and_def parse_serial_primary_def within_def preturn_def)

theorem serial_expr_reads_back_witness:
  "\<exists>e. parse_raw_label_expr ''DB & !(Slow | net)'' = Inr e \<and> collect_terminals e = [''db'', ''slow'', ''net'']
     \<and> parse_serial_expr ref_syn demo_serial_tokens = Inr ((''DB & !(Slow | net)'', [''DB'', ''Slow'', ''net'']), [])"
proof -
  have "\<forall>i \<in> set [''DB'', ''Slow'', ''net'']. \<exists>l. label_macro i = Inr l"
    by (auto simp: label_macro_def Label_new_def validate_label_name_def RESERVED_LABEL_NAMES_def label_first_byte_def label_byte_def rust_def)
  moreover have "map to_ascii_lowercase [''DB'', ''Slow'', ''net''] = [''db'', ''slow'', ''net'']" by code_simp
  ultimately show ?thesis
    using serial_expr_reads_back [OF refsyn.syn_crate_axioms, of demo_serial_tokens "[]"] demo_serial_parses by fastforce
qed

end
