(* ===== verification/Macro_Args.thy ===== *)
theory Macro_Args
  imports Macro_Serial
begin

text \<open>
  The arguments of \<open>#[skuld::test(...)]\<close> and \<open>#[skuld::fixture(...)]\<close> (\<open>macros/src/lib.rs\<close>,
  \<open>Parse for TestArgs\<close> and \<open>Parse for FixtureArgs\<close>): comma-separated arguments, each given at most
  once, with an optional comma at the end.  Both loops have the same shape and are one definition
  here, with the reader of a single argument as its parameter.
\<close>

section \<open>The loop over the arguments\<close>

definition reject_duplicate_key :: "str \<Rightarrow> str list \<Rightarrow> (syn_error, str list) result" where
  "reject_duplicate_key key seen = (if key \<in> set seen then Inl (Duplicate_argument key) else Inr (seen @ [key]))"

type_synonym 'a arg_reader = "str \<Rightarrow> 'a \<Rightarrow> 'a parse"

primrec args_loop :: "syn \<Rightarrow> 'a arg_reader \<Rightarrow> nat \<Rightarrow> str list \<Rightarrow> 'a \<Rightarrow> 'a parse" where
  "args_loop S arg 0 seen args ts = Inl No_more_fuel"
| "args_loop S arg (Suc n) seen args ts =
     pbind (sy_ident S) (\<lambda>key ts. result_bind (reject_duplicate_key key seen) (\<lambda>seen.
       pbind (arg key args) (\<lambda>args ts.
         if ts = [] then preturn args ts
         else pbind (sy_punct S CHR '','') (\<lambda>_ ts.
           if ts = [] then preturn args ts else args_loop S arg n seen args ts) ts) ts)) ts"

definition parse_args :: "syn \<Rightarrow> 'a arg_reader \<Rightarrow> 'a \<Rightarrow> tokens \<Rightarrow> (syn_error, 'a) result" where
  "parse_args S arg dflt ts = (if ts = [] then Inr dflt else within (args_loop S arg (length ts) [] dflt) ts)"

definition after_eq :: "syn \<Rightarrow> 'a parse \<Rightarrow> 'a parse" where
  "after_eq S p = pbind (sy_punct S CHR ''='') (\<lambda>_. p)"

definition bracketed_paths :: "syn \<Rightarrow> path list parse" where
  "bracketed_paths S = pbind (sy_group S Bracket) (\<lambda>content ts. result_bind (sy_paths S content) (\<lambda>ps. preturn ps ts))"

definition serial_arg :: "syn \<Rightarrow> (str \<times> str list option) parse" where
  "serial_arg S ts = (if sy_peek S CHR ''='' ts
     then pbind (after_eq S (parse_serial_expr S)) (\<lambda>(expr_str, label_idents). preturn (expr_str, Some label_idents)) ts
     else preturn (''*'', None) ts)"

definition optional_lit :: "syn \<Rightarrow> str option parse" where
  "optional_lit S ts = (if sy_peek S CHR ''='' ts then pbind (after_eq S (sy_lit_str S)) (\<lambda>v. preturn (Some v)) ts else preturn None ts)"

section \<open>Arguments of \<open>#[skuld::test]\<close>\<close>

datatype ignore_arg = Ignore_arg_no | Ignore_arg_yes | Ignore_arg_reason str
datatype should_panic_arg = Should_panic_arg_no | Should_panic_arg_yes | Should_panic_arg_message str

record test_args =
  ta_requires :: "path list"
  ta_name :: "str option"
  ta_labels :: "path list option"
  ta_ignore :: ignore_arg
  ta_serial :: "str option"
  ta_serial_labels :: "str list"
  ta_should_panic :: should_panic_arg
  ta_runtime :: "path option"

definition test_args_default :: test_args where
  "test_args_default = \<lparr>ta_requires = [], ta_name = None, ta_labels = None, ta_ignore = Ignore_arg_no, ta_serial = None,
     ta_serial_labels = [], ta_should_panic = Should_panic_arg_no, ta_runtime = None\<rparr>"

definition set_test_serial :: "str \<times> str list option \<Rightarrow> test_args \<Rightarrow> test_args" where
  "set_test_serial w args = (case w of (expr_str, Some label_idents) \<Rightarrow> args\<lparr>ta_serial := Some expr_str, ta_serial_labels := label_idents\<rparr>
     | (expr_str, None) \<Rightarrow> args\<lparr>ta_serial := Some expr_str\<rparr>)"

definition test_arg :: "syn \<Rightarrow> test_args arg_reader" where
  "test_arg S key args =
     (if key = ''requires'' then pbind (after_eq S (bracketed_paths S)) (\<lambda>ps. preturn (args\<lparr>ta_requires := ps\<rparr>))
      else if key = ''name'' then pbind (after_eq S (sy_lit_str S)) (\<lambda>v. preturn (args\<lparr>ta_name := Some v\<rparr>))
      else if key = ''labels'' then pbind (after_eq S (bracketed_paths S)) (\<lambda>ps. preturn (args\<lparr>ta_labels := Some ps\<rparr>))
      else if key = ''ignore'' then pbind (optional_lit S) (\<lambda>v. preturn (args\<lparr>ta_ignore :=
             (case v of Some reason \<Rightarrow> Ignore_arg_reason reason | None \<Rightarrow> Ignore_arg_yes)\<rparr>))
      else if key = ''serial'' then pbind (serial_arg S) (\<lambda>w. preturn (set_test_serial w args))
      else if key = ''runtime'' then pbind (after_eq S (sy_path S)) (\<lambda>p. preturn (args\<lparr>ta_runtime := Some p\<rparr>))
      else if key = ''should_panic'' then pbind (optional_lit S) (\<lambda>v. preturn (args\<lparr>ta_should_panic :=
             (case v of Some msg \<Rightarrow> Should_panic_arg_message msg | None \<Rightarrow> Should_panic_arg_yes)\<rparr>))
      else pfail (Unknown_argument key))"

definition parse_test_args :: "syn \<Rightarrow> tokens \<Rightarrow> (syn_error, test_args) result" where
  "parse_test_args S = parse_args S (test_arg S) test_args_default"

section \<open>Arguments of \<open>#[skuld::fixture]\<close>\<close>

record fixture_args =
  fa_requires :: "path list"
  fa_labels :: "path list"
  fa_scope :: "str option"
  fa_name :: "str option"
  fa_deref :: bool
  fa_serial :: "str option"
  fa_serial_labels :: "str list"

definition fixture_args_default :: fixture_args where
  "fixture_args_default = \<lparr>fa_requires = [], fa_labels = [], fa_scope = None, fa_name = None, fa_deref = False,
     fa_serial = None, fa_serial_labels = []\<rparr>"

definition set_fixture_serial :: "str \<times> str list option \<Rightarrow> fixture_args \<Rightarrow> fixture_args" where
  "set_fixture_serial w args = (case w of (expr_str, Some label_idents) \<Rightarrow> args\<lparr>fa_serial := Some expr_str, fa_serial_labels := label_idents\<rparr>
     | (expr_str, None) \<Rightarrow> args\<lparr>fa_serial := Some expr_str\<rparr>)"

definition unknown_scope :: "str \<Rightarrow> bool" where
  "unknown_scope s \<longleftrightarrow> s \<noteq> ''variable'' \<and> s \<noteq> ''test'' \<and> s \<noteq> ''process''"

definition fixture_arg :: "syn \<Rightarrow> fixture_args arg_reader" where
  "fixture_arg S key args =
     (if key = ''requires'' then pbind (after_eq S (bracketed_paths S)) (\<lambda>ps. preturn (args\<lparr>fa_requires := ps\<rparr>))
      else if key = ''labels'' then pbind (after_eq S (bracketed_paths S)) (\<lambda>ps. preturn (args\<lparr>fa_labels := ps\<rparr>))
      else if key = ''scope'' then pbind (after_eq S (sy_ident S)) (\<lambda>scope.
             if unknown_scope scope then pfail (Unknown_scope scope)
             else preturn (args\<lparr>fa_scope := Some scope\<rparr>))
      else if key = ''name'' then pbind (after_eq S (sy_lit_str S)) (\<lambda>v. preturn (args\<lparr>fa_name := Some v\<rparr>))
      else if key = ''deref'' then preturn (args\<lparr>fa_deref := True\<rparr>)
      else if key = ''serial'' then pbind (serial_arg S) (\<lambda>w. preturn (set_fixture_serial w args))
      else pfail (Unknown_argument key))"

definition parse_fixture_args :: "syn \<Rightarrow> tokens \<Rightarrow> (syn_error, fixture_args) result" where
  "parse_fixture_args S = parse_args S (fixture_arg S) fixture_args_default"

section \<open>The list of arguments\<close>

text \<open>
  \<open>arg_list spelled xs seen ts\<close>: the tokens are the written arguments \<open>xs\<close>, with commas between
  them and perhaps one at the end; \<open>spelled x r us\<close> says that before \<open>r\<close> the tokens \<open>us\<close> write \<open>x\<close>.
\<close>

definition separator :: "tokens \<Rightarrow> bool" where
  "separator r \<longleftrightarrow> r = [] \<or> (\<exists>r'. r = T_punct CHR '','' # r')"

inductive arg_list :: "('x \<Rightarrow> str) \<Rightarrow> ('x \<Rightarrow> tokens \<Rightarrow> tokens \<Rightarrow> bool) \<Rightarrow> 'x list \<Rightarrow> tokens \<Rightarrow> bool"
  for key :: "'x \<Rightarrow> str" and spelled :: "'x \<Rightarrow> tokens \<Rightarrow> tokens \<Rightarrow> bool"
where
  last: "spelled x r us \<Longrightarrow> r = [] \<or> r = [T_punct CHR '',''] \<Longrightarrow> arg_list key spelled [x] (T_ident (key x) # us @ r)"
| more: "spelled x (T_punct CHR '','' # r) us \<Longrightarrow> arg_list key spelled xs r
    \<Longrightarrow> arg_list key spelled (x # xs) (T_ident (key x) # us @ T_punct CHR '','' # r)"

inductive_cases arg_list_NilE: "arg_list key spelled [] ts"
inductive_cases arg_list_ConsE: "arg_list key spelled (x # xs) ts"

lemma arg_list_ne: "arg_list key spelled xs ts \<Longrightarrow> ts \<noteq> [] \<and> xs \<noteq> []"
  by (induction rule: arg_list.induct) auto

context syn_crate
begin

lemma args_loop_sound:
  assumes reader: "\<And>k a ts a' r. separator r \<Longrightarrow> arg k a ts = Inr (a', r) \<Longrightarrow> \<exists>x us. key x = k \<and> ts = us @ r \<and> spelled x r us \<and> a' = app x a"
  shows "args_loop S arg n seen a ts = Inr (a', r) \<Longrightarrow> r = [] \<and> (\<exists>xs. arg_list key spelled xs ts \<and> distinct (map key xs)
    \<and> set seen \<inter> set (map key xs) = {} \<and> (\<forall>k \<in> set (map key xs). \<not> reserved k) \<and> a' = fold app xs a)"
proof (induction n arbitrary: seen a ts)
  case (Suc n)
  obtain k ts1 a1 ts2 where k: "ts = T_ident k # ts1" "\<not> reserved k" "k \<notin> set seen" "arg k a ts1 = Inr (a1, ts2)"
    and cont: "(if ts2 = [] then preturn a1 ts2 else pbind (sy_punct S CHR '','') (\<lambda>_ ts.
        if ts = [] then preturn a1 ts else args_loop S arg n (seen @ [k]) a1 ts) ts2) = Inr (a', r)"
    using Suc.prems by (auto simp: pbind_Inr result_bind_Inr ident_iff reject_duplicate_key_def split: if_splits)
  then have "separator ts2" by (auto simp: separator_def pbind_Inr punct_iff split: if_splits)
  from reader [OF this k(4)] obtain x us where x: "key x = k" "ts1 = us @ ts2" "spelled x ts2 us" "a1 = app x a" by blast
  show ?case
  proof (cases "ts2 = [] \<or> ts2 = [T_punct CHR '','']")
    case True
    then have "a' = a1" "r = []" using cont by (auto simp: pbind_Inr punct_iff)
    moreover have "arg_list key spelled [x] ts" using arg_list.last [of spelled x ts2 us key, OF x(3) True] k(1) x by simp
    ultimately show ?thesis using k x by (intro conjI exI [of _ "[x]"]) auto
  next
    case False
    then obtain ts3 where t: "ts2 = T_punct CHR '','' # ts3" "args_loop S arg n (seen @ [k]) a1 ts3 = Inr (a', r)"
      using cont by (auto simp: pbind_Inr punct_iff split: if_splits)
    obtain xs where xs: "r = []" "arg_list key spelled xs ts3" "distinct (map key xs)" "set (seen @ [k]) \<inter> set (map key xs) = {}"
      "\<forall>k \<in> set (map key xs). \<not> reserved k" "a' = fold app xs a1" using Suc.IH [OF t(2)] by blast
    have "arg_list key spelled (x # xs) ts" using arg_list.more [of spelled x ts3 us key xs] xs(2) x t(1) k(1) by simp
    then show ?thesis using xs k x by (intro conjI exI [of _ "x # xs"]) auto
  qed
qed simp

lemma args_loop_complete:
  assumes reader: "\<And>x r us a. separator r \<Longrightarrow> spelled x r us \<Longrightarrow> arg (key x) a (us @ r) = Inr (app x a, r)"
  shows "arg_list key spelled xs ts \<Longrightarrow> distinct (map key xs) \<Longrightarrow> set seen \<inter> set (map key xs) = {} \<Longrightarrow> \<forall>k \<in> set (map key xs). \<not> reserved k
    \<Longrightarrow> length xs \<le> n \<Longrightarrow> args_loop S arg n seen a ts = Inr (fold app xs a, [])"
proof (induction arbitrary: n seen a rule: arg_list.induct)
  case (last x r us)
  then obtain m where m: "n = Suc m" by (cases n) auto
  have i: "sy_ident S (T_ident (key x) # us @ r) = Inr (key x, us @ r)" using last.prems by (simp add: ident_iff)
  have "separator r" using last.hyps(2) by (auto simp: separator_def)
  note a = reader [OF this last.hyps(1)]
  have "sy_punct S CHR '','' [T_punct CHR '',''] = Inr ((), [])" by (simp add: punct_iff)
  then show ?case using last m i a by (auto simp: pbind_def reject_duplicate_key_def preturn_def)
next
  case (more x r us xs)
  then obtain m where m: "n = Suc m" by (cases n) auto
  let ?r = "T_punct CHR '','' # r"
  have i: "sy_ident S (T_ident (key x) # us @ ?r) = Inr (key x, us @ ?r)" using more.prems by (simp add: ident_iff)
  have "separator ?r" by (simp add: separator_def)
  note a = reader [OF this more.hyps(1)]
  have p: "sy_punct S CHR '','' ?r = Inr ((), r)" by (simp add: punct_iff)
  have "args_loop S arg m (seen @ [key x]) (app x a) r = Inr (fold app xs (app x a), [])"
    by (rule more.IH) (use more.prems m in auto)
  then show ?case using more arg_list_ne [OF more.hyps(2)] m i a p by (auto simp: pbind_def reject_duplicate_key_def)
qed

lemma parse_args_iff:
  assumes reader: "\<And>k a ts a' r. separator r \<Longrightarrow> arg k a ts = Inr (a', r) \<longleftrightarrow> (\<exists>x us. key x = k \<and> ts = us @ r \<and> spelled x r us \<and> a' = app x a)"
  shows "parse_args S arg dflt ts = Inr args \<longleftrightarrow> ts = [] \<and> args = dflt
    \<or> (\<exists>xs. arg_list key spelled xs ts \<and> distinct (map key xs) \<and> (\<forall>k \<in> set (map key xs). \<not> reserved k) \<and> args = fold app xs dflt)"
proof (cases "ts = []")
  case True
  then show ?thesis using arg_list_ne [of key spelled _ ts] by (auto simp: parse_args_def)
next
  case False
  have len: "length xs \<le> length ts" if "arg_list key spelled xs ts" for xs using that by (induction rule: arg_list.induct) auto
  have "args_loop S arg (length ts) [] dflt ts = Inr (args, []) \<longleftrightarrow>
    (\<exists>xs. arg_list key spelled xs ts \<and> distinct (map key xs) \<and> (\<forall>k \<in> set (map key xs). \<not> reserved k) \<and> args = fold app xs dflt)"
  proof
    assume "args_loop S arg (length ts) [] dflt ts = Inr (args, [])"
    from args_loop_sound [where key = key and spelled = spelled and app = app, OF _ this] reader
    show "\<exists>xs. arg_list key spelled xs ts \<and> distinct (map key xs) \<and> (\<forall>k \<in> set (map key xs). \<not> reserved k) \<and> args = fold app xs dflt" by blast
  next
    assume "\<exists>xs. arg_list key spelled xs ts \<and> distinct (map key xs) \<and> (\<forall>k \<in> set (map key xs). \<not> reserved k) \<and> args = fold app xs dflt"
    then obtain xs where xs: "arg_list key spelled xs ts" "distinct (map key xs)" "\<forall>k \<in> set (map key xs). \<not> reserved k" "args = fold app xs dflt" by blast
    have "args_loop S arg (length ts) [] dflt ts = Inr (fold app xs dflt, [])"
      by (rule args_loop_complete [where key = key and spelled = spelled]) (use xs reader len in auto)
    then show "args_loop S arg (length ts) [] dflt ts = Inr (args, [])" using xs(4) by simp
  qed
  then show ?thesis using False by (simp add: parse_args_def within_Inr)
qed

text \<open>The values of the arguments.\<close>

lemma after_eq_iff: "after_eq S p ts = Inr (v, r) \<longleftrightarrow> (\<exists>us. ts = T_punct CHR ''='' # us \<and> p us = Inr (v, r))"
  by (auto simp: after_eq_def pbind_Inr punct_iff)

lemma bracketed_paths_iff: "bracketed_paths S ts = Inr (ps, r) \<longleftrightarrow> (\<exists>g. ts = T_group Bracket g # r \<and> sy_paths S g = Inr ps)"
  by (auto simp: bracketed_paths_def pbind_Inr group_iff result_bind_Inr)

lemma separator_ops: "separator r \<Longrightarrow> \<not> next_is [CHR ''|'', CHR ''&''] r" "separator r \<Longrightarrow> \<not> sy_peek S CHR ''='' r"
  by (auto simp: separator_def next_is_def peek_iff)

end

definition lit_spelled :: "(str \<Rightarrow> str option) \<Rightarrow> str \<Rightarrow> tokens \<Rightarrow> bool" where
  "lit_spelled str_value v us \<longleftrightarrow> (\<exists>l. us = [T_punct CHR ''='', T_literal l] \<and> str_value l = Some v)"

definition paths_spelled :: "syn \<Rightarrow> path list \<Rightarrow> tokens \<Rightarrow> bool" where
  "paths_spelled S ps us \<longleftrightarrow> (\<exists>g. us = [T_punct CHR ''='', T_group Bracket g] \<and> sy_paths S g = Inr ps)"

definition optional_spelled :: "(str \<Rightarrow> str option) \<Rightarrow> str option \<Rightarrow> tokens \<Rightarrow> bool" where
  "optional_spelled str_value v us \<longleftrightarrow> (case v of None \<Rightarrow> us = [] | Some s \<Rightarrow> lit_spelled str_value s us)"

definition serial_spelled :: "(str \<Rightarrow> bool) \<Rightarrow> sexp option \<Rightarrow> tokens \<Rightarrow> bool" where
  "serial_spelled reserved v us \<longleftrightarrow> (case v of None \<Rightarrow> us = []
     | Some x \<Rightarrow> sx_or x \<and> us = T_punct CHR ''='' # sx_tokens x \<and> (\<forall>i \<in> set (sx_labels x). \<not> reserved i))"

definition serial_value :: "sexp option \<Rightarrow> str \<times> str list option" where
  "serial_value v = (case v of None \<Rightarrow> (''*'', None) | Some x \<Rightarrow> (sx_text x, Some (sx_labels x)))"

context syn_crate
begin

lemma lit_iff: "after_eq S (sy_lit_str S) ts = Inr (v, r) \<longleftrightarrow> (\<exists>us. ts = us @ r \<and> lit_spelled str_value v us)"
  by (auto simp: after_eq_iff lit_str_iff lit_spelled_def)

lemma paths_iff: "after_eq S (bracketed_paths S) ts = Inr (ps, r) \<longleftrightarrow> (\<exists>us. ts = us @ r \<and> paths_spelled S ps us)"
  by (auto simp: after_eq_iff bracketed_paths_iff paths_spelled_def)

lemma optional_iff:
  assumes "separator r"
  shows "optional_lit S ts = Inr (v, r) \<longleftrightarrow> (\<exists>us. ts = us @ r \<and> optional_spelled str_value v us)"
proof (cases "sy_peek S CHR ''='' ts")
  case True
  have "ts \<noteq> r" using True separator_ops(2) [OF assms] by auto
  then show ?thesis using True by (auto simp: optional_lit_def pbind_Inr lit_iff optional_spelled_def split: option.splits)
next
  case False
  then have "\<not> (\<exists>us s. ts = us @ r \<and> lit_spelled str_value s us)" by (auto simp: peek_iff lit_spelled_def)
  then show ?thesis using False by (auto simp: optional_lit_def optional_spelled_def split: option.splits)
qed

lemma serial_iff:
  assumes "separator r"
  shows "serial_arg S ts = Inr (w, r) \<longleftrightarrow> (\<exists>v us. ts = us @ r \<and> serial_spelled reserved v us \<and> w = serial_value v)"
proof (cases "sy_peek S CHR ''='' ts")
  case True
  have "ts \<noteq> r" using True separator_ops(2) [OF assms] by auto
  then have "(\<exists>v us. ts = us @ r \<and> serial_spelled reserved v us \<and> w = serial_value v) \<longleftrightarrow>
    (\<exists>x. ts = T_punct CHR ''='' # sx_tokens x @ r \<and> sx_or x \<and> (\<forall>i \<in> set (sx_labels x). \<not> reserved i) \<and> w = (sx_text x, Some (sx_labels x)))"
    by (auto simp: serial_spelled_def serial_value_def split: option.splits)
  moreover have "serial_arg S ts = Inr (w, r) \<longleftrightarrow>
    (\<exists>x. ts = T_punct CHR ''='' # sx_tokens x @ r \<and> sx_or x \<and> (\<forall>i \<in> set (sx_labels x). \<not> reserved i) \<and> w = (sx_text x, Some (sx_labels x)))"
    using True separator_ops(1) [OF assms] by (auto simp: serial_arg_def pbind_Inr after_eq_iff parse_serial_expr_iff)
  ultimately show ?thesis by simp
next
  case False
  then have "\<not> (\<exists>x us. ts = us @ r \<and> serial_spelled reserved (Some x) us)" by (auto simp: peek_iff serial_spelled_def)
  then show ?thesis using False by (auto simp: serial_arg_def serial_spelled_def serial_value_def split: option.splits)
qed

end

section \<open>What an argument list says\<close>

datatype test_item =
    TI_requires "path list" | TI_name str | TI_labels "path list" | TI_ignore "str option" | TI_serial "sexp option"
  | TI_runtime path | TI_should_panic "str option"

fun test_item_key :: "test_item \<Rightarrow> str" where
  "test_item_key (TI_requires _) = ''requires''"
| "test_item_key (TI_name _) = ''name''"
| "test_item_key (TI_labels _) = ''labels''"
| "test_item_key (TI_ignore _) = ''ignore''"
| "test_item_key (TI_serial _) = ''serial''"
| "test_item_key (TI_runtime _) = ''runtime''"
| "test_item_key (TI_should_panic _) = ''should_panic''"

fun test_item_set :: "test_item \<Rightarrow> test_args \<Rightarrow> test_args" where
  "test_item_set (TI_requires ps) a = a\<lparr>ta_requires := ps\<rparr>"
| "test_item_set (TI_name v) a = a\<lparr>ta_name := Some v\<rparr>"
| "test_item_set (TI_labels ps) a = a\<lparr>ta_labels := Some ps\<rparr>"
| "test_item_set (TI_ignore v) a = a\<lparr>ta_ignore := (case v of Some s \<Rightarrow> Ignore_arg_reason s | None \<Rightarrow> Ignore_arg_yes)\<rparr>"
| "test_item_set (TI_serial None) a = a\<lparr>ta_serial := Some ''*''\<rparr>"
| "test_item_set (TI_serial (Some x)) a = a\<lparr>ta_serial := Some (sx_text x), ta_serial_labels := sx_labels x\<rparr>"
| "test_item_set (TI_runtime p) a = a\<lparr>ta_runtime := Some p\<rparr>"
| "test_item_set (TI_should_panic v) a = a\<lparr>ta_should_panic := (case v of Some s \<Rightarrow> Should_panic_arg_message s | None \<Rightarrow> Should_panic_arg_yes)\<rparr>"

fun test_item_spelled :: "syn \<Rightarrow> (str \<Rightarrow> bool) \<Rightarrow> (str \<Rightarrow> str option) \<Rightarrow> test_item \<Rightarrow> tokens \<Rightarrow> tokens \<Rightarrow> bool" where
  "test_item_spelled S rs sv (TI_requires ps) r us = paths_spelled S ps us"
| "test_item_spelled S rs sv (TI_name v) r us = lit_spelled sv v us"
| "test_item_spelled S rs sv (TI_labels ps) r us = paths_spelled S ps us"
| "test_item_spelled S rs sv (TI_ignore v) r us = optional_spelled sv v us"
| "test_item_spelled S rs sv (TI_serial v) r us = serial_spelled rs v us"
| "test_item_spelled S rs sv (TI_runtime p) r us = (\<exists>u. us = T_punct CHR ''='' # u \<and> sy_path S (u @ r) = Inr (p, r))"
| "test_item_spelled S rs sv (TI_should_panic v) r us = optional_spelled sv v us"

lemma test_item_key_eq:
  "test_item_key x = ''requires'' \<longleftrightarrow> (\<exists>v. x = TI_requires v)"
  "test_item_key x = ''name'' \<longleftrightarrow> (\<exists>v. x = TI_name v)"
  "test_item_key x = ''labels'' \<longleftrightarrow> (\<exists>v. x = TI_labels v)"
  "test_item_key x = ''ignore'' \<longleftrightarrow> (\<exists>v. x = TI_ignore v)"
  "test_item_key x = ''serial'' \<longleftrightarrow> (\<exists>v. x = TI_serial v)"
  "test_item_key x = ''runtime'' \<longleftrightarrow> (\<exists>v. x = TI_runtime v)"
  "test_item_key x = ''should_panic'' \<longleftrightarrow> (\<exists>v. x = TI_should_panic v)"
  by (cases x; simp)+

lemma test_item_key_cases:
  "test_item_key x \<in> {''requires'', ''name'', ''labels'', ''ignore'', ''serial'', ''runtime'', ''should_panic''}"
  by (cases x) simp_all

lemma serial_set: "test_item_set (TI_serial v) a = set_test_serial (serial_value v) a"
  by (cases v) (auto simp: serial_value_def set_test_serial_def)

context syn_crate
begin

lemma path_iff: "after_eq S (sy_path S) ts = Inr (p, r) \<longleftrightarrow> (\<exists>us u. ts = us @ r \<and> us = T_punct CHR ''='' # u \<and> sy_path S (u @ r) = Inr (p, r))"
  using path_consumes by (fastforce simp: after_eq_iff)

lemma test_arg_iff:
  assumes "separator r"
  shows "test_arg S k a ts = Inr (a', r) \<longleftrightarrow>
    (\<exists>x us. test_item_key x = k \<and> ts = us @ r \<and> test_item_spelled S reserved str_value x r us \<and> a' = test_item_set x a)"
proof -
  consider "k = ''requires''" | "k = ''name''" | "k = ''labels''" | "k = ''ignore''" | "k = ''serial''" | "k = ''runtime''" | "k = ''should_panic''"
    | "k \<notin> {''requires'', ''name'', ''labels'', ''ignore'', ''serial'', ''runtime'', ''should_panic''}" by (simp only: insert_iff empty_iff) argo
  then show ?thesis
  proof cases
    case 1
    show ?thesis unfolding 1 test_item_key_eq by (auto simp: test_arg_def pbind_Inr paths_iff)
  next
    case 2
    show ?thesis unfolding 2 test_item_key_eq by (auto simp: test_arg_def pbind_Inr lit_iff)
  next
    case 3
    show ?thesis unfolding 3 test_item_key_eq by (auto simp: test_arg_def pbind_Inr paths_iff)
  next
    case 4
    show ?thesis unfolding 4 test_item_key_eq by (auto simp: test_arg_def pbind_Inr optional_iff [OF assms])
  next
    case 5
    show ?thesis unfolding 5 test_item_key_eq
      by (auto simp: test_arg_def pbind_Inr serial_iff [OF assms] serial_set simp del: test_item_set.simps(5,6)) (metis prod.collapse)
  next
    case 6
    show ?thesis unfolding 6 test_item_key_eq by (auto simp: test_arg_def pbind_Inr path_iff)
  next
    case 7
    show ?thesis unfolding 7 test_item_key_eq by (auto simp: test_arg_def pbind_Inr optional_iff [OF assms])
  next
    case 8
    then show ?thesis using test_item_key_cases by (auto simp: test_arg_def)
  qed
qed

end

datatype fixture_item =
    FI_requires "path list" | FI_labels "path list" | FI_scope str | FI_name str | FI_deref | FI_serial "sexp option"

fun fixture_item_key :: "fixture_item \<Rightarrow> str" where
  "fixture_item_key (FI_requires _) = ''requires''"
| "fixture_item_key (FI_labels _) = ''labels''"
| "fixture_item_key (FI_scope _) = ''scope''"
| "fixture_item_key (FI_name _) = ''name''"
| "fixture_item_key FI_deref = ''deref''"
| "fixture_item_key (FI_serial _) = ''serial''"

fun fixture_item_set :: "fixture_item \<Rightarrow> fixture_args \<Rightarrow> fixture_args" where
  "fixture_item_set (FI_requires ps) a = a\<lparr>fa_requires := ps\<rparr>"
| "fixture_item_set (FI_labels ps) a = a\<lparr>fa_labels := ps\<rparr>"
| "fixture_item_set (FI_scope s) a = a\<lparr>fa_scope := Some s\<rparr>"
| "fixture_item_set (FI_name v) a = a\<lparr>fa_name := Some v\<rparr>"
| "fixture_item_set FI_deref a = a\<lparr>fa_deref := True\<rparr>"
| "fixture_item_set (FI_serial None) a = a\<lparr>fa_serial := Some ''*''\<rparr>"
| "fixture_item_set (FI_serial (Some x)) a = a\<lparr>fa_serial := Some (sx_text x), fa_serial_labels := sx_labels x\<rparr>"

fun fixture_item_spelled :: "syn \<Rightarrow> (str \<Rightarrow> bool) \<Rightarrow> (str \<Rightarrow> str option) \<Rightarrow> fixture_item \<Rightarrow> tokens \<Rightarrow> tokens \<Rightarrow> bool" where
  "fixture_item_spelled S rs sv (FI_requires ps) r us = paths_spelled S ps us"
| "fixture_item_spelled S rs sv (FI_labels ps) r us = paths_spelled S ps us"
| "fixture_item_spelled S rs sv (FI_scope s) r us =
     (us = [T_punct CHR ''='', T_ident s] \<and> \<not> rs s \<and> \<not> unknown_scope s)"
| "fixture_item_spelled S rs sv (FI_name v) r us = lit_spelled sv v us"
| "fixture_item_spelled S rs sv FI_deref r us = (us = [])"
| "fixture_item_spelled S rs sv (FI_serial v) r us = serial_spelled rs v us"

lemma fixture_item_key_eq:
  "fixture_item_key x = ''requires'' \<longleftrightarrow> (\<exists>v. x = FI_requires v)"
  "fixture_item_key x = ''labels'' \<longleftrightarrow> (\<exists>v. x = FI_labels v)"
  "fixture_item_key x = ''scope'' \<longleftrightarrow> (\<exists>v. x = FI_scope v)"
  "fixture_item_key x = ''name'' \<longleftrightarrow> (\<exists>v. x = FI_name v)"
  "fixture_item_key x = ''deref'' \<longleftrightarrow> x = FI_deref"
  "fixture_item_key x = ''serial'' \<longleftrightarrow> (\<exists>v. x = FI_serial v)"
  by (cases x; simp)+

lemma fixture_item_key_cases:
  "fixture_item_key x \<in> {''requires'', ''labels'', ''scope'', ''name'', ''deref'', ''serial''}"
  by (cases x) simp_all

lemma fixture_serial_set: "fixture_item_set (FI_serial v) a = set_fixture_serial (serial_value v) a"
  by (cases v) (auto simp: serial_value_def set_fixture_serial_def)

context syn_crate
begin

lemma scope_iff: "after_eq S (sy_ident S) ts = Inr (i, r) \<longleftrightarrow> ts = [T_punct CHR ''='', T_ident i] @ r \<and> \<not> reserved i"
  by (auto simp: after_eq_iff ident_iff)

lemma fixture_arg_iff:
  assumes "separator r"
  shows "fixture_arg S k a ts = Inr (a', r) \<longleftrightarrow>
    (\<exists>x us. fixture_item_key x = k \<and> ts = us @ r \<and> fixture_item_spelled S reserved str_value x r us \<and> a' = fixture_item_set x a)"
proof -
  consider "k = ''requires''" | "k = ''labels''" | "k = ''scope''" | "k = ''name''" | "k = ''deref''" | "k = ''serial''"
    | "k \<notin> {''requires'', ''labels'', ''scope'', ''name'', ''deref'', ''serial''}" by (simp only: insert_iff empty_iff) argo
  then show ?thesis
  proof cases
    case 1
    show ?thesis unfolding 1 fixture_item_key_eq by (auto simp: fixture_arg_def pbind_Inr paths_iff)
  next
    case 2
    show ?thesis unfolding 2 fixture_item_key_eq by (auto simp: fixture_arg_def pbind_Inr paths_iff)
  next
    case 3
    show ?thesis unfolding 3 fixture_item_key_eq by (auto simp: fixture_arg_def pbind_Inr scope_iff split: if_splits)
  next
    case 4
    show ?thesis unfolding 4 fixture_item_key_eq by (auto simp: fixture_arg_def pbind_Inr lit_iff)
  next
    case 5
    show ?thesis unfolding 5 fixture_item_key_eq by (auto simp: fixture_arg_def)
  next
    case 6
    show ?thesis unfolding 6 fixture_item_key_eq
      by (auto simp: fixture_arg_def pbind_Inr serial_iff [OF assms] fixture_serial_set simp del: fixture_item_set.simps(6,7)) (metis prod.collapse)
  next
    case 7
    then show ?thesis using fixture_item_key_cases by (auto simp: fixture_arg_def)
  qed
qed

lemma parse_test_args_iff:
  "parse_test_args S ts = Inr args \<longleftrightarrow> ts = [] \<and> args = test_args_default
      \<or> (\<exists>xs. arg_list test_item_key (test_item_spelled S reserved str_value) xs ts \<and> distinct (map test_item_key xs)
            \<and> (\<forall>k \<in> set (map test_item_key xs). \<not> reserved k) \<and> args = fold test_item_set xs test_args_default)"
  unfolding parse_test_args_def by (rule parse_args_iff) (rule test_arg_iff)

lemma parse_fixture_args_iff:
  "parse_fixture_args S ts = Inr args \<longleftrightarrow> ts = [] \<and> args = fixture_args_default
      \<or> (\<exists>xs. arg_list fixture_item_key (fixture_item_spelled S reserved str_value) xs ts \<and> distinct (map fixture_item_key xs)
            \<and> (\<forall>k \<in> set (map fixture_item_key xs). \<not> reserved k) \<and> args = fold fixture_item_set xs fixture_args_default)"
  unfolding parse_fixture_args_def by (rule parse_args_iff) (rule fixture_arg_iff)

end

section \<open>Property\<close>

text \<open>
  C21: the macros read exactly the argument lists they document.  The arguments of
  \<open>#[skuld::test]\<close> and of \<open>#[skuld::fixture]\<close> are accepted exactly when they are a list of known
  arguments, none given twice, each with a value of its kind, separated by commas with an optional
  one at the end; the result has the value of each argument given and the default of the others.
\<close>

theorem macro_args_exact:
  assumes "syn_crate S reserved str_value"
  shows "(parse_test_args S ts = Inr args \<longleftrightarrow> ts = [] \<and> args = test_args_default
      \<or> (\<exists>xs. arg_list test_item_key (test_item_spelled S reserved str_value) xs ts \<and> distinct (map test_item_key xs)
            \<and> (\<forall>k \<in> set (map test_item_key xs). \<not> reserved k) \<and> args = fold test_item_set xs test_args_default))
    \<and> (parse_fixture_args S ts = Inr fargs \<longleftrightarrow> ts = [] \<and> fargs = fixture_args_default
      \<or> (\<exists>xs. arg_list fixture_item_key (fixture_item_spelled S reserved str_value) xs ts \<and> distinct (map fixture_item_key xs)
            \<and> (\<forall>k \<in> set (map fixture_item_key xs). \<not> reserved k) \<and> fargs = fold fixture_item_set xs fixture_args_default))"
  by (intro conjI syn_crate.parse_test_args_iff [OF assms] syn_crate.parse_fixture_args_iff [OF assms])

definition demo_test_items :: "test_item list" where
  "demo_test_items = [TI_name ''n'', TI_serial (Some (S_label ''DB'')), TI_ignore None, TI_labels [[T_ident ''SLOW'']]]"

definition demo_test_tokens :: tokens where
  "demo_test_tokens = [T_ident ''name'', T_punct CHR ''='', T_literal [CHR 0x22, CHR ''n'', CHR 0x22], T_punct CHR '','',
     T_ident ''serial'', T_punct CHR ''='', T_ident ''DB'', T_punct CHR '','', T_ident ''ignore'', T_punct CHR '','',
     T_ident ''labels'', T_punct CHR ''='', T_group Bracket [T_ident ''SLOW''], T_punct CHR '','']"

lemma demo_test_spelled: "arg_list test_item_key (test_item_spelled ref_syn ref_reserved ref_str_value) demo_test_items demo_test_tokens"
proof -
  let ?L = "arg_list test_item_key (test_item_spelled ref_syn ref_reserved ref_str_value)"
  let ?c = "T_punct CHR '','' :: token_tree"
  have 1: "?L [TI_labels [[T_ident ''SLOW'']]] (T_ident ''labels'' # [T_punct CHR ''='', T_group Bracket [T_ident ''SLOW'']] @ [?c])"
    using arg_list.last [where x = "TI_labels [[T_ident ''SLOW'']]" and key = test_item_key and r = "[?c]"
      and us = "[T_punct CHR ''='', T_group Bracket [T_ident ''SLOW'']]"] by (simp add: paths_spelled_def ref_syn_def)
  note 2 = arg_list.more [where x = "TI_ignore None" and us = "[]", OF _ 1]
  note 3 = arg_list.more [where x = "TI_serial (Some (S_label ''DB''))" and us = "[T_punct CHR ''='', T_ident ''DB'']", OF _ 2]
  note 4 = arg_list.more [where x = "TI_name ''n''" and us = "[T_punct CHR ''='', T_literal [CHR 0x22, CHR ''n'', CHR 0x22]]", OF _ 3]
  show ?thesis using 4
    by (simp add: demo_test_items_def demo_test_tokens_def optional_spelled_def serial_spelled_def lit_spelled_def ref_reserved_def ref_str_value_def)
qed

theorem macro_args_exact_witness:
  "parse_test_args ref_syn demo_test_tokens = Inr (fold test_item_set demo_test_items test_args_default)"
proof (rule macro_args_exact [OF refsyn.syn_crate_axioms, THEN conjunct1, THEN iffD2], intro disjI2 exI conjI)
  show "arg_list test_item_key (test_item_spelled ref_syn ref_reserved ref_str_value) demo_test_items demo_test_tokens"
    by (rule demo_test_spelled)
qed (simp_all add: demo_test_items_def ref_reserved_def)

end
