(* ===== verification/Macro_Expand.thy ===== *)
theory Macro_Expand
  imports Macro_Args Test_Def
begin

text \<open>
  What \<open>#[skuld::test]\<close> and \<open>#[skuld::fixture]\<close> expand to (\<open>macros/src/lib.rs\<close>): outer attributes are
  merged into the arguments, \<open>#[fixture]\<close> parameters are collected, and a definition is submitted to
  the inventory next to the rewritten function.  The expansion is the record of its parts; the paths
  in it are resolved by the compiler, through the parameter \<open>crate_env\<close>, into the labels and checks
  of the submitted \<open>TestDef\<close> or \<open>FixtureDef\<close>.  What the generated body does when it runs is
  modelled in \<open>Fixture_Life\<close>.
\<close>

record crate_env =
  ce_module :: str
  ce_label :: "path \<Rightarrow> label"
  ce_check :: "path \<Rightarrow> (str, unit) result"

datatype block_stmt =
    Source_stmt tokens
  | Inject_fixture nat str rust_type pat rust_type   \<comment> \<open>handle, fixture, its type, the binding and its type\<close>

record item_fn =
  fn_attrs :: "attribute list"
  fn_ident :: str
  fn_async :: bool
  fn_inputs :: "fn_arg list"
  fn_output :: return_type
  fn_block :: "block_stmt list"

definition is_ident :: "attribute \<Rightarrow> str \<Rightarrow> bool" where
  "is_ident a s \<longleftrightarrow> at_path a = [s]"

section \<open>Outer attributes\<close>

definition absorb_ignore_attr :: "attribute \<Rightarrow> (syn_error, ignore_arg) result" where
  "absorb_ignore_attr attr = (case at_meta attr of
       Meta_path \<Rightarrow> Inr Ignore_arg_yes
     | Meta_name_value (Lit_str s) \<Rightarrow> Inr (Ignore_arg_reason s)
     | Meta_name_value _ \<Rightarrow> Inl (Attribute_error ''#[ignore = ...] expects a string literal'')
     | Meta_list _ \<Rightarrow> Inl (Attribute_error ''expected #[ignore] or #[ignore = reason]''))"

definition parse_should_panic_expected :: "syn \<Rightarrow> str parse" where
  "parse_should_panic_expected S = pbind (sy_ident S) (\<lambda>key.
     if key \<noteq> ''expected'' then pfail (Expected_expected key) else after_eq S (sy_lit_str S))"

definition absorb_should_panic_attr :: "syn \<Rightarrow> attribute \<Rightarrow> (syn_error, should_panic_arg) result" where
  "absorb_should_panic_attr S attr = (case at_meta attr of
       Meta_path \<Rightarrow> Inr Should_panic_arg_yes
     | Meta_list list \<Rightarrow> result_bind (within (parse_should_panic_expected S) list) (\<lambda>v. Inr (Should_panic_arg_message v))
     | Meta_name_value _ \<Rightarrow> Inl (Attribute_error ''expected #[should_panic] or #[should_panic(expected = message)]''))"

fun outer_attributes :: "attribute list \<Rightarrow> attribute option \<Rightarrow> attribute option
    \<Rightarrow> (syn_error, attribute option \<times> attribute option) result" where
  "outer_attributes [] ig sp = Inr (ig, sp)"
| "outer_attributes (a # rest) ig sp =
     (if is_ident a ''test'' then Inl (Compile_error ''remove #[test]'')
      else if is_ident a ''ignore'' then
        (if ig \<noteq> None then Inl (Compile_error ''duplicate #[ignore] attribute'') else outer_attributes rest (Some a) sp)
      else if is_ident a ''should_panic'' then
        (if sp \<noteq> None then Inl (Compile_error ''duplicate #[should_panic] attribute'') else outer_attributes rest ig (Some a))
      else outer_attributes rest ig sp)"

definition merge_ignore :: "test_args \<Rightarrow> attribute option \<Rightarrow> (syn_error, test_args) result" where
  "merge_ignore args outer = (case outer of
       None \<Rightarrow> Inr args
     | Some attr \<Rightarrow> if ta_ignore args \<noteq> Ignore_arg_no then Inl (Compile_error ''conflicting ignore'')
         else result_bind (absorb_ignore_attr attr) (\<lambda>v. Inr (args\<lparr>ta_ignore := v\<rparr>)))"

definition merge_should_panic :: "syn \<Rightarrow> test_args \<Rightarrow> attribute option \<Rightarrow> (syn_error, test_args) result" where
  "merge_should_panic S args outer = (case outer of
       None \<Rightarrow> Inr args
     | Some attr \<Rightarrow> if ta_should_panic args \<noteq> Should_panic_arg_no then Inl (Compile_error ''conflicting should_panic'')
         else result_bind (absorb_should_panic_attr S attr) (\<lambda>v. Inr (args\<lparr>ta_should_panic := v\<rparr>)))"

section \<open>Fixture parameters\<close>

record fixture_param =
  fp_binding :: pat
  fp_fixture_name :: str
  fp_target_ty :: rust_type
  fp_param_ty :: rust_type

fun strip_reference :: "rust_type \<Rightarrow> rust_type" where
  "strip_reference (Ty_reference t) = t"
| "strip_reference t = t"

fun binding_to_name :: "pat \<Rightarrow> (syn_error, str) result" where
  "binding_to_name (Pat_ident i) = Inr i"
| "binding_to_name (Pat_other _) = Inl (Macro_panic ''#[fixture] parameter must be a simple identifier binding'')"

definition find_fixture_attr :: "attribute list \<Rightarrow> (syn_error, attribute option) result" where
  "find_fixture_attr attrs = (case filter (\<lambda>a. is_ident a ''fixture'') attrs of
       [] \<Rightarrow> Inr None
     | [a] \<Rightarrow> Inr (Some a)
     | _ \<Rightarrow> Inl (Attribute_error ''duplicate #[fixture] attribute''))"

definition parse_fixture_name_arg :: "syn \<Rightarrow> attribute \<Rightarrow> (syn_error, str option) result" where
  "parse_fixture_name_arg S attr = (case at_meta attr of
       Meta_path \<Rightarrow> Inr None
     | Meta_list list \<Rightarrow> result_bind (within (sy_ident S) list) (\<lambda>i. Inr (Some i))
     | Meta_name_value _ \<Rightarrow> Inl (Attribute_error ''expected #[fixture] or #[fixture(name)]''))"

definition parse_fixture_param :: "syn \<Rightarrow> attribute \<Rightarrow> pat \<Rightarrow> rust_type \<Rightarrow> (syn_error, fixture_param) result" where
  "parse_fixture_param S attr binding param_ty =
     result_bind (parse_fixture_name_arg S attr) (\<lambda>arg.
     result_bind (case arg of Some nm \<Rightarrow> Inr nm | None \<Rightarrow> binding_to_name binding) (\<lambda>fixture_name.
       Inr \<lparr>fp_binding = binding, fp_fixture_name = fixture_name, fp_target_ty = strip_reference param_ty, fp_param_ty = param_ty\<rparr>))"

text \<open>Each parameter with the fixture it asks for, if it does.\<close>

definition fixture_param_of :: "syn \<Rightarrow> fn_arg \<Rightarrow> (syn_error, fixture_param option) result" where
  "fixture_param_of S param = (case param of
       Receiver \<Rightarrow> Inr None
     | Typed attrs binding ty \<Rightarrow> result_bind (find_fixture_attr attrs) (\<lambda>found. case found of
           None \<Rightarrow> Inr None
         | Some attr \<Rightarrow> result_bind (parse_fixture_param S attr binding ty) (\<lambda>p. Inr (Some p))))"

fun collect_params :: "syn \<Rightarrow> fn_arg list \<Rightarrow> (syn_error, (fixture_param option \<times> fn_arg) list) result" where
  "collect_params S [] = Inr []"
| "collect_params S (a # rest) = result_bind (fixture_param_of S a) (\<lambda>p.
     result_bind (collect_params S rest) (\<lambda>ps. Inr ((p, a) # ps)))"

definition fixture_params :: "(fixture_param option \<times> fn_arg) list \<Rightarrow> fixture_param list" where
  "fixture_params ps = List.map_filter fst ps"

fun clean_param :: "fixture_param option \<times> fn_arg \<Rightarrow> fn_arg" where
  "clean_param (Some _, Typed attrs p ty) = Typed (filter (\<lambda>a. \<not> is_ident a ''fixture'') attrs) p ty"
| "clean_param (_, a) = a"

section \<open>\<open>#[skuld::test]\<close>\<close>

datatype runtime = Default_runtime | Runtime_with path

record test_body_plan =
  bp_runtime :: "runtime option"                     \<comment> \<open>of an \<open>async fn\<close>\<close>
  bp_gets :: "(str \<times> rust_type) list"
  bp_call_args :: "pat list"
  bp_should_panic :: should_panic_arg

record test_expansion =
  tx_fn :: item_fn
  tx_label_checks :: "str list"
  tx_def :: test_def
  tx_body :: test_body_plan

fun ignore_expr :: "ignore_arg \<Rightarrow> ignore" where
  "ignore_expr Ignore_arg_no = Ignore_No"
| "ignore_expr Ignore_arg_yes = Ignore_Yes"
| "ignore_expr (Ignore_arg_reason r) = Ignore_WithReason r"

fun should_panic_expr :: "should_panic_arg \<Rightarrow> should_panic" where
  "should_panic_expr Should_panic_arg_no = Panic_No"
| "should_panic_expr Should_panic_arg_yes = Panic_Yes"
| "should_panic_expr (Should_panic_arg_message m) = Panic_WithMessage m"

definition req_exprs :: "syn \<Rightarrow> crate_env \<Rightarrow> path list \<Rightarrow> requirement list" where
  "req_exprs S env paths = map (\<lambda>p. \<lparr>req_name = sy_to_string S p, req_check = ce_check env p\<rparr>) paths"

definition format_idents :: "syn \<Rightarrow> str list \<Rightarrow> (syn_error, unit) result" where
  "format_idents S names = (if list_all (sy_valid_ident S) names then Inr () else Inl (Macro_panic ''not a valid identifier''))"

definition serial_str :: "str option \<Rightarrow> str" where
  "serial_str s = (case s of None \<Rightarrow> '''' | Some s \<Rightarrow> s)"

definition test_expansion_of :: "syn \<Rightarrow> crate_env \<Rightarrow> test_args \<Rightarrow> item_fn \<Rightarrow> (fixture_param option \<times> fn_arg) list \<Rightarrow> test_expansion" where
  "test_expansion_of S env args func params =
     (let fixture_ps = fixture_params params in
      \<lparr>tx_fn = func\<lparr>fn_attrs := filter (\<lambda>a. \<not> is_ident a ''ignore'' \<and> \<not> is_ident a ''should_panic'') (fn_attrs func),
         fn_inputs := map clean_param params\<rparr>,
       tx_label_checks = ta_serial_labels args,
       tx_def = \<lparr>td_name = fn_ident func, td_module = ce_module env, td_display_name = ta_name args,
         td_requires = req_exprs S env (ta_requires args), td_fixture_names = map fp_fixture_name fixture_ps,
         td_ignore = ignore_expr (ta_ignore args),
         td_labels = map (ce_label env) (case ta_labels args of Some ps \<Rightarrow> ps | None \<Rightarrow> []),
         td_labels_explicit = (ta_labels args \<noteq> None), td_serial = serial_str (ta_serial args),
         td_should_panic = should_panic_expr (ta_should_panic args)\<rparr>,
       tx_body = \<lparr>bp_runtime = (if fn_async func then Some (case ta_runtime args of Some b \<Rightarrow> Runtime_with b | None \<Rightarrow> Default_runtime) else None),
         bp_gets = map (\<lambda>p. (fp_fixture_name p, fp_target_ty p)) fixture_ps,
         bp_call_args = map fp_binding fixture_ps, bp_should_panic = ta_should_panic args\<rparr>\<rparr>)"

definition finish_test_def :: "syn \<Rightarrow> crate_env \<Rightarrow> test_args \<Rightarrow> item_fn \<Rightarrow> (syn_error, test_expansion) result" where
  "finish_test_def S env args func =
     result_bind (collect_params S (fn_inputs func)) (\<lambda>params.
     result_bind (format_idents S (map fp_fixture_name (fixture_params params))) (\<lambda>_.
       if ta_runtime args \<noteq> None \<and> \<not> fn_async func then Inl (Compile_error ''runtime is only valid on an async fn'')
       else Inr (test_expansion_of S env args func params)))"

definition expand_test_def :: "syn \<Rightarrow> crate_env \<Rightarrow> test_args \<Rightarrow> item_fn \<Rightarrow> (syn_error, test_expansion) result" where
  "expand_test_def S env args func =
     result_bind (outer_attributes (fn_attrs func) None None) (\<lambda>(outer_ignore, outer_should_panic).
     result_bind (merge_ignore args outer_ignore) (\<lambda>args.
     result_bind (merge_should_panic S args outer_should_panic) (\<lambda>args. finish_test_def S env args func)))"

definition test_macro :: "syn \<Rightarrow> crate_env \<Rightarrow> tokens \<Rightarrow> item_fn \<Rightarrow> (syn_error, test_expansion) result" where
  "test_macro S env attr func = result_bind (parse_test_args S attr) (\<lambda>args. expand_test_def S env args func)"

section \<open>\<open>#[skuld::fixture]\<close>\<close>

record fixture_expansion =
  fxp_fn :: item_fn
  fxp_anchor :: "str option"
  fxp_label_checks :: "str list"
  fxp_def :: fixture_def
  fxp_deref :: bool
  fxp_type :: rust_type

definition extract_result_ok_type :: "return_type \<Rightarrow> rust_type option" where
  "extract_result_ok_type ret = (case ret of
       Ret_type (Ty_path segs) \<Rightarrow> (if segs = [] then None else case last segs of
           Segment i (Args_angle (Ga_type ok # _)) \<Rightarrow> if i = ''Result'' then Some ok else None
         | _ \<Rightarrow> None)
     | _ \<Rightarrow> None)"

definition scope_expr :: "str option \<Rightarrow> (syn_error, fixture_scope) result" where
  "scope_expr scope = (case scope of
       None \<Rightarrow> Inr Variable
     | Some s \<Rightarrow> if s = ''variable'' then Inr Variable else if s = ''test'' then Inr Test
         else if s = ''process'' then Inr Process else Inl (Macro_panic ''unreachable''))"

definition dep_setup :: "fixture_param list \<Rightarrow> block_stmt list" where
  "dep_setup deps = map (\<lambda>(i, p). Inject_fixture i (fp_fixture_name p) (fp_target_ty p) (fp_binding p) (fp_param_ty p))
     (List.enumerate 0 deps)"

definition fixture_expansion_of ::
    "syn \<Rightarrow> crate_env \<Rightarrow> fixture_args \<Rightarrow> item_fn \<Rightarrow> fixture_scope \<Rightarrow> rust_type \<Rightarrow> (fixture_param option \<times> fn_arg) list \<Rightarrow> fixture_expansion" where
  "fixture_expansion_of S env args func scope ty params =
     (let deps = fixture_params params; fixture_name = (case fa_name args of Some n \<Rightarrow> n | None \<Rightarrow> fn_ident func) in
      \<lparr>fxp_fn = func\<lparr>fn_inputs := map snd (filter (\<lambda>p. fst p = None) params), fn_block := dep_setup deps @ fn_block func\<rparr>,
       fxp_anchor = map_option (\<lambda>_. fixture_name) (fa_name args), fxp_label_checks = fa_serial_labels args,
       fxp_def = \<lparr>fx_name = fixture_name, fx_scope = scope, fx_requires = req_exprs S env (fa_requires args),
         fx_deps = map fp_fixture_name deps, fx_labels = map (ce_label env) (fa_labels args),
         fx_type_name = sy_type_to_string S ty, fx_serial = serial_str (fa_serial args)\<rparr>,
       fxp_deref = fa_deref args, fxp_type = ty\<rparr>)"

definition expand_fixture_def :: "syn \<Rightarrow> crate_env \<Rightarrow> fixture_args \<Rightarrow> item_fn \<Rightarrow> (syn_error, fixture_expansion) result" where
  "expand_fixture_def S env args func =
     result_bind (scope_expr (fa_scope args)) (\<lambda>scope.
     case extract_result_ok_type (fn_output func) of
       None \<Rightarrow> Inl (Compile_error ''fixture function must return Result<T, String>'')
     | Some ty \<Rightarrow> result_bind (collect_params S (fn_inputs func)) (\<lambda>params.
         result_bind (format_idents S (map fp_fixture_name (fixture_params params))) (\<lambda>_.
         result_bind (format_idents S (case fa_name args of Some n \<Rightarrow> [n] | None \<Rightarrow> [])) (\<lambda>_.
           Inr (fixture_expansion_of S env args func scope ty params)))))"

definition fixture_macro :: "syn \<Rightarrow> crate_env \<Rightarrow> tokens \<Rightarrow> item_fn \<Rightarrow> (syn_error, fixture_expansion) result" where
  "fixture_macro S env attr func = result_bind (parse_fixture_args S attr) (\<lambda>args. expand_fixture_def S env args func)"

end
