(* ===== verification/Macro_Props.thy ===== *)
theory Macro_Props
  imports Macro_Expand
begin

text \<open>
  Properties of the attribute macros: when they accept, what they submit, that an outer attribute is
  the argument of the same name, and that a test's serial text is one the runtime can read.
\<close>

section \<open>Outer attributes\<close>

definition outer :: "str \<Rightarrow> item_fn \<Rightarrow> attribute list" where
  "outer s f = filter (\<lambda>a. is_ident a s) (fn_attrs f)"

lemma is_ident_other: "is_ident a s \<Longrightarrow> is_ident a s' \<longleftrightarrow> s = s'"
  by (auto simp: is_ident_def)

text \<open>One attribute at most, kept as the third component or found in the list.\<close>

definition at_most_one :: "attribute option \<Rightarrow> attribute list \<Rightarrow> attribute option \<Rightarrow> bool" where
  "at_most_one ig as ig' \<longleftrightarrow> (as = [] \<and> ig' = ig) \<or> (\<exists>a. as = [a] \<and> ig = None \<and> ig' = Some a)"

lemma outer_attributes_iff:
  "outer_attributes as ig sp = Inr (ig', sp') \<longleftrightarrow> (\<forall>a \<in> set as. \<not> is_ident a ''test'')
     \<and> at_most_one ig (filter (\<lambda>a. is_ident a ''ignore'') as) ig' \<and> at_most_one sp (filter (\<lambda>a. is_ident a ''should_panic'') as) sp'"
proof (induction as arbitrary: ig sp)
  case (Cons a as)
  consider "is_ident a ''test''" | "is_ident a ''ignore''" "\<not> is_ident a ''test''" "\<not> is_ident a ''should_panic''"
    | "is_ident a ''should_panic''" "\<not> is_ident a ''test''" "\<not> is_ident a ''ignore''"
    | "\<not> is_ident a ''test''" "\<not> is_ident a ''ignore''" "\<not> is_ident a ''should_panic''"
    by (auto simp: is_ident_def)
  then show ?case
    by cases (auto simp: Cons.IH at_most_one_def)
qed (auto simp: at_most_one_def)

section \<open>Parameters\<close>

lemma collect_params_iff:
  "collect_params S as = Inr ps \<longleftrightarrow> map snd ps = as \<and> (\<forall>(p, a) \<in> set ps. fixture_param_of S a = Inr p)"
proof (induction as arbitrary: ps)
  case (Cons a as)
  then show ?case by (cases ps) (auto simp: result_bind_Inr)
qed auto

definition pats_valid :: "syn \<Rightarrow> item_fn \<Rightarrow> bool" where
  "pats_valid S f \<longleftrightarrow> (\<forall>attrs i ty. Typed attrs (Pat_ident i) ty \<in> set (fn_inputs f) \<longrightarrow> sy_valid_ident S i)"

lemma fixture_params_set: "q \<in> set (fixture_params ps) \<longleftrightarrow> (\<exists>a. (Some q, a) \<in> set ps)"
  by (force simp: fixture_params_def map_filter_def)


context syn_crate
begin

lemma fixture_param_of_Some:
  assumes "fixture_param_of S a = Inr (Some q)"
  obtains attrs p ty where "a = Typed attrs p ty" "fp_binding q = p" "fp_param_ty q = ty" "fp_target_ty q = strip_reference ty"
    and "sy_valid_ident S (fp_fixture_name q) \<or> p = Pat_ident (fp_fixture_name q)"
proof -
  obtain attrs p ty at nm where a: "a = Typed attrs p ty" "find_fixture_attr attrs = Inr (Some at)" "parse_fixture_name_arg S at = Inr nm"
    "(case nm of Some nm \<Rightarrow> Inr nm | None \<Rightarrow> binding_to_name p) = Inr (fp_fixture_name q)"
    and q: "fp_binding q = p" "fp_param_ty q = ty" "fp_target_ty q = strip_reference ty"
    using assms by (auto simp: fixture_param_of_def parse_fixture_param_def result_bind_Inr split: fn_arg.splits option.splits)
  have "sy_valid_ident S (fp_fixture_name q) \<or> p = Pat_ident (fp_fixture_name q)"
  proof (cases nm)
    case None
    then show ?thesis using a(4) by (cases p) auto
  next
    case (Some i)
    then show ?thesis using a(3,4) ident_valid by (auto simp: parse_fixture_name_arg_def result_bind_Inr within_Inr split: meta.splits)
  qed
  then show thesis using that a q by blast
qed

lemma format_params_ok:
  assumes "pats_valid S f" "collect_params S (fn_inputs f) = Inr ps"
  shows "format_idents S (map fp_fixture_name (fixture_params ps)) = Inr ()"
proof -
  have "sy_valid_ident S (fp_fixture_name q)" if q: "q \<in> set (fixture_params ps)" for q
  proof -
    obtain a where a: "(Some q, a) \<in> set ps" using q by (auto simp: fixture_params_set)
    have ps: "set (fn_inputs f) = snd ` set ps" "\<forall>(p, a) \<in> set ps. fixture_param_of S a = Inr p"
      using assms(2) by (auto simp: collect_params_iff simp flip: set_map)
    have "fixture_param_of S a = Inr (Some q)" "a \<in> set (fn_inputs f)" unfolding ps(1) using a ps(2) by force+
    then show ?thesis using assms(1) by (auto simp: pats_valid_def elim!: fixture_param_of_Some) blast
  qed
  then show ?thesis by (simp add: format_idents_def list_all_iff)
qed

end

section \<open>Accepting a test\<close>






section \<open>Attributes are arguments\<close>

definition without :: "str \<Rightarrow> item_fn \<Rightarrow> item_fn" where
  "without s f = f\<lparr>fn_attrs := filter (\<lambda>a. \<not> is_ident a s) (fn_attrs f)\<rparr>"

lemma outer_attributes_no_ignore:
  "filter (\<lambda>a. is_ident a ''ignore'') as = [] \<Longrightarrow> outer_attributes as ig sp = map_sum id (\<lambda>(i, s). (ig, s)) (outer_attributes as None sp)"
  by (induction as arbitrary: sp) (auto split: if_splits)

lemma outer_attributes_no_should_panic:
  "filter (\<lambda>a. is_ident a ''should_panic'') as = [] \<Longrightarrow> outer_attributes as ig sp = map_sum id (\<lambda>(i, s). (i, sp)) (outer_attributes as ig None)"
  by (induction as arbitrary: ig) (auto split: if_splits)

lemma filter_not_id: "filter P xs = [] \<Longrightarrow> filter (\<lambda>x. \<not> P x) xs = xs"
  by (simp add: filter_empty_conv filter_id_conv)

lemma outer_attributes_one_ignore:
  "filter (\<lambda>a. is_ident a ''ignore'') as = [a] \<Longrightarrow> outer_attributes as None sp
     = map_sum id (\<lambda>(i, s). (Some a, s)) (outer_attributes (filter (\<lambda>a. \<not> is_ident a ''ignore'') as) None sp)"
proof (induction as arbitrary: sp)
  case (Cons b as)
  show ?case
  proof (cases "is_ident b ''ignore''")
    case True
    then have b: "b = a" "filter (\<lambda>a. is_ident a ''ignore'') as = []" using Cons.prems by auto
    moreover have "\<not> is_ident b ''test''" using True by (auto simp: is_ident_def)
    ultimately show ?thesis using True outer_attributes_no_ignore [OF b(2), of "Some a" sp] filter_not_id [OF b(2)] by (simp add: id_def)
  next
    case False
    then show ?thesis using Cons.prems Cons.IH by simp
  qed
qed simp

lemma outer_attributes_one_should_panic:
  "filter (\<lambda>a. is_ident a ''should_panic'') as = [a] \<Longrightarrow> outer_attributes as ig None
     = map_sum id (\<lambda>(i, s). (i, Some a)) (outer_attributes (filter (\<lambda>a. \<not> is_ident a ''should_panic'') as) ig None)"
proof (induction as arbitrary: ig)
  case (Cons b as)
  show ?case
  proof (cases "is_ident b ''should_panic''")
    case True
    then have b: "b = a" "filter (\<lambda>a. is_ident a ''should_panic'') as = []" using Cons.prems by auto
    moreover have "\<not> is_ident b ''test''" "\<not> is_ident b ''ignore''" using True by (auto simp: is_ident_def)
    ultimately show ?thesis using True outer_attributes_no_should_panic [OF b(2), of ig "Some a"] filter_not_id [OF b(2)] by (simp add: id_def)
  next
    case False
    then show ?thesis using Cons.prems Cons.IH by simp
  qed
qed simp

lemma finish_without: "s = ''ignore'' \<or> s = ''should_panic'' \<Longrightarrow> finish_test_def S env args (without s f) = finish_test_def S env args f"
proof -
  assume s: "s = ''ignore'' \<or> s = ''should_panic''"
  have "test_expansion_of S env args (without s f) ps = test_expansion_of S env args f ps" for ps
  proof -
    have "(\<not> is_ident a ''ignore'' \<and> \<not> is_ident a ''should_panic'') \<and> \<not> is_ident a s \<longleftrightarrow> \<not> is_ident a ''ignore'' \<and> \<not> is_ident a ''should_panic''" for a
      using s by blast
    then show ?thesis by (simp add: test_expansion_of_def without_def Let_def conj_commute)
  qed
  moreover have "fn_inputs (without s f) = fn_inputs f" "fn_async (without s f) = fn_async f" by (simp_all add: without_def)
  ultimately show ?thesis by (simp add: finish_test_def_def cong: if_cong)
qed

text \<open>
  An outer attribute is the argument of the same name.  A test with one \<open>#[ignore]\<close>,
  \<open>#[ignore = "reason"]\<close>, \<open>#[should_panic]\<close> or \<open>#[should_panic(expected = "message")]\<close> expands,
  or fails to, exactly as it does with the attribute removed and the argument given instead.
\<close>

theorem test_attr_is_argument:
  "(outer ''ignore'' f = [a] \<and> ta_ignore args = Ignore_arg_no \<and> absorb_ignore_attr a = Inr v \<longrightarrow>
      expand_test_def S env args f = expand_test_def S env (args\<lparr>ta_ignore := v\<rparr>) (without ''ignore'' f))
   \<and> (outer ''should_panic'' f = [b] \<and> ta_should_panic args = Should_panic_arg_no \<and> absorb_should_panic_attr S b = Inr w \<longrightarrow>
      expand_test_def S env args f = expand_test_def S env (args\<lparr>ta_should_panic := w\<rparr>) (without ''should_panic'' f))"
proof (intro conjI impI)
  assume a: "outer ''ignore'' f = [a] \<and> ta_ignore args = Ignore_arg_no \<and> absorb_ignore_attr a = Inr v"
  let ?o = "outer_attributes (fn_attrs (without ''ignore'' f)) None None"
  have one: "outer_attributes (fn_attrs f) None None = map_sum id (\<lambda>(i, s). (Some a, s)) ?o"
    using outer_attributes_one_ignore [of "fn_attrs f" a None] a by (simp add: outer_def without_def)
  have none: "?o = Inr (i, s) \<Longrightarrow> i = None" for i s by (auto simp: outer_attributes_iff at_most_one_def without_def filter_empty_conv dest!: Cons_eq_filterD)
  show "expand_test_def S env args f = expand_test_def S env (args\<lparr>ta_ignore := v\<rparr>) (without ''ignore'' f)"
  proof (cases ?o)
    case (Inr r)
    obtain s where "r = (None, s)" using none Inr by (cases r) auto
    then show ?thesis using one a Inr by (simp add: expand_test_def_def merge_ignore_def finish_without)
  qed (use one in \<open>simp add: expand_test_def_def\<close>)
next
  assume b: "outer ''should_panic'' f = [b] \<and> ta_should_panic args = Should_panic_arg_no \<and> absorb_should_panic_attr S b = Inr w"
  let ?o = "outer_attributes (fn_attrs (without ''should_panic'' f)) None None"
  have one: "outer_attributes (fn_attrs f) None None = map_sum id (\<lambda>(i, s). (i, Some b)) ?o"
    using outer_attributes_one_should_panic [of "fn_attrs f" b None] b by (simp add: outer_def without_def)
  have none: "?o = Inr (i, s) \<Longrightarrow> s = None" for i s by (auto simp: outer_attributes_iff at_most_one_def without_def filter_empty_conv dest!: Cons_eq_filterD)
  show "expand_test_def S env args f = expand_test_def S env (args\<lparr>ta_should_panic := w\<rparr>) (without ''should_panic'' f)"
  proof (cases ?o)
    case (Inr r)
    obtain i where r: "r = (i, None)" using none Inr by (cases r) auto
    have "result_bind (merge_ignore args i) (\<lambda>args. result_bind (merge_should_panic S args (Some b)) (\<lambda>args. finish_test_def S env args f))
        = result_bind (merge_ignore (args\<lparr>ta_should_panic := w\<rparr>) i) (\<lambda>args. finish_test_def S env args f)"
    proof (cases i)
      case (Some a)
      have comm: "args\<lparr>ta_ignore := v, ta_should_panic := w\<rparr> = args\<lparr>ta_should_panic := w, ta_ignore := v\<rparr>" for v by (cases args) simp
      show ?thesis using b Some by (cases "absorb_ignore_attr a") (auto simp: merge_ignore_def merge_should_panic_def, simp only: comm)
    qed (use b in \<open>simp add: merge_ignore_def merge_should_panic_def\<close>)
    moreover have "merge_should_panic S args' None = Inr args'" for args' by (simp add: merge_should_panic_def)
    ultimately show ?thesis using one Inr r by (simp add: expand_test_def_def finish_without)
  qed (use one in \<open>simp add: expand_test_def_def\<close>)
qed

section \<open>Accepting a fixture\<close>

lemma fixture_item_set_scope: "fa_scope (fixture_item_set x a) = (case x of FI_scope s \<Rightarrow> Some s | _ \<Rightarrow> fa_scope a)"
  by (cases "(x, a)" rule: fixture_item_set.cases) auto

lemma fold_scope: "fa_scope (fold fixture_item_set xs a) = Some s \<Longrightarrow> FI_scope s \<in> set xs \<or> fa_scope a = Some s"
  by (induction xs arbitrary: a) (fastforce simp: fixture_item_set_scope split: fixture_item.splits)+

lemma arg_list_spelled: "arg_list key spelled xs ts \<Longrightarrow> x \<in> set xs \<Longrightarrow> \<exists>r us. spelled x r us"
  by (induction rule: arg_list.induct) auto

text \<open>The fixtures a block obtains.\<close>

fun injected :: "block_stmt \<Rightarrow> str option" where
  "injected (Inject_fixture i nm ty p pty) = Some nm"
| "injected (Source_stmt ts) = None"

lemma injected_deps [simp]: "List.map_filter injected (dep_setup deps) = map fp_fixture_name deps" "length (dep_setup deps) = length deps"
proof -
  have "List.map_filter injected (map (\<lambda>(i, p). Inject_fixture i (fp_fixture_name p) (fp_target_ty p) (fp_binding p) (fp_param_ty p)) (List.enumerate k deps))
    = map fp_fixture_name deps" for k by (induction deps arbitrary: k) (auto simp: map_filter_simps)
  then show "List.map_filter injected (dep_setup deps) = map fp_fixture_name deps" by (simp add: dep_setup_def)
qed (simp add: dep_setup_def)

context syn_crate
begin

lemma parsed_scope:
  assumes "parse_fixture_args S attr = Inr args"
  shows "\<exists>scope. scope_expr (fa_scope args) = Inr scope"
proof (cases "fa_scope args")
  case (Some s)
  have "\<not> unknown_scope s"
    using assms unfolding parse_fixture_args_iff
  proof (elim disjE exE conjE)
    fix xs assume xs: "arg_list fixture_item_key (fixture_item_spelled S reserved str_value) xs attr" "args = fold fixture_item_set xs fixture_args_default"
    then have "FI_scope s \<in> set xs" using fold_scope Some by (fastforce simp: fixture_args_default_def)
    from arg_list_spelled [OF xs(1) this] show ?thesis by auto
  qed (use Some in \<open>simp add: fixture_args_default_def\<close>)
  then show ?thesis using Some by (auto simp: scope_expr_def unknown_scope_def)
qed (simp add: scope_expr_def)

end

text \<open>
  C22: when \<open>#[skuld::fixture]\<close> accepts a function, and what it then submits.  The arguments are
  read, the function returns a \<open>Result\<close>, every parameter with a \<open>#[fixture]\<close> has one that names a
  fixture and a name given is an identifier.  The scope is always one of the three: the branch
  marked unreachable is never taken.  The dependencies of the submitted definition are the fixtures
  of the parameters in their order, and the setup function obtains them in that order and keeps the
  other parameters.
\<close>

theorem fixture_macro_exact:
  assumes "syn_crate S reserved str_value" "pats_valid S f"
  shows "(fixture_macro S env attr f = Inr x \<longleftrightarrow>
      (\<exists>args scope ty params. parse_fixture_args S attr = Inr args \<and> scope_expr (fa_scope args) = Inr scope
        \<and> extract_result_ok_type (fn_output f) = Some ty
        \<and> map snd params = fn_inputs f \<and> (\<forall>(p, a) \<in> set params. fixture_param_of S a = Inr p)
        \<and> (\<forall>n. fa_name args = Some n \<longrightarrow> sy_valid_ident S n) \<and> x = fixture_expansion_of S env args f scope ty params))
    \<and> (\<forall>args. parse_fixture_args S attr = Inr args \<longrightarrow> (\<exists>scope. scope_expr (fa_scope args) = Inr scope))
    \<and> (fixture_macro S env attr f = Inr x \<longrightarrow>
        List.map_filter injected (take (length (fx_deps (fxp_def x))) (fn_block (fxp_fn x))) = fx_deps (fxp_def x)
        \<and> drop (length (fx_deps (fxp_def x))) (fn_block (fxp_fn x)) = fn_block f
        \<and> (\<forall>a \<in> set (fn_inputs (fxp_fn x)). fixture_param_of S a = Inr None))"
proof -
  have one: "format_idents S (case nm of Some n \<Rightarrow> [n] | None \<Rightarrow> []) = Inr () \<longleftrightarrow> (\<forall>n. nm = Some n \<longrightarrow> sy_valid_ident S n)" for nm
    by (auto simp: format_idents_def split: option.splits)
  have iff: "fixture_macro S env attr f = Inr x \<longleftrightarrow>
      (\<exists>args scope ty params. parse_fixture_args S attr = Inr args \<and> scope_expr (fa_scope args) = Inr scope
        \<and> extract_result_ok_type (fn_output f) = Some ty
        \<and> map snd params = fn_inputs f \<and> (\<forall>(p, a) \<in> set params. fixture_param_of S a = Inr p)
        \<and> (\<forall>n. fa_name args = Some n \<longrightarrow> sy_valid_ident S n) \<and> x = fixture_expansion_of S env args f scope ty params)"
    unfolding one [symmetric] fixture_macro_def expand_fixture_def_def
    using syn_crate.format_params_ok [OF assms]
    by (cases "extract_result_ok_type (fn_output f)") (auto simp: result_bind_Inr collect_params_iff)
  have "List.map_filter injected (take (length (fx_deps (fxp_def x))) (fn_block (fxp_fn x))) = fx_deps (fxp_def x)
        \<and> drop (length (fx_deps (fxp_def x))) (fn_block (fxp_fn x)) = fn_block f
        \<and> (\<forall>a \<in> set (fn_inputs (fxp_fn x)). fixture_param_of S a = Inr None)" if run: "fixture_macro S env attr f = Inr x"
  proof -
    obtain args scope ty params where x: "x = fixture_expansion_of S env args f scope ty params" "\<forall>(p, a) \<in> set params. fixture_param_of S a = Inr p"
      using run iff by blast
    show ?thesis using x by (auto simp: fixture_expansion_of_def Let_def injected_deps)
  qed
  then show ?thesis using iff syn_crate.parsed_scope [OF assms(1)] by blast
qed

section \<open>The serial argument at run time\<close>

text \<open>What the argument list says about serial: nothing, everything, or an expression.\<close>

definition says_serial :: "test_item list \<Rightarrow> str list \<Rightarrow> bool" where
  "says_serial xs names \<longleftrightarrow> (\<exists>v. TI_serial v \<in> set xs \<and> (case v of None \<Rightarrow> True | Some x \<Rightarrow> sem (sx_expr x) (\<lambda>t. t \<in> set names)))"

lemma fold_not_serial:
  "(\<forall>v. TI_serial v \<notin> set xs) \<Longrightarrow> ta_serial (fold test_item_set xs a) = ta_serial a \<and> ta_serial_labels (fold test_item_set xs a) = ta_serial_labels a"
proof (induction xs arbitrary: a)
  case (Cons x xs)
  then have "ta_serial (test_item_set x a) = ta_serial a" "ta_serial_labels (test_item_set x a) = ta_serial_labels a" by (cases x; simp)+
  then show ?case using Cons by simp
qed simp

lemma fold_serial:
  "TI_serial v \<in> set xs \<Longrightarrow> distinct (map test_item_key xs) \<Longrightarrow> ta_serial_labels a = [] \<Longrightarrow>
     ta_serial (fold test_item_set xs a) = Some (fst (serial_value v))
     \<and> ta_serial_labels (fold test_item_set xs a) = (case v of None \<Rightarrow> [] | Some x \<Rightarrow> sx_labels x)"
proof (induction xs arbitrary: a)
  case (Cons x xs)
  show ?case
  proof (cases "x = TI_serial v")
    case True
    then have "\<forall>w. TI_serial w \<notin> set xs" using Cons.prems(2) by (auto simp: image_iff)
    then show ?thesis using fold_not_serial [of xs] True Cons.prems(3) by (cases v) (auto simp: serial_value_def)
  next
    case False
    then have v: "TI_serial v \<in> set xs" using Cons.prems(1) by simp
    then have "test_item_key x \<noteq> ''serial''" using Cons.prems(2) by (force simp: image_iff)
    then have "ta_serial_labels (test_item_set x a) = []" using Cons.prems(3) by (cases x) auto
    then show ?thesis using Cons.IH [OF v] Cons.prems(2) by simp
  qed
qed simp

lemma merge_keeps_serial:
  "merge_ignore args ig = Inr args' \<Longrightarrow> ta_serial args' = ta_serial args \<and> ta_serial_labels args' = ta_serial_labels args"
  "merge_should_panic S args sp = Inr args' \<Longrightarrow> ta_serial args' = ta_serial args \<and> ta_serial_labels args' = ta_serial_labels args"
  by (auto simp: merge_ignore_def merge_should_panic_def result_bind_Inr split: option.splits if_splits)

lemma finish_serial:
  "finish_test_def S env args f = Inr x \<Longrightarrow> td_serial (tx_def x) = serial_str (ta_serial args) \<and> tx_label_checks x = ta_serial_labels args"
  by (auto simp: finish_test_def_def result_bind_Inr test_expansion_of_def Let_def split: if_splits)

lemma expand_serial:
  assumes "expand_test_def S env args f = Inr x"
  shows "td_serial (tx_def x) = serial_str (ta_serial args)" "tx_label_checks x = ta_serial_labels args"
proof -
  obtain ig sp a1 a2 where "merge_ignore args ig = Inr a1" "merge_should_panic S a1 sp = Inr a2" "finish_test_def S env a2 f = Inr x"
    using assms by (auto simp: expand_test_def_def result_bind_Inr)
  then show "td_serial (tx_def x) = serial_str (ta_serial args)" "tx_label_checks x = ta_serial_labels args"
    using merge_keeps_serial finish_serial by metis+
qed

context boolexpr_crate
begin

lemma sx_serial:
  assumes "sx_or s" "\<forall>i \<in> set (sx_labels s). \<exists>l. label_macro i = Inr l"
  shows "serial_valid X (sx_text s) \<and> (\<forall>names. serial_hits X (sx_text s) names = sem (sx_expr s) (\<lambda>t. t \<in> set names))"
proof -
  have "\<forall>i \<in> set (sx_labels s). label_name_ok (to_ascii_lowercase i)" using assms(2) label_macro_ok by blast
  from parse_raw_sx [OF assms(1) this] obtain e where e: "parse_raw_label_expr (sx_text s) = Inr e" "equiv_expr e (sx_expr s)" by blast
  have p: "LabelFilter_parse X (sx_text s) = Inr \<lparr>filter_expr = canonicalize X e\<rparr>" using e(1) by (simp add: LabelFilter_parse_def parse_label_expr_def)
  have "sx_text s \<noteq> ''*''" "sx_text s \<noteq> []" using e(1) by (auto simp: parse_raw_sentinels)
  then show ?thesis using p e(2) by (auto simp: serial_valid_def serial_hits_def matches_names_sem equiv_expr_def sem_canonicalize)
qed

end

text \<open>
  C17: the serial argument of a test decides what it conflicts with when it runs.  For every test
  \<open>#[skuld::test]\<close> accepts, its arguments are a list it documents, and when the labels named in the
  serial expression are declared labels, the serial text of the submitted definition is valid and
  hits a set of labels exactly when the argument says so: never without the argument, always for a
  bare \<open>serial\<close>, and otherwise when the expression holds of the set.
\<close>

theorem test_serial_means:
  assumes "syn_crate S reserved str_value" "boolexpr_crate X"
    and "test_macro S env attr f = Inr x" "\<forall>i \<in> set (tx_label_checks x). \<exists>l. label_macro i = Inr l"
  shows "\<exists>xs. (attr = [] \<and> xs = [] \<or> arg_list test_item_key (test_item_spelled S reserved str_value) xs attr)
    \<and> serial_valid X (td_serial (tx_def x)) \<and> (\<forall>names. serial_hits X (td_serial (tx_def x)) names = says_serial xs names)"
proof -
  obtain args where args: "parse_test_args S attr = Inr args" "expand_test_def S env args f = Inr x"
    using assms(3) by (auto simp: test_macro_def result_bind_Inr)
  obtain xs where xs: "attr = [] \<and> xs = [] \<or> arg_list test_item_key (test_item_spelled S reserved str_value) xs attr"
      "distinct (map test_item_key xs)" "args = fold test_item_set xs test_args_default"
    using args(1) unfolding syn_crate.parse_test_args_iff [OF assms(1)] by fastforce
  have d: "ta_serial test_args_default = None" "ta_serial_labels test_args_default = []" by (simp_all add: test_args_default_def)
  have "serial_valid X (td_serial (tx_def x)) \<and> (\<forall>names. serial_hits X (td_serial (tx_def x)) names = says_serial xs names)"
  proof (cases "\<exists>v. TI_serial v \<in> set xs")
    case False
    then have "td_serial (tx_def x) = []" using fold_not_serial [of xs test_args_default] xs(3) d expand_serial [OF args(2)] by (simp add: serial_str_def)
    then show ?thesis using False by (simp add: says_serial_def)
  next
    case True
    then obtain v where v: "TI_serial v \<in> set xs" by blast
    have only: "TI_serial w \<in> set xs \<longleftrightarrow> w = v" for w using v xs(2) inj_onD [of test_item_key "set xs" "TI_serial w" "TI_serial v"] by (auto simp: distinct_map)
    have s: "td_serial (tx_def x) = fst (serial_value v)" "tx_label_checks x = (case v of None \<Rightarrow> [] | Some s \<Rightarrow> sx_labels s)"
      using fold_serial [OF v xs(2) d(2)] xs(3) expand_serial [OF args(2)] by (simp_all add: serial_str_def)
    show ?thesis
    proof (cases v)
      case None
      then show ?thesis using s(1) only by (auto simp: serial_value_def says_serial_def)
    next
      case (Some e)
      have "arg_list test_item_key (test_item_spelled S reserved str_value) xs attr" using xs(1) v by auto
      from arg_list_spelled [OF this v] have "sx_or e" using Some by (auto simp: serial_spelled_def)
      then show ?thesis using boolexpr_crate.sx_serial [OF assms(2), of e] s assms(4) only Some by (auto simp: serial_value_def says_serial_def)
    qed
  qed
  then show ?thesis using xs(1) by blast
qed

section \<open>Witnesses\<close>

definition demo_env :: crate_env where
  "demo_env = \<lparr>ce_module = ''m'', ce_label = (\<lambda>_. \<lparr>label_name = ''slow''\<rparr>), ce_check = (\<lambda>_. Inr ())\<rparr>"

definition demo_ignore :: attribute where
  "demo_ignore = \<lparr>at_path = [''ignore''], at_meta = Meta_name_value (Lit_str ''later'')\<rparr>"

definition demo_param :: fn_arg where
  "demo_param = Typed [\<lparr>at_path = [''fixture''], at_meta = Meta_path\<rparr>] (Pat_ident ''dir'') (Ty_reference (Ty_other []))"

definition demo_fn :: item_fn where
  "demo_fn = \<lparr>fn_attrs = [demo_ignore], fn_ident = ''t'', fn_async = False, fn_inputs = [demo_param],
     fn_output = Ret_type (Ty_path [Segment ''Result'' (Args_angle [Ga_type (Ty_other [])])]), fn_block = [Source_stmt []]\<rparr>"

definition demo_fixture_param :: fixture_param where
  "demo_fixture_param = \<lparr>fp_binding = Pat_ident ''dir'', fp_fixture_name = ''dir'', fp_target_ty = Ty_other [], fp_param_ty = Ty_reference (Ty_other [])\<rparr>"

lemma demo_fn_facts:
  "pats_valid ref_syn demo_fn" "fixture_param_of ref_syn demo_param = Inr (Some demo_fixture_param)"
  "outer ''test'' demo_fn = []" "outer ''should_panic'' demo_fn = []" "outer ''ignore'' demo_fn = [demo_ignore]"
  "absorb_ignore_attr demo_ignore = Inr (Ignore_arg_reason ''later'')"
  by (simp_all add: pats_valid_def demo_fn_def demo_param_def ref_syn_def fixture_param_of_def find_fixture_attr_def is_ident_def
      parse_fixture_param_def parse_fixture_name_arg_def demo_fixture_param_def outer_def demo_ignore_def absorb_ignore_attr_def)


theorem test_attr_is_argument_witness:
  "outer ''ignore'' demo_fn = [demo_ignore] \<and> expand_test_def ref_syn demo_env test_args_default demo_fn
     = expand_test_def ref_syn demo_env (test_args_default\<lparr>ta_ignore := Ignore_arg_reason ''later''\<rparr>) (without ''ignore'' demo_fn)"
  using test_attr_is_argument [of demo_fn demo_ignore test_args_default "Ignore_arg_reason ''later''" ref_syn demo_env] demo_fn_facts
  by (simp add: test_args_default_def)

definition demo_fixture_args :: tokens where
  "demo_fixture_args = [T_ident ''scope'', T_punct CHR ''='', T_ident ''process'', T_punct CHR '','', T_ident ''deref'']"

lemma demo_fixture_args_parse:
  "parse_fixture_args ref_syn demo_fixture_args = Inr (fixture_args_default\<lparr>fa_scope := Some ''process'', fa_deref := True\<rparr>)"
  by (simp add: parse_fixture_args_def parse_args_def demo_fixture_args_def within_def ref_syn_def pbind_def ref_ident_def ref_punct_def
      ref_reserved_def reject_duplicate_key_def fixture_arg_def after_eq_def unknown_scope_def preturn_def)

theorem fixture_macro_exact_witness:
  "\<exists>x. fixture_macro ref_syn demo_env demo_fixture_args demo_fn = Inr x \<and> fx_deps (fxp_def x) = [''dir''] \<and> fx_scope (fxp_def x) = Process
     \<and> drop 1 (fn_block (fxp_fn x)) = [Source_stmt []]"
proof -
  let ?args = "fixture_args_default\<lparr>fa_scope := Some ''process'', fa_deref := True\<rparr>"
  let ?x = "fixture_expansion_of ref_syn demo_env ?args demo_fn Process (Ty_other []) [(Some demo_fixture_param, demo_param)]"
  note exact = fixture_macro_exact [OF refsyn.syn_crate_axioms demo_fn_facts(1), of demo_env demo_fixture_args ?x]
  have run: "fixture_macro ref_syn demo_env demo_fixture_args demo_fn = Inr ?x"
  proof (rule exact [THEN conjunct1, THEN iffD2], intro exI conjI)
    show "parse_fixture_args ref_syn demo_fixture_args = Inr ?args" by (rule demo_fixture_args_parse)
  qed (auto simp: demo_fn_facts demo_fn_def scope_expr_def extract_result_ok_type_def fixture_args_default_def)
  have deps: "fx_deps (fxp_def ?x) = [''dir'']"
    by (simp add: fixture_expansion_of_def fixture_params_def map_filter_simps demo_fixture_param_def Let_def)
  have "drop 1 (fn_block (fxp_fn ?x)) = [Source_stmt []]" using exact [THEN conjunct2, THEN conjunct2] run deps by (simp add: demo_fn_def)
  then show ?thesis using run deps by (intro exI [of _ ?x]) (simp add: fixture_expansion_of_def Let_def)
qed

definition demo_serial_arg :: tokens where
  "demo_serial_arg = [T_ident ''serial'', T_punct CHR ''='', T_ident ''DB'']"

lemma demo_serial_arg_parse:
  "parse_test_args ref_syn demo_serial_arg = Inr (test_args_default\<lparr>ta_serial := Some ''DB'', ta_serial_labels := [''DB'']\<rparr>)"
  by (simp add: parse_test_args_def parse_args_def demo_serial_arg_def within_def ref_syn_def pbind_def ref_ident_def ref_punct_def
      ref_reserved_def reject_duplicate_key_def test_arg_def after_eq_def serial_arg_def parse_serial_expr_def parse_serial_and_def
      parse_serial_primary_def set_test_serial_def preturn_def)

theorem test_serial_means_witness:
  "\<exists>x. test_macro ref_syn demo_env demo_serial_arg demo_fn = Inr x \<and> td_serial (tx_def x) = ''DB'' \<and> serial_valid ref_boolexpr ''DB''"
proof -
  let ?args = "test_args_default\<lparr>ta_serial := Some ''DB'', ta_serial_labels := [''DB'']\<rparr>"
  have "sy_valid_ident ref_syn ''dir''" by (simp add: ref_syn_def)
  then obtain x where x: "expand_test_def ref_syn demo_env ?args demo_fn = Inr x"
    by (simp add: expand_test_def_def finish_test_def_def demo_fn_def demo_ignore_def is_ident_def merge_ignore_def merge_should_panic_def
        absorb_ignore_attr_def demo_fn_facts test_args_default_def fixture_params_def map_filter_simps demo_fixture_param_def format_idents_def)
  then have run: "test_macro ref_syn demo_env demo_serial_arg demo_fn = Inr x" by (simp add: test_macro_def demo_serial_arg_parse)
  have s: "td_serial (tx_def x) = ''DB''" "tx_label_checks x = [''DB'']" using expand_serial [OF x] by (simp_all add: serial_str_def)
  have "\<exists>l. label_macro ''DB'' = Inr l"
    by (auto simp: label_macro_def Label_new_def validate_label_name_def RESERVED_LABEL_NAMES_def label_first_byte_def label_byte_def rust_def)
  then have "serial_valid ref_boolexpr (td_serial (tx_def x))"
    using test_serial_means [OF refsyn.syn_crate_axioms ref.boolexpr_crate_axioms run] s by auto
  then show ?thesis using run s by auto
qed

end
