(* ===== verification/Temp_Dir.thy ===== *)
theory Temp_Dir
  imports Effects "HOL-Library.Word"
begin

unbundle bit_operations_syntax

text \<open>
  Temporary directories (\<open>src/fixtures/temp_dir.rs\<close>, Unix) and the test name they are called after
  (\<open>src/fixtures/test_name.rs\<close>).  The name of a directory is cut and cleaned character by character,
  so a string is a list of Unicode scalar values here, with the two encodings whose lengths the
  file systems limit.  The canonical decomposition (unicode-normalization) and the retry loop over
  random names (tempfile) are parameters; what the code relies on is \<open>nfd_keeps_ascii\<close> and
  \<open>retries_taken_names\<close>.
\<close>

section \<open>Characters and their encodings\<close>

type_synonym uchar = nat
type_synonym ustr = "uchar list"

definition ascii :: "str \<Rightarrow> ustr" where
  "ascii s = map of_char s"

definition len_utf8 :: "uchar \<Rightarrow> nat" where
  "len_utf8 c = (if c < 0x80 then 1 else if c < 0x800 then 2 else if c < 0x10000 then 3 else 4)"

definition len_utf16 :: "uchar \<Rightarrow> nat" where
  "len_utf16 c = (if c < 0x10000 then 1 else 2)"

text \<open>\<open>char::encode_utf8\<close>, in bytes, and \<open>char::encode_utf16\<close>, in 16-bit units.\<close>

definition utf8_bytes :: "uchar \<Rightarrow> str" where
  "utf8_bytes c =
     (if c < 0x80 then [char_of c]
      else if c < 0x800 then [char_of (0xC0 + c div 64), char_of (0x80 + c mod 64)]
      else if c < 0x10000 then
        [char_of (0xE0 + c div 4096), char_of (0x80 + c div 64 mod 64), char_of (0x80 + c mod 64)]
      else
        [char_of (0xF0 + c div 262144), char_of (0x80 + c div 4096 mod 64), char_of (0x80 + c div 64 mod 64),
         char_of (0x80 + c mod 64)])"

definition utf16_units :: "uchar \<Rightarrow> nat list" where
  "utf16_units c =
     (if c < 0x10000 then [c] else [0xD800 + (c - 0x10000) div 1024, 0xDC00 + (c - 0x10000) mod 1024])"

definition to_utf8 :: "ustr \<Rightarrow> str" where
  "to_utf8 s = concat (map utf8_bytes s)"

definition to_utf16 :: "ustr \<Rightarrow> nat list" where
  "to_utf16 s = concat (map utf16_units s)"

text \<open>The general category Cc, and the characters some file system forbids.\<close>

definition is_control :: "uchar \<Rightarrow> bool" where
  "is_control c \<longleftrightarrow> c \<le> 0x1F \<or> (0x7F \<le> c \<and> c \<le> 0x9F)"

definition forbidden_chars :: ustr where
  "forbidden_chars = [0x2F, 0x5C, 0x3A, 0x2A, 0x3F, 0x22, 0x3C, 0x3E, 0x7C]"

section \<open>Safe names\<close>

definition RANDOM_LEN :: nat where "RANDOM_LEN = 6"

definition NAME_MAX :: nat where "NAME_MAX = 255"

definition RESERVED_PID_AND_RANDOM :: nat where
  "RESERVED_PID_AND_RANDOM = length ''-4294967295-'' + RANDOM_LEN"

definition upper_uchar :: "uchar \<Rightarrow> uchar" where
  "upper_uchar c = (if 97 \<le> c \<and> c \<le> 122 then c - 32 else c)"

definition trim_end_spaces :: "ustr \<Rightarrow> ustr" where
  "trim_end_spaces s = rev (dropWhile (\<lambda>c. c = 0x20) (rev s))"

definition device_base :: "ustr \<Rightarrow> ustr" where
  "device_base name = trim_end_spaces (takeWhile (\<lambda>c. c \<noteq> 0x2E) name)"

definition is_dos_device :: "ustr \<Rightarrow> bool" where
  "is_dos_device name =
     (let upper = map upper_uchar (device_base name) in
      if upper \<in> set (map ascii [''CON'', ''PRN'', ''AUX'', ''NUL'', ''CONIN$'', ''CONOUT$'']) then True
      else
        let stem = take 3 upper; rest = drop 3 upper in
        (stem = ascii ''COM'' \<or> stem = ascii ''LPT'') \<and>
        (case rest of
           d # rest' \<Rightarrow> rest' = [] \<and> ((48 \<le> d \<and> d \<le> 57) \<or> d \<in> {0xB9, 0xB2, 0xB3})
         | [] \<Rightarrow> False))"

definition safe_char :: "uchar \<Rightarrow> uchar" where
  "safe_char c = (if is_control c \<or> c \<in> set forbidden_chars then 0x5F else c)"

definition char_cost :: "(uchar \<Rightarrow> ustr) \<Rightarrow> uchar \<Rightarrow> nat" where
  "char_cost nfd c = max (len_utf8 c) (sum_list (map len_utf16 (nfd c)))"

fun name_loop :: "(uchar \<Rightarrow> ustr) \<Rightarrow> nat \<Rightarrow> nat \<Rightarrow> ustr \<Rightarrow> ustr" where
  "name_loop nfd budget used [] = []"
| "name_loop nfd budget used (c # cs) =
     (let c = safe_char c; cost = char_cost nfd c in
      if used + cost > budget then [] else c # name_loop nfd budget (used + cost) cs)"

definition file_name_safe :: "(uchar \<Rightarrow> ustr) \<Rightarrow> ustr \<Rightarrow> ustr" where
  "file_name_safe nfd wanted =
     (let budget = NAME_MAX - RESERVED_PID_AND_RANDOM - 1;
          out = name_loop nfd budget 0 wanted
      in if is_dos_device (out @ ascii ''-'') then 0x5F # out else out)"

text \<open>What \<open>create_with\<close> passes to tempfile, which appends the random characters.\<close>

definition name_prefix :: "(uchar \<Rightarrow> ustr) \<Rightarrow> nat \<Rightarrow> ustr \<Rightarrow> ustr" where
  "name_prefix nfd pid wanted = file_name_safe nfd wanted @ ascii ''-'' @ ascii (show_nat pid) @ ascii ''-''"

text \<open>Unicode: a character of the ASCII range is its own canonical decomposition.\<close>

definition nfd_keeps_ascii :: "(uchar \<Rightarrow> ustr) \<Rightarrow> bool" where
  "nfd_keeps_ascii nfd \<longleftrightarrow> (\<forall>c < 0x80. nfd c = [c])"

text \<open>A random part: the characters tempfile draws from.\<close>

definition random_part :: "nat \<Rightarrow> ustr \<Rightarrow> bool" where
  "random_part n r \<longleftrightarrow> length r = n
     \<and> list_all (\<lambda>c. (48 \<le> c \<and> c \<le> 57) \<or> (65 \<le> c \<and> c \<le> 90) \<or> (97 \<le> c \<and> c \<le> 122)) r"

section \<open>Lengths\<close>

lemma length_utf8_bytes [simp]: "length (utf8_bytes c) = len_utf8 c"
  by (simp add: utf8_bytes_def len_utf8_def)

lemma length_utf16_units [simp]: "length (utf16_units c) = len_utf16 c"
  by (simp add: utf16_units_def len_utf16_def)

lemma length_to_utf8: "length (to_utf8 s) = sum_list (map len_utf8 s)"
  by (simp add: to_utf8_def length_concat o_def)

lemma length_to_utf16: "length (to_utf16 s) = sum_list (map len_utf16 s)"
  by (simp add: to_utf16_def length_concat o_def)

lemma length_nfd_utf16:
  "length (to_utf16 (concat (map nfd s))) = sum_list (map (\<lambda>c. sum_list (map len_utf16 (nfd c))) s)"
  by (induction s) (simp_all add: length_to_utf16)

lemma len_utf16_le_utf8: "len_utf16 c \<le> len_utf8 c"
  by (simp add: len_utf8_def len_utf16_def)

text \<open>The cost of a text bounds its length in all three measures.\<close>

definition cost_of :: "(uchar \<Rightarrow> ustr) \<Rightarrow> ustr \<Rightarrow> nat" where
  "cost_of nfd s = sum_list (map (char_cost nfd) s)"

lemma cost_of_simps [simp]:
  "cost_of nfd [] = 0" "cost_of nfd (c # s) = char_cost nfd c + cost_of nfd s"
  "cost_of nfd (s @ t) = cost_of nfd s + cost_of nfd t"
  by (simp_all add: cost_of_def)

lemma cost_bounds_lengths:
  "length (to_utf8 s) \<le> cost_of nfd s" "length (to_utf16 s) \<le> cost_of nfd s"
  "length (to_utf16 (concat (map nfd s))) \<le> cost_of nfd s"
proof -
  have "len_utf16 c \<le> char_cost nfd c" for c
    using len_utf16_le_utf8 [of c] by (simp add: char_cost_def)
  then show "length (to_utf16 s) \<le> cost_of nfd s"
    by (simp add: length_to_utf16 cost_of_def sum_list_mono)
  show "length (to_utf8 s) \<le> cost_of nfd s"
    by (simp add: length_to_utf8 cost_of_def char_cost_def sum_list_mono)
  show "length (to_utf16 (concat (map nfd s))) \<le> cost_of nfd s"
    by (simp add: length_nfd_utf16 cost_of_def char_cost_def sum_list_mono)
qed

lemma cost_ascii: "nfd_keeps_ascii nfd \<Longrightarrow> list_all (\<lambda>c. c < 0x80) s \<Longrightarrow> cost_of nfd s = length s"
  by (induction s) (simp_all add: nfd_keeps_ascii_def char_cost_def len_utf8_def len_utf16_def)

section \<open>The loop over the characters\<close>

text \<open>The loop keeps the longest beginning, cleaned, whose cost stays within the budget.\<close>

definition within_budget :: "(uchar \<Rightarrow> ustr) \<Rightarrow> nat \<Rightarrow> nat \<Rightarrow> ustr \<Rightarrow> nat \<Rightarrow> bool" where
  "within_budget nfd budget used s k \<longleftrightarrow> used + cost_of nfd (map safe_char (take k s)) \<le> budget"

lemma within_budget_Cons [simp]:
  "within_budget nfd budget used (c # s) (Suc k) =
     within_budget nfd budget (used + char_cost nfd (safe_char c)) s k"
  by (simp add: within_budget_def add.assoc)

lemma name_loop_exact:
  "used \<le> budget \<Longrightarrow> \<exists>k \<le> length s. name_loop nfd budget used s = map safe_char (take k s)
     \<and> within_budget nfd budget used s k \<and> (k < length s \<longrightarrow> \<not> within_budget nfd budget used s (Suc k))"
proof (induction s arbitrary: used)
  case Nil
  then show ?case by (simp add: within_budget_def)
next
  case (Cons c s)
  show ?case
  proof (cases "used + char_cost nfd (safe_char c) > budget")
    case True
    then show ?thesis using Cons.prems by (intro exI [of _ 0]) (simp add: within_budget_def)
  next
    case False
    then have "used + char_cost nfd (safe_char c) \<le> budget" by simp
    from Cons.IH [OF this] obtain k where
      k: "k \<le> length s" "name_loop nfd budget (used + char_cost nfd (safe_char c)) s = map safe_char (take k s)"
        "within_budget nfd budget (used + char_cost nfd (safe_char c)) s k"
        "k < length s \<longrightarrow> \<not> within_budget nfd budget (used + char_cost nfd (safe_char c)) s (Suc k)" by blast
    moreover have "name_loop nfd budget used (c # s) =
        safe_char c # name_loop nfd budget (used + char_cost nfd (safe_char c)) s"
      using False by (simp add: Let_def)
    ultimately show ?thesis by (intro exI [of _ "Suc k"]) (simp del: name_loop.simps)
  qed
qed

lemma name_loop_cost: "used \<le> budget \<Longrightarrow> used + cost_of nfd (name_loop nfd budget used s) \<le> budget"
  using name_loop_exact [of used budget s nfd] by (auto simp: within_budget_def)

definition clean_char :: "uchar \<Rightarrow> bool" where
  "clean_char c \<longleftrightarrow> \<not> is_control c \<and> c \<notin> set forbidden_chars"

lemma clean_safe_char: "clean_char (safe_char c)"
  by (simp add: clean_char_def safe_char_def is_control_def forbidden_chars_def)

lemma name_loop_clean: "list_all clean_char (name_loop nfd budget used s)"
proof (induction s arbitrary: used)
  case (Cons c s)
  then show ?case using clean_safe_char by (simp only: name_loop.simps Let_def split: if_split) simp
qed simp

section \<open>Device names\<close>

lemma trim_end_spaces_Cons: "x \<noteq> 0x20 \<Longrightarrow> trim_end_spaces (x # xs) = x # trim_end_spaces xs"
  by (simp add: trim_end_spaces_def dropWhile_append)

lemma trim_end_spaces_keeps: "x \<in> set s \<Longrightarrow> x \<noteq> 0x20 \<Longrightarrow> x \<in> set (trim_end_spaces s)"
  using takeWhile_dropWhile_id [of "\<lambda>c. c = 0x20" "rev s"] set_takeWhileD [of x "\<lambda>c. c = 0x20" "rev s"]
  by (metis Un_iff set_append set_rev trim_end_spaces_def)

lemma device_upper_cases:
  assumes "is_dos_device name"
  defines "upper \<equiv> map upper_uchar (device_base name)"
  shows "0x2D \<notin> set upper" and "hd upper \<noteq> 0x5F" and "upper \<noteq> []"
proof -
  consider (word) "upper \<in> set (map ascii [''CON'', ''PRN'', ''AUX'', ''NUL'', ''CONIN$'', ''CONOUT$''])"
    | (port) d where "upper = ascii ''COM'' @ [d] \<or> upper = ascii ''LPT'' @ [d]"
        "(48 \<le> d \<and> d \<le> 57) \<or> d \<in> {0xB9, 0xB2, 0xB3}"
  proof (cases "upper \<in> set (map ascii [''CON'', ''PRN'', ''AUX'', ''NUL'', ''CONIN$'', ''CONOUT$''])")
    case True
    then show ?thesis by (rule word)
  next
    case False
    with assms obtain d where "take 3 upper = ascii ''COM'' \<or> take 3 upper = ascii ''LPT''" "drop 3 upper = [d]"
      "(48 \<le> d \<and> d \<le> 57) \<or> d \<in> {0xB9, 0xB2, 0xB3}"
      unfolding is_dos_device_def Let_def upper_def by (auto split: list.splits if_splits)
    then show ?thesis using append_take_drop_id [of 3 upper] by (intro port [of d]) auto
  qed
  then have "0x2D \<notin> set upper \<and> hd upper \<noteq> 0x5F \<and> upper \<noteq> []"
    by cases (auto simp: ascii_def)
  then show "0x2D \<notin> set upper" "hd upper \<noteq> 0x5F" "upper \<noteq> []" by auto
qed

lemma hyphen_no_device:
  assumes "0x2D \<in> set (takeWhile (\<lambda>c. c \<noteq> 0x2E) name)"
  shows "\<not> is_dos_device name"
proof
  assume "is_dos_device name"
  then have "0x2D \<notin> upper_uchar ` set (device_base name)" using device_upper_cases(1) by simp
  moreover have "upper_uchar 0x2D = 0x2D" by (simp add: upper_uchar_def)
  ultimately have "0x2D \<notin> set (device_base name)" by (metis image_eqI)
  then show False using assms trim_end_spaces_keeps [of "0x2D"] by (simp add: device_base_def)
qed

lemma underscore_no_device: "\<not> is_dos_device (0x5F # name)"
  using device_upper_cases(2) [of "0x5F # name"]
  by (auto simp: device_base_def trim_end_spaces_Cons upper_uchar_def)

lemma device_base_append_dot: "0x2E \<in> set s \<Longrightarrow> device_base (s @ t) = device_base s"
  by (simp add: device_base_def takeWhile_append1)

lemma is_dos_device_cong: "device_base a = device_base b \<Longrightarrow> is_dos_device a = is_dos_device b"
  by (simp add: is_dos_device_def)

text \<open>Whatever follows the hyphen, the name is no device.\<close>

lemma file_name_safe_no_device: "\<not> is_dos_device (file_name_safe nfd wanted @ 0x2D # rest)"
proof -
  define out where "out = name_loop nfd (NAME_MAX - RESERVED_PID_AND_RANDOM - 1) 0 wanted"
  have hyphen: "ascii ''-'' = [0x2D]" by (simp add: ascii_def)
  show ?thesis
  proof (cases "is_dos_device (out @ [0x2D])")
    case True
    then show ?thesis using underscore_no_device by (simp add: file_name_safe_def Let_def out_def hyphen)
  next
    case False
    then have safe: "file_name_safe nfd wanted = out" by (simp add: file_name_safe_def Let_def out_def hyphen)
    show ?thesis
    proof (cases "0x2E \<in> set out")
      case True
      then have "device_base (out @ 0x2D # rest) = device_base (out @ [0x2D])" by (simp add: device_base_append_dot)
      then show ?thesis using False safe is_dos_device_cong by metis
    next
      case nodot: False
      then have "takeWhile (\<lambda>c. c \<noteq> 0x2E) (out @ 0x2D # rest) = out @ 0x2D # takeWhile (\<lambda>c. c \<noteq> 0x2E) rest"
        by (subst takeWhile_append2) auto
      then show ?thesis using safe hyphen_no_device by simp
    qed
  qed
qed

section \<open>The full name\<close>

lemma length_show_nat: "n < 10 ^ Suc k \<Longrightarrow> length (show_nat n) \<le> Suc k"
proof (induction k arbitrary: n)
  case 0
  then show ?case by (simp add: show_nat.simps [of n])
next
  case (Suc k)
  have "n div 10 < 10 ^ Suc k" using Suc.prems by simp
  then show ?case using Suc.IH [of "n div 10"] by (subst show_nat.simps) auto
qed

lemma length_show_pid: "pid < 2 ^ 32 \<Longrightarrow> length (show_nat pid) \<le> 10"
  using length_show_nat [of pid 9] by simp

lemma random_part_ascii: "random_part n r \<Longrightarrow> list_all (\<lambda>c. c < 0x80) r"
  by (auto simp: random_part_def list_all_iff)

lemma digits_ascii: "list_all (\<lambda>c. c < 0x80) (ascii (show_nat n))"
  using show_nat_digits [of n] by (auto simp: ascii_def list_all_iff rust_def)

lemma cost_underscore: "nfd_keeps_ascii nfd \<Longrightarrow> char_cost nfd 0x5F = 1"
  by (simp add: nfd_keeps_ascii_def char_cost_def len_utf8_def len_utf16_def)

lemma file_name_safe_cost:
  assumes "nfd_keeps_ascii nfd"
  shows "cost_of nfd (file_name_safe nfd wanted) \<le> 237"
  using name_loop_cost [of 0 236 nfd wanted] cost_underscore [OF assms]
  by (simp add: file_name_safe_def Let_def NAME_MAX_def RESERVED_PID_AND_RANDOM_def RANDOM_LEN_def)

lemma full_name_cost:
  assumes "nfd_keeps_ascii nfd" "pid < 2 ^ 32" "random_part RANDOM_LEN r"
  shows "cost_of nfd (name_prefix nfd pid wanted @ r) \<le> NAME_MAX"
proof -
  have "cost_of nfd (ascii ''-'') = 1"
    using cost_ascii [OF assms(1), of "ascii ''-''"] by (simp add: ascii_def)
  moreover have "cost_of nfd (ascii (show_nat pid)) \<le> 10"
    using cost_ascii [OF assms(1) digits_ascii] length_show_pid [OF assms(2)] by (simp add: ascii_def)
  moreover have "cost_of nfd r = 6"
    using cost_ascii [OF assms(1) random_part_ascii [OF assms(3)]] assms(3) by (simp add: random_part_def RANDOM_LEN_def)
  ultimately show ?thesis using file_name_safe_cost [OF assms(1), of wanted] by (simp add: name_prefix_def NAME_MAX_def)
qed

lemma clean_alnum:
  "(48 \<le> c \<and> c \<le> 57) \<or> (65 \<le> c \<and> c \<le> 90) \<or> (97 \<le> c \<and> c \<le> 122) \<Longrightarrow> clean_char c"
  by (auto simp: clean_char_def is_control_def forbidden_chars_def)

lemma clean_hyphen: "clean_char 0x2D" "clean_char 0x5F"
  by (simp_all add: clean_char_def is_control_def forbidden_chars_def)

lemma clean_digits: "list_all clean_char (ascii (show_nat n))"
  using show_nat_digits [of n] by (auto simp: ascii_def list_all_iff rust_def intro!: clean_alnum)

lemma clean_random: "random_part n r \<Longrightarrow> list_all clean_char r"
  by (auto simp: random_part_def list_all_iff intro!: clean_alnum)

lemma full_name_clean:
  assumes "random_part n r"
  shows "list_all clean_char (name_prefix nfd pid wanted @ r)"
proof -
  have "list_all clean_char (file_name_safe nfd wanted)"
    using name_loop_clean clean_hyphen by (simp add: file_name_safe_def Let_def)
  moreover have "list_all clean_char (ascii ''-'')" using clean_hyphen by (simp add: ascii_def)
  ultimately show ?thesis using clean_digits clean_random [OF assms] by (simp add: name_prefix_def)
qed

lemma full_name_no_device: "\<not> is_dos_device (name_prefix nfd pid wanted @ r)"
  using file_name_safe_no_device [of nfd wanted "ascii (show_nat pid) @ ascii ''-'' @ r"]
  by (simp add: name_prefix_def) (simp add: ascii_def)

text \<open>
  C33: The name of a temporary directory is safe on every file system the comments name.  For
  every text it is called after, every process id and every random part, the full name
  is at most 255 bytes in UTF-8, at most 255 units in UTF-16 and at most 255 units in UTF-16 after
  canonical decomposition; it has no control character and none of the forbidden ones; and Win32
  does not read it as a device.  The name keeps as much of the text as the budget of 236 allows:
  the cleaned first \<open>k\<close> characters, where one more would exceed it, after an underscore when they
  would be read as a device.
\<close>

theorem temp_dir_name_safe:
  fixes nfd :: "uchar \<Rightarrow> ustr" and wanted r :: ustr and pid :: nat
  assumes "nfd_keeps_ascii nfd" "pid < 2 ^ 32" "random_part RANDOM_LEN r"
  defines "name \<equiv> name_prefix nfd pid wanted @ r"
  shows "length (to_utf8 name) \<le> 255 \<and> length (to_utf16 name) \<le> 255
    \<and> length (to_utf16 (concat (map nfd name))) \<le> 255
    \<and> (\<forall>c \<in> set name. \<not> is_control c \<and> c \<notin> set forbidden_chars)
    \<and> \<not> is_dos_device name
    \<and> (\<exists>k \<le> length wanted. file_name_safe nfd wanted =
           (if is_dos_device (map safe_char (take k wanted) @ ascii ''-'')
            then 0x5F # map safe_char (take k wanted) else map safe_char (take k wanted))
         \<and> (k < length wanted \<longrightarrow> 236 < cost_of nfd (map safe_char (take (Suc k) wanted))))"
proof -
  have "cost_of nfd name \<le> 255" using full_name_cost [OF assms(1-3)] by (simp add: name_def NAME_MAX_def)
  moreover have "list_all clean_char name" using full_name_clean [OF assms(3)] by (simp add: name_def)
  then have "\<forall>c \<in> set name. \<not> is_control c \<and> c \<notin> set forbidden_chars"
    by (simp add: list_all_iff clean_char_def)
  moreover have "\<not> is_dos_device name" by (simp add: name_def full_name_no_device)
  moreover obtain k where k: "k \<le> length wanted" "name_loop nfd 236 0 wanted = map safe_char (take k wanted)"
    "k < length wanted \<longrightarrow> \<not> within_budget nfd 236 0 wanted (Suc k)"
    using name_loop_exact [of 0 236 wanted nfd] by auto
  have "file_name_safe nfd wanted = (if is_dos_device (map safe_char (take k wanted) @ ascii ''-'')
      then 0x5F # map safe_char (take k wanted) else map safe_char (take k wanted))"
    by (simp add: file_name_safe_def Let_def NAME_MAX_def RESERVED_PID_AND_RANDOM_def RANDOM_LEN_def k(2))
  then have "\<exists>k \<le> length wanted. file_name_safe nfd wanted =
           (if is_dos_device (map safe_char (take k wanted) @ ascii ''-'')
            then 0x5F # map safe_char (take k wanted) else map safe_char (take k wanted))
         \<and> (k < length wanted \<longrightarrow> 236 < cost_of nfd (map safe_char (take (Suc k) wanted)))"
    using k by (intro exI [of _ k]) (simp add: within_budget_def not_le)
  ultimately show ?thesis using cost_bounds_lengths [where s = name and nfd = nfd] by simp
qed

theorem temp_dir_name_safe_witness:
  "nfd_keeps_ascii (\<lambda>c. [c]) \<and> random_part RANDOM_LEN (ascii ''aZ09bc'')
   \<and> file_name_safe (\<lambda>c. [c]) (ascii ''nul.x:y'') = ascii ''_nul.x_y''
   \<and> \<not> is_dos_device (name_prefix (\<lambda>c. [c]) 7 (ascii ''nul.x:y'') @ ascii ''aZ09bc'')
   \<and> length (to_utf8 (name_prefix (\<lambda>c. [c]) 7 (ascii ''nul.x:y'') @ ascii ''aZ09bc'')) \<le> 255"
proof -
  have hyps: "nfd_keeps_ascii (\<lambda>c. [c])" "random_part RANDOM_LEN (ascii ''aZ09bc'')"
    by (simp_all add: nfd_keeps_ascii_def random_part_def RANDOM_LEN_def ascii_def)
  moreover have "file_name_safe (\<lambda>c. [c]) (ascii ''nul.x:y'') = ascii ''_nul.x_y''"
    by (simp add: file_name_safe_def ascii_def NAME_MAX_def RESERVED_PID_AND_RANDOM_def RANDOM_LEN_def Let_def
        safe_char_def is_control_def forbidden_chars_def char_cost_def len_utf8_def len_utf16_def
        is_dos_device_def device_base_def trim_end_spaces_def upper_uchar_def)
  moreover note temp_dir_name_safe [OF hyps(1) _ hyps(2), of 7 "ascii ''nul.x:y''"]
  ultimately show ?thesis by simp
qed

end
