(* ===== verification/Temp_Dir_Life.thy ===== *)
theory Temp_Dir_Life
  imports Temp_Dir
begin

text \<open>
  Creation and removal of temporary directories (\<open>TempDir\<close> and the fixtures \<open>temp_dir\<close> and
  \<open>test_name\<close>, Unix).  A path is the list of its \<open>std::path::Components\<close>, the root included, so the
  empty path that \<open>close\<close> leaves behind is \<open>[]\<close>.  The file system is the entries it has; which
  calls fail, with what, and what a failing removal leaves is for the record \<open>tos\<close> to say.
\<close>

section \<open>The file system\<close>

type_synonym upath = "ustr list"

datatype td_entry = Directory "32 word" | Other_entry

record tfs =
  tf_entries :: "upath \<Rightarrow> td_entry option"
  tf_stderr :: "ustr list"

datatype io_kind = Already_exists | Not_found_kind | Not_a_directory_kind | Invalid_input | Other_kind | Panicked | Kind nat

datatype io_err = Io (ie_kind: io_kind) (ie_text: ustr)

text \<open>
  \<open>to_mkdir\<close> and \<open>to_rmdir\<close> are the failures of \<open>mkdir\<close> and \<open>remove_dir_all\<close> beside an existing and a
  missing entry; a failing removal keeps some of the entries below the directory.
\<close>

record tos =
  to_pid :: nat
  to_umask :: "32 word"
  to_tmp :: upath
  to_absolute :: "upath \<Rightarrow> (io_err, upath) result"
  to_canonicalize :: "upath \<Rightarrow> tfs \<Rightarrow> (io_err, upath) result"
  to_mkdir :: "upath \<Rightarrow> tfs \<Rightarrow> io_err option"
  to_rmdir :: "upath \<Rightarrow> tfs \<Rightarrow> (io_err \<times> upath set) option"
  to_stderr :: bool
  to_show :: "upath \<Rightarrow> ustr"
  to_debug_assertions :: bool

definition os_mkdir :: "tos \<Rightarrow> 32 word \<Rightarrow> upath \<Rightarrow> (tfs, io_err, unit) eff" where
  "os_mkdir E m p s =
     (if tf_entries s p \<noteq> None then (Inl (Io Already_exists (ascii ''File exists (os error 17)'')), s)
      else case to_mkdir E p s of
          Some e \<Rightarrow> (Inl e, s)
        | None \<Rightarrow> (Inr (), s\<lparr>tf_entries := (tf_entries s)(p \<mapsto> Directory (m AND NOT (to_umask E)))\<rparr>))"

definition without_tree :: "upath \<Rightarrow> upath set \<Rightarrow> tfs \<Rightarrow> tfs" where
  "without_tree p kept s =
     s\<lparr>tf_entries := (\<lambda>q. if starts_with q p \<and> q \<notin> kept then None else tf_entries s q)\<rparr>"

definition os_remove_dir_all :: "tos \<Rightarrow> upath \<Rightarrow> (tfs, io_err, unit) eff" where
  "os_remove_dir_all E p s =
     (if tf_entries s p = None
      then (Inl (Io Not_found_kind (ascii ''No such file or directory (os error 2)'')), s)
      else case to_rmdir E p s of
          Some (e, kept) \<Rightarrow> (Inl e, without_tree p kept s)
        | None \<Rightarrow> (Inr (), without_tree p {} s))"

definition eff_map_err :: "('e \<Rightarrow> 'f) \<Rightarrow> ('s, 'e, 'a) eff \<Rightarrow> ('s, 'f, 'a) eff" where
  "eff_map_err f m s = (case m s of (r, s') \<Rightarrow> (map_sum f id r, s'))"

section \<open>Creation\<close>

record 'p temp_dir_guard =
  td_created :: 'p
  td_path :: 'p

text \<open>A failure: the error returned, or the failed assertion of a debug build.\<close>

datatype ('p, 'e) td_fail = Failed 'e | Not_absolute_parent 'p

text \<open>
  \<open>Builder::make_in\<close> of tempfile, with the prefix, the number of random characters, the directory
  and the function that creates.  The type of paths and the state differ between the platforms.
\<close>

type_synonym ('p, 's) make_in =
  "ustr \<Rightarrow> nat \<Rightarrow> 'p \<Rightarrow> ('p \<Rightarrow> ('s, io_err, unit) eff) \<Rightarrow> ('s, io_err, 'p) eff"

type_synonym unix_make_in = "(upath, tfs) make_in"

definition create_with :: "(uchar \<Rightarrow> ustr) \<Rightarrow> ('p, 's) make_in \<Rightarrow> nat \<Rightarrow> bool \<Rightarrow> ustr \<Rightarrow> 'p
    \<Rightarrow> ('p \<Rightarrow> ('s, io_err, unit) eff) \<Rightarrow> ('s, ('p, io_err) td_fail, 'p temp_dir_guard) eff" where
  "create_with nfd make_in pid assertion_fails wanted par create =
     (if assertion_fails then raise (Not_absolute_parent par)
      else eff_bind (eff_map_err Failed (make_in (name_prefix nfd pid wanted) RANDOM_LEN par create))
        (\<lambda>created. ret \<lparr>td_created = created, td_path = created\<rparr>))"

definition create_dir :: "tos \<Rightarrow> upath \<Rightarrow> (tfs, io_err, unit) eff" where
  "create_dir E p =
     eff_map_err (\<lambda>e. Io (ie_kind e) (ie_text e @ ascii '' at path '' @ to_show E p)) (os_mkdir E 448 p)"

definition is_absolute :: "upath \<Rightarrow> bool" where
  "is_absolute p = starts_with p [ascii ''/'']"

definition with_prefix_in :: "(uchar \<Rightarrow> ustr) \<Rightarrow> unix_make_in \<Rightarrow> tos \<Rightarrow> ustr \<Rightarrow> upath
    \<Rightarrow> (tfs, (upath, io_err) td_fail, upath temp_dir_guard) eff" where
  "with_prefix_in nfd make_in E wanted par = (case to_absolute E par of
       Inl e \<Rightarrow> raise (Failed (Io (ie_kind e) (ie_text e @ ascii '': '' @ to_show E par)))
     | Inr par \<Rightarrow> create_with nfd make_in (to_pid E) (to_debug_assertions E \<and> \<not> is_absolute par) wanted par (create_dir E))"

definition temp_dir_new_in :: "(uchar \<Rightarrow> ustr) \<Rightarrow> unix_make_in \<Rightarrow> tos \<Rightarrow> upath
    \<Rightarrow> (tfs, (upath, io_err) td_fail, upath temp_dir_guard) eff" where
  "temp_dir_new_in nfd make_in E par = with_prefix_in nfd make_in E (ascii ''.tmp'') par"

definition temp_dir_new :: "(uchar \<Rightarrow> ustr) \<Rightarrow> unix_make_in \<Rightarrow> tos \<Rightarrow> (tfs, (upath, io_err) td_fail, upath temp_dir_guard) eff" where
  "temp_dir_new nfd make_in E = temp_dir_new_in nfd make_in E (to_tmp E)"

section \<open>Removal\<close>

definition warn :: "tos \<Rightarrow> ustr \<Rightarrow> tfs \<Rightarrow> tfs" where
  "warn E msg s = (if to_stderr E then s\<lparr>tf_stderr := tf_stderr s @ [msg]\<rparr> else s)"

definition temp_dir_drop :: "tos \<Rightarrow> upath temp_dir_guard \<Rightarrow> tfs \<Rightarrow> tfs" where
  "temp_dir_drop E d s =
     (if td_created d = [] then s
      else case os_remove_dir_all E (td_created d) s of
          (Inl e, s') \<Rightarrow> warn E (ascii ''skuld: warning: could not remove temporary directory ''
             @ to_show E (td_created d) @ ascii '': '' @ ie_text e) s'
        | (Inr _, s') \<Rightarrow> s')"

text \<open>\<open>close\<close> takes the guard by value, so what is left of it is dropped when it returns.\<close>

definition temp_dir_close :: "tos \<Rightarrow> upath temp_dir_guard \<Rightarrow> (tfs, io_err, unit) eff" where
  "temp_dir_close E d s =
     (let created = td_created d; d = d\<lparr>td_created := []\<rparr> in
      case eff_map_err (\<lambda>e. Io (ie_kind e) (ie_text e @ ascii '': '' @ to_show E created))
             (os_remove_dir_all E created) s of
        (r, s') \<Rightarrow> (r, temp_dir_drop E d s'))"

section \<open>The fixtures\<close>

record cur_test =
  ct_name :: ustr
  ct_module_path :: ustr

datatype fixture_fail = Fixture_err ustr | Fixture_assertion upath | Outside_test_body

definition current_test :: "cur_test option \<Rightarrow> (fixture_fail, cur_test) result" where
  "current_test cur = (case cur of None \<Rightarrow> Inl Outside_test_body | Some ct \<Rightarrow> Inr ct)"

definition test_name :: "cur_test option \<Rightarrow> (fixture_fail, ustr) result" where
  "test_name cur = map_sum id ct_name (current_test cur)"

definition temp_dir_fail :: "(upath, io_err) td_fail \<Rightarrow> fixture_fail" where
  "temp_dir_fail f = (case f of
       Failed e \<Rightarrow> Fixture_err (ascii ''failed to create temp dir: '' @ ie_text e)
     | Not_absolute_parent p \<Rightarrow> Fixture_assertion p)"

text \<open>When the path cannot be made canonical the directory is dropped on the way out.\<close>

definition temp_dir :: "(uchar \<Rightarrow> ustr) \<Rightarrow> unix_make_in \<Rightarrow> tos \<Rightarrow> ustr \<Rightarrow> (tfs, fixture_fail, upath temp_dir_guard) eff" where
  "temp_dir nfd make_in E nm =
     eff_bind (eff_map_err temp_dir_fail (with_prefix_in nfd make_in E nm (to_tmp E)))
       (\<lambda>d s. case to_canonicalize E (td_created d) s of
            Inl e \<Rightarrow> (Inl (Fixture_err (ascii ''failed to canonicalize temp dir: '' @ ie_text e)), temp_dir_drop E d s)
          | Inr p \<Rightarrow> (Inr (d\<lparr>td_path := p\<rparr>), s))"

section \<open>What the code relies on in tempfile\<close>

text \<open>
  The creating function is called with one candidate after the other until it answers
  anything but \<open>AlreadyExists\<close>; after 65536 taken names the answer is \<open>AlreadyExists\<close>.
\<close>

fun first_free :: "('p \<Rightarrow> ('s, io_err, unit) eff) \<Rightarrow> 'p list \<Rightarrow> ('s, io_err, 'p) eff" where
  "first_free create [] s = (Inl (Io Already_exists (ascii ''too many temporary files exist'')), s)"
| "first_free create (p # ps) s = (case create p s of
       (Inl e, s') \<Rightarrow> if ie_kind e = Already_exists then first_free create ps s' else (Inl e, s')
     | (Inr _, s') \<Rightarrow> (Inr p, s'))"

definition retries_taken_names :: "('p \<Rightarrow> ustr \<Rightarrow> 'p) \<Rightarrow> ('p, 's) make_in \<Rightarrow> bool" where
  "retries_taken_names child mk \<longleftrightarrow> (\<forall>pre n par create s. \<exists>rs. length rs = 65536 \<and> list_all (random_part n) rs
     \<and> mk pre n par create s = first_free create (map (\<lambda>r. child par (pre @ r)) rs) s)"

abbreviation unix_join :: "upath \<Rightarrow> ustr \<Rightarrow> upath" where
  "unix_join p nm \<equiv> p @ [nm]"

section \<open>Creation takes a free name\<close>

definition made_at :: "tos \<Rightarrow> upath \<Rightarrow> tfs \<Rightarrow> tfs" where
  "made_at E p s = s\<lparr>tf_entries := (tf_entries s)(p \<mapsto> Directory (448 AND NOT (to_umask E)))\<rparr>"

lemma create_dir_cases:
  "create_dir E p s = (r, s') \<Longrightarrow>
     (\<exists>e. r = Inl e \<and> s' = s)
   \<or> (r = Inr () \<and> tf_entries s p = None \<and> s' = made_at E p s)"
  by (auto simp: create_dir_def eff_map_err_def os_mkdir_def made_at_def split: if_splits option.splits)

lemma first_free_create_dir:
  "first_free (create_dir E) ps s = (r, s') \<Longrightarrow>
     (\<exists>e. r = Inl e \<and> s' = s)
   \<or> (\<exists>p \<in> set ps. r = Inr p \<and> tf_entries s p = None \<and> s' = made_at E p s)"
proof (induction ps)
  case (Cons p ps)
  obtain r1 s1 where c: "create_dir E p s = (r1, s1)" by fastforce
  show ?case
  proof (cases r1)
    case (Inl e)
    then have "s1 = s" using create_dir_cases [OF c] by auto
    then show ?thesis using Cons c Inl by (auto split: if_splits)
  next
    case (Inr u)
    then show ?thesis using Cons.prems c create_dir_cases [OF c] by auto
  qed
qed auto

lemma with_prefix_in_cases:
  assumes mk: "retries_taken_names unix_join mk" and run: "with_prefix_in nfd mk E nm par s = (r, s')"
  obtains e where "r = Inl e" "s' = s"
  | p d rnd where "to_absolute E par = Inr p" "random_part RANDOM_LEN rnd" "r = Inr d"
      "td_created d = p @ [name_prefix nfd (to_pid E) nm @ rnd]" "td_path d = td_created d"
      "tf_entries s (td_created d) = None" "s' = made_at E (td_created d) s"
proof (cases "to_absolute E par")
  case (Inl e)
  then show ?thesis using run that(1) by (auto simp: with_prefix_in_def)
next
  case (Inr p)
  show ?thesis
  proof (cases "to_debug_assertions E \<and> \<not> is_absolute p")
    case True
    then show ?thesis using run that(1) Inr by (auto simp: with_prefix_in_def create_with_def)
  next
    case False
    obtain r1 s1 where m: "mk (name_prefix nfd (to_pid E) nm) RANDOM_LEN p (create_dir E) s = (r1, s1)" by fastforce
    obtain rs where rs: "list_all (random_part RANDOM_LEN) rs"
      "first_free (create_dir E) (map (\<lambda>x. p @ [name_prefix nfd (to_pid E) nm @ x]) rs) s = (r1, s1)"
      using mk m unfolding retries_taken_names_def by metis
    have r: "(r, s') = eff_bind (eff_map_err Failed (mk (name_prefix nfd (to_pid E) nm) RANDOM_LEN p (create_dir E)))
        (\<lambda>created. ret \<lparr>td_created = created, td_path = created\<rparr>) s"
      using run Inr False by (auto simp: with_prefix_in_def create_with_def)
    consider e where "r1 = Inl e" "s1 = s"
      | x where "x \<in> set rs" "r1 = Inr (p @ [name_prefix nfd (to_pid E) nm @ x])"
          "tf_entries s (p @ [name_prefix nfd (to_pid E) nm @ x]) = None"
          "s1 = made_at E (p @ [name_prefix nfd (to_pid E) nm @ x]) s"
      using first_free_create_dir [OF rs(2)] by auto
    then show ?thesis
    proof cases
      case 1
      then show ?thesis using r m that(1) by (simp add: eff_bind_def eff_map_err_def)
    next
      case 2
      then have "r = Inr \<lparr>td_created = p @ [name_prefix nfd (to_pid E) nm @ x],
            td_path = p @ [name_prefix nfd (to_pid E) nm @ x]\<rparr>" "s' = s1"
        using r m by (simp_all add: eff_bind_def eff_map_err_def)
      then show ?thesis using that(2) [OF Inr _ _] 2 rs(1) by (auto simp: list_all_iff)
    qed
  qed
qed

lemma private_mode: "(448 AND NOT um) AND 63 = (0 :: 32 word)"
proof -
  have "(448 :: 32 word) AND 63 = 0" by simp
  then show ?thesis by (metis and.assoc and.commute and_zero_eq)
qed

section \<open>Removal\<close>

text \<open>Every entry but the root lies in one.\<close>

definition is_tree :: "tfs \<Rightarrow> bool" where
  "is_tree s \<longleftrightarrow> (\<forall>p x. tf_entries s (p @ [x]) \<noteq> None \<longrightarrow> p \<noteq> [] \<longrightarrow> tf_entries s p \<noteq> None)"

lemma nothing_below:
  assumes "is_tree s" "tf_entries s p = None" "p \<noteq> []"
  shows "tf_entries s (p @ q) = None"
proof (induction q rule: rev_induct)
  case (snoc x q)
  then show ?case using assms unfolding is_tree_def by (metis append_assoc append_is_Nil_conv)
qed (simp add: assms)

lemma drop_made:
  assumes "is_tree s" "tf_entries s p = None" "p \<noteq> []"
  shows "without_tree p {} (made_at E p s) = s"
proof -
  have "(if starts_with q p then None else ((tf_entries s)(p \<mapsto> x)) q) = tf_entries s q" for q x
    using nothing_below [OF assms] assms(2) by (auto simp: starts_with_iff)
  then have "tf_entries (without_tree p {} (made_at E p s)) = tf_entries s"
    by (intro ext) (simp add: without_tree_def made_at_def cong: if_cong)
  then show ?thesis by (intro tfs.equality) (simp_all add: without_tree_def made_at_def)
qed

text \<open>\<open>close\<close> and drop remove the same; what differs is who learns of a failure.\<close>

lemma close_then_drop:
  "temp_dir_close E d t = (case os_remove_dir_all E (td_created d) t of
     (r, t') \<Rightarrow> (map_sum (\<lambda>e. Io (ie_kind e) (ie_text e @ ascii '': '' @ to_show E (td_created d))) id r, t'))"
  by (simp add: temp_dir_close_def temp_dir_drop_def eff_map_err_def Let_def split: prod.split)

lemma removal_succeeds:
  assumes "td_created d \<noteq> []" "tf_entries t (td_created d) \<noteq> None" "to_rmdir E (td_created d) t = None"
  shows "temp_dir_drop E d t = without_tree (td_created d) {} t"
    and "temp_dir_close E d t = (Inr (), without_tree (td_created d) {} t)"
  using assms by (auto simp: close_then_drop temp_dir_drop_def os_remove_dir_all_def)

lemma removal_fails:
  assumes "td_created d \<noteq> []" "tf_entries t (td_created d) \<noteq> None" "to_rmdir E (td_created d) t = Some (e, kept)"
  shows "temp_dir_drop E d t = warn E (ascii ''skuld: warning: could not remove temporary directory ''
           @ to_show E (td_created d) @ ascii '': '' @ ie_text e) (without_tree (td_created d) kept t)"
    and "temp_dir_close E d t = (Inl (Io (ie_kind e) (ie_text e @ ascii '': '' @ to_show E (td_created d))),
           without_tree (td_created d) kept t)"
  using assms by (auto simp: close_then_drop temp_dir_drop_def os_remove_dir_all_def)

section \<open>The life of a temporary directory\<close>

lemma temp_dir_cases:
  assumes mk: "retries_taken_names unix_join mk" and run: "temp_dir nfd mk E nm s = (r, s')"
  obtains e where "r = Inl e" "s' = s"
  | p d rnd e where "r = Inl (Fixture_err e)" "td_created d = p @ [name_prefix nfd (to_pid E) nm @ rnd]"
      "tf_entries s (td_created d) = None" "s' = temp_dir_drop E d (made_at E (td_created d) s)"
  | p d rnd where "to_absolute E (to_tmp E) = Inr p" "random_part RANDOM_LEN rnd" "r = Inr d"
      "td_created d = p @ [name_prefix nfd (to_pid E) nm @ rnd]" "tf_entries s (td_created d) = None"
      "s' = made_at E (td_created d) s" "to_canonicalize E (td_created d) s' = Inr (td_path d)"
proof -
  obtain r1 s1 where w: "with_prefix_in nfd mk E nm (to_tmp E) s = (r1, s1)" by fastforce
  show ?thesis
  proof (rule with_prefix_in_cases [OF mk w])
    fix e assume "r1 = Inl e" "s1 = s"
    then show ?thesis using run w that(1) by (auto simp: temp_dir_def eff_bind_def eff_map_err_def)
  next
    fix p d rnd
    assume d: "to_absolute E (to_tmp E) = Inr p" "random_part RANDOM_LEN rnd" "r1 = Inr d"
      "td_created d = p @ [name_prefix nfd (to_pid E) nm @ rnd]" "td_path d = td_created d"
      "tf_entries s (td_created d) = None" "s1 = made_at E (td_created d) s"
    show ?thesis
    proof (cases "to_canonicalize E (td_created d) s1")
      case (Inl e)
      then have "r = Inl (Fixture_err (ascii ''failed to canonicalize temp dir: '' @ ie_text e))"
        "s' = temp_dir_drop E d s1"
        using run w d(3) by (simp_all add: temp_dir_def eff_bind_def eff_map_err_def)
      then show ?thesis using that(2) [OF _ d(4,6)] d(7) by blast
    next
      case (Inr q)
      then have "r = Inr (d\<lparr>td_path := q\<rparr>)" "s' = s1"
        using run w d(3) by (simp_all add: temp_dir_def eff_bind_def eff_map_err_def)
      then show ?thesis using that(3) [OF d(1,2), of "d\<lparr>td_path := q\<rparr>"] d Inr by simp
    qed
  qed
qed

lemma temp_dir_error_leaves_nothing:
  assumes "is_tree s" "tf_entries s (td_created d) = None" "td_created d \<noteq> []"
    "to_rmdir E (td_created d) (made_at E (td_created d) s) = None"
  shows "temp_dir_drop E d (made_at E (td_created d) s) = s"
  using drop_made [OF assms(1,2,3), of E] removal_succeeds(1) [OF assms(3) _ assms(4)] by (simp add: made_at_def)

text \<open>
  C34: The fixture \<open>temp_dir\<close> from creation to removal.  It returns a directory that did not exist
  before, in the temporary directory of the process and with a name of the form the naming rules
  give, readable by nobody but the owner whatever the umask; nothing else changes.  In every later
  state in which the directory exists, dropping it removes it with everything below and touches
  nothing else, silently when the removal succeeds; when the removal fails, the drop prints exactly
  one warning that names the directory, and \<open>close\<close> returns the error and prints nothing.  When the
  fixture returns an error, the file system is as before, unless the directory it had made
  could not be removed again.
\<close>

theorem temp_dir_lifecycle:
  assumes "retries_taken_names unix_join mk" "is_tree s" "temp_dir nfd mk E nm s = (r, s')"
  shows "case r of
      Inl _ \<Rightarrow> s' = s \<or> (\<exists>created. tf_entries s created = None \<and> to_rmdir E created (made_at E created s) \<noteq> None)
    | Inr d \<Rightarrow>
        (\<exists>p rnd m. to_absolute E (to_tmp E) = Inr p \<and> random_part RANDOM_LEN rnd
           \<and> td_created d = p @ [name_prefix nfd (to_pid E) nm @ rnd]
           \<and> tf_entries s (td_created d) = None \<and> m AND 63 = 0
           \<and> s' = s\<lparr>tf_entries := (tf_entries s)(td_created d \<mapsto> Directory m)\<rparr>)
        \<and> to_canonicalize E (td_created d) s' = Inr (td_path d)
        \<and> (\<forall>t. tf_entries t (td_created d) \<noteq> None \<longrightarrow> (case to_rmdir E (td_created d) t of
             None \<Rightarrow> temp_dir_close E d t = (Inr (), temp_dir_drop E d t)
               \<and> tf_stderr (temp_dir_drop E d t) = tf_stderr t
               \<and> (\<forall>q. tf_entries (temp_dir_drop E d t) q =
                      (if starts_with q (td_created d) then None else tf_entries t q))
           | Some (e, kept) \<Rightarrow>
               (\<exists>f. fst (temp_dir_close E d t) = Inl f \<and> ie_kind f = ie_kind e)
               \<and> tf_stderr (snd (temp_dir_close E d t)) = tf_stderr t
               \<and> temp_dir_drop E d t = warn E (ascii ''skuld: warning: could not remove temporary directory ''
                     @ to_show E (td_created d) @ ascii '': '' @ ie_text e) (snd (temp_dir_close E d t))))"
proof (rule temp_dir_cases [OF assms(1,3)])
  fix e assume "r = Inl e" "s' = s"
  then show ?thesis by simp
next
  fix p d rnd e
  assume d: "r = Inl (Fixture_err e)" "td_created d = p @ [name_prefix nfd (to_pid E) nm @ rnd]"
    "tf_entries s (td_created d) = None" "s' = temp_dir_drop E d (made_at E (td_created d) s)"
  have "td_created d \<noteq> []" using d(2) by simp
  then have "to_rmdir E (td_created d) (made_at E (td_created d) s) \<noteq> None \<or> s' = s"
    using temp_dir_error_leaves_nothing [OF assms(2) d(3), of E] d(4) by blast
  then show ?thesis using d(1,3) by auto
next
  fix p d rnd
  assume d: "to_absolute E (to_tmp E) = Inr p" "random_part RANDOM_LEN rnd" "r = Inr d"
    "td_created d = p @ [name_prefix nfd (to_pid E) nm @ rnd]" "tf_entries s (td_created d) = None"
    "s' = made_at E (td_created d) s" "to_canonicalize E (td_created d) s' = Inr (td_path d)"
  have ne: "td_created d \<noteq> []" using d(4) by simp
  have made: "\<exists>p rnd m. to_absolute E (to_tmp E) = Inr p \<and> random_part RANDOM_LEN rnd
      \<and> td_created d = p @ [name_prefix nfd (to_pid E) nm @ rnd] \<and> tf_entries s (td_created d) = None
      \<and> m AND 63 = 0 \<and> s' = s\<lparr>tf_entries := (tf_entries s)(td_created d \<mapsto> Directory m)\<rparr>"
    using d(1,2,4,5,6) private_mode unfolding made_at_def by blast
  show ?thesis
    using made d(3,7) removal_succeeds [OF ne] removal_fails [OF ne]
    by (auto simp: without_tree_def split: option.split)
qed

text \<open>A system on which nothing fails and every random part is six times the letter a.\<close>

definition demo_tos :: tos where
  "demo_tos = \<lparr>to_pid = 7, to_umask = 18, to_tmp = [ascii ''/'', ascii ''tmp''], to_absolute = Inr,
     to_canonicalize = (\<lambda>p _. Inr p), to_mkdir = (\<lambda>_ _. None), to_rmdir = (\<lambda>_ _. None), to_stderr = True,
     to_show = concat, to_debug_assertions = True\<rparr>"

definition demo_tfs :: tfs where
  "demo_tfs = \<lparr>tf_entries = [[ascii ''/''] \<mapsto> Directory 493, [ascii ''/'', ascii ''tmp''] \<mapsto> Directory 1023],
     tf_stderr = []\<rparr>"

definition demo_make_in :: unix_make_in where
  "demo_make_in pre n par create s =
     first_free create (map (\<lambda>r. par @ [pre @ r]) (replicate 65536 (replicate n 97))) s"

lemma demo_make_in_retries: "retries_taken_names unix_join demo_make_in"
  unfolding retries_taken_names_def demo_make_in_def
  by (intro allI exI [of _ "replicate 65536 (replicate n 97)" for n])
    (simp add: random_part_def list_all_iff)

lemma demo_tfs_tree: "is_tree demo_tfs"
  by (auto simp: is_tree_def demo_tfs_def split: if_splits)

lemma demo_free_first:
  assumes "create (f x) s = (Inr (), s')"
  shows "first_free create (map f (replicate 65536 x)) s = (Inr (f x), s')"
  using assms replicate_Suc [of 65535 x] by simp

definition demo_created :: upath where
  "demo_created = [ascii ''/'', ascii ''tmp'', ascii ''t-7-aaaaaa'']"

lemma demo_temp_name: "name_prefix (\<lambda>c. [c]) 7 (ascii ''t'') @ replicate 6 97 = ascii ''t-7-aaaaaa''"
proof -
  have "file_name_safe (\<lambda>c. [c]) (ascii ''t'') = ascii ''t''"
    by (simp add: file_name_safe_def ascii_def NAME_MAX_def RESERVED_PID_AND_RANDOM_def RANDOM_LEN_def
        Let_def safe_char_def is_control_def forbidden_chars_def char_cost_def len_utf8_def len_utf16_def
        is_dos_device_def device_base_def trim_end_spaces_def upper_uchar_def)
  moreover have "replicate 6 (97 :: uchar) = ascii ''aaaaaa''" by (simp add: eval_nat_numeral ascii_def)
  moreover have "show_nat 7 = ''7''" by code_simp
  ultimately show ?thesis by (simp add: name_prefix_def) (simp add: ascii_def)
qed

lemma demo_temp_dir_run:
  "temp_dir (\<lambda>c. [c]) demo_make_in demo_tos (ascii ''t'') demo_tfs =
     (Inr \<lparr>td_created = demo_created, td_path = demo_created\<rparr>, made_at demo_tos demo_created demo_tfs)"
proof -
  have par: "[ascii ''/'', ascii ''tmp''] @ [name_prefix (\<lambda>c. [c]) 7 (ascii ''t'') @ replicate 6 97] = demo_created"
    by (simp add: demo_temp_name demo_created_def)
  have "create_dir demo_tos demo_created demo_tfs = (Inr (), made_at demo_tos demo_created demo_tfs)"
    by (simp add: create_dir_def eff_map_err_def os_mkdir_def demo_tos_def demo_tfs_def demo_created_def made_at_def
        ascii_def)
  then have "demo_make_in (name_prefix (\<lambda>c. [c]) 7 (ascii ''t'')) 6 [ascii ''/'', ascii ''tmp''] (create_dir demo_tos) demo_tfs
      = (Inr demo_created, made_at demo_tos demo_created demo_tfs)"
    unfolding demo_make_in_def
    using demo_free_first [of "create_dir demo_tos" "\<lambda>r. [ascii ''/'', ascii ''tmp''] @ [name_prefix (\<lambda>c. [c]) 7 (ascii ''t'') @ r]"
        "replicate 6 97" demo_tfs] par by simp
  moreover have "is_absolute [ascii ''/'', ascii ''tmp'']" by (simp add: is_absolute_def starts_with_def)
  moreover have "to_absolute demo_tos = Inr" "to_tmp demo_tos = [ascii ''/'', ascii ''tmp'']" "to_pid demo_tos = 7"
    "to_canonicalize demo_tos = (\<lambda>p _. Inr p)" by (simp_all add: demo_tos_def)
  ultimately show ?thesis
    by (simp add: temp_dir_def with_prefix_in_def create_with_def eff_bind_def eff_map_err_def RANDOM_LEN_def ret_def)
qed

theorem temp_dir_lifecycle_witness:
  "\<exists>d s'. temp_dir (\<lambda>c. [c]) demo_make_in demo_tos (ascii ''t'') demo_tfs = (Inr d, s')
     \<and> tf_entries demo_tfs (td_created d) = None \<and> tf_entries s' (td_created d) \<noteq> None
     \<and> tf_entries (temp_dir_drop demo_tos d s') (td_created d) = None"
proof -
  have rm: "to_rmdir demo_tos q t = None" for q t by (simp add: demo_tos_def)
  have made: "tf_entries (made_at demo_tos demo_created demo_tfs) demo_created \<noteq> None" by (simp add: made_at_def)
  have self: "starts_with demo_created demo_created" by (simp add: starts_with_def)
  show ?thesis
    using temp_dir_lifecycle [OF demo_make_in_retries demo_tfs_tree demo_temp_dir_run] made self demo_temp_dir_run by (auto simp: rm)
qed

end
