(* ===== verification/Win_NT.thy ===== *)
theory Win_NT
  imports Temp_Dir_Life
begin

text \<open>
  Native opens on Windows (\<open>src/win_nt.rs\<close>) and their two clients: the creation of temporary
  directories (\<open>src/fixtures/temp_dir.rs\<close>, Windows) and the probe that finds out whether the
  directory of the database is usable (\<open>src/coordination/db_dir/windows_probe.rs\<close>).  What the kernel
  answers is a parameter, the record \<open>nt_os\<close>; the handles the process holds, the files it has created
  and what it logged are state.  A wide string is a list of 16-bit units, a path the list of its
  \<open>std::path::Components\<close>.
\<close>

section \<open>Statuses and handles\<close>

type_synonym wide = "nat list"
type_synonym ntstatus = "32 word"
type_synonym handle = nat

abbreviation STATUS_OBJECT_NAME_NOT_FOUND :: ntstatus where "STATUS_OBJECT_NAME_NOT_FOUND \<equiv> 0xC0000034"
abbreviation STATUS_OBJECT_NAME_COLLISION :: ntstatus where "STATUS_OBJECT_NAME_COLLISION \<equiv> 0xC0000035"
abbreviation STATUS_DELETE_PENDING :: ntstatus where "STATUS_DELETE_PENDING \<equiv> 0xC0000056"
abbreviation STATUS_NOT_A_DIRECTORY :: ntstatus where "STATUS_NOT_A_DIRECTORY \<equiv> 0xC0000103"
abbreviation STATUS_NAME_TOO_LONG :: ntstatus where "STATUS_NAME_TOO_LONG \<equiv> 0xC0000106"

text \<open>\<open>NTSTATUS::is_err\<close>: the sign bit.\<close>

definition nt_is_err :: "ntstatus \<Rightarrow> bool" where
  "nt_is_err st \<longleftrightarrow> sint st < 0"

abbreviation FILE_READ_ATTRIBUTES :: "32 word" where "FILE_READ_ATTRIBUTES \<equiv> 0x80"
abbreviation FILE_GENERIC_READ :: "32 word" where "FILE_GENERIC_READ \<equiv> 0x120089"
abbreviation FILE_GENERIC_WRITE :: "32 word" where "FILE_GENERIC_WRITE \<equiv> 0x120116"
abbreviation DELETE_ACCESS :: "32 word" where "DELETE_ACCESS \<equiv> 0x10000"
abbreviation FILE_SHARE_ALL :: "32 word" where "FILE_SHARE_ALL \<equiv> 7"
abbreviation FILE_SHARE_NONE :: "32 word" where "FILE_SHARE_NONE \<equiv> 0"
abbreviation FILE_ATTRIBUTE_TEMPORARY :: "32 word" where "FILE_ATTRIBUTE_TEMPORARY \<equiv> 0x100"
abbreviation FILE_DIRECTORY_FILE :: "32 word" where "FILE_DIRECTORY_FILE \<equiv> 1"
abbreviation FILE_SYNCHRONOUS_IO_NONALERT :: "32 word" where "FILE_SYNCHRONOUS_IO_NONALERT \<equiv> 0x20"
abbreviation FILE_DELETE_ON_CLOSE :: "32 word" where "FILE_DELETE_ON_CLOSE \<equiv> 0x1000"

datatype disposition = FILE_OPEN | FILE_CREATE

record nt_call =
  nc_root :: "handle option"
  nc_name :: wide
  nc_access :: "32 word"
  nc_attributes :: "32 word"
  nc_share :: "32 word"
  nc_disposition :: disposition
  nc_options :: "32 word"

record std_info =
  si_delete_pending :: bool
  si_directory :: bool

section \<open>Paths\<close>

datatype win_prefix =
    Verbatim wide
  | VerbatimUNC wide wide
  | VerbatimDisk nat
  | DeviceNS wide
  | UNC wide wide
  | Disk nat

datatype wcomp = Prefix_comp win_prefix | RootDir | CurDir | ParentDir | Normal wide

type_synonym wpath = "wcomp list"

text \<open>
  \<open>nt_dos_error\<close> is \<open>io::Error::from_raw_os_error\<close> of \<open>RtlNtStatusToDosError\<close>; the \<open>show\<close> fields are the
  debug formatting of paths, names and results.
\<close>

record 'x nt_os =
  nt_create_file :: "nt_call \<Rightarrow> 'x \<Rightarrow> ntstatus \<times> handle \<times> 'x"
  nt_query_info :: "handle \<Rightarrow> ('x, io_err, std_info) eff"
  nt_close :: "handle \<Rightarrow> ('x, ustr, unit) eff"
  nt_absolute :: "wpath \<Rightarrow> (io_err, wpath) result"
  nt_dos_error :: "ntstatus \<Rightarrow> io_err"
  nt_show :: "wpath \<Rightarrow> ustr"
  nt_show_name :: "wide \<Rightarrow> ustr"
  nt_show_seen :: "(ntstatus, unit) result \<Rightarrow> ustr"
  nt_skuld_debug :: bool
  nt_debug_assertions :: bool

record 'x win =
  wn_os :: 'x
  wn_open :: "handle list"
  wn_made :: "nt_call list"
  wn_log :: "ustr list"

datatype win_fail = Win_err io_err | Win_panic ustr

text \<open>\<open>{:#010x}\<close>: eight lower-case digits after \<open>0x\<close>.\<close>

definition hex_digit :: "nat \<Rightarrow> uchar" where
  "hex_digit d = (if d < 10 then 48 + d else 87 + d)"

definition show_status :: "ntstatus \<Rightarrow> ustr" where
  "show_status st = ascii ''0x'' @ map (\<lambda>i. hex_digit (unat st div 16 ^ i mod 16)) [7, 6, 5, 4, 3, 2, 1, 0]"

definition nt_invalid :: "'x nt_os \<Rightarrow> wpath \<Rightarrow> ustr \<Rightarrow> win_fail" where
  "nt_invalid C full why = Win_err (Io Invalid_input (nt_show C full @ ascii '': '' @ why))"

definition nt_prefix :: "win_prefix \<Rightarrow> wide" where
  "nt_prefix pre = (case pre of
       Disk drive \<Rightarrow> [drive, 0x3A]
     | VerbatimDisk drive \<Rightarrow> [drive, 0x3A]
     | UNC server share \<Rightarrow> ascii ''UNC'' @ [0x5C] @ server @ [0x5C] @ share
     | VerbatimUNC server share \<Rightarrow> ascii ''UNC'' @ [0x5C] @ server @ [0x5C] @ share
     | Verbatim nm \<Rightarrow> nm
     | DeviceNS nm \<Rightarrow> nm)"

fun nt_walk :: "'x nt_os \<Rightarrow> wpath \<Rightarrow> wpath \<Rightarrow> wide \<Rightarrow> bool \<Rightarrow> bool \<Rightarrow> (win_fail, wide \<times> bool \<times> bool) result" where
  "nt_walk C full [] out rooted named = Inr (out, rooted, named)"
| "nt_walk C full (RootDir # cs) out rooted named = nt_walk C full cs out True named"
| "nt_walk C full (Normal nm # cs) out rooted named =
     (if 0x2F \<in> set nm then Inl (nt_invalid C full (nt_show_name C nm @ ascii '' is not a single path component''))
      else nt_walk C full cs (out @ [0x5C] @ nm) rooted True)"
| "nt_walk C full (CurDir # cs) out rooted named =
     Inl (nt_invalid C full (ascii ''a verbatim path cannot contain `.` or `..`''))"
| "nt_walk C full (ParentDir # cs) out rooted named =
     Inl (nt_invalid C full (ascii ''a verbatim path cannot contain `.` or `..`''))"
| "nt_walk C full (Prefix_comp pre # cs) out rooted named =
     Inl (Win_panic (ascii ''only a path's first component is a prefix''))"

definition nt_path :: "'x nt_os \<Rightarrow> wpath \<Rightarrow> (win_fail, wide) result" where
  "nt_path C full = (case full of
       Prefix_comp pre # cs \<Rightarrow>
         result_bind (nt_walk C full cs ([0x5C, 0x3F, 0x3F, 0x5C] @ nt_prefix pre) False False)
           (\<lambda>(out, rooted, named). Inr (if rooted \<and> \<not> named then out @ [0x5C] else out))
     | _ \<Rightarrow> Inl (nt_invalid C full (ascii ''not an absolute path with a prefix'')))"

section \<open>The calls\<close>

definition nt_create :: "'x nt_os \<Rightarrow> nt_call \<Rightarrow> ('x win, ntstatus, handle) eff" where
  "nt_create C c w =
     (if 2 * length (nc_name c) \<ge> 2 ^ 16 then (Inl STATUS_NAME_TOO_LONG, w)
      else case nt_create_file C c (wn_os w) of (st, h, x) \<Rightarrow>
        if nt_is_err st then (Inl st, w\<lparr>wn_os := x\<rparr>)
        else (Inr h, w\<lparr>wn_os := x, wn_open := h # wn_open w,
            wn_made := (if nc_disposition c = FILE_CREATE then wn_made w @ [c] else wn_made w)\<rparr>))"

definition standard_info :: "'x nt_os \<Rightarrow> handle \<Rightarrow> ('x win, io_err, std_info) eff" where
  "standard_info C h w = (case nt_query_info C h (wn_os w) of (r, x) \<Rightarrow> (r, w\<lparr>wn_os := x\<rparr>))"

text \<open>\<open>CloseHandle\<close>; the drop of an \<open>OwnedHandle\<close> ignores what it answers.\<close>

definition close_handle :: "'x nt_os \<Rightarrow> handle \<Rightarrow> ('x win, ustr, unit) eff" where
  "close_handle C h w = (case nt_close C h (wn_os w) of (r, x) \<Rightarrow> (r, w\<lparr>wn_os := x, wn_open := remove1 h (wn_open w)\<rparr>))"

definition drop_handle :: "'x nt_os \<Rightarrow> handle \<Rightarrow> 'x win \<Rightarrow> 'x win" where
  "drop_handle C h w = snd (close_handle C h w)"

definition not_a_directory :: "'x nt_os \<Rightarrow> wpath \<Rightarrow> io_err" where
  "not_a_directory C p = Io Not_a_directory_kind (nt_show C p @ ascii '' is not a directory'')"

definition nt_error :: "'x nt_os \<Rightarrow> ntstatus \<Rightarrow> wpath \<Rightarrow> io_err" where
  "nt_error C st p = (let e = nt_dos_error C st in
     Io (ie_kind e) (ie_text e @ ascii '' (NTSTATUS '' @ show_status st @ ascii '') at path '' @ nt_show C p))"

definition open_dir_call :: "wide \<Rightarrow> nt_call" where
  "open_dir_call nm = \<lparr>nc_root = None, nc_name = nm, nc_access = FILE_READ_ATTRIBUTES, nc_attributes = 0,
     nc_share = FILE_SHARE_ALL, nc_disposition = FILE_OPEN, nc_options = FILE_DIRECTORY_FILE\<rparr>"

definition open_dir_error :: "'x nt_os \<Rightarrow> wpath \<Rightarrow> ntstatus \<Rightarrow> io_err" where
  "open_dir_error C full st =
     (if st = STATUS_DELETE_PENDING then
        Io Other_kind (nt_show C full @ ascii '', or a directory above it, is being deleted (NTSTATUS ''
          @ show_status st @ ascii '')'')
      else if st = STATUS_NOT_A_DIRECTORY then not_a_directory C full
      else nt_error C st full)"

definition open_dir :: "'x nt_os \<Rightarrow> wpath \<Rightarrow> ('x win, win_fail, handle) eff" where
  "open_dir C dir w = (case nt_absolute C dir of
       Inl e \<Rightarrow> (Inl (Win_err (Io (ie_kind e) (ie_text e @ ascii '': '' @ nt_show C dir))), w)
     | Inr full \<Rightarrow> (case nt_path C full of
         Inl f \<Rightarrow> (Inl f, w)
       | Inr nm \<Rightarrow> (case nt_create C (open_dir_call nm) w of
           (Inl st, w) \<Rightarrow> (Inl (Win_err (open_dir_error C full st)), w)
         | (Inr h, w) \<Rightarrow> (case standard_info C h w of
             (Inl e, w) \<Rightarrow> (Inl (Win_err (Io (ie_kind e)
                 (ascii ''cannot query '' @ nt_show C full @ ascii '': '' @ ie_text e))), drop_handle C h w)
           | (Inr info, w) \<Rightarrow>
               if \<not> si_directory info then (Inl (Win_err (not_a_directory C full)), drop_handle C h w)
               else (Inr h, w)))))"

section \<open>The NT name of a path\<close>

definition plain_comp :: "wcomp \<Rightarrow> bool" where
  "plain_comp c = (case c of RootDir \<Rightarrow> True | Normal nm \<Rightarrow> 0x2F \<notin> set nm | _ \<Rightarrow> False)"

fun comp_names :: "wpath \<Rightarrow> wide list" where
  "comp_names [] = []"
| "comp_names (Normal nm # cs) = nm # comp_names cs"
| "comp_names (c # cs) = comp_names cs"

definition backslashed :: "wide list \<Rightarrow> wide" where
  "backslashed nms = concat (map (\<lambda>nm. 0x5C # nm) nms)"

lemma backslashed_simps [simp]: "backslashed [] = []" "backslashed (nm # nms) = 0x5C # nm @ backslashed nms"
  by (simp_all add: backslashed_def)

lemma nt_walk_exact:
  "nt_walk C full cs out rooted named = Inr y \<longleftrightarrow> list_all plain_comp cs
     \<and> y = (out @ backslashed (comp_names cs), rooted \<or> RootDir \<in> set cs, named \<or> comp_names cs \<noteq> [])"
  by (induction C full cs out rooted named rule: nt_walk.induct) (auto simp: plain_comp_def)

lemma nt_path_exact:
  "nt_path C full = Inr nm \<longleftrightarrow> (\<exists>pre cs. full = Prefix_comp pre # cs \<and> list_all plain_comp cs
     \<and> nm = [0x5C, 0x3F, 0x3F, 0x5C] @ nt_prefix pre @ backslashed (comp_names cs)
         @ (if RootDir \<in> set cs \<and> comp_names cs = [] then [0x5C] else []))"
  by (auto simp: nt_path_def result_bind_Inr nt_walk_exact split: list.splits wcomp.splits)

text \<open>Names without a backslash can be read back.\<close>

lemma backslashed_inject:
  "list_all (\<lambda>nm. 0x5C \<notin> set nm) a \<Longrightarrow> list_all (\<lambda>nm. 0x5C \<notin> set nm) b \<Longrightarrow> backslashed a = backslashed b \<Longrightarrow> a = b"
proof (induction a arbitrary: b)
  case Nil
  then show ?case by (cases b) simp_all
next
  case (Cons x a)
  then obtain y b' where b: "b = y # b'" by (cases b) simp_all
  have split: "takeWhile (\<lambda>c. c \<noteq> 0x5C) (nm @ backslashed r) = nm" if "0x5C \<notin> set nm" for nm r
    using that by (cases r) (auto simp: takeWhile_append2 takeWhile_tail)
  have eq: "x @ backslashed a = y @ backslashed b'" using Cons.prems(3) b by simp
  moreover have "0x5C \<notin> set x" "0x5C \<notin> set y" using Cons.prems(1,2) b by simp_all
  ultimately have "x = y" using split by metis
  then show ?case using Cons b eq by simp
qed

text \<open>
  Every component list the standard library can produce for an absolute path: the prefix comes
  first and only there, and the names have no backslash.
\<close>

fun std_path :: "wpath \<Rightarrow> bool" where
  "std_path (Prefix_comp pre # cs) \<longleftrightarrow> list_all (\<lambda>c. case c of Prefix_comp _ \<Rightarrow> False | Normal nm \<Rightarrow> 0x5C \<notin> set nm | _ \<Rightarrow> True) cs"
| "std_path _ \<longleftrightarrow> False"

lemma nt_walk_no_panic:
  "list_all (\<lambda>c. case c of Prefix_comp _ \<Rightarrow> False | _ \<Rightarrow> True) cs \<Longrightarrow> nt_walk C full cs out rooted named \<noteq> Inl (Win_panic m)"
  by (induction C full cs out rooted named rule: nt_walk.induct) (auto simp: nt_invalid_def)

lemma nt_path_no_panic:
  assumes "std_path full"
  shows "nt_path C full \<noteq> Inl (Win_panic m)"
proof -
  obtain pre cs where f: "full = Prefix_comp pre # cs" using assms by (cases full rule: std_path.cases) auto
  have "list_all (\<lambda>c. case c of Prefix_comp _ \<Rightarrow> False | _ \<Rightarrow> True) cs"
    using assms f by (auto simp: list_all_iff split: wcomp.splits)
  from nt_walk_no_panic [OF this, of C full "[0x5C, 0x3F, 0x3F, 0x5C] @ nt_prefix pre" False False m]
  show ?thesis using f
    by (cases "nt_walk C full cs ([0x5C, 0x3F, 0x3F, 0x5C] @ nt_prefix pre) False False")
      (auto simp: nt_path_def)
qed

lemma std_path_names: "std_path (Prefix_comp pre # cs) \<Longrightarrow> list_all (\<lambda>nm. 0x5C \<notin> set nm) (comp_names cs)"
  by (induction cs rule: comp_names.induct) auto

text \<open>
  The NT name of a path.  It exists exactly when the path has a prefix and every later component is
  the root or a name without a slash; it is \<open>\??\<close>, the prefix, and each name after a backslash,
  with a lone backslash for the root itself; computing it never panics; and two rooted paths with
  the same prefix and the same NT name have the same names.
\<close>

theorem nt_path_names_the_path:
  assumes "std_path full"
  shows "(nt_path C full = Inr nm \<longleftrightarrow> (\<exists>pre cs. full = Prefix_comp pre # cs \<and> list_all plain_comp cs
     \<and> nm = [0x5C, 0x3F, 0x3F, 0x5C] @ nt_prefix pre @ backslashed (comp_names cs)
         @ (if RootDir \<in> set cs \<and> comp_names cs = [] then [0x5C] else [])))
    \<and> nt_path C full \<noteq> Inl (Win_panic m)
    \<and> (\<forall>pre a b. full = Prefix_comp pre # RootDir # a \<longrightarrow> std_path (Prefix_comp pre # RootDir # b)
         \<longrightarrow> nt_path C full = Inr nm \<longrightarrow> nt_path C (Prefix_comp pre # RootDir # b) = Inr nm
         \<longrightarrow> [] \<notin> set (comp_names a) \<longrightarrow> [] \<notin> set (comp_names b) \<longrightarrow> comp_names a = comp_names b)"
proof -
  have "comp_names a = comp_names b"
    if "full = Prefix_comp pre # RootDir # a" "std_path (Prefix_comp pre # RootDir # b)" "nt_path C full = Inr nm"
      "nt_path C (Prefix_comp pre # RootDir # b) = Inr nm" "[] \<notin> set (comp_names a)" "[] \<notin> set (comp_names b)" for pre a b
  proof -
    have wf: "list_all (\<lambda>x. 0x5C \<notin> set x) (comp_names a)" "list_all (\<lambda>x. 0x5C \<notin> set x) (comp_names b)"
      using std_path_names [of pre "RootDir # a"] std_path_names [of pre "RootDir # b"] assms that(1,2) by simp_all
    have "backslashed (if comp_names a = [] then [[]] else comp_names a)
        = backslashed (if comp_names b = [] then [[]] else comp_names b)"
      using that(1,3,4) by (auto simp: nt_path_exact split: if_splits)
    moreover have "list_all (\<lambda>x. 0x5C \<notin> set x) (if comp_names c = [] then [[]] else comp_names c)"
      if "list_all (\<lambda>x. 0x5C \<notin> set x) (comp_names c)" for c using that by simp
    ultimately have "(if comp_names a = [] then [[]] else comp_names a) = (if comp_names b = [] then [[]] else comp_names b)"
      using backslashed_inject wf by blast
    moreover have "comp_names c \<noteq> [[]]" if "[] \<notin> set (comp_names c)" for c using that by auto
    ultimately show ?thesis using that(5,6) by (metis (full_types))
  qed
  then show ?thesis using nt_path_exact [of C full nm] nt_path_no_panic [OF assms] by blast
qed

section \<open>Handles\<close>

text \<open>What each call does to the handles, the created files and the log.\<close>

lemma nt_create_Inl:
  "nt_create C c w = (Inl st, w') \<Longrightarrow> wn_open w' = wn_open w \<and> wn_made w' = wn_made w \<and> wn_log w' = wn_log w"
  by (auto simp: nt_create_def split: if_splits prod.splits)

lemma nt_create_Inr:
  "nt_create C c w = (Inr h, w') \<Longrightarrow> wn_open w' = h # wn_open w \<and> wn_log w' = wn_log w
     \<and> wn_made w' = (if nc_disposition c = FILE_CREATE then wn_made w @ [c] else wn_made w)"
  by (auto simp: nt_create_def split: if_splits prod.splits)

lemma standard_info_keeps:
  "standard_info C h w = (r, w') \<Longrightarrow> wn_open w' = wn_open w \<and> wn_made w' = wn_made w \<and> wn_log w' = wn_log w"
  by (auto simp: standard_info_def split: prod.splits)

lemma close_handle_keeps:
  "close_handle C h w = (r, w') \<Longrightarrow> wn_open w' = remove1 h (wn_open w) \<and> wn_made w' = wn_made w \<and> wn_log w' = wn_log w"
  by (auto simp: close_handle_def split: prod.splits)

lemma drop_handle_keeps [simp]:
  "wn_open (drop_handle C h w) = remove1 h (wn_open w)" "wn_made (drop_handle C h w) = wn_made w"
  "wn_log (drop_handle C h w) = wn_log w"
  using close_handle_keeps [of C h w] by (cases "close_handle C h w"; simp add: drop_handle_def)+

lemmas nt_keeps = nt_create_Inl nt_create_Inr standard_info_keeps close_handle_keeps

lemma open_dir_keeps:
  assumes "open_dir C dir w = (r, w')"
  shows "wn_made w' = wn_made w" "wn_log w' = wn_log w"
    "wn_open w' = (case r of Inl _ \<Rightarrow> wn_open w | Inr h \<Rightarrow> h # wn_open w)"
  using assms
  by (auto simp: open_dir_def open_dir_call_def dest!: nt_keeps split: sum.splits prod.splits if_splits)

lemma open_dir_no_panic:
  assumes "open_dir C dir w = (r, w')" "\<And>full. nt_absolute C dir = Inr full \<Longrightarrow> std_path full"
  shows "r \<noteq> Inl (Win_panic m)"
  using assms nt_path_no_panic by (fastforce simp: open_dir_def split: sum.splits prod.splits if_splits)

end
