(* ===== verification/Win_Probe.thy ===== *)
theory Win_Probe
  imports Win_NT
begin

text \<open>
  The two clients of the native opens.  A new temporary directory is created relative to the open
  handle of its parent, and only a taken name is retried.  The probe of the database directory
  creates a file that is deleted when its handle closes; it moves on from a taken name, so it is a
  loop, and whether it ends depends on what the kernel answers.
\<close>

section \<open>Temporary directories\<close>

definition wfile_name :: "wpath \<Rightarrow> wide option" where
  "wfile_name p = (case rev p of Normal nm # _ \<Rightarrow> Some nm | _ \<Rightarrow> None)"

definition win_join :: "wpath \<Rightarrow> ustr \<Rightarrow> wpath" where
  "win_join p nm = p @ [Normal (to_utf16 nm)]"

definition create_dir_call :: "handle \<Rightarrow> wide \<Rightarrow> nt_call" where
  "create_dir_call h nm = \<lparr>nc_root = Some h, nc_name = nm, nc_access = FILE_READ_ATTRIBUTES, nc_attributes = 0,
     nc_share = FILE_SHARE_ALL, nc_disposition = FILE_CREATE, nc_options = FILE_DIRECTORY_FILE\<rparr>"

definition not_retried :: "io_err \<Rightarrow> io_err" where
  "not_retried e = (if ie_kind e = Already_exists then Io Other_kind (ie_text e) else e)"

text \<open>A panic ends the retries like an error of its own kind.\<close>

definition create_dir_win :: "'x nt_os \<Rightarrow> handle \<Rightarrow> wpath \<Rightarrow> wpath \<Rightarrow> ('x win, io_err, unit) eff" where
  "create_dir_win C h par path w = (case wfile_name path of
       None \<Rightarrow> (Inl (Io Panicked (ascii ''tempfile names a child'')), w)
     | Some nm \<Rightarrow>
         let taken = (\<lambda>why. Io Already_exists (nt_show C path @ ascii '' '' @ why)) in
         (case nt_create C (create_dir_call h nm) w of
            (Inr made, w) \<Rightarrow> (Inr (), drop_handle C made w)
          | (Inl st, w) \<Rightarrow>
              if st = STATUS_OBJECT_NAME_COLLISION then (Inl (taken (ascii ''exists'')), w)
              else if st \<noteq> STATUS_DELETE_PENDING then (Inl (not_retried (nt_error C st path)), w)
              else (case standard_info C h w of
                  (Inl e, w) \<Rightarrow> (Inl (not_retried (Io (ie_kind e)
                     (ascii ''creating '' @ nt_show C path @ ascii '' gave NTSTATUS '' @ show_status st
                      @ ascii '', and asking whether '' @ nt_show C par @ ascii '' is being deleted failed: '' @ ie_text e))), w)
                | (Inr info, w) \<Rightarrow>
                    if si_delete_pending info
                    then (Inl (Io Other_kind (nt_show C par @ ascii '' is being deleted (NTSTATUS ''
                            @ show_status st @ ascii '')'')), w)
                    else (Inl (taken (ascii ''is held by an entry being deleted'')), w))))"

definition win_is_absolute :: "wpath \<Rightarrow> bool" where
  "win_is_absolute p = (case p of
       Prefix_comp (Disk _) # cs \<Rightarrow> (case cs of RootDir # _ \<Rightarrow> True | _ \<Rightarrow> False)
     | Prefix_comp _ # _ \<Rightarrow> True
     | _ \<Rightarrow> False)"

definition map_fail :: "('e \<Rightarrow> 'f) \<Rightarrow> ('p, 'e) td_fail \<Rightarrow> ('p, 'f) td_fail" where
  "map_fail f x = (case x of Failed e \<Rightarrow> Failed (f e) | Not_absolute_parent p \<Rightarrow> Not_absolute_parent p)"

definition with_prefix_in_win :: "(uchar \<Rightarrow> ustr) \<Rightarrow> (wpath, 'x win) make_in \<Rightarrow> nat \<Rightarrow> 'x nt_os \<Rightarrow> ustr \<Rightarrow> wpath
    \<Rightarrow> ('x win, (wpath, win_fail) td_fail, wpath temp_dir_guard) eff" where
  "with_prefix_in_win nfd make_in pid C wanted par w = (case nt_absolute C par of
       Inl e \<Rightarrow> (Inl (Failed (Win_err (Io (ie_kind e) (ie_text e @ ascii '': '' @ nt_show C par)))), w)
     | Inr par \<Rightarrow> (case open_dir C par w of
         (Inl f, w) \<Rightarrow> (Inl (Failed f), w)
       | (Inr h, w) \<Rightarrow>
           (case eff_map_err (map_fail Win_err)
                   (create_with nfd make_in pid (nt_debug_assertions C \<and> \<not> win_is_absolute par) wanted par
                      (create_dir_win C h par)) w of
              (r, w) \<Rightarrow> (r, drop_handle C h w))))"

section \<open>The probe of the database directory\<close>


definition debug_line :: "'x nt_os \<Rightarrow> ustr \<Rightarrow> 'x win \<Rightarrow> 'x win" where
  "debug_line C msg w = (if nt_skuld_debug C then w\<lparr>wn_log := wn_log w @ [ascii ''[skuld-debug] '' @ msg]\<rparr> else w)"

definition debug_fails :: "'x nt_os \<Rightarrow> ustr \<Rightarrow> ('x win, win_fail, unit) eff" where
  "debug_fails C msg w =
     (let w = debug_line C msg w in if nt_debug_assertions C then (Inl (Win_panic msg), w) else (Inr (), w))"

definition probe_call :: "handle \<Rightarrow> wide \<Rightarrow> nt_call" where
  "probe_call h nm = \<lparr>nc_root = Some h, nc_name = nm,
     nc_access = FILE_GENERIC_READ OR FILE_GENERIC_WRITE OR DELETE_ACCESS, nc_attributes = FILE_ATTRIBUTE_TEMPORARY,
     nc_share = FILE_SHARE_NONE, nc_disposition = FILE_CREATE,
     nc_options = FILE_DELETE_ON_CLOSE OR FILE_SYNCHRONOUS_IO_NONALERT\<rparr>"

definition reopen_call :: "handle \<Rightarrow> wide \<Rightarrow> nt_call" where
  "reopen_call h nm = \<lparr>nc_root = Some h, nc_name = nm, nc_access = FILE_READ_ATTRIBUTES, nc_attributes = 0,
     nc_share = FILE_SHARE_ALL, nc_disposition = FILE_OPEN, nc_options = 0\<rparr>"

definition close_probe :: "'x nt_os \<Rightarrow> handle \<Rightarrow> handle \<Rightarrow> wide \<Rightarrow> wpath \<Rightarrow> ('x win, win_fail, unit) eff" where
  "close_probe C file h nm path w = (case close_handle C file w of
       (Inl e, w) \<Rightarrow> debug_fails C (ascii ''closing probe file '' @ nt_show C path @ ascii '' failed: '' @ e) w
     | (Inr _, w) \<Rightarrow> (case nt_create C (reopen_call h nm) w of
         (Inl st, w) \<Rightarrow>
           if st = STATUS_OBJECT_NAME_NOT_FOUND \<or> st = STATUS_DELETE_PENDING then (Inr (), w)
           else debug_fails C (ascii ''probe file '' @ nt_show C path @ ascii '' was not deleted on close: ''
                  @ nt_show_seen C (Inl st)) w
       | (Inr seen, w) \<Rightarrow>
           debug_fails C (ascii ''probe file '' @ nt_show C path @ ascii '' was not deleted on close: ''
             @ nt_show_seen C (Inr ())) (drop_handle C seen w)))"

text \<open>One turn of the loop: \<open>Inr False\<close> goes on with the next name, \<open>Inr True\<close> returns \<open>Ok\<close>.\<close>

definition probe_turn :: "'x nt_os \<Rightarrow> wpath \<Rightarrow> handle \<Rightarrow> ustr \<Rightarrow> ('x win, win_fail, bool) eff" where
  "probe_turn C dir h nm w =
     (if nt_debug_assertions C \<and> (nm = [] \<or> 0x5C \<in> set nm \<or> 0x2F \<in> set nm)
      then (Inl (Win_panic (ascii ''probe name '' @ nm @ ascii '' must be a single path component'')), w)
      else
        let wide = to_utf16 nm in
        (case nt_create C (probe_call h wide) w of
           (Inr file, w) \<Rightarrow> (case close_probe C file h wide (win_join dir nm) w of
                (Inl f, w) \<Rightarrow> (Inl f, w) | (Inr _, w) \<Rightarrow> (Inr True, w))
         | (Inl st, w) \<Rightarrow>
             if st = STATUS_OBJECT_NAME_COLLISION then (Inr False, w)
             else if st \<noteq> STATUS_DELETE_PENDING then (Inl (Win_err (nt_error C st (win_join dir nm))), w)
             else (case standard_info C h w of
                 (Inl e, w) \<Rightarrow> (Inl (Win_err (Io (ie_kind e)
                    (ascii ''creating '' @ nt_show C (win_join dir nm) @ ascii '' gave NTSTATUS '' @ show_status st
                     @ ascii '', and asking whether '' @ nt_show C dir @ ascii '' is being deleted failed: '' @ ie_text e))), w)
               | (Inr info, w) \<Rightarrow>
                   if si_delete_pending info
                   then (Inl (Win_err (Io Other_kind (ascii ''the directory is being deleted (NTSTATUS ''
                           @ show_status st @ ascii '')''))), w)
                   else (Inr False, w))))"

text \<open>\<open>next_name\<close> counts from 1; the loop may go on for ever.\<close>

partial_function (option) probe_loop ::
    "'x nt_os \<Rightarrow> wpath \<Rightarrow> handle \<Rightarrow> (nat \<Rightarrow> ustr) \<Rightarrow> nat \<Rightarrow> 'x win \<Rightarrow> ((win_fail, unit) result \<times> 'x win) option" where
  "probe_loop C dir h names n w = (case probe_turn C dir h (names n) w of
       (Inl f, w') \<Rightarrow> Some (Inl f, w')
     | (Inr found, w') \<Rightarrow> if found then Some (Inr (), w') else probe_loop C dir h names (Suc n) w')"

definition probe :: "'x nt_os \<Rightarrow> wpath \<Rightarrow> (nat \<Rightarrow> ustr) \<Rightarrow> 'x win \<Rightarrow> ((win_fail, unit) result \<times> 'x win) option" where
  "probe C dir names w = (case open_dir C dir w of
       (Inl f, w) \<Rightarrow> Some (Inl f, w)
     | (Inr h, w) \<Rightarrow> map_option (\<lambda>(r, w). (r, drop_handle C h w)) (probe_loop C dir h names 1 w))"


section \<open>Only a taken name is retried\<close>

text \<open>
  The kernel's answers to the creation of \<open>nm\<close>: the name is taken when it collides, or when it is held
  by a deleted entry in a directory that is not itself being deleted.
\<close>

definition name_taken :: "'x nt_os \<Rightarrow> handle \<Rightarrow> nt_call \<Rightarrow> 'x win \<Rightarrow> bool" where
  "name_taken C h c w = (case nt_create C c w of
       (Inr _, _) \<Rightarrow> False
     | (Inl st, w') \<Rightarrow> st = STATUS_OBJECT_NAME_COLLISION
         \<or> (st = STATUS_DELETE_PENDING \<and> (case standard_info C h w' of
               (Inr info, _) \<Rightarrow> \<not> si_delete_pending info | (Inl _, _) \<Rightarrow> False)))"

lemma not_retried_kind [simp]: "ie_kind (not_retried e) \<noteq> Already_exists"
  by (simp add: not_retried_def)

lemma create_dir_win_exact:
  assumes "wfile_name path = Some nm"
  shows "(\<exists>e. fst (create_dir_win C h par path w) = Inl e \<and> ie_kind e = Already_exists)
           \<longleftrightarrow> name_taken C h (create_dir_call h nm) w"
    and "fst (create_dir_win C h par path w) = Inr () \<longleftrightarrow> isl (fst (nt_create C (create_dir_call h nm) w)) = False"
    and "wn_open (snd (create_dir_win C h par path w)) = wn_open w"
    and "wn_made (snd (create_dir_win C h par path w)) = wn_made w
           @ (if isl (fst (nt_create C (create_dir_call h nm) w)) then [] else [create_dir_call h nm])"
  using assms
  by (auto simp: create_dir_win_def name_taken_def create_dir_call_def Let_def dest!: nt_keeps
      split: prod.splits sum.splits if_splits)

lemma wfile_name_join [simp]: "wfile_name (win_join p nm) = Some (to_utf16 nm)"
  by (simp add: wfile_name_def win_join_def)

lemma create_dir_win_step:
  assumes "create_dir_win C h par (win_join p nm) w = (r, w')"
  shows "wn_open w' = wn_open w"
    and "wn_made w' = wn_made w @ (case r of Inl _ \<Rightarrow> [] | Inr _ \<Rightarrow> [create_dir_call h (to_utf16 nm)])"
  using create_dir_win_exact(2-4) [where path = "win_join p nm" and C = C and h = h and par = par and w = w] assms
  by (auto split: sum.splits)

lemma first_free_win:
  "first_free (create_dir_win C h par) (map (\<lambda>x. win_join p (pre @ x)) rs) w = (r, w') \<Longrightarrow> wn_open w' = wn_open w
     \<and> (case r of Inl _ \<Rightarrow> wn_made w' = wn_made w
        | Inr q \<Rightarrow> \<exists>x \<in> set rs. q = win_join p (pre @ x) \<and> wn_made w' = wn_made w @ [create_dir_call h (to_utf16 (pre @ x))])"
proof (induction rs arbitrary: w)
  case (Cons x rs)
  obtain r1 w1 where c: "create_dir_win C h par (win_join p (pre @ x)) w = (r1, w1)" by fastforce
  show ?case
  proof (cases r1)
    case (Inl e)
    then have keeps: "wn_open w1 = wn_open w" "wn_made w1 = wn_made w" using create_dir_win_step [OF c] by simp_all
    show ?thesis
    proof (cases "ie_kind e = Already_exists")
      case True
      then have "first_free (create_dir_win C h par) (map (\<lambda>x. win_join p (pre @ x)) rs) w1 = (r, w')"
        using Cons.prems c Inl by simp
      from Cons.IH [OF this] show ?thesis using keeps by (auto split: sum.splits)
    next
      case False
      then show ?thesis using Cons.prems c Inl keeps by auto
    qed
  next
    case (Inr u)
    then show ?thesis using Cons.prems c create_dir_win_step [OF c] by auto
  qed
qed auto

text \<open>
  A temporary directory on Windows.  A call that returns one has created exactly one entry, the
  directory it returns, relative to the open handle of its parent; a call that returns an error has
  created none; no handle stays open either way.  A creation is tried again exactly when its name
  was taken.
\<close>

theorem with_prefix_in_win_creates_one:
  assumes mk: "retries_taken_names win_join mk" and run: "with_prefix_in_win nfd mk pid C wanted par w = (r, w')"
  shows "wn_open w' = wn_open w
    \<and> (case r of
        Inl _ \<Rightarrow> wn_made w' = wn_made w
      | Inr d \<Rightarrow> \<exists>p h rnd. nt_absolute C par = Inr p \<and> random_part RANDOM_LEN rnd
          \<and> td_created d = win_join p (name_prefix nfd pid wanted @ rnd)
          \<and> wn_made w' = wn_made w @ [create_dir_call h (to_utf16 (name_prefix nfd pid wanted @ rnd))])"
proof (cases "nt_absolute C par")
  case (Inl e)
  then show ?thesis using run by (auto simp: with_prefix_in_win_def)
next
  case p: (Inr p)
  obtain r0 w0 where o: "open_dir C p w = (r0, w0)" by fastforce
  show ?thesis
  proof (cases r0)
    case (Inl f)
    then show ?thesis using run p o open_dir_keeps [OF o] by (auto simp: with_prefix_in_win_def)
  next
    case (Inr h)
    let ?pre = "name_prefix nfd pid wanted"
    obtain r1 w1 where m: "mk ?pre RANDOM_LEN p (create_dir_win C h p) w0 = (r1, w1)" by fastforce
    obtain rs where rs: "list_all (random_part RANDOM_LEN) rs"
      "first_free (create_dir_win C h p) (map (\<lambda>x. win_join p (?pre @ x)) rs) w0 = (r1, w1)"
      using mk m unfolding retries_taken_names_def by metis
    have o': "wn_open w0 = h # wn_open w" "wn_made w0 = wn_made w" using open_dir_keeps [OF o] Inr by simp_all
    have "r = map_sum (map_fail Win_err) id (case r1 of Inl e \<Rightarrow> Inl (Failed e) | Inr q \<Rightarrow> Inr \<lparr>td_created = q, td_path = q\<rparr>)
        \<and> w' = drop_handle C h w1 \<or> isl r \<and> w' = drop_handle C h w0"
      using run p o Inr m
      by (auto simp: with_prefix_in_win_def create_with_def eff_map_err_def eff_bind_def split: if_splits sum.splits)
    then show ?thesis using first_free_win [OF rs(2)] o' rs(1) p
      by (fastforce simp: list_all_iff split: sum.splits)
  qed
qed

section \<open>The probe ends, and leaves nothing\<close>


















end
