(* ===== verification/Open_DB.thy ===== *)
theory Open_DB
  imports Moved_DB Init_Lock Coord_Loop
begin

text \<open>
  Opening the coordination database (\<open>open_db\<close> of \<open>src/coordination.rs\<close>, Unix): under the init lock the
  connection is made, its identity recorded, the schema created and migrated, the companions
  recorded.  The record \<open>open_env\<close> holds what each step meets, in the order of the code; each snapshot
  is the file system at the moment of one check, so anything may happen to the files in between.
  Beside its result a run has the writes it made, each with what was checked before it.
\<close>

section \<open>Runs\<close>

datatype open_event =
    Wrote_schema snapshot "(errno, file_id) result"
  | Migration snapshot "(errno, file_id) result"

datatype 'p open_panic =
    Op_lock "unit init_panic"
  | Op_connect "'p connect_panic"
  | Op_busy_timeout str
  | Op_moved moved_panic
  | Op_split path
  | Op_failure str
  | Op_migration mig_event
  | Op_wrong_lock path

type_synonym ('p, 'a) open_run = "open_event list \<times> ('p open_panic, 'a) result option"

definition op_ret :: "'a \<Rightarrow> ('p, 'a) open_run" where
  "op_ret a = ([], Some (Inr a))"

definition op_panic :: "'p open_panic \<Rightarrow> ('p, 'a) open_run" where
  "op_panic e = ([], Some (Inl e))"

definition op_event :: "open_event \<Rightarrow> ('p, unit) open_run" where
  "op_event ev = ([ev], Some (Inr ()))"

definition op_bind :: "('p, 'a) open_run \<Rightarrow> ('a \<Rightarrow> ('p, 'b) open_run) \<Rightarrow> ('p, 'b) open_run" where
  "op_bind m k = (case m of
       (evs, Some (Inr a)) \<Rightarrow> (case k a of (evs', r) \<Rightarrow> (evs @ evs', r))
     | (evs, Some (Inl e)) \<Rightarrow> (evs, Some (Inl e))
     | (evs, None) \<Rightarrow> (evs, None))"

definition op_result :: "('e \<Rightarrow> 'p open_panic) \<Rightarrow> ('e, 'a) result \<Rightarrow> ('p, 'a) open_run" where
  "op_result f r = (case r of Inl e \<Rightarrow> op_panic (f e) | Inr a \<Rightarrow> op_ret a)"

section \<open>What the steps meet\<close>

text \<open>One call of the closure that creates the schema: the two checks, then \<open>execute_batch(INIT_SQL)\<close>.\<close>

record init_attempt =
  ia_snapshot :: snapshot
  ia_lock_dir :: "(errno, file_id) result"
  ia_result :: "(sqlite_error, unit) result"

record 'p open_env =
  oe_lock :: "(unit init_panic, file_id) result"             \<comment> \<open>\<open>with_init_lock\<close> up to its closure\<close>
  oe_passes :: "nat \<Rightarrow> (connection, 'p) open_pass"            \<comment> \<open>the passes of \<open>connect_with\<close>\<close>
  oe_busy_timeout :: "(str, unit) result"
  oe_recorded :: snapshot                                     \<comment> \<open>at \<open>record_main\<close>\<close>
  oe_inits :: "init_attempt list"
  oe_failure :: "sqlite_error \<Rightarrow> sqlite_failure"
  oe_errno :: int                                             \<comment> \<open>\<open>sqlite3_system_errno\<close> at the failure\<close>
  oe_failed :: snapshot                                       \<comment> \<open>when the failure is reported\<close>
  oe_after_init :: snapshot
  oe_after_init_dir :: "(errno, file_id) result"
  oe_migration :: mig_env
  oe_version :: int                                           \<comment> \<open>\<open>PRAGMA user_version\<close> before the lock\<close>
  oe_db :: db                                                 \<comment> \<open>the tables under \<open>BEGIN IMMEDIATE\<close>\<close>
  oe_after_migration_dir :: "(errno, file_id) result"
  oe_companions :: snapshot                                   \<comment> \<open>at \<open>with_companions\<close>\<close>
  oe_last_dir :: "(errno, file_id) result"
  oe_debug_path :: "path \<Rightarrow> str"
  oe_debug_assertions :: bool

section \<open>The steps\<close>

text \<open>\<open>stat_target\<close> answers with the identity of the lock's directory; an error counts as a split.\<close>

definition has_split :: "init_lock_held \<Rightarrow> (errno, file_id) result \<Rightarrow> bool" where
  "has_split tok r = (case r of Inr identity \<Rightarrow> identity \<noteq> held_identity tok | Inl _ \<Rightarrow> True)"

lemma target_has_split_answer:
  "target_has_split tok = lock_dir (held_path tok) (\<lambda>dir. Ask_stat (Stat dir) (\<lambda>r. Done (has_split tok (map_sum id st_id r))))"
  by (simp add: target_has_split_def stat_target_def lock_dir_def has_split_def split: option.split)

definition panic_on_split_lock :: "init_lock_held \<Rightarrow> (errno, file_id) result \<Rightarrow> ('p, unit) open_run" where
  "panic_on_split_lock tok r = (if has_split tok r then op_panic (Op_split (held_path tok)) else op_ret ())"

definition moved_check :: "snapshot \<Rightarrow> db_identity \<Rightarrow> path \<Rightarrow> ('p, unit) open_run" where
  "moved_check sn ident p = op_result Op_moved (panic_if_moved sn ident p)"

definition or_panic :: "'p open_env \<Rightarrow> db_identity \<Rightarrow> path \<Rightarrow> str \<Rightarrow> (sqlite_error, 'a) result \<Rightarrow> ('p, 'a) open_run" where
  "or_panic E ident p context r = (case r of
       Inr a \<Rightarrow> op_ret a
     | Inl e \<Rightarrow>
         (case failure_message (oe_debug_path E) (oe_failed E) ident (capture (oe_errno E) (oe_failure E e)) p context of
            Inl m \<Rightarrow> op_panic (Op_moved m)
          | Inr msg \<Rightarrow> op_panic (Op_failure msg)))"

definition lock_path_check :: "'p open_env \<Rightarrow> init_lock_held \<Rightarrow> path \<Rightarrow> ('p, unit) open_run" where
  "lock_path_check E tok p = (if oe_debug_assertions E \<and> held_path tok \<noteq> p then op_panic (Op_wrong_lock p) else op_ret ())"

definition connect_locked :: "nat \<Rightarrow> 'p open_env \<Rightarrow> path \<Rightarrow> init_lock_held \<Rightarrow> ('p, connection) open_run" where
  "connect_locked fuel E p tok =
     op_bind (lock_path_check E tok p) (\<lambda>_.
     op_bind (case connect_with fuel (oe_passes E) 0 of None \<Rightarrow> ([], None) | Some r \<Rightarrow> op_result Op_connect r) (\<lambda>conn.
     op_bind (op_result Op_busy_timeout (oe_busy_timeout E)) (\<lambda>_. op_ret conn)))"

text \<open>\<open>retry_busy\<close> around the closure; the loop ends when an attempt is not busy.\<close>

fun init_schema :: "'p open_env \<Rightarrow> db_identity \<Rightarrow> path \<Rightarrow> init_lock_held \<Rightarrow> init_attempt list
    \<Rightarrow> ('p, (sqlite_error, unit) result) open_run" where
  "init_schema E ident p tok [] = ([], None)"
| "init_schema E ident p tok (a # as) =
     op_bind (moved_check (ia_snapshot a) ident p) (\<lambda>_.
     op_bind (panic_on_split_lock tok (ia_lock_dir a)) (\<lambda>_.
     op_bind (op_event (Wrote_schema (ia_snapshot a) (ia_lock_dir a))) (\<lambda>_.
       case ia_result a of
         Inl e \<Rightarrow> if is_retryable e then init_schema E ident p tok as else op_ret (Inl e)
       | Inr _ \<Rightarrow> op_ret (Inr ()))))"

definition ensure_schema_locked :: "boolexpr \<Rightarrow> 'p open_env \<Rightarrow> path \<Rightarrow> db_identity \<Rightarrow> init_lock_held \<Rightarrow> ('p, db) open_run" where
  "ensure_schema_locked X E p ident tok =
     op_bind (lock_path_check E tok p) (\<lambda>_.
     op_bind (init_schema E ident p tok (oe_inits E)) (\<lambda>r.
     op_bind (or_panic E ident p ''failed to initialize coordination DB'' r) (\<lambda>_.
     op_bind (moved_check (oe_after_init E) ident p) (\<lambda>_.
     op_bind (panic_on_split_lock tok (oe_after_init_dir E)) (\<lambda>_.
     op_bind (op_event (Migration (oe_after_init E) (oe_after_init_dir E))) (\<lambda>_.
     op_bind (op_result Op_migration (migrate_schema X (oe_migration E) (oe_version E) (oe_db E))) (\<lambda>db.
     op_bind (panic_on_split_lock tok (oe_after_migration_dir E)) (\<lambda>_. op_ret db))))))))"

text \<open>The closure \<open>open_db\<close> runs under the lock, and \<open>open_db\<close>.\<close>

definition open_db_locked :: "nat \<Rightarrow> boolexpr \<Rightarrow> 'p open_env \<Rightarrow> path \<Rightarrow> init_lock_held
    \<Rightarrow> ('p, connection \<times> db_identity \<times> db) open_run" where
  "open_db_locked fuel X E p tok =
     op_bind (connect_locked fuel E p tok) (\<lambda>conn.
     op_bind (op_result Op_moved (record_main (oe_recorded E) conn p)) (\<lambda>ident.
     op_bind (ensure_schema_locked X E p ident tok) (\<lambda>db.
     op_bind (op_result Op_moved (with_companions (oe_companions E) ident conn p)) (\<lambda>ident'.
     op_bind (panic_on_split_lock tok (oe_last_dir E)) (\<lambda>_. op_ret (conn, ident', db))))))"

definition open_db :: "nat \<Rightarrow> boolexpr \<Rightarrow> 'p open_env \<Rightarrow> path \<Rightarrow> ('p, connection \<times> db_identity \<times> db) open_run" where
  "open_db fuel X E p =
     op_bind (op_result Op_lock (oe_lock E)) (\<lambda>identity.
       open_db_locked fuel X E p \<lparr>held_path = p, held_identity = identity\<rparr>)"

section \<open>Runs and their writes\<close>

lemma op_bind_Inr:
  "snd (op_bind m k) = Some (Inr b) \<longleftrightarrow> (\<exists>a. snd m = Some (Inr a) \<and> snd (k a) = Some (Inr b))"
  by (cases m; cases "snd m") (auto simp: op_bind_def split: sum.splits prod.splits)

lemma op_bind_event:
  "ev \<in> set (fst (op_bind m k)) \<longleftrightarrow> ev \<in> set (fst m) \<or> (\<exists>a. snd m = Some (Inr a) \<and> ev \<in> set (fst (k a)))"
  by (cases m; cases "snd m") (auto simp: op_bind_def split: sum.splits prod.splits)

lemma op_basic_simps [simp]:
  "snd (op_ret a) = Some (Inr b) \<longleftrightarrow> a = b" "fst (op_ret a) = []"
  "snd (op_panic e) \<noteq> Some (Inr b)" "fst (op_panic e) = []"
  "snd (op_event ev) = Some (Inr u)" "fst (op_event ev) = [ev]"
  by (simp_all add: op_ret_def op_panic_def op_event_def)

lemma op_result_simps [simp]:
  "snd (op_result f r) = Some (Inr b) \<longleftrightarrow> r = Inr b" "fst (op_result f r) = []"
  by (auto simp: op_result_def split: sum.splits)

lemma step_simps [simp]:
  "snd (panic_on_split_lock tok r) = Some (Inr u) \<longleftrightarrow> r = Inr (held_identity tok)" "fst (panic_on_split_lock tok r) = []"
  "snd (moved_check sn ident p) = Some (Inr u) \<longleftrightarrow> panic_if_moved sn ident p = Inr ()" "fst (moved_check sn ident p) = []"
  "snd (or_panic E ident p context x) = Some (Inr a) \<longleftrightarrow> x = Inr a" "fst (or_panic E ident p context x) = []"
  "snd (lock_path_check E \<lparr>held_path = p, held_identity = i\<rparr> p) = Some (Inr u)" "fst (lock_path_check E tok p) = []"
  by (auto simp: panic_on_split_lock_def has_split_def moved_check_def or_panic_def lock_path_check_def split: sum.splits)

lemma connect_locked_simps [simp]:
  "snd (connect_locked fuel E p \<lparr>held_path = p, held_identity = i\<rparr>) = Some (Inr conn)
     \<longleftrightarrow> connect_with fuel (oe_passes E) 0 = Some (Inr conn) \<and> oe_busy_timeout E = Inr ()"
  "fst (connect_locked fuel E p tok) = []"
  by (cases "connect_with fuel (oe_passes E) 0"; auto simp: connect_locked_def op_bind_Inr)
     (cases "connect_with fuel (oe_passes E) 0"; auto simp: connect_locked_def op_bind_def op_result_def op_ret_def op_panic_def
       lock_path_check_def split: sum.splits)

text \<open>An attempt whose two checks pass.\<close>

definition checked :: "db_identity \<Rightarrow> path \<Rightarrow> init_lock_held \<Rightarrow> snapshot \<Rightarrow> (errno, file_id) result \<Rightarrow> bool" where
  "checked ident p tok sn dir \<longleftrightarrow> panic_if_moved sn ident p = Inr () \<and> dir = Inr (held_identity tok)"

definition busy_attempt :: "db_identity \<Rightarrow> path \<Rightarrow> init_lock_held \<Rightarrow> init_attempt \<Rightarrow> bool" where
  "busy_attempt ident p tok a \<longleftrightarrow> checked ident p tok (ia_snapshot a) (ia_lock_dir a) \<and> ia_result a = Inl Database_busy"

lemma first_that_Cons:
  "(\<exists>pre b post. a # as = pre @ b # post \<and> list_all P pre \<and> Q b)
     \<longleftrightarrow> Q a \<or> (P a \<and> (\<exists>pre b post. as = pre @ b # post \<and> list_all P pre \<and> Q b))"
proof
  assume "\<exists>pre b post. a # as = pre @ b # post \<and> list_all P pre \<and> Q b"
  then obtain pre b post where "a # as = pre @ b # post" "list_all P pre" "Q b" by blast
  then show "Q a \<or> (P a \<and> (\<exists>pre b post. as = pre @ b # post \<and> list_all P pre \<and> Q b))" by (cases pre) auto
next
  assume "Q a \<or> (P a \<and> (\<exists>pre b post. as = pre @ b # post \<and> list_all P pre \<and> Q b))"
  then consider "Q a" | pre b post where "P a" "as = pre @ b # post" "list_all P pre" "Q b" by blast
  then show "\<exists>pre b post. a # as = pre @ b # post \<and> list_all P pre \<and> Q b"
  proof cases
    case 1
    then show ?thesis by (intro exI [of _ "[]"] exI [of _ a] exI [of _ as]) simp
  next
    case 2
    then show ?thesis by (intro exI [of _ "a # pre"] exI [of _ b] exI [of _ post]) simp
  qed
qed

definition deciding_attempt :: "db_identity \<Rightarrow> path \<Rightarrow> init_lock_held \<Rightarrow> (sqlite_error, unit) result \<Rightarrow> init_attempt \<Rightarrow> bool" where
  "deciding_attempt ident p tok r a \<longleftrightarrow> checked ident p tok (ia_snapshot a) (ia_lock_dir a)
     \<and> ia_result a = r \<and> r \<noteq> Inl Database_busy"

text \<open>Busy attempts, then one that decides.\<close>

definition schema_answers :: "db_identity \<Rightarrow> path \<Rightarrow> init_lock_held \<Rightarrow> init_attempt list \<Rightarrow> (sqlite_error, unit) result \<Rightarrow> bool" where
  "schema_answers ident p tok as r \<longleftrightarrow> (\<exists>pre a post. as = pre @ a # post
     \<and> list_all (busy_attempt ident p tok) pre \<and> deciding_attempt ident p tok r a)"

lemma init_schema_Inr: "snd (init_schema E ident p tok as) = Some (Inr r) \<longleftrightarrow> schema_answers ident p tok as r"
  unfolding schema_answers_def
proof (induction as)
  case (Cons a as)
  have "snd (init_schema E ident p tok (a # as)) = Some (Inr r) \<longleftrightarrow> deciding_attempt ident p tok r a
      \<or> (busy_attempt ident p tok a \<and> snd (init_schema E ident p tok as) = Some (Inr r))"
    by (auto simp: op_bind_Inr busy_attempt_def deciding_attempt_def checked_def is_retryable_def split: sum.splits)
  then show ?case unfolding first_that_Cons Cons.IH .
qed simp

lemma init_schema_event:
  "ev \<in> set (fst (init_schema E ident p tok as)) \<Longrightarrow> \<exists>sn dir. ev = Wrote_schema sn dir \<and> checked ident p tok sn dir"
  by (induction as) (auto simp: op_bind_event checked_def split: sum.splits if_splits)

section \<open>What an opened database is\<close>

text \<open>Every step of an opening that returns, in order.\<close>

definition opens_cleanly :: "nat \<Rightarrow> boolexpr \<Rightarrow> 'p open_env \<Rightarrow> path \<Rightarrow> file_id \<Rightarrow> connection \<Rightarrow> db_identity \<Rightarrow> db_identity \<Rightarrow> db \<Rightarrow> bool" where
  "opens_cleanly fuel X E p i conn ident0 ident db \<longleftrightarrow> (let tok = \<lparr>held_path = p, held_identity = i\<rparr> in
     oe_lock E = Inr i \<and> connect_with fuel (oe_passes E) 0 = Some (Inr conn) \<and> oe_busy_timeout E = Inr ()
     \<and> record_main (oe_recorded E) conn p = Inr ident0
     \<and> schema_answers ident0 p tok (oe_inits E) (Inr ())
     \<and> checked ident0 p tok (oe_after_init E) (oe_after_init_dir E)
     \<and> migrate_schema X (oe_migration E) (oe_version E) (oe_db E) = Inr db \<and> oe_after_migration_dir E = Inr i
     \<and> with_companions (oe_companions E) ident0 conn p = Inr ident \<and> oe_last_dir E = Inr i)"

lemma ensure_schema_locked_Inr:
  "snd (ensure_schema_locked X E p ident \<lparr>held_path = p, held_identity = i\<rparr>) = Some (Inr db) \<longleftrightarrow>
     schema_answers ident p \<lparr>held_path = p, held_identity = i\<rparr> (oe_inits E) (Inr ())
     \<and> checked ident p \<lparr>held_path = p, held_identity = i\<rparr> (oe_after_init E) (oe_after_init_dir E)
     \<and> migrate_schema X (oe_migration E) (oe_version E) (oe_db E) = Inr db \<and> oe_after_migration_dir E = Inr i"
  unfolding ensure_schema_locked_def op_bind_Inr by (auto simp: init_schema_Inr checked_def)

lemma ensure_schema_locked_event:
  assumes "ev \<in> set (fst (ensure_schema_locked X E p ident tok))"
  shows "\<exists>sn dir. (ev = Wrote_schema sn dir \<or> ev = Migration sn dir) \<and> checked ident p tok sn dir"
  using assms unfolding ensure_schema_locked_def
  by (auto simp: op_bind_event op_bind_Inr checked_def dest: init_schema_event)

lemma open_db_Inr:
  "snd (open_db fuel X E p) = Some (Inr (conn, ident, db)) \<longleftrightarrow> (\<exists>i ident0. opens_cleanly fuel X E p i conn ident0 ident db)"
  unfolding open_db_def open_db_locked_def opens_cleanly_def Let_def
  by (auto simp: op_bind_Inr ensure_schema_locked_Inr)

lemma open_db_event:
  assumes "ev \<in> set (fst (open_db fuel X E p))"
  shows "\<exists>i conn ident0 sn dir. oe_lock E = Inr i \<and> connect_with fuel (oe_passes E) 0 = Some (Inr conn)
    \<and> record_main (oe_recorded E) conn p = Inr ident0 \<and> (ev = Wrote_schema sn dir \<or> ev = Migration sn dir)
    \<and> checked ident0 p \<lparr>held_path = p, held_identity = i\<rparr> sn dir"
  using assms unfolding open_db_def open_db_locked_def
  by (auto simp: op_bind_event dest!: ensure_schema_locked_event)

lemma record_main_unmoved:
  assumes "record_main sn0 conn p = Inr ident0"
  shows "panic_if_moved sn ident0 p = Inr () \<longleftrightarrow> sn_fcntl sn = (0, False) \<and> sn_disk sn p = cn_main conn"
proof -
  have "di_companions ident0 = None" "cn_main conn = Some (di_main ident0)"
    using assms by (auto simp: record_main_def map_sum_Inr_iff record_main_identity_Inr)
  then show ?thesis by (simp add: panic_if_moved_ok)
qed

lemma migrate_schema_version:
  "migrate_schema X env current db = Inr db' \<Longrightarrow> current < SCHEMA_VERSION \<Longrightarrow> SCHEMA_VERSION \<le> db_user_version db'"
  by (auto simp: migrate_schema_def result_bind_Inr split: if_splits)

lemma opens_cleanly_identity:
  assumes "opens_cleanly fuel X E p i conn ident0 ident db"
  shows "\<exists>q. cn_path conn = Some q \<and> (\<forall>sn. panic_if_moved sn ident p = Inr () \<longleftrightarrow> sn_fcntl sn = (0, False)
    \<and> sn_disk sn p = cn_main conn \<and> sn_disk sn (companion_path q ''-wal'') = cn_wal conn
    \<and> sn_disk sn (companion_path q ''-shm'') = cn_shm conn)"
proof -
  have r: "record_main (oe_recorded E) conn p = Inr ident0" "with_companions (oe_companions E) ident0 conn p = Inr ident"
    using assms by (simp_all add: opens_cleanly_def Let_def)
  then obtain q where "cn_path conn = Some q"
    by (auto simp: record_main_def map_sum_Inr_iff record_main_identity_Inr)
  then show ?thesis using moved_check_exact [OF r] by blast
qed

text \<open>
  C37: Opening the database.  Whatever happens to the files while it runs and whatever fails, the
  schema is written and the migration started only when the check just before found the
  path naming the file the connection has open, SQLite reporting no move, and the directory of the
  lock still the one that was locked.  The opening returns exactly when every step succeeds, busy
  attempts to create the schema apart, and then the lock was not split after the last identity was
  recorded, an old schema has been brought to the current version, and from then on the check of
  the returned identity passes exactly while the path and both companions name the files the
  connection has open.
\<close>

theorem open_db_sound:
  "(\<forall>ev \<in> set (fst (open_db fuel X E p)). \<exists>i conn sn dir. (ev = Wrote_schema sn dir \<or> ev = Migration sn dir)
      \<and> oe_lock E = Inr i \<and> connect_with fuel (oe_passes E) 0 = Some (Inr conn)
      \<and> dir = Inr i \<and> sn_fcntl sn = (0, False) \<and> sn_disk sn p = cn_main conn)
   \<and> (snd (open_db fuel X E p) = Some (Inr (conn, ident, db))
        \<longleftrightarrow> (\<exists>i ident0. opens_cleanly fuel X E p i conn ident0 ident db))
   \<and> (snd (open_db fuel X E p) = Some (Inr (conn, ident, db)) \<longrightarrow>
        (\<exists>i. oe_lock E = Inr i \<and> oe_last_dir E = Inr i)
        \<and> (oe_version E < SCHEMA_VERSION \<longrightarrow> SCHEMA_VERSION \<le> db_user_version db)
        \<and> (\<exists>q. cn_path conn = Some q \<and> (\<forall>sn. panic_if_moved sn ident p = Inr () \<longleftrightarrow> sn_fcntl sn = (0, False)
             \<and> sn_disk sn p = cn_main conn \<and> sn_disk sn (companion_path q ''-wal'') = cn_wal conn
             \<and> sn_disk sn (companion_path q ''-shm'') = cn_shm conn)))"
proof -
  have writes: "\<exists>i conn sn dir. (ev = Wrote_schema sn dir \<or> ev = Migration sn dir)
      \<and> oe_lock E = Inr i \<and> connect_with fuel (oe_passes E) 0 = Some (Inr conn)
      \<and> dir = Inr i \<and> sn_fcntl sn = (0, False) \<and> sn_disk sn p = cn_main conn"
    if ev: "ev \<in> set (fst (open_db fuel X E p))" for ev
  proof -
    from open_db_event [OF ev] obtain i conn ident0 sn dir where
      c: "oe_lock E = Inr i" "connect_with fuel (oe_passes E) 0 = Some (Inr conn)"
        "record_main (oe_recorded E) conn p = Inr ident0" "ev = Wrote_schema sn dir \<or> ev = Migration sn dir"
        "checked ident0 p \<lparr>held_path = p, held_identity = i\<rparr> sn dir" by blast
    from c(5) have "dir = Inr i" "sn_fcntl sn = (0, False)" "sn_disk sn p = cn_main conn"
      using record_main_unmoved [OF c(3)] by (simp_all add: checked_def)
    with c(1,2,4) show ?thesis by blast
  qed
  have opened: "(\<exists>i. oe_lock E = Inr i \<and> oe_last_dir E = Inr i)
      \<and> (oe_version E < SCHEMA_VERSION \<longrightarrow> SCHEMA_VERSION \<le> db_user_version db)"
    if "opens_cleanly fuel X E p i conn ident0 ident db" for i ident0
    using that migrate_schema_version by (auto simp: opens_cleanly_def Let_def)
  show ?thesis
    using writes opened opens_cleanly_identity unfolding open_db_Inr by blast
qed

text \<open>An opening that publishes the file, meets one busy attempt, and migrates an empty database.\<close>

definition demo_snapshot :: snapshot where
  "demo_snapshot = \<lparr>sn_disk = [[''db''] \<mapsto> File_id 1 1, [''db-wal''] \<mapsto> File_id 1 2, [''db-shm''] \<mapsto> File_id 1 3],
     sn_fcntl = (0, False)\<rparr>"

definition demo_conn :: connection where
  "demo_conn = \<lparr>cn_path = Some [''db''], cn_main = Some (File_id 1 1), cn_wal = Some (File_id 1 2), cn_shm = Some (File_id 1 3)\<rparr>"

definition demo_open_env :: "unit open_env" where
  "demo_open_env = \<lparr>oe_lock = Inr (File_id 1 0),
     oe_passes = (\<lambda>n. \<lparr>op_open = (if n = 0 then Inl \<lparr>sf_code = Some Cannot_open, sf_extended = None, sf_text = []\<rparr> else Inr demo_conn),
       op_absent = True, op_publish = Inr ()\<rparr>),
     oe_busy_timeout = Inr (), oe_recorded = demo_snapshot,
     oe_inits = [\<lparr>ia_snapshot = demo_snapshot, ia_lock_dir = Inr (File_id 1 0), ia_result = Inl Database_busy\<rparr>,
       \<lparr>ia_snapshot = demo_snapshot, ia_lock_dir = Inr (File_id 1 0), ia_result = Inr ()\<rparr>],
     oe_failure = (\<lambda>_. \<lparr>sf_code = None, sf_extended = None, sf_text = []\<rparr>), oe_errno = 0, oe_failed = demo_snapshot,
     oe_after_init = demo_snapshot, oe_after_init_dir = Inr (File_id 1 0), oe_migration = (\<lambda>_. None), oe_version = 0,
     oe_db = empty_db, oe_after_migration_dir = Inr (File_id 1 0), oe_companions = demo_snapshot,
     oe_last_dir = Inr (File_id 1 0), oe_debug_path = concat, oe_debug_assertions = True\<rparr>"

definition demo_identity :: db_identity where
  "demo_identity = \<lparr>di_main = File_id 1 1, di_companions =
     Some (\<lparr>tr_path = [''db-wal''], tr_identity = File_id 1 2\<rparr>, \<lparr>tr_path = [''db-shm''], tr_identity = File_id 1 3\<rparr>)\<rparr>"

lemma demo_record: "record_main demo_snapshot demo_conn [''db''] = Inr \<lparr>di_main = File_id 1 1, di_companions = None\<rparr>"
  by (simp add: record_main_def record_main_identity_def own_fd_identity_def demo_snapshot_def demo_conn_def)

lemma demo_companions:
  "with_companions demo_snapshot \<lparr>di_main = File_id 1 1, di_companions = None\<rparr> demo_conn [''db''] = Inr demo_identity"
  by (simp add: with_companions_def companion_base_def own_fd_identity_def track_def companion_path_def Let_def
      demo_snapshot_def demo_conn_def demo_identity_def)

lemma demo_checked: "checked \<lparr>di_main = File_id 1 1, di_companions = None\<rparr> [''db''] \<lparr>held_path = [''db''], held_identity = File_id 1 0\<rparr>
    demo_snapshot (Inr (File_id 1 0))"
  by (simp add: checked_def panic_if_moved_ok) (simp add: demo_snapshot_def)

lemma demo_schema: "schema_answers \<lparr>di_main = File_id 1 1, di_companions = None\<rparr> [''db'']
    \<lparr>held_path = [''db''], held_identity = File_id 1 0\<rparr> (oe_inits demo_open_env) (Inr ())"
  unfolding schema_answers_def demo_open_env_def
  by (rule exI [of _ "[\<lparr>ia_snapshot = demo_snapshot, ia_lock_dir = Inr (File_id 1 0), ia_result = Inl Database_busy\<rparr>]"])
     (use demo_checked in \<open>simp add: busy_attempt_def deciding_attempt_def\<close>)

lemma demo_opens: "opens_cleanly 2 ref_boolexpr demo_open_env [''db''] (File_id 1 0) demo_conn
    \<lparr>di_main = File_id 1 1, di_companions = None\<rparr> demo_identity (empty_db\<lparr>db_user_version := SCHEMA_VERSION\<rparr>)"
proof -
  have "connect_with 2 (oe_passes demo_open_env) 0 = Some (Inr demo_conn)"
    by (simp add: numeral_2_eq_2 demo_open_env_def is_cantopen_def)
  moreover have "migrate_schema ref_boolexpr (\<lambda>_. None) 0 empty_db = Inr (empty_db\<lparr>db_user_version := SCHEMA_VERSION\<rparr>)"
    by (simp add: migrate_schema_def mig_exec_def scrub_serial_filters_v1_def empty_db_def SCHEMA_VERSION_def)
  ultimately show ?thesis
    using demo_record demo_companions demo_checked demo_schema unfolding opens_cleanly_def Let_def
    by (simp add: demo_open_env_def)
qed

theorem open_db_sound_witness:
  "\<exists>conn ident db. snd (open_db 2 ref_boolexpr demo_open_env [''db'']) = Some (Inr (conn, ident, db))
     \<and> SCHEMA_VERSION \<le> db_user_version db \<and> panic_if_moved demo_snapshot ident [''db''] = Inr ()"
proof -
  note sound = open_db_sound [of 2 ref_boolexpr demo_open_env "[''db'']" demo_conn demo_identity
      "empty_db\<lparr>db_user_version := SCHEMA_VERSION\<rparr>"]
  have "panic_if_moved demo_snapshot demo_identity [''db''] = Inr ()"
    by (simp add: panic_if_moved_ok tracked_has_moved_def demo_identity_def demo_snapshot_def)
  then show ?thesis using sound demo_opens by (intro exI [of _ demo_conn] exI [of _ demo_identity]
      exI [of _ "empty_db\<lparr>db_user_version := SCHEMA_VERSION\<rparr>"]) auto
qed

end
