(* ===== verification/Registration.thy ===== *)
theory Registration
  imports Open_DB
begin

text \<open>
  A registration from the opening of the database to its drop (\<open>coordinate\<close>, \<open>TestRegistration\<close> and the
  downgraded warning of \<open>src/coordination.rs\<close>).  Here the checks of the waiting loop and of the drop
  look at the file system of the moment, with the identity the opening recorded, so the theorems
  speak of the very files the connection has open.  The liveness of a process on Windows is at
  the end.
\<close>

section \<open>Registering\<close>

record test_registration =
  tg_conn :: connection
  tg_id :: nat
  tg_path :: path
  tg_identity :: db_identity

text \<open>What one turn of the waiting loop meets, with the snapshots of its two checks.\<close>

record coord_moment =
  cm_before :: snapshot
  cm_db :: db
  cm_kill :: "nat \<Rightarrow> kill_result"
  cm_faults :: faults
  cm_after :: snapshot

definition file_moved :: "db_identity \<Rightarrow> path \<Rightarrow> snapshot \<Rightarrow> bool" where
  "file_moved ident p sn \<longleftrightarrow> panic_if_moved sn ident p \<noteq> Inr ()"

definition to_attempt :: "db_identity \<Rightarrow> path \<Rightarrow> coord_moment \<Rightarrow> attempt" where
  "to_attempt ident p m = \<lparr>at_moved = file_moved ident p (cm_before m), at_db = cm_db m, at_kill = cm_kill m,
     at_faults = cm_faults m, at_moved_after = file_moved ident p (cm_after m)\<rparr>"

datatype 'p file_outcome =
    Holds test_registration db
  | Unwinds test_registration db      \<comment> \<open>registered, then found moved\<close>
  | Waits nat
  | Fails_open "'p open_panic"
  | Fails_loop coord_outcome

definition with_connection :: "connection \<Rightarrow> db_identity \<Rightarrow> path \<Rightarrow> coord_outcome \<Rightarrow> 'p file_outcome" where
  "with_connection conn ident p r = (case r of
       Registered rid db \<Rightarrow> Holds \<lparr>tg_conn = conn, tg_id = rid, tg_path = p, tg_identity = ident\<rparr> db
     | Panic_moved_registered rid db \<Rightarrow> Unwinds \<lparr>tg_conn = conn, tg_id = rid, tg_path = p, tg_identity = ident\<rparr> db
     | Waiting b \<Rightarrow> Waits b
     | other \<Rightarrow> Fails_loop other)"

text \<open>\<open>None\<close>: the opening is still in one of its loops.\<close>

definition coordinate_file :: "nat \<Rightarrow> boolexpr \<Rightarrow> sqlite \<Rightarrow> 'p open_env \<Rightarrow> str \<Rightarrow> path \<Rightarrow> str \<Rightarrow> label list \<Rightarrow> str
    \<Rightarrow> coord_moment list \<Rightarrow> 'p file_outcome option" where
  "coordinate_file fuel X S E iid p nm labels serial_filter ms = (case snd (open_db fuel X E p) of
       None \<Rightarrow> None
     | Some (Inl e) \<Rightarrow> Some (Fails_open e)
     | Some (Inr (conn, ident, _)) \<Rightarrow>
         Some (with_connection conn ident p (coordinate X S iid nm labels serial_filter (map (to_attempt ident p) ms))))"

section \<open>Dropping\<close>

record drop_moment =
  dm_snapshot :: snapshot
  dm_fault :: "sqlite_error option"
  dm_db :: db

definition to_drop_attempt :: "test_registration \<Rightarrow> drop_moment \<Rightarrow> drop_attempt" where
  "to_drop_attempt reg m = \<lparr>da_moved = file_moved (tg_identity reg) (tg_path reg) (dm_snapshot m),
     da_fault = dm_fault m, da_db = dm_db m\<rparr>"

definition drop_test_registration :: "bool \<Rightarrow> test_registration \<Rightarrow> snapshot \<Rightarrow> drop_panic list \<Rightarrow> drop_moment list
    \<Rightarrow> drop_result option" where
  "drop_test_registration panicking reg after violations ms =
     drop_registration panicking (tg_id reg) (file_moved (tg_identity reg) (tg_path reg) after) violations
       (map (to_drop_attempt reg) ms)"

text \<open>The payload of a panic, and the line printed when the drop may not panic itself.\<close>

datatype panic_payload = Str_ref str | String_value str | Other_value

definition panic_payload_message :: "panic_payload \<Rightarrow> str" where
  "panic_payload_message payload = (case payload of
       Str_ref s \<Rightarrow> s
     | String_value s \<Rightarrow> s
     | Other_value \<Rightarrow> ''<non-string panic payload>'')"

definition downgraded_warning_message :: "panic_payload \<Rightarrow> str" where
  "downgraded_warning_message payload =
     ''[skuld] warning: coordination DB cleanup panicked while already unwinding from another ''
     @ ''panic (not re-raised, to avoid aborting the process): '' @ panic_payload_message payload"

section \<open>Processes on Windows\<close>

text \<open>\<open>OpenProcess\<close> answers with a handle or an \<open>HRESULT\<close>.\<close>

definition win32_open_process_error_means_dead :: "32 word \<Rightarrow> bool" where
  "win32_open_process_error_means_dead code \<longleftrightarrow> code = 0x80070057"

definition is_pid_alive_win :: "(nat \<Rightarrow> (32 word, unit) result) \<Rightarrow> nat \<Rightarrow> bool" where
  "is_pid_alive_win open_process pid = (case open_process pid of
       Inr _ \<Rightarrow> True
     | Inl code \<Rightarrow> \<not> win32_open_process_error_means_dead code)"

section \<open>Every write goes to the connection's own file\<close>

text \<open>The files at the paths are those the connection has open.\<close>

definition names_own_files :: "connection \<Rightarrow> path \<Rightarrow> snapshot \<Rightarrow> bool" where
  "names_own_files conn p sn \<longleftrightarrow> sn_fcntl sn = (0, False) \<and> sn_disk sn p = cn_main conn
     \<and> (\<exists>q. cn_path conn = Some q \<and> sn_disk sn (companion_path q ''-wal'') = cn_wal conn
          \<and> sn_disk sn (companion_path q ''-shm'') = cn_shm conn)"

lemma opened_moved:
  assumes "snd (open_db fuel X E p) = Some (Inr (conn, ident, db))"
  shows "\<not> file_moved ident p sn \<longleftrightarrow> names_own_files conn p sn"
proof -
  from assms obtain i ident0 where "opens_cleanly fuel X E p i conn ident0 ident db" unfolding open_db_Inr by blast
  from opens_cleanly_identity [OF this] obtain q where q: "cn_path conn = Some q"
    "panic_if_moved sn ident p = Inr () \<longleftrightarrow> sn_fcntl sn = (0, False) \<and> sn_disk sn p = cn_main conn
       \<and> sn_disk sn (companion_path q ''-wal'') = cn_wal conn \<and> sn_disk sn (companion_path q ''-shm'') = cn_shm conn"
    by blast
  have "(\<exists>q'. Some q = Some q' \<and> P q') = P q" for P by simp
  then show ?thesis unfolding file_moved_def names_own_files_def q(1) using q(2) by simp argo
qed

lemma coordinate_loop_Registered:
  assumes "coordinate_loop X S iid nm labels f backoff as = Registered rid db"
  shows "\<exists>a \<in> set as. \<not> at_moved a \<and> \<not> at_moved_after a
    \<and> coord_txn X S (is_pid_alive (at_kill a)) iid (at_faults a) nm labels f (at_db a) = Inr (Some (rid, db))"
  using assms
  by (induction as arbitrary: backoff)
     (auto split: if_splits sum.splits option.splits coord_error.splits)

lemma drop_registration_db:
  assumes "drop_registration panicking rid moved_after violations as = Some res" "dr_db res = Some db"
  shows "drop_cleanup rid as = Some (Inr db)"
  using assms by (auto simp: drop_registration_def Let_def split: option.splits sum.splits if_splits)

lemma coordinate_file_Holds:
  fixes E :: "'p open_env"
  assumes "coordinate_file fuel X S E iid p nm labels serial_filter ms = Some (Holds reg db)"
  shows "\<exists>db0 f m. snd (open_db fuel X E p) = Some (Inr (tg_conn reg, tg_identity reg, db0)) \<and> tg_path reg = p
    \<and> to_storage X serial_filter = Inr f \<and> m \<in> set ms
    \<and> \<not> file_moved (tg_identity reg) p (cm_before m) \<and> \<not> file_moved (tg_identity reg) p (cm_after m)
    \<and> coord_txn X S (is_pid_alive (cm_kill m)) iid (cm_faults m) nm labels f (cm_db m) = Inr (Some (tg_id reg, db))"
proof -
  from assms obtain conn ident db0 where
    o: "snd (open_db fuel X E p) = Some (Inr (conn, ident, db0))" and
    h: "with_connection conn ident p (coordinate X S iid nm labels serial_filter (map (to_attempt ident p) ms)) = (Holds reg db :: 'p file_outcome)"
    by (auto simp: coordinate_file_def split: option.splits sum.splits)
  from h have reg: "reg = \<lparr>tg_conn = conn, tg_id = tg_id reg, tg_path = p, tg_identity = ident\<rparr>"
    and c: "coordinate X S iid nm labels serial_filter (map (to_attempt ident p) ms) = Registered (tg_id reg) db"
    by (auto simp: with_connection_def split: coord_outcome.splits)
  from c obtain f where f: "to_storage X serial_filter = Inr f"
    and l: "coordinate_loop X S iid nm labels f 10 (map (to_attempt ident p) ms) = Registered (tg_id reg) db"
    by (auto simp: coordinate_def split: sum.splits)
  from coordinate_loop_Registered [OF l] obtain m where m: "m \<in> set ms"
    "\<not> at_moved (to_attempt ident p m)" "\<not> at_moved_after (to_attempt ident p m)"
    "coord_txn X S (is_pid_alive (at_kill (to_attempt ident p m))) iid (at_faults (to_attempt ident p m)) nm labels f
       (at_db (to_attempt ident p m)) = Inr (Some (tg_id reg, db))" by auto
  moreover have "tg_conn reg = conn" "tg_identity reg = ident" "tg_path reg = p" by (subst reg; simp)+
  ultimately show ?thesis using o f by (auto simp: to_attempt_def)
qed

text \<open>
  C36: A registration lives in one file.  When \<open>coordinate\<close> returns a registration, its row was committed
  by a transaction before and after which the database path and both companions named the very
  files the connection has open.  However often the files are moved afterwards, whenever its drop
  leaves a database behind, the row was deleted by its own id, through the same connection, at a
  moment when the paths named those files again; a drop that finds anything else deletes nothing.
\<close>

theorem registration_in_own_file:
  assumes "coordinate_file fuel X S E iid p nm labels serial_filter ms = Some (Holds reg db)"
  shows "(\<exists>f. \<exists>m \<in> set ms. to_storage X serial_filter = Inr f \<and> names_own_files (tg_conn reg) p (cm_before m)
      \<and> coord_txn X S (is_pid_alive (cm_kill m)) iid (cm_faults m) nm labels f (cm_db m) = Inr (Some (tg_id reg, db))
      \<and> names_own_files (tg_conn reg) p (cm_after m))
    \<and> (drop_test_registration panicking reg after violations ds = Some res \<longrightarrow> dr_db res = Some db' \<longrightarrow>
        (\<exists>d \<in> set ds. names_own_files (tg_conn reg) p (dm_snapshot d) \<and> dm_fault d = None
           \<and> db' = delete_running (\<lambda>r. row_id r = tg_id reg) (dm_db d)))"
proof -
  from coordinate_file_Holds [OF assms] obtain db0 f m where
    o: "snd (open_db fuel X E p) = Some (Inr (tg_conn reg, tg_identity reg, db0))" "tg_path reg = p" and
    m: "to_storage X serial_filter = Inr f" "m \<in> set ms"
      "\<not> file_moved (tg_identity reg) p (cm_before m)" "\<not> file_moved (tg_identity reg) p (cm_after m)"
      "coord_txn X S (is_pid_alive (cm_kill m)) iid (cm_faults m) nm labels f (cm_db m) = Inr (Some (tg_id reg, db))"
    by blast
  note own = opened_moved [OF o(1)]
  have "\<exists>d \<in> set ds. names_own_files (tg_conn reg) p (dm_snapshot d) \<and> dm_fault d = None
      \<and> db' = delete_running (\<lambda>r. row_id r = tg_id reg) (dm_db d)"
    if "drop_test_registration panicking reg after violations ds = Some res" "dr_db res = Some db'"
  proof -
    have "drop_cleanup (tg_id reg) (map (to_drop_attempt reg) ds) = Some (Inr db')"
      using that drop_registration_db unfolding drop_test_registration_def by blast
    from drop_cleanup_Inr [OF this] obtain d where "d \<in> set ds" "\<not> da_moved (to_drop_attempt reg d)"
      "da_fault (to_drop_attempt reg d) = None" "db' = delete_running (\<lambda>r. row_id r = tg_id reg) (da_db (to_drop_attempt reg d))"
      by auto
    then show ?thesis using own o(2) by (auto simp: to_drop_attempt_def)
  qed
  then show ?thesis using m own by blast
qed

text \<open>A registration of a test without labels in the database of the demonstration.\<close>

definition demo_moment :: coord_moment where
  "demo_moment = \<lparr>cm_before = demo_snapshot, cm_db = empty_db, cm_kill = (\<lambda>_. Kill_ok), cm_faults = (\<lambda>_. None),
     cm_after = demo_snapshot\<rparr>"

lemma demo_unmoved: "\<not> file_moved demo_identity [''db''] demo_snapshot"
  by (simp add: file_moved_def panic_if_moved_ok tracked_has_moved_def demo_identity_def demo_snapshot_def)

lemma demo_holds:
  "\<exists>reg db. coordinate_file 2 ref_boolexpr ref_sqlite demo_open_env ''7:1'' [''db''] ''t'' [] ''*'' [demo_moment] = Some (Holds reg db)"
proof -
  have o: "snd (open_db 2 ref_boolexpr demo_open_env [''db'']) =
      Some (Inr (demo_conn, demo_identity, empty_db\<lparr>db_user_version := SCHEMA_VERSION\<rparr>))"
    using demo_opens unfolding open_db_Inr by blast
  have "serial_valid ref_boolexpr ''*''" by (simp add: serial_valid_def)
  then obtain rid db where "coord_txn ref_boolexpr ref_sqlite (is_pid_alive (\<lambda>_. Kill_ok)) ''7:1'' (\<lambda>_. None) ''t'' [] ''*'' empty_db
      = Inr (Some (rid, db))"
    using ref_coord.coord_txn_admits [of "\<lambda>_. None" "''*''" empty_db "''7:1''" "is_pid_alive (\<lambda>_. Kill_ok)" "[]" "''t''"]
    by (auto simp: empty_db_def db_ok_def MAX_ROWID_def)
  then have "coordinate ref_boolexpr ref_sqlite ''7:1'' ''t'' [] ''*'' (map (to_attempt demo_identity [''db'']) [demo_moment])
      = Registered rid db"
    using demo_unmoved by (simp add: coordinate_def to_storage_def to_attempt_def demo_moment_def)
  then show ?thesis using o by (simp add: coordinate_file_def with_connection_def)
qed

theorem registration_in_own_file_witness:
  "\<exists>reg db. coordinate_file 2 ref_boolexpr ref_sqlite demo_open_env ''7:1'' [''db''] ''t'' [] ''*'' [demo_moment] = Some (Holds reg db)
     \<and> names_own_files (tg_conn reg) [''db''] demo_snapshot"
proof -
  obtain reg db where h: "coordinate_file 2 ref_boolexpr ref_sqlite demo_open_env ''7:1'' [''db''] ''t'' [] ''*'' [demo_moment]
      = Some (Holds reg db)" using demo_holds by blast
  have "cm_before demo_moment = demo_snapshot" by (simp add: demo_moment_def)
  with conjunct1 [OF registration_in_own_file [OF h]] have "names_own_files (tg_conn reg) [''db''] demo_snapshot" by auto
  with h show ?thesis by blast
qed

end
