(* ===== verification/Unix_Fds.thy ===== *)
theory Unix_Fds
  imports Moved_DB Effects
begin

text \<open>
  The descriptors SQLite holds for a connection (\<open>src/coordination/moved_db/unix_fds.rs\<close>) and the
  identity of a descriptor (\<open>fd_identity\<close> of \<open>moved_db.rs\<close>).  The code follows raw pointers into SQLite's
  private structures, so the memory is explicit: a partial map per structure, with 0 as the null
  pointer.  Reading where no such structure lies is undefined behaviour and an error of its own.
  What \<open>sqlite3_file_control\<close> answers is the record \<open>file_control\<close>.
\<close>

type_synonym addr = nat

record unix_file =
  uf_methods :: addr
  uf_h :: int
  uf_path :: addr
  uf_shm :: addr

record shm_node =
  sh_filename :: addr
  sh_h :: int

record sq_memory =
  sm_files :: "addr \<Rightarrow> unix_file option"
  sm_shms :: "addr \<Rightarrow> addr option"                  \<comment> \<open>\<open>unixShm.pShmNode\<close>\<close>
  sm_nodes :: "addr \<Rightarrow> shm_node option"
  sm_strings :: "addr \<Rightarrow> str option"

datatype control_op = File_pointer | Journal_pointer

record file_control =
  fl_path :: "str option"                             \<comment> \<open>\<open>conn.path()\<close>\<close>
  fl_vfs :: "int \<times> str option"                        \<comment> \<open>code and name of the VFS\<close>
  fl_malloc :: "(addr \<Rightarrow> str option) \<Rightarrow> addr"
  fl_file :: "control_op \<Rightarrow> int \<times> addr"

datatype fds_panic =
    Undefined_behaviour
  | Vfsname_failed int
  | Vfsname_missing
  | Not_a_unix_vfs str
  | Control_failed control_op int
  | No_file control_op
  | File_not_open control_op
  | Name_null str
  | Name_differs str str str
  | No_shared_memory
  | No_shm_node

type_synonym 'a fds = "(sq_memory, fds_panic, 'a) eff"

section \<open>Reads\<close>

definition deref :: "(sq_memory \<Rightarrow> addr \<Rightarrow> 'b option) \<Rightarrow> addr \<Rightarrow> 'b fds" where
  "deref field a s = (case field s a of None \<Rightarrow> (Inl Undefined_behaviour, s) | Some x \<Rightarrow> (Inr x, s))"

definition fd_assert :: "bool \<Rightarrow> fds_panic \<Rightarrow> unit fds" where
  "fd_assert b e = (if b then ret () else raise e)"

definition check_name :: "file_control \<Rightarrow> addr \<Rightarrow> str \<Rightarrow> str \<Rightarrow> unit fds" where
  "check_name C z sfx field =
     (let expected = (case fl_path C of Some p \<Rightarrow> p | None \<Rightarrow> ''<no path>'') @ sfx in
      eff_bind (fd_assert (z \<noteq> 0) (Name_null field)) (\<lambda>_.
      eff_bind (deref sm_strings z) (\<lambda>actual.
        fd_assert (actual = expected) (Name_differs field actual expected))))"

text \<open>\<open>SQLITE_FCNTL_VFSNAME\<close> allocates the name; it is freed before it is judged.\<close>

definition sq_vfsname :: "file_control \<Rightarrow> (int \<times> addr) fds" where
  "sq_vfsname C s = (case fl_vfs C of
       (rc, None) \<Rightarrow> (Inr (rc, 0), s)
     | (rc, Some nm) \<Rightarrow> (let a = fl_malloc C (sm_strings s) in
         (Inr (rc, a), s\<lparr>sm_strings := (sm_strings s)(a \<mapsto> nm)\<rparr>)))"

definition sq_free :: "addr \<Rightarrow> unit fds" where
  "sq_free a = modify (\<lambda>s. s\<lparr>sm_strings := (sm_strings s)(a := None)\<rparr>)"

definition assert_unix_vfs :: "file_control \<Rightarrow> unit fds" where
  "assert_unix_vfs C = eff_bind (sq_vfsname C) (\<lambda>(rc, nm).
     eff_bind (fd_assert (rc = 0) (Vfsname_failed rc)) (\<lambda>_.
     eff_bind (fd_assert (nm \<noteq> 0) Vfsname_missing) (\<lambda>_.
     eff_bind (deref sm_strings nm) (\<lambda>vfs.
     eff_bind (sq_free nm) (\<lambda>_.
       fd_assert (starts_with vfs ''unix'') (Not_a_unix_vfs vfs))))))"

definition file_pointer :: "file_control \<Rightarrow> control_op \<Rightarrow> str \<Rightarrow> unix_file fds" where
  "file_pointer C c sfx =
     eff_bind (assert_unix_vfs C) (\<lambda>_. case fl_file C c of (rc, file) \<Rightarrow>
     eff_bind (fd_assert (rc = 0) (Control_failed c rc)) (\<lambda>_.
     eff_bind (fd_assert (file \<noteq> 0) (No_file c)) (\<lambda>_.
     eff_bind (deref sm_files file) (\<lambda>unix_file.
     eff_bind (fd_assert (uf_methods unix_file \<noteq> 0) (File_not_open c)) (\<lambda>_.
     eff_bind (check_name C (uf_path unix_file) sfx ''unixFile.zPath'') (\<lambda>_. ret unix_file))))))"

definition main_fd :: "file_control \<Rightarrow> int fds" where
  "main_fd C = eff_bind (file_pointer C File_pointer []) (\<lambda>file. ret (uf_h file))"

definition wal_fd :: "file_control \<Rightarrow> int fds" where
  "wal_fd C = eff_bind (file_pointer C Journal_pointer ''-wal'') (\<lambda>file. ret (uf_h file))"

definition shm_fd :: "file_control \<Rightarrow> int fds" where
  "shm_fd C = eff_bind (file_pointer C File_pointer []) (\<lambda>file.
     eff_bind (fd_assert (uf_shm file \<noteq> 0) No_shared_memory) (\<lambda>_.
     eff_bind (deref sm_shms (uf_shm file)) (\<lambda>node_ptr.
     eff_bind (fd_assert (node_ptr \<noteq> 0) No_shm_node) (\<lambda>_.
     eff_bind (deref sm_nodes node_ptr) (\<lambda>node.
     eff_bind (check_name C (sh_filename node) ''-shm'' ''unixShmNode.zFilename'') (\<lambda>_. ret (sh_h node)))))))"

text \<open>\<open>fstat\<close>: \<open>None\<close> for a descriptor that is not open.\<close>

definition fd_identity :: "(int \<Rightarrow> file_id option) \<Rightarrow> int \<Rightarrow> file_id option" where
  "fd_identity fstat fd = fstat fd"

text \<open>The connection as the moved-database check sees it.\<close>

definition own_connection :: "file_control \<Rightarrow> (int \<Rightarrow> file_id option) \<Rightarrow> (str \<Rightarrow> path) \<Rightarrow> connection fds" where
  "own_connection C fstat to_path =
     eff_bind (main_fd C) (\<lambda>m. eff_bind (wal_fd C) (\<lambda>w. eff_bind (shm_fd C) (\<lambda>sh.
       ret \<lparr>cn_path = map_option to_path (fl_path C), cn_main = fd_identity fstat m, cn_wal = fd_identity fstat w,
         cn_shm = fd_identity fstat sh\<rparr>)))"

section \<open>What a read relies on\<close>

text \<open>
  Every pointer that is not null leads to the structure the mirrored layout says; \<open>sqlite3_malloc\<close>
  answers with a fresh address.
\<close>

definition mirrored :: "file_control \<Rightarrow> sq_memory \<Rightarrow> bool" where
  "mirrored C s \<longleftrightarrow> (\<forall>c. snd (fl_file C c) \<noteq> 0 \<longrightarrow> (\<exists>f. sm_files s (snd (fl_file C c)) = Some f
       \<and> (uf_path f \<noteq> 0 \<longrightarrow> sm_strings s (uf_path f) \<noteq> None)
       \<and> (uf_shm f \<noteq> 0 \<longrightarrow> (\<exists>n. sm_shms s (uf_shm f) = Some n
            \<and> (n \<noteq> 0 \<longrightarrow> (\<exists>node. sm_nodes s n = Some node
                 \<and> (sh_filename node \<noteq> 0 \<longrightarrow> sm_strings s (sh_filename node) \<noteq> None)))))))
     \<and> sm_strings s (fl_malloc C (sm_strings s)) = None \<and> fl_malloc C (sm_strings s) \<noteq> 0"

lemma assert_unix_vfs_result:
  assumes "sm_strings s (fl_malloc C (sm_strings s)) = None" "fl_malloc C (sm_strings s) \<noteq> 0"
  shows "fst (assert_unix_vfs C s) \<noteq> Inl Undefined_behaviour"
    and "fst (assert_unix_vfs C s) = Inr () \<longleftrightarrow> (\<exists>nm. fl_vfs C = (0, Some nm) \<and> starts_with nm ''unix'')"
    and "fst (fl_vfs C) = 0 \<Longrightarrow> snd (assert_unix_vfs C s) = s"
proof -
  obtain rc v where v: "fl_vfs C = (rc, v)" by fastforce
  have "(sm_strings s)(fl_malloc C (sm_strings s) := None) = sm_strings s" using assms(1) by (simp add: fun_upd_idem)
  then have "snd (assert_unix_vfs C s) = s" if "rc = 0"
    using that assms v by (cases v)
      (simp_all add: assert_unix_vfs_def sq_vfsname_def eff_bind_def fd_assert_def deref_def sq_free_def Let_def)
  then show "fst (fl_vfs C) = 0 \<Longrightarrow> snd (assert_unix_vfs C s) = s" using v by simp
  show "fst (assert_unix_vfs C s) \<noteq> Inl Undefined_behaviour"
    "fst (assert_unix_vfs C s) = Inr () \<longleftrightarrow> (\<exists>nm. fl_vfs C = (0, Some nm) \<and> starts_with nm ''unix'')"
    using assms v by (cases v;
      simp add: assert_unix_vfs_def sq_vfsname_def eff_bind_def fd_assert_def deref_def sq_free_def Let_def)+
qed

lemma mirroredD:
  assumes "mirrored C s"
  shows "sm_strings s (fl_malloc C (sm_strings s)) = None" "fl_malloc C (sm_strings s) \<noteq> 0"
    and "snd (fl_file C c) \<noteq> 0 \<Longrightarrow> \<exists>f. sm_files s (snd (fl_file C c)) = Some f"
    and "snd (fl_file C c) \<noteq> 0 \<Longrightarrow> sm_files s (snd (fl_file C c)) = Some f \<Longrightarrow> uf_path f \<noteq> 0 \<Longrightarrow> \<exists>z. sm_strings s (uf_path f) = Some z"
    and "snd (fl_file C c) \<noteq> 0 \<Longrightarrow> sm_files s (snd (fl_file C c)) = Some f \<Longrightarrow> uf_shm f \<noteq> 0 \<Longrightarrow> \<exists>n. sm_shms s (uf_shm f) = Some n"
    and "snd (fl_file C c) \<noteq> 0 \<Longrightarrow> sm_files s (snd (fl_file C c)) = Some f \<Longrightarrow> uf_shm f \<noteq> 0 \<Longrightarrow> sm_shms s (uf_shm f) = Some n \<Longrightarrow>
      n \<noteq> 0 \<Longrightarrow> \<exists>node. sm_nodes s n = Some node \<and> (sh_filename node \<noteq> 0 \<longrightarrow> (\<exists>z. sm_strings s (sh_filename node) = Some z))"
  using assms unfolding mirrored_def by (auto, fastforce+)

definition unix_vfs :: "file_control \<Rightarrow> bool" where
  "unix_vfs C \<longleftrightarrow> (\<exists>nm. fl_vfs C = (0, Some nm) \<and> starts_with nm ''unix'')"

definition named :: "file_control \<Rightarrow> sq_memory \<Rightarrow> addr \<Rightarrow> str \<Rightarrow> bool" where
  "named C s z sfx \<longleftrightarrow> z \<noteq> 0 \<and> sm_strings s z = Some ((case fl_path C of Some p \<Rightarrow> p | None \<Rightarrow> ''<no path>'') @ sfx)"

text \<open>The open file behind a file control, under the name the connection reports for it.\<close>

definition open_file :: "file_control \<Rightarrow> sq_memory \<Rightarrow> control_op \<Rightarrow> str \<Rightarrow> unix_file \<Rightarrow> bool" where
  "open_file C s c sfx f \<longleftrightarrow> fst (fl_file C c) = 0 \<and> snd (fl_file C c) \<noteq> 0 \<and> sm_files s (snd (fl_file C c)) = Some f
     \<and> uf_methods f \<noteq> 0 \<and> named C s (uf_path f) sfx"

lemma check_name_cases:
  assumes "z \<noteq> 0 \<longrightarrow> (\<exists>x. sm_strings s z = Some x)"
  obtains (panic) e where "check_name C z sfx field s = (Inl e, s)" "e \<noteq> Undefined_behaviour" "\<not> named C s z sfx"
    | (ok) "check_name C z sfx field s = (Inr (), s)" "named C s z sfx"
  using assms by (fastforce simp: check_name_def named_def eff_bind_def fd_assert_def deref_def Let_def split: if_splits)

lemma open_file_unique: "open_file C s c sfx f \<Longrightarrow> open_file C s c sfx' g \<Longrightarrow> f = g"
  by (simp add: open_file_def)

lemma file_pointer_cases:
  assumes "mirrored C s"
  obtains (panic) e s' where "file_pointer C c sfx s = (Inl e, s')" "e \<noteq> Undefined_behaviour"
      "\<And>f. \<not> (unix_vfs C \<and> open_file C s c sfx f)"
    | (ok) f where "file_pointer C c sfx s = (Inr f, s)" "unix_vfs C" "open_file C s c sfx f"
proof -
  note M = mirroredD [OF assms]
  note V = assert_unix_vfs_result [OF M(1,2)]
  obtain v t where v: "assert_unix_vfs C s = (v, t)" by fastforce
  obtain rc a where fl: "fl_file C c = (rc, a)" by fastforce
  show ?thesis
  proof (cases "unix_vfs C \<and> rc = 0 \<and> a \<noteq> 0")
    case True
    then have v0: "v = Inr ()" "t = s" using V(2,3) v by (auto simp: unix_vfs_def)
    obtain f where f: "sm_files s a = Some f" using M(3) [of c] True fl by auto
    have z: "uf_path f \<noteq> 0 \<longrightarrow> (\<exists>x. sm_strings s (uf_path f) = Some x)" using M(4) [of c f] True fl f by simp
    have eq: "file_pointer C c sfx s = (if uf_methods f = 0 then (Inl (File_not_open c), s)
        else eff_bind (check_name C (uf_path f) sfx ''unixFile.zPath'') (\<lambda>_. ret f) s)"
      using v v0 fl True f by (simp add: file_pointer_def eff_bind_def fd_assert_def deref_def)
    show ?thesis
    proof (cases rule: check_name_cases [where C = C and sfx = sfx and field = "''unixFile.zPath''", OF z])
      case (1 e)
      then show ?thesis using that(1) eq f fl by (cases "uf_methods f = 0") (auto simp: open_file_def)
    next
      case 2
      then show ?thesis using that eq f fl True by (cases "uf_methods f = 0") (auto simp: open_file_def)
    qed
  next
    case False
    have "\<exists>e s'. file_pointer C c sfx s = (Inl e, s') \<and> e \<noteq> Undefined_behaviour"
    proof (cases v)
      case (Inl e)
      then show ?thesis using v V(1) by (simp add: file_pointer_def)
    next
      case (Inr u)
      then show ?thesis using v V(2) False fl
        by (auto simp: file_pointer_def eff_bind_def fd_assert_def unix_vfs_def)
    qed
    then show ?thesis using that(1) False fl by (auto simp: open_file_def)
  qed
qed

text \<open>The shared-memory node of a file, under its name.\<close>

definition open_node :: "file_control \<Rightarrow> sq_memory \<Rightarrow> unix_file \<Rightarrow> shm_node \<Rightarrow> bool" where
  "open_node C s f node \<longleftrightarrow> uf_shm f \<noteq> 0 \<and> (\<exists>n. sm_shms s (uf_shm f) = Some n \<and> n \<noteq> 0 \<and> sm_nodes s n = Some node)
     \<and> named C s (sh_filename node) ''-shm''"

lemma shm_fd_cases:
  assumes "mirrored C s"
  obtains (panic) e s' where "shm_fd C s = (Inl e, s')" "e \<noteq> Undefined_behaviour"
      "\<And>f node. \<not> (unix_vfs C \<and> open_file C s File_pointer [] f \<and> open_node C s f node)"
    | (ok) f node where "shm_fd C s = (Inr (sh_h node), s)" "unix_vfs C" "open_file C s File_pointer [] f" "open_node C s f node"
  using assms
proof (cases rule: file_pointer_cases [where c = File_pointer and sfx = "[]"])
  case (panic e s')
  then show ?thesis using that(1) by (auto simp: shm_fd_def)
next
  case (ok f)
  note M = mirroredD [OF assms]
  have f: "snd (fl_file C File_pointer) \<noteq> 0" "sm_files s (snd (fl_file C File_pointer)) = Some f"
    using ok(3) by (auto simp: open_file_def)
  have only: "g = f" if "open_file C s File_pointer [] g" for g using open_file_unique [OF that ok(3)] .
  show ?thesis
  proof (cases "uf_shm f = 0")
    case True
    then show ?thesis using that(1) ok(1) only by (auto simp: shm_fd_def eff_bind_def fd_assert_def open_node_def)
  next
    case False
    then obtain n where n: "sm_shms s (uf_shm f) = Some n" using M(5) [OF f] by blast
    show ?thesis
    proof (cases "n = 0")
      case True
      have "\<not> (unix_vfs C \<and> open_file C s File_pointer [] g \<and> open_node C s g node)" for g node
        using only [of g] True n by (auto simp: open_node_def)
      moreover have "shm_fd C s = (Inl No_shm_node, s)"
        using ok(1) True False n by (simp add: shm_fd_def eff_bind_def fd_assert_def deref_def)
      ultimately show ?thesis using that(1) by blast
    next
      case n0: False
      then obtain node where node: "sm_nodes s n = Some node"
        and z: "sh_filename node \<noteq> 0 \<longrightarrow> (\<exists>x. sm_strings s (sh_filename node) = Some x)" using M(6) [OF f False n] by blast
      have eq: "shm_fd C s = eff_bind (check_name C (sh_filename node) ''-shm'' ''unixShmNode.zFilename'') (\<lambda>_. ret (sh_h node)) s"
        using ok(1) False n n0 node by (simp add: shm_fd_def eff_bind_def fd_assert_def deref_def)
      show ?thesis
      proof (cases rule: check_name_cases [where C = C and sfx = "''-shm''" and field = "''unixShmNode.zFilename''", OF z])
        case (1 e)
        have "\<not> (unix_vfs C \<and> open_file C s File_pointer [] g \<and> open_node C s g m)" for g m
          using only [of g] n node 1(3) by (auto simp: open_node_def)
        moreover have "shm_fd C s = (Inl e, s)" using eq 1(1) by simp
        ultimately show ?thesis using that(1) 1(2) by blast
      next
        case 2
        then show ?thesis using that(2) [of node f] eq ok(2,3) False n n0 node by (auto simp: open_node_def)
      qed
    qed
  qed
qed

section \<open>The descriptors that are read\<close>

lemma fd_of_cases:
  assumes "mirrored C s"
  obtains (panic) e s' where "eff_bind (file_pointer C c sfx) (\<lambda>f. ret (uf_h f)) s = (Inl e, s')" "e \<noteq> Undefined_behaviour"
      "\<And>f. \<not> (unix_vfs C \<and> open_file C s c sfx f)"
    | (ok) f where "eff_bind (file_pointer C c sfx) (\<lambda>f. ret (uf_h f)) s = (Inr (uf_h f), s)" "unix_vfs C" "open_file C s c sfx f"
  using assms by (cases rule: file_pointer_cases [where c = c and sfx = sfx]) (use that in \<open>auto\<close>)

lemma fd_of_exact:
  assumes "mirrored C s"
  shows "fst (eff_bind (file_pointer C c sfx) (\<lambda>f. ret (uf_h f)) s) \<noteq> Inl Undefined_behaviour"
    and "eff_bind (file_pointer C c sfx) (\<lambda>f. ret (uf_h f)) s = (Inr fd, s')
      \<longleftrightarrow> s' = s \<and> unix_vfs C \<and> (\<exists>f. open_file C s c sfx f \<and> fd = uf_h f)"
proof -
  from assms show "fst (eff_bind (file_pointer C c sfx) (\<lambda>f. ret (uf_h f)) s) \<noteq> Inl Undefined_behaviour"
    by (cases rule: fd_of_cases [where c = c and sfx = sfx]) simp_all
  from assms show "eff_bind (file_pointer C c sfx) (\<lambda>f. ret (uf_h f)) s = (Inr fd, s')
      \<longleftrightarrow> s' = s \<and> unix_vfs C \<and> (\<exists>f. open_file C s c sfx f \<and> fd = uf_h f)"
    by (cases rule: fd_of_cases [where c = c and sfx = sfx]) (auto dest: open_file_unique)
qed

lemma shm_fd_exact:
  assumes "mirrored C s"
  shows "fst (shm_fd C s) \<noteq> Inl Undefined_behaviour"
    and "shm_fd C s = (Inr fd, s') \<longleftrightarrow> s' = s \<and> unix_vfs C
      \<and> (\<exists>f node. open_file C s File_pointer [] f \<and> open_node C s f node \<and> fd = sh_h node)"
proof -
  from assms show "fst (shm_fd C s) \<noteq> Inl Undefined_behaviour" by (cases rule: shm_fd_cases) simp_all
  from assms show "shm_fd C s = (Inr fd, s') \<longleftrightarrow> s' = s \<and> unix_vfs C
      \<and> (\<exists>f node. open_file C s File_pointer [] f \<and> open_node C s f node \<and> fd = sh_h node)"
  proof (cases rule: shm_fd_cases)
    case (panic e s'')
    then show ?thesis by auto
  next
    case (ok f node)
    have "g = f \<and> m = node" if "open_file C s File_pointer [] g" "open_node C s g m" for g m
      using open_file_unique [OF that(1) ok(3)] that(2) ok(4) by (auto simp: open_node_def)
    then have "(\<exists>g m. open_file C s File_pointer [] g \<and> open_node C s g m \<and> fd = sh_h m) \<longleftrightarrow> fd = sh_h node"
      using ok(3,4) by metis
    then show ?thesis using ok(1,2) by (simp add: eq_commute conj_commute)
  qed
qed

text \<open>
  C38: The descriptors read out of SQLite are the right ones, or the read panics.  As long as every
  pointer that is not null leads to the structure the mirrored layout says, no read is
  undefined behaviour; a descriptor is returned exactly when the VFS is a unix one and the open file
  (for \<open>-shm\<close>, the node of the main file's shared memory) carries the connection's own path with the
  right suffix as its name, and it is that file's descriptor; and the memory is left as it was, the
  name of the VFS freed.  So the connection that the moved-database check sees has the
  identities of exactly those three descriptors.
\<close>

theorem unix_fds_exact:
  assumes "mirrored C s"
  shows "fst (main_fd C s) \<noteq> Inl Undefined_behaviour \<and> fst (wal_fd C s) \<noteq> Inl Undefined_behaviour
      \<and> fst (shm_fd C s) \<noteq> Inl Undefined_behaviour
    \<and> (main_fd C s = (Inr fd, s') \<longleftrightarrow> s' = s \<and> unix_vfs C \<and> (\<exists>f. open_file C s File_pointer [] f \<and> fd = uf_h f))
    \<and> (wal_fd C s = (Inr fd, s') \<longleftrightarrow> s' = s \<and> unix_vfs C \<and> (\<exists>f. open_file C s Journal_pointer ''-wal'' f \<and> fd = uf_h f))
    \<and> (shm_fd C s = (Inr fd, s') \<longleftrightarrow> s' = s \<and> unix_vfs C
         \<and> (\<exists>f node. open_file C s File_pointer [] f \<and> open_node C s f node \<and> fd = sh_h node))
    \<and> (own_connection C fstat to_path s = (Inr conn, s') \<longrightarrow> s' = s \<and> (\<exists>f w node. open_file C s File_pointer [] f
         \<and> open_file C s Journal_pointer ''-wal'' w \<and> open_node C s f node
         \<and> cn_main conn = fstat (uf_h f) \<and> cn_wal conn = fstat (uf_h w) \<and> cn_shm conn = fstat (sh_h node)))"
proof -
  have main: "main_fd C s = (Inr fd, s') \<longleftrightarrow> s' = s \<and> unix_vfs C \<and> (\<exists>f. open_file C s File_pointer [] f \<and> fd = uf_h f)" for fd s'
    unfolding main_fd_def by (rule fd_of_exact(2) [OF assms])
  have wal: "wal_fd C s = (Inr fd, s') \<longleftrightarrow> s' = s \<and> unix_vfs C \<and> (\<exists>f. open_file C s Journal_pointer ''-wal'' f \<and> fd = uf_h f)" for fd s'
    unfolding wal_fd_def by (rule fd_of_exact(2) [OF assms])
  have conn: "s' = s \<and> (\<exists>f w node. open_file C s File_pointer [] f \<and> open_file C s Journal_pointer ''-wal'' w \<and> open_node C s f node
         \<and> cn_main conn = fstat (uf_h f) \<and> cn_wal conn = fstat (uf_h w) \<and> cn_shm conn = fstat (sh_h node))"
    if "own_connection C fstat to_path s = (Inr conn, s')"
  proof -
    from that obtain m s1 w s2 sh where m: "main_fd C s = (Inr m, s1)" and w: "wal_fd C s1 = (Inr w, s2)" and sh: "shm_fd C s2 = (Inr sh, s')"
      and c: "cn_main conn = fstat m" "cn_wal conn = fstat w" "cn_shm conn = fstat sh"
      by (auto simp: own_connection_def eff_bind_def fd_identity_def split: prod.splits sum.splits)
    from m have "s1 = s" unfolding main by blast
    with w have "s2 = s" "wal_fd C s = (Inr w, s)" using wal by auto
    with sh have "s' = s" "shm_fd C s = (Inr sh, s)" using shm_fd_exact(2) [OF assms] by auto
    obtain f where f: "open_file C s File_pointer [] f" "m = uf_h f" using m unfolding main by blast
    obtain g where g: "open_file C s Journal_pointer ''-wal'' g" "w = uf_h g"
      using \<open>wal_fd C s = (Inr w, s)\<close> unfolding wal by blast
    obtain f' node where n: "open_file C s File_pointer [] f'" "open_node C s f' node" "sh = sh_h node"
      using \<open>shm_fd C s = (Inr sh, s)\<close> unfolding shm_fd_exact(2) [OF assms] by blast
    have "f' = f" using open_file_unique [OF n(1) f(1)] .
    then have "open_node C s f node" using n(2) by simp
    then show ?thesis using \<open>s' = s\<close> f g n(3) c by (intro conjI exI [of _ f] exI [of _ g] exI [of _ node]) simp_all
  qed
  have "fst (main_fd C s) \<noteq> Inl Undefined_behaviour" "fst (wal_fd C s) \<noteq> Inl Undefined_behaviour"
    unfolding main_fd_def wal_fd_def using fd_of_exact(1) [OF assms] by blast+
  note no_ub = this shm_fd_exact(1) [OF assms]
  show ?thesis
    unfolding main wal shm_fd_exact(2) [OF assms] using no_ub conn by simp
qed

text \<open>The files of a connection to \<open>db\<close> in WAL mode.\<close>

definition demo_memory :: sq_memory where
  "demo_memory = \<lparr>sm_files = [1 \<mapsto> \<lparr>uf_methods = 9, uf_h = 5, uf_path = 1, uf_shm = 1\<rparr>,
       2 \<mapsto> \<lparr>uf_methods = 9, uf_h = 6, uf_path = 2, uf_shm = 0\<rparr>],
     sm_shms = [1 \<mapsto> 1], sm_nodes = [1 \<mapsto> \<lparr>sh_filename = 3, sh_h = 7\<rparr>],
     sm_strings = [1 \<mapsto> ''db'', 2 \<mapsto> ''db-wal'', 3 \<mapsto> ''db-shm'']\<rparr>"

definition demo_control :: file_control where
  "demo_control = \<lparr>fl_path = Some ''db'', fl_vfs = (0, Some ''unix-excl''), fl_malloc = (\<lambda>_. 4),
     fl_file = (\<lambda>c. case c of File_pointer \<Rightarrow> (0, 1) | Journal_pointer \<Rightarrow> (0, 2))\<rparr>"

lemma demo_mirrored: "mirrored demo_control demo_memory"
  by (simp add: mirrored_def demo_control_def demo_memory_def split: control_op.split)

theorem unix_fds_exact_witness:
  "mirrored demo_control demo_memory \<and> shm_fd demo_control demo_memory = (Inr 7, demo_memory)
   \<and> wal_fd demo_control demo_memory = (Inr 6, demo_memory)"
proof -
  have files: "unix_vfs demo_control"
    "open_file demo_control demo_memory File_pointer [] \<lparr>uf_methods = 9, uf_h = 5, uf_path = 1, uf_shm = 1\<rparr>"
    "open_file demo_control demo_memory Journal_pointer ''-wal'' \<lparr>uf_methods = 9, uf_h = 6, uf_path = 2, uf_shm = 0\<rparr>"
    "open_node demo_control demo_memory \<lparr>uf_methods = 9, uf_h = 5, uf_path = 1, uf_shm = 1\<rparr> \<lparr>sh_filename = 3, sh_h = 7\<rparr>"
    by (simp_all add: unix_vfs_def open_file_def open_node_def named_def demo_control_def demo_memory_def starts_with_def)
  note exact = unix_fds_exact [OF demo_mirrored]
  have "shm_fd demo_control demo_memory = (Inr 7, demo_memory)"
    using exact [of 7 demo_memory] files by force
  moreover have "wal_fd demo_control demo_memory = (Inr 6, demo_memory)"
    using exact [of 6 demo_memory] files by force
  ultimately show ?thesis using demo_mirrored by blast
qed

end
