(* ===== verification/Win_DB.thy ===== *)
theory Win_DB
  imports Moved_DB Win_NT
begin

text \<open>
  The Windows side of the init lock (\<open>src/coordination/lock.rs\<close>) and of the moved-database check
  (\<open>src/coordination/moved_db.rs\<close>).  Both tell files apart by what \<open>GetFileInformationByHandle\<close> answers,
  which is recorded at the moment of a check, like the snapshots of \<open>Moved_DB\<close>.  The final path of a
  handle is asked for with a growing buffer, a loop without a bound.
\<close>

section \<open>Identities\<close>

record by_handle_info =
  bh_volume_serial :: "32 word"
  bh_index_high :: "32 word"
  bh_index_low :: "32 word"

definition file_index :: "by_handle_info \<Rightarrow> 64 word" where
  "file_index info = push_bit 32 (ucast (bh_index_high info)) OR ucast (bh_index_low info)"

text \<open>\<open>None\<close>: the query failed.\<close>

definition of_handle :: "by_handle_info option \<Rightarrow> file_id option" where
  "of_handle q = map_option (\<lambda>info. File_id (unat (bh_volume_serial info)) (unat (file_index info))) q"

text \<open>\<open>File::open\<close> and the query of the handle it returns, at one moment.\<close>

type_synonym win_disk = "path \<Rightarrow> (errno, by_handle_info option) result"

definition identity_of :: "win_disk \<Rightarrow> path \<Rightarrow> file_id option" where
  "identity_of disk p = (case disk p of Inl _ \<Rightarrow> None | Inr q \<Rightarrow> of_handle q)"

lemma file_index_bits:
  "bit (file_index info) n \<longleftrightarrow> (if n < 32 then bit (bh_index_low info) n else n < 64 \<and> bit (bh_index_high info) (n - 32))"
proof -
  have "\<not> bit (bh_index_low info) n" if "32 \<le> n" using that by (simp add: bit_word.rep_eq bit_imp_le_length leD)
  then show ?thesis
    by (auto simp: file_index_def bit_or_iff bit_push_bit_iff bit_ucast_iff bit_imp_le_length not_less dest: bit_imp_le_length)
qed

text \<open>No two 128-bit answers that differ in volume or index have the same identity.\<close>

lemma of_handle_inject:
  assumes "of_handle (Some a) = of_handle (Some b)"
  shows "bh_volume_serial a = bh_volume_serial b \<and> bh_index_high a = bh_index_high b \<and> bh_index_low a = bh_index_low b"
proof -
  have eq: "bh_volume_serial a = bh_volume_serial b" "file_index a = file_index b"
    using assms by (simp_all add: of_handle_def word_unat_eq_iff)
  have low: "bit (bh_index_low a) n = bit (bh_index_low b) n" if "n < 32" for n
    using eq(2) file_index_bits [of a n] file_index_bits [of b n] that by simp
  have high: "bit (bh_index_high a) n = bit (bh_index_high b) n" if "n < 32" for n
    using eq(2) file_index_bits [of a "n + 32"] file_index_bits [of b "n + 32"] that by simp
  have "bh_index_low a = bh_index_low b" by (rule bit_word_eqI) (use low in simp)
  moreover have "bh_index_high a = bh_index_high b" by (rule bit_word_eqI) (use high in simp)
  ultimately show ?thesis using eq(1) by simp
qed

section \<open>The init lock\<close>

datatype win_lock_panic =
    Lock_file_not_opened path errno
  | Lock_file_not_locked path errno
  | Lock_file_not_inspected path

record lock_open =
  lo_path :: path
  lo_create :: bool
  lo_write :: bool
  lo_read :: bool
  lo_truncate :: bool
  lo_share :: "32 word"

definition lock_path :: "path \<Rightarrow> path" where
  "lock_path db_path = companion_path db_path ''.lock''"

abbreviation FILE_SHARE_READ :: "32 word" where "FILE_SHARE_READ \<equiv> 1"
abbreviation FILE_SHARE_WRITE :: "32 word" where "FILE_SHARE_WRITE \<equiv> 2"
abbreviation FILE_SHARE_DELETE :: "32 word" where "FILE_SHARE_DELETE \<equiv> 4"

definition lock_target_options :: "path \<Rightarrow> lock_open" where
  "lock_target_options db_path = \<lparr>lo_path = lock_path db_path, lo_create = True, lo_write = True, lo_read = True,
     lo_truncate = False, lo_share = FILE_SHARE_READ OR FILE_SHARE_WRITE\<rparr>"

record win_token =
  wt_path :: path
  wt_identity :: file_id

text \<open>
  What taking the lock meets: the open, \<open>LockFileEx\<close>, and the query of the handle.  Dropping the
  handle, on return and on unwinding, releases the lock.
\<close>

record lock_meets =
  lm_open :: "lock_open \<Rightarrow> (errno, unit) result"
  lm_lock :: "(errno, unit) result"
  lm_info :: "by_handle_info option"

definition with_init_lock_win :: "lock_meets \<Rightarrow> path \<Rightarrow> (win_token \<Rightarrow> 'a) \<Rightarrow> (win_lock_panic, 'a) result" where
  "with_init_lock_win L db_path f = (case lm_open L (lock_target_options db_path) of
       Inl e \<Rightarrow> Inl (Lock_file_not_opened (lock_path db_path) e)
     | Inr _ \<Rightarrow> (case lm_lock L of
         Inl e \<Rightarrow> Inl (Lock_file_not_locked db_path e)
       | Inr _ \<Rightarrow> (case of_handle (lm_info L) of
           None \<Rightarrow> Inl (Lock_file_not_inspected db_path)
         | Some i \<Rightarrow> Inr (f \<lparr>wt_path = db_path, wt_identity = i\<rparr>))))"

definition target_has_split_win :: "win_disk \<Rightarrow> win_token \<Rightarrow> bool" where
  "target_has_split_win disk tok = (case disk (lock_path (wt_path tok)) of
       Inl _ \<Rightarrow> True
     | Inr q \<Rightarrow> (case of_handle q of None \<Rightarrow> True | Some current \<Rightarrow> current \<noteq> wt_identity tok))"

section \<open>The final path of a handle\<close>

text \<open>
  The \<open>k\<close>-th call with a buffer of \<open>len\<close> units answers with a number and what it wrote; the buffer is
  resized to the number when that does not fit.
\<close>

type_synonym final_path_query = "nat \<Rightarrow> nat \<Rightarrow> nat \<times> wide"

datatype final_path_panic = Final_path_failed

partial_function (option) final_path_loop :: "final_path_query \<Rightarrow> nat \<Rightarrow> nat \<Rightarrow> (final_path_panic, wide) result option" where
  "final_path_loop Q k len = (case Q k len of (n, buf) \<Rightarrow>
     if n = 0 then Some (Inl Final_path_failed)
     else if n < len then Some (Inr (take n buf))
     else final_path_loop Q (Suc k) n)"

definition final_path :: "final_path_query \<Rightarrow> (final_path_panic, wide) result option" where
  "final_path Q = final_path_loop Q 0 512"

text \<open>
  \<open>GetFinalPathNameByHandleW\<close>: the length without the NUL when the path fits, else the length needed
  with it; the path has at most \<open>B\<close> units, whatever happens between two calls.
\<close>

definition final_path_answers :: "nat \<Rightarrow> (nat \<Rightarrow> wide) \<Rightarrow> final_path_query \<Rightarrow> bool" where
  "final_path_answers B name Q \<longleftrightarrow> (\<forall>k. length (name k) \<le> B)
     \<and> (\<forall>k len. fst (Q k len) = 0 \<or> (if length (name k) < len then fst (Q k len) = length (name k)
             \<and> take (length (name k)) (snd (Q k len)) = name k
           else fst (Q k len) = Suc (length (name k))))"

section \<open>The moved-database check\<close>

record win_moment =
  wm_disk :: win_disk
  wm_handle :: "int \<times> by_handle_info option"     \<comment> \<open>\<open>SQLITE_FCNTL_WIN32_GET_HANDLE\<close>, then the query\<close>
  wm_final :: final_path_query

datatype win_moved_panic =
    Get_handle_failed int
  | Own_identity_unreadable path
  | Path_disagrees path
  | Companion_path_unknown final_path_panic
  | Companion_not_there path str
  | Moved_on_windows path

definition main_handle :: "win_moment \<Rightarrow> (win_moved_panic, by_handle_info option) result" where
  "main_handle m = (case wm_handle m of (rc, q) \<Rightarrow> if rc \<noteq> 0 then Inl (Get_handle_failed rc) else Inr q)"

definition record_main_identity_win :: "win_moment \<Rightarrow> path \<Rightarrow> (win_moved_panic, file_id) result" where
  "record_main_identity_win m p = result_bind (main_handle m) (\<lambda>q. case of_handle q of
       None \<Rightarrow> Inl (Own_identity_unreadable p)
     | Some identity \<Rightarrow> if identity_of (wm_disk m) p \<noteq> Some identity then Inl (Path_disagrees p) else Inr identity)"

definition track_win :: "win_moment \<Rightarrow> path \<Rightarrow> path \<Rightarrow> str \<Rightarrow> (win_moved_panic, tracked) result" where
  "track_win m p base sfx = (case identity_of (wm_disk m) (companion_path base sfx) of
       None \<Rightarrow> Inl (Companion_not_there p sfx)
     | Some on_disk \<Rightarrow> Inr \<lparr>tr_path = companion_path base sfx, tr_identity = on_disk\<rparr>)"

text \<open>\<open>None\<close>: the final path is still being asked for.\<close>

definition with_companions_win :: "(wide \<Rightarrow> path) \<Rightarrow> win_moment \<Rightarrow> db_identity \<Rightarrow> path
    \<Rightarrow> (win_moved_panic, db_identity) result option" where
  "with_companions_win to_path m ident p = (case main_handle m of
       Inl e \<Rightarrow> Some (Inl e)
     | Inr _ \<Rightarrow> (case final_path (wm_final m) of
         None \<Rightarrow> None
       | Some (Inl e) \<Rightarrow> Some (Inl (Companion_path_unknown e))
       | Some (Inr base) \<Rightarrow> Some (result_bind (track_win m p (to_path base) ''-wal'') (\<lambda>wal.
             result_bind (track_win m p (to_path base) ''-shm'') (\<lambda>shm.
               Inr \<lparr>di_main = di_main ident, di_companions = Some (wal, shm)\<rparr>)))))"

definition has_moved_win :: "win_disk \<Rightarrow> db_identity \<Rightarrow> path \<Rightarrow> bool" where
  "has_moved_win disk ident p \<longleftrightarrow> identity_of disk p \<noteq> Some (di_main ident)
     \<or> (case di_companions ident of None \<Rightarrow> False
        | Some (wal, shm) \<Rightarrow> identity_of disk (tr_path wal) \<noteq> Some (tr_identity wal)
            \<or> identity_of disk (tr_path shm) \<noteq> Some (tr_identity shm))"

definition panic_if_moved_win :: "win_disk \<Rightarrow> db_identity \<Rightarrow> path \<Rightarrow> (win_moved_panic, unit) result" where
  "panic_if_moved_win disk ident p = (if has_moved_win disk ident p then Inl (Moved_on_windows p) else Inr ())"

section \<open>What the loop and the check promise\<close>

text \<open>Every retry asks with a larger buffer, and one of more than \<open>B\<close> units always fits.\<close>

lemma final_path_loop_returns:
  assumes "final_path_answers B name Q"
  shows "\<exists>r. final_path_loop Q k len = Some r
    \<and> (r = Inl Final_path_failed \<or> (\<exists>j. k \<le> j \<and> j \<le> k + (Suc B - len) \<and> r = Inr (name j)))"
proof (induction "Suc B - len" arbitrary: k len rule: less_induct)
  case less
  note answers = assms [unfolded final_path_answers_def]
  obtain n buf where Q: "Q k len = (n, buf)" by fastforce
  have unfold: "final_path_loop Q k len = (if n = 0 then Some (Inl Final_path_failed)
      else if n < len then Some (Inr (take n buf)) else final_path_loop Q (Suc k) n)"
    using final_path_loop.simps [of Q k len] Q by simp
  consider "n = 0" | "n \<noteq> 0" "length (name k) < len" "n = length (name k)" "take n buf = name k"
    | "len \<le> length (name k)" "n = Suc (length (name k))"
    using answers Q by (metis fst_conv not_less snd_conv)
  then show ?case
  proof cases
    case 3
    have "length (name k) \<le> B" using answers by blast
    with 3 have smaller: "Suc B - n < Suc B - len" by simp
    obtain r where r: "final_path_loop Q (Suc k) n = Some r"
      "r = Inl Final_path_failed \<or> (\<exists>j. Suc k \<le> j \<and> j \<le> Suc k + (Suc B - n) \<and> r = Inr (name j))"
      using less.hyps [OF smaller, of "Suc k"] by blast
    have "final_path_loop Q k len = Some r" using unfold r(1) 3 by simp
    moreover have "r = Inl Final_path_failed \<or> (\<exists>j. k \<le> j \<and> j \<le> k + (Suc B - len) \<and> r = Inr (name j))"
      using r(2)
    proof
      assume "\<exists>j. Suc k \<le> j \<and> j \<le> Suc k + (Suc B - n) \<and> r = Inr (name j)"
      then obtain j where "Suc k \<le> j" "j \<le> Suc k + (Suc B - n)" "r = Inr (name j)" by blast
      then have "k \<le> j \<and> j \<le> k + (Suc B - len) \<and> r = Inr (name j)" using smaller by simp
      then show ?thesis by blast
    qed simp
    ultimately show ?thesis by blast
  qed (use unfold in auto)
qed

lemma final_path_returns:
  assumes "final_path_answers B name Q"
  shows "\<exists>r. final_path Q = Some r \<and> (r = Inl Final_path_failed \<or> (\<exists>j\<le>B. r = Inr (name j)))"
proof -
  obtain r where r: "final_path_loop Q 0 512 = Some r"
    "r = Inl Final_path_failed \<or> (\<exists>j. j \<le> Suc B - 512 \<and> r = Inr (name j))"
    using final_path_loop_returns [OF assms, of 0 512] by auto
  moreover have "j \<le> B" if "j \<le> Suc B - 512" for j using that by simp
  ultimately show ?thesis unfolding final_path_def by blast
qed

text \<open>An identity is as good as the answer it was made of.\<close>

lemma identity_of_exact: "identity_of disk p = of_handle (Some info) \<longleftrightarrow> disk p = Inr (Some info)"
proof
  assume *: "identity_of disk p = of_handle (Some info)"
  then obtain info' where d: "disk p = Inr (Some info')"
    by (auto simp: identity_of_def of_handle_def split: sum.splits)
  with * have "of_handle (Some info') = of_handle (Some info)" by (simp add: identity_of_def)
  from of_handle_inject [OF this] have "info' = info" by simp
  with d show "disk p = Inr (Some info)" by simp
qed (simp add: identity_of_def)

lemma record_main_identity_win_Inr:
  assumes "record_main_identity_win m p = Inr i"
  obtains own where "fst (wm_handle m) = 0" "snd (wm_handle m) = Some own" "of_handle (Some own) = Some i"
    "wm_disk m p = Inr (Some own)"
proof -
  obtain rc q where h: "wm_handle m = (rc, q)" by fastforce
  with assms obtain own where "rc = 0" "q = Some own" "of_handle (Some own) = Some i" "identity_of (wm_disk m) p = Some i"
    by (cases q) (auto simp: record_main_identity_win_def main_handle_def of_handle_def split: if_splits)
  with h that [of own] identity_of_exact [of "wm_disk m" p own] show ?thesis by simp
qed

lemma track_win_Inr:
  assumes "track_win m p base sfx = Inr t"
  obtains info where "tr_path t = companion_path base sfx" "of_handle (Some info) = Some (tr_identity t)"
    "wm_disk m (companion_path base sfx) = Inr (Some info)"
proof -
  from assms have t: "tr_path t = companion_path base sfx"
    "identity_of (wm_disk m) (companion_path base sfx) = Some (tr_identity t)"
    by (auto simp: track_win_def split: option.splits)
  then obtain info where "wm_disk m (companion_path base sfx) = Inr (Some info)" "of_handle (Some info) = Some (tr_identity t)"
    by (auto simp: identity_of_def of_handle_def split: sum.splits option.splits)
  with t that show ?thesis by blast
qed

text \<open>
  The same for the init lock: the token is good for the lock file that was locked, and only while the
  path of the lock file opens that file.
\<close>

theorem win_lock_exact:
  "(with_init_lock_win L db_path f = Inr r \<longleftrightarrow> (\<exists>own i. lm_open L (lock_target_options db_path) = Inr () \<and> lm_lock L = Inr ()
      \<and> lm_info L = Some own \<and> of_handle (Some own) = Some i \<and> r = f \<lparr>wt_path = db_path, wt_identity = i\<rparr>))
   \<and> (of_handle (Some own) = Some (wt_identity tok) \<longrightarrow>
        (\<not> target_has_split_win disk tok \<longleftrightarrow> disk (lock_path (wt_path tok)) = Inr (Some own)))"
proof
  show "with_init_lock_win L db_path f = Inr r \<longleftrightarrow> (\<exists>own i. lm_open L (lock_target_options db_path) = Inr () \<and> lm_lock L = Inr ()
      \<and> lm_info L = Some own \<and> of_handle (Some own) = Some i \<and> r = f \<lparr>wt_path = db_path, wt_identity = i\<rparr>)"
    by (auto simp: with_init_lock_win_def of_handle_def split: sum.splits option.splits)
  have "\<not> target_has_split_win disk tok \<longleftrightarrow> identity_of disk (lock_path (wt_path tok)) = Some (wt_identity tok)"
    by (auto simp: target_has_split_win_def identity_of_def split: sum.splits option.splits)
  then show "of_handle (Some own) = Some (wt_identity tok) \<longrightarrow>
        (\<not> target_has_split_win disk tok \<longleftrightarrow> disk (lock_path (wt_path tok)) = Inr (Some own))"
    using identity_of_exact by metis
qed

text \<open>The lock file is shared for reading and writing and never for deleting.\<close>

lemma lock_file_not_deletable: "lo_share (lock_target_options db_path) AND FILE_SHARE_DELETE = 0"
  by (simp add: lock_target_options_def)

text \<open>
  C39: On Windows the check of a moved database returns, and it is exact.  Whatever happens to the
  path of the handle between two calls, asking for it ends after at most as many retries as a path has
  units, because every retry brings a larger buffer; so recording the companions ends.
  When it succeeds, the companions are those next to a final path the handle had; and from then on, at
  every moment, a guarded write goes ahead exactly when the caller's path opens the very file
  the connection's own handle was of and the two companion paths open the very files they opened when
  recorded: same volume, same 64-bit index, both halves of it.
\<close>

theorem win_moved_check_exact:
  assumes "final_path_answers B name (wm_final m2)" "record_main_identity_win m1 p = Inr i"
  shows "\<exists>r. with_companions_win to_path m2 \<lparr>di_main = i, di_companions = None\<rparr> p = Some r
    \<and> (\<forall>ident. r = Inr ident \<longrightarrow> (\<exists>j own wal shm. j \<le> B \<and> snd (wm_handle m1) = Some own
       \<and> (\<forall>disk. panic_if_moved_win disk ident p = Inr () \<longleftrightarrow> disk p = Inr (Some own)
            \<and> disk (companion_path (to_path (name j)) ''-wal'') = Inr (Some wal)
            \<and> disk (companion_path (to_path (name j)) ''-shm'') = Inr (Some shm))
       \<and> wm_disk m2 (companion_path (to_path (name j)) ''-wal'') = Inr (Some wal)
       \<and> wm_disk m2 (companion_path (to_path (name j)) ''-shm'') = Inr (Some shm)))"
proof -
  obtain own where own: "snd (wm_handle m1) = Some own" "of_handle (Some own) = Some i"
    using record_main_identity_win_Inr [OF assms(2)] by metis
  obtain f where f: "final_path (wm_final m2) = Some f" "f = Inl Final_path_failed \<or> (\<exists>j\<le>B. f = Inr (name j))"
    using final_path_returns [OF assms(1)] by blast
  let ?ident = "\<lparr>di_main = i, di_companions = None\<rparr>"
  have "\<exists>r. with_companions_win to_path m2 ?ident p = Some r"
    using f(1) by (simp add: with_companions_win_def split: sum.split)
  moreover have "\<exists>j own wal shm. j \<le> B \<and> snd (wm_handle m1) = Some own
       \<and> (\<forall>disk. panic_if_moved_win disk ident p = Inr () \<longleftrightarrow> disk p = Inr (Some own)
            \<and> disk (companion_path (to_path (name j)) ''-wal'') = Inr (Some wal)
            \<and> disk (companion_path (to_path (name j)) ''-shm'') = Inr (Some shm))
       \<and> wm_disk m2 (companion_path (to_path (name j)) ''-wal'') = Inr (Some wal)
       \<and> wm_disk m2 (companion_path (to_path (name j)) ''-shm'') = Inr (Some shm)"
    if "with_companions_win to_path m2 ?ident p = Some (Inr ident)" for ident
  proof -
    from that f obtain j wal shm where j: "j \<le> B" and t: "track_win m2 p (to_path (name j)) ''-wal'' = Inr wal"
      "track_win m2 p (to_path (name j)) ''-shm'' = Inr shm" "ident = \<lparr>di_main = i, di_companions = Some (wal, shm)\<rparr>"
      by (auto simp: with_companions_win_def result_bind_Inr split: sum.splits option.splits)
    obtain a where a: "tr_path wal = companion_path (to_path (name j)) ''-wal''" "of_handle (Some a) = Some (tr_identity wal)"
      "wm_disk m2 (companion_path (to_path (name j)) ''-wal'') = Inr (Some a)" using track_win_Inr [OF t(1)] by metis
    obtain b where b: "tr_path shm = companion_path (to_path (name j)) ''-shm''" "of_handle (Some b) = Some (tr_identity shm)"
      "wm_disk m2 (companion_path (to_path (name j)) ''-shm'') = Inr (Some b)" using track_win_Inr [OF t(2)] by metis
    have "panic_if_moved_win disk ident p = Inr () \<longleftrightarrow> identity_of disk p = of_handle (Some own)
        \<and> identity_of disk (tr_path wal) = of_handle (Some a) \<and> identity_of disk (tr_path shm) = of_handle (Some b)" for disk
      using own(2) a(2) b(2) t(3) by (simp add: panic_if_moved_win_def has_moved_win_def)
    then show ?thesis using j own(1) a b unfolding identity_of_exact by metis
  qed
  ultimately show ?thesis by auto
qed

text \<open>A database whose handle has a final path of three units, which fits at the first call.\<close>

definition demo_file :: "32 word \<Rightarrow> by_handle_info" where
  "demo_file n = \<lparr>bh_volume_serial = 7, bh_index_high = 1, bh_index_low = n\<rparr>"

definition demo_win_moment :: win_moment where
  "demo_win_moment = \<lparr>wm_disk = (\<lambda>p. if p = [''db''] then Inr (Some (demo_file 1)) else if p = [''db-wal''] then Inr (Some (demo_file 2))
       else if p = [''db-shm''] then Inr (Some (demo_file 3)) else Inl 2),
     wm_handle = (0, Some (demo_file 1)), wm_final = (\<lambda>k len. if 2 < len then (2, [100, 98, 0]) else (3, []))\<rparr>"

theorem win_moved_check_exact_witness:
  "panic_if_moved_win (wm_disk demo_win_moment) \<lparr>di_main = File_id 7 4294967297,
     di_companions = Some (\<lparr>tr_path = [''db-wal''], tr_identity = File_id 7 4294967298\<rparr>,
       \<lparr>tr_path = [''db-shm''], tr_identity = File_id 7 4294967299\<rparr>)\<rparr> [''db''] = Inr ()"
proof -
  have answers: "final_path_answers 2 (\<lambda>_. [100, 98]) (wm_final demo_win_moment)"
    by (simp add: final_path_answers_def demo_win_moment_def)
  have idents: "of_handle (Some (demo_file n)) = Some (File_id 7 (4294967296 + unat n))" if "n \<in> {1, 2, 3}" for n
    using that by (auto simp: of_handle_def demo_file_def file_index_def)
  have main: "record_main_identity_win demo_win_moment [''db''] = Inr (File_id 7 4294967297)"
    using idents [of 1] by (simp add: record_main_identity_win_def main_handle_def identity_of_def demo_win_moment_def)
  have "final_path (wm_final demo_win_moment) = Some (Inr [100, 98])"
    by (simp add: final_path_def final_path_loop.simps demo_win_moment_def)
  then have companions: "with_companions_win (\<lambda>_. [''db'']) demo_win_moment \<lparr>di_main = File_id 7 4294967297, di_companions = None\<rparr> [''db'']
    = Some (Inr \<lparr>di_main = File_id 7 4294967297,
     di_companions = Some (\<lparr>tr_path = [''db-wal''], tr_identity = File_id 7 4294967298\<rparr>,
       \<lparr>tr_path = [''db-shm''], tr_identity = File_id 7 4294967299\<rparr>)\<rparr>)"
    using idents [of 2] idents [of 3]
    by (simp add: with_companions_win_def main_handle_def track_win_def identity_of_def companion_path_def demo_win_moment_def)
  show ?thesis
    using win_moved_check_exact [OF answers main, of "\<lambda>_. [''db'']"] companions
    by (auto simp: companion_path_def demo_win_moment_def)
qed

end
