(* ===== verification/Win_Capture.thy ===== *)
theory Win_Capture
  imports Capture
begin

text \<open>
  Capturing a test's output on Windows (\<open>src/capture.rs\<close>).  Two tables refer to the output streams:
  the standard handles of the process, through which Rust writes, and the descriptors of the C
  runtime, each of which owns a handle.  Both are pointed at the pipe, and a guard undoes a partial
  redirection.  As in \<open>Capture\<close>, a list of faults says which calls fail; a failed call changes nothing.

  \<open>dup2\<close> closes the handle that its target owned.  Whether it also stores the new handle as the
  standard handle is a parameter, because runtimes differ: \<open>wa_syncs\<close>.
\<close>

record win_stdio =
  ws_handles :: "nat \<Rightarrow> fd_target option"
  ws_crt :: "nat \<Rightarrow> nat option"                     \<comment> \<open>the handle a descriptor owns\<close>
  ws_slot :: "nat \<Rightarrow> nat option"                    \<comment> \<open>\<open>STD_OUTPUT_HANDLE\<close> is 1, \<open>STD_ERROR_HANDLE\<close> is 2\<close>
  ws_faults :: "int option list"
  ws_pipes :: nat

type_synonym 'a wcap = "(win_stdio, capture_panic, 'a) eff"

record win_runtime =
  wa_handle :: "(nat \<Rightarrow> fd_target option) \<Rightarrow> nat"
  wa_fd :: "(nat \<Rightarrow> nat option) \<Rightarrow> nat"
  wa_syncs :: bool

section \<open>Calls\<close>

definition wcall :: "(win_stdio \<Rightarrow> (int, 'a) result \<times> win_stdio) \<Rightarrow> (int, 'a) result wcap" where
  "wcall f s = (case ws_faults s of
       [] \<Rightarrow> (case f s of (r, s') \<Rightarrow> (Inr r, s'))
     | None # fs \<Rightarrow> (case f (s\<lparr>ws_faults := fs\<rparr>) of (r, s') \<Rightarrow> (Inr r, s'))
     | Some e # fs \<Rightarrow> (Inr (Inl e), s\<lparr>ws_faults := fs\<rparr>))"

text \<open>A step whose failure is cleaned up after and returned.\<close>

definition attempt_or :: "(int, 'a) result wcap \<Rightarrow> unit wcap \<Rightarrow> ('a \<Rightarrow> (int, 'b) result wcap) \<Rightarrow> (int, 'b) result wcap" where
  "attempt_or m cleanup k = eff_bind m (\<lambda>r. case r of
       Inl e \<Rightarrow> eff_bind cleanup (\<lambda>_. ret (Inl e))
     | Inr x \<Rightarrow> k x)"

definition set_handle :: "nat \<Rightarrow> fd_target option \<Rightarrow> win_stdio \<Rightarrow> win_stdio" where
  "set_handle h t s = s\<lparr>ws_handles := (ws_handles s)(h := t)\<rparr>"

definition set_crt :: "nat \<Rightarrow> nat option \<Rightarrow> win_stdio \<Rightarrow> win_stdio" where
  "set_crt fd h s = s\<lparr>ws_crt := (ws_crt s)(fd := h)\<rparr>"

definition set_slot :: "nat \<Rightarrow> nat option \<Rightarrow> win_stdio \<Rightarrow> win_stdio" where
  "set_slot n h s = s\<lparr>ws_slot := (ws_slot s)(n := h)\<rparr>"

abbreviation EBADF :: int where "EBADF \<equiv> 9"
abbreviation INVALID_HANDLE :: int where "INVALID_HANDLE \<equiv> 6"

definition win_GetStdHandle :: "nat \<Rightarrow> (int, nat) result wcap" where
  "win_GetStdHandle n = wcall (\<lambda>s. (case ws_slot s n of None \<Rightarrow> Inl INVALID_HANDLE | Some h \<Rightarrow> Inr h, s))"

definition win_SetStdHandle :: "nat \<Rightarrow> nat \<Rightarrow> (int, unit) result wcap" where
  "win_SetStdHandle n h = wcall (\<lambda>s. (Inr (), set_slot n (Some h) s))"

definition win_close_fd :: "nat \<Rightarrow> win_stdio \<Rightarrow> win_stdio" where
  "win_close_fd fd s = (case ws_crt s fd of None \<Rightarrow> s | Some h \<Rightarrow> set_crt fd None (set_handle h None s))"

definition crt_close :: "nat \<Rightarrow> unit wcap" where
  "crt_close fd = modify (win_close_fd fd)"

definition crt_dup :: "win_runtime \<Rightarrow> nat \<Rightarrow> (int, nat) result wcap" where
  "crt_dup A fd = wcall (\<lambda>s. case ws_crt s fd of
       None \<Rightarrow> (Inl EBADF, s)
     | Some h \<Rightarrow> let h' = wa_handle A (ws_handles s); fd' = wa_fd A (ws_crt s)
         in (Inr fd', set_crt fd' (Some h') (set_handle h' (ws_handles s h) s)))"

definition dup2_onto :: "win_runtime \<Rightarrow> fd_target option \<Rightarrow> nat \<Rightarrow> win_stdio \<Rightarrow> win_stdio" where
  "dup2_onto A t d s = (let s1 = win_close_fd d s; h' = wa_handle A (ws_handles s1); s2 = set_crt d (Some h') (set_handle h' t s1)
     in if wa_syncs A \<and> d \<in> {1, 2} then set_slot d (Some h') s2 else s2)"

definition crt_dup2 :: "win_runtime \<Rightarrow> nat \<Rightarrow> nat \<Rightarrow> (int, unit) result wcap" where
  "crt_dup2 A fd d = wcall (\<lambda>s. case ws_crt s fd of
       None \<Rightarrow> (Inl EBADF, s)
     | Some h \<Rightarrow> (Inr (), if fd = d then s else dup2_onto A (ws_handles s h) d s))"

definition crt_open_osfhandle :: "win_runtime \<Rightarrow> nat \<Rightarrow> (int, nat) result wcap" where
  "crt_open_osfhandle A h = wcall (\<lambda>s. let fd = wa_fd A (ws_crt s) in (Inr fd, set_crt fd (Some h) s))"

definition writer_try_clone :: "win_runtime \<Rightarrow> nat \<Rightarrow> (int, nat) result wcap" where
  "writer_try_clone A w = wcall (\<lambda>s. let h = wa_handle A (ws_handles s) in (Inr h, set_handle h (ws_handles s w) s))"

definition drop_owned :: "nat \<Rightarrow> unit wcap" where
  "drop_owned h = modify (set_handle h None)"

definition win_pipe :: "win_runtime \<Rightarrow> (int, nat \<times> nat) result wcap" where
  "win_pipe A = wcall (\<lambda>s.
     let r = wa_handle A (ws_handles s); s1 = set_handle r (Some (Pipe_read (ws_pipes s))) s; w = wa_handle A (ws_handles s1)
     in (Inr (r, w), (set_handle w (Some (Pipe_write (ws_pipes s))) s1)\<lparr>ws_pipes := Suc (ws_pipes s)\<rparr>))"

definition win_spawn :: "(int, unit) result wcap" where
  "win_spawn = wcall (\<lambda>s. (Inr (), s))"

section \<open>The platform layer\<close>

record saved_win =
  sw_stdout_handle :: nat
  sw_stderr_handle :: nat
  sw_stdout_crt :: nat
  sw_stderr_crt :: nat

definition save_win :: "win_runtime \<Rightarrow> (int, saved_win) result wcap" where
  "save_win A =
     attempt_or (win_GetStdHandle 1) (ret ()) (\<lambda>stdout_handle.
     attempt_or (win_GetStdHandle 2) (ret ()) (\<lambda>stderr_handle.
     attempt_or (crt_dup A 1) (ret ()) (\<lambda>stdout_crt.
     attempt_or (crt_dup A 2) (crt_close stdout_crt) (\<lambda>stderr_crt.
       ret (Inr \<lparr>sw_stdout_handle = stdout_handle, sw_stderr_handle = stderr_handle,
         sw_stdout_crt = stdout_crt, sw_stderr_crt = stderr_crt\<rparr>)))))"

record win_rollback =
  rb_stdout_handle_set :: bool
  rb_stderr_handle_set :: bool
  rb_stdout_dup2_set :: bool
  rb_stderr_dup2_set :: bool
  rb_committed :: bool

text \<open>One undo step: skipped when its flag is not set, an abort when it fails.\<close>

definition undo_or_abort :: "bool \<Rightarrow> str \<Rightarrow> (int, unit) result wcap \<Rightarrow> unit wcap" where
  "undo_or_abort flag context m = (if flag then eff_bind m (\<lambda>r. case r of
       Inl _ \<Rightarrow> raise (Capture_abort context)
     | Inr _ \<Rightarrow> ret ()) else ret ())"

definition rollback_drop :: "win_runtime \<Rightarrow> saved_win \<Rightarrow> win_rollback \<Rightarrow> unit wcap" where
  "rollback_drop A sv rb = (if rb_committed rb then ret () else
     eff_bind (undo_or_abort (rb_stderr_dup2_set rb) ''rollback of stderr CRT dup2'' (crt_dup2 A (sw_stderr_crt sv) 2)) (\<lambda>_.
     eff_bind (undo_or_abort (rb_stdout_dup2_set rb) ''rollback of stdout CRT dup2'' (crt_dup2 A (sw_stdout_crt sv) 1)) (\<lambda>_.
     eff_bind (undo_or_abort (rb_stderr_handle_set rb) ''rollback of STD_ERROR_HANDLE'' (win_SetStdHandle 2 (sw_stderr_handle sv))) (\<lambda>_.
       undo_or_abort (rb_stdout_handle_set rb) ''rollback of STD_OUTPUT_HANDLE'' (win_SetStdHandle 1 (sw_stdout_handle sv))))))"

record live_writers =
  lw_stdout :: "nat option"
  lw_stderr :: "nat option"

definition drop_live :: "live_writers \<Rightarrow> unit wcap" where
  "drop_live l = eff_bind (case lw_stdout l of None \<Rightarrow> ret () | Some h \<Rightarrow> drop_owned h)
     (\<lambda>_. case lw_stderr l of None \<Rightarrow> ret () | Some h \<Rightarrow> drop_owned h)"

text \<open>
  An early return of the second phase closes the two intermediate descriptors; then the guard is
  dropped, and after it the two writers.
\<close>

definition back_out :: "win_runtime \<Rightarrow> saved_win \<Rightarrow> nat \<Rightarrow> nat \<Rightarrow> nat \<Rightarrow> nat \<Rightarrow> win_rollback \<Rightarrow> unit wcap" where
  "back_out A sv out_fd err_fd w_out w_err rb =
     eff_bind (crt_close out_fd) (\<lambda>_. eff_bind (crt_close err_fd) (\<lambda>_. eff_bind (rollback_drop A sv rb) (\<lambda>_.
     eff_bind (drop_owned w_err) (\<lambda>_. drop_owned w_out))))"

definition commit_redirect :: "win_runtime \<Rightarrow> saved_win \<Rightarrow> nat \<Rightarrow> nat \<Rightarrow> nat \<Rightarrow> nat \<Rightarrow> (int, live_writers) result wcap" where
  "commit_redirect A sv out_fd err_fd w_out w_err =
     (let rb0 = \<lparr>rb_stdout_handle_set = False, rb_stderr_handle_set = False, rb_stdout_dup2_set = False, rb_stderr_dup2_set = False,
            rb_committed = False\<rparr>;
          rb1 = rb0\<lparr>rb_stdout_handle_set := True\<rparr>; rb2 = rb1\<lparr>rb_stderr_handle_set := True\<rparr>; rb3 = rb2\<lparr>rb_stdout_dup2_set := True\<rparr>;
          rb4 = rb3\<lparr>rb_stderr_dup2_set := True\<rparr>;
          undo = back_out A sv out_fd err_fd w_out w_err
      in attempt_or (win_SetStdHandle 1 w_out) (undo rb0) (\<lambda>_.
         attempt_or (win_SetStdHandle 2 w_err) (undo rb1) (\<lambda>_.
         attempt_or (crt_dup2 A out_fd 1) (undo rb2) (\<lambda>_.
         attempt_or (crt_dup2 A err_fd 2) (undo rb3) (\<lambda>_.
         eff_bind (crt_close out_fd) (\<lambda>_. eff_bind (crt_close err_fd) (\<lambda>_.
         eff_bind (rollback_drop A sv (rb4\<lparr>rb_committed := True\<rparr>)) (\<lambda>_.
           ret (Inr \<lparr>lw_stdout = Some w_out, lw_stderr = Some w_err\<rparr>)))))))))"

text \<open>The clones that exist when a step fails are dropped with it, in reverse order.\<close>

definition drop_all :: "nat list \<Rightarrow> unit wcap" where
  "drop_all hs = foldr (\<lambda>h m. eff_bind (drop_owned h) (\<lambda>_. m)) hs (ret ())"

definition redirect_to_pipe_win :: "win_runtime \<Rightarrow> nat \<Rightarrow> saved_win \<Rightarrow> (int, live_writers) result wcap" where
  "redirect_to_pipe_win A writer sv =
     attempt_or (writer_try_clone A writer) (drop_all [writer]) (\<lambda>w_stdout_handle.
     attempt_or (writer_try_clone A writer) (drop_all [w_stdout_handle, writer]) (\<lambda>w_stderr_handle.
     attempt_or (writer_try_clone A writer) (drop_all [w_stderr_handle, w_stdout_handle, writer]) (\<lambda>w_stdout_crt.
     attempt_or (writer_try_clone A writer) (drop_all [w_stdout_crt, w_stderr_handle, w_stdout_handle, writer]) (\<lambda>w_stderr_crt.
     eff_bind (drop_owned writer) (\<lambda>_.
     attempt_or (crt_open_osfhandle A w_stdout_crt) (drop_all [w_stdout_crt, w_stderr_crt, w_stderr_handle, w_stdout_handle]) (\<lambda>crt_stdout_fd.
     attempt_or (crt_open_osfhandle A w_stderr_crt)
       (eff_bind (crt_close crt_stdout_fd) (\<lambda>_. drop_all [w_stderr_crt, w_stderr_handle, w_stdout_handle])) (\<lambda>crt_stderr_fd.
     commit_redirect A sv crt_stdout_fd crt_stderr_fd w_stdout_handle w_stderr_handle)))))))"

definition restore_win :: "win_runtime \<Rightarrow> saved_win \<Rightarrow> (int, unit) result wcap" where
  "restore_win A sv =
     eff_bind (win_SetStdHandle 1 (sw_stdout_handle sv)) (\<lambda>r1.
     eff_bind (win_SetStdHandle 2 (sw_stderr_handle sv)) (\<lambda>r2.
     eff_bind (crt_dup2 A (sw_stdout_crt sv) 1) (\<lambda>r3.
     eff_bind (crt_dup2 A (sw_stderr_crt sv) 2) (\<lambda>r4.
       ret (result_bind r1 (\<lambda>_. result_bind r2 (\<lambda>_. result_bind r3 (\<lambda>_. r4))))))))"

definition close_saved_win :: "saved_win \<Rightarrow> unit wcap" where
  "close_saved_win sv = eff_bind (crt_close (sw_stdout_crt sv)) (\<lambda>_. crt_close (sw_stderr_crt sv))"

section \<open>The capture\<close>

record fd_capture_win =
  fw_saved :: "saved_win option"
  fw_reader :: "nat option"
  fw_live :: live_writers

definition capture_begin_win :: "win_runtime \<Rightarrow> (begin_error, fd_capture_win) result wcap" where
  "capture_begin_win A = eff_bind (save_win A) (\<lambda>r. case r of
       Inl e \<Rightarrow> ret (Inl (Save_error e))
     | Inr sv \<Rightarrow> eff_bind (win_pipe A) (\<lambda>r. case r of
           Inl e \<Rightarrow> ret (Inl (Pipe_error e))
         | Inr (reader, writer) \<Rightarrow> eff_bind (redirect_to_pipe_win A writer sv) (\<lambda>r. case r of
               Inl e \<Rightarrow> eff_bind (close_saved_win sv) (\<lambda>_. eff_bind (drop_owned reader) (\<lambda>_. ret (Inl (Redirect_error e))))
             | Inr live \<Rightarrow> eff_bind win_spawn (\<lambda>r. case r of
                   Inl e \<Rightarrow> eff_bind (drop_owned reader) (\<lambda>_. eff_bind (drop_live live) (\<lambda>_. ret (Inl (Spawn_error e))))
                 | Inr _ \<Rightarrow> ret (Inr \<lparr>fw_saved = Some sv, fw_reader = Some reader, fw_live = live\<rparr>)))))"

definition capture_end_win :: "win_runtime \<Rightarrow> (int, str) result \<Rightarrow> fd_capture_win \<Rightarrow> (int, str) result wcap" where
  "capture_end_win A drained c = (case fw_saved c of
       None \<Rightarrow> raise Already_ended
     | Some sv \<Rightarrow> eff_bind (restore_win A sv) (\<lambda>r. case r of
           Inl _ \<Rightarrow> raise (Capture_abort ''FdCapture::end'')
         | Inr _ \<Rightarrow> eff_bind (close_saved_win sv) (\<lambda>_. eff_bind (drop_live (fw_live c)) (\<lambda>_. (case fw_reader c of
               None \<Rightarrow> raise Reader_missing
             | Some reader \<Rightarrow> eff_bind (drop_owned reader) (\<lambda>_. ret drained))))))"

definition capture_drop_win :: "win_runtime \<Rightarrow> fd_capture_win \<Rightarrow> unit wcap" where
  "capture_drop_win A c = (case fw_saved c of
       None \<Rightarrow> ret ()
     | Some sv \<Rightarrow> eff_bind (restore_win A sv) (\<lambda>r. case r of
           Inl _ \<Rightarrow> raise (Capture_abort ''FdCapture::drop'')
         | Inr _ \<Rightarrow> eff_bind (close_saved_win sv) (\<lambda>_. drop_live (fw_live c))))"

text \<open>995 is \<open>ERROR_OPERATION_ABORTED\<close>.\<close>

definition drain_pipe_win :: "str \<Rightarrow> read_error option \<Rightarrow> (read_error \<times> nat, str) result" where
  "drain_pipe_win buf err = (if err = Some (Other_read 995) then Inr buf else drain_pipe buf err)"

end
