(* ===== verification/Win_Capture_Props.thy ===== *)
theory Win_Capture_Props
  imports Win_Capture
begin

text \<open>
  What a capture does on Windows.  The proofs see the tables through what they mean: the object
  behind each descriptor of the C runtime, and the handles no descriptor owns.  Each call has a rule in
  that view; \<open>wspec\<close> chains them over success, clean-up and abort.
\<close>

section \<open>The view\<close>

definition crt_target :: "win_stdio \<Rightarrow> nat \<Rightarrow> fd_target option" where
  "crt_target s fd = (case ws_crt s fd of None \<Rightarrow> None | Some h \<Rightarrow> ws_handles s h)"

definition free_handles :: "win_stdio \<Rightarrow> nat \<Rightarrow> fd_target option" where
  "free_handles s h = (if h \<in> ran (ws_crt s) then None else ws_handles s h)"

definition slot_target :: "win_stdio \<Rightarrow> nat \<Rightarrow> fd_target option" where
  "slot_target s n = (case ws_slot s n of None \<Rightarrow> None | Some h \<Rightarrow> ws_handles s h)"

text \<open>Every descriptor owns an open handle of its own.\<close>

definition stdio_wf :: "win_stdio \<Rightarrow> bool" where
  "stdio_wf s \<longleftrightarrow> finite (dom (ws_handles s)) \<and> finite (dom (ws_crt s)) \<and> inj_on (ws_crt s) (dom (ws_crt s))
     \<and> ran (ws_crt s) \<subseteq> dom (ws_handles s)"

definition runtime_ok :: "win_runtime \<Rightarrow> bool" where
  "runtime_ok A \<longleftrightarrow> (\<forall>m. finite (dom m) \<longrightarrow> m (wa_handle A m) = None) \<and> (\<forall>m. finite (dom m) \<longrightarrow> m (wa_fd A m) = None)"

text \<open>
  The slots in \<open>T\<close> hold the handle of their descriptor, whatever that is; the others are as \<open>S\<close> says.
\<close>

definition looks :: "(nat \<Rightarrow> fd_target option) \<Rightarrow> (nat \<Rightarrow> fd_target option) \<Rightarrow> (nat \<Rightarrow> nat option) \<Rightarrow> nat set \<Rightarrow> nat \<Rightarrow> win_stdio \<Rightarrow> bool" where
  "looks C F S T p s \<longleftrightarrow> stdio_wf s \<and> crt_target s = C \<and> free_handles s = F \<and> ws_pipes s = p
     \<and> (\<forall>n\<in>T. ws_slot s n = ws_crt s n \<and> ws_crt s n \<noteq> None) \<and> (\<forall>n. n \<notin> T \<longrightarrow> ws_slot s n = S n)"

lemma looks_self: "stdio_wf s \<Longrightarrow> looks (crt_target s) (free_handles s) (ws_slot s) {} (ws_pipes s) s"
  by (simp add: looks_def)

lemma stdio_wfD:
  assumes "stdio_wf s"
  shows "finite (dom (ws_handles s))" "finite (dom (ws_crt s))"
    and "ws_crt s a = Some h \<Longrightarrow> ws_crt s b = Some h \<Longrightarrow> a = b"
    and "ws_crt s a = Some h \<Longrightarrow> \<exists>t. ws_handles s h = Some t"
proof -
  note wf = assms [unfolded stdio_wf_def]
  show "finite (dom (ws_handles s))" "finite (dom (ws_crt s))" using wf by auto
  show "a = b" if "ws_crt s a = Some h" "ws_crt s b = Some h" using wf that by (metis domI inj_on_contraD)
  show "\<exists>t. ws_handles s h = Some t" if "ws_crt s a = Some h" using wf that by (meson domD ranI subsetD)
qed

lemma stdio_wfI:
  assumes "finite (dom (ws_handles s))" "finite (dom (ws_crt s))"
    and "\<And>a b h. ws_crt s a = Some h \<Longrightarrow> ws_crt s b = Some h \<Longrightarrow> a = b"
    and "\<And>a h. ws_crt s a = Some h \<Longrightarrow> ws_handles s h \<noteq> None"
  shows "stdio_wf s"
  unfolding stdio_wf_def using assms by (fastforce simp: inj_on_def ran_def)

lemma crt_target_None: "stdio_wf s \<Longrightarrow> crt_target s fd = None \<longleftrightarrow> ws_crt s fd = None"
  using stdio_wfD(4) [of s fd] by (auto simp: crt_target_def split: option.split)

lemma free_handles_Some: "free_handles s h = Some t \<longleftrightarrow> ws_handles s h = Some t \<and> (\<forall>fd. ws_crt s fd \<noteq> Some h)"
  by (auto simp: free_handles_def ran_def)

lemma looks_view: "looks C F S T p s \<Longrightarrow> C = crt_target s \<and> F = free_handles s"
  by (simp add: looks_def)

section \<open>Updates in the view\<close>

lemma set_simps [simp]:
  "ws_handles (set_handle h t s) = (ws_handles s)(h := t)" "ws_crt (set_handle h t s) = ws_crt s"
  "ws_slot (set_handle h t s) = ws_slot s" "ws_pipes (set_handle h t s) = ws_pipes s"
  "ws_handles (set_crt fd x s) = ws_handles s" "ws_crt (set_crt fd x s) = (ws_crt s)(fd := x)"
  "ws_slot (set_crt fd x s) = ws_slot s" "ws_pipes (set_crt fd x s) = ws_pipes s"
  "ws_handles (set_slot n x s) = ws_handles s" "ws_crt (set_slot n x s) = ws_crt s"
  "ws_slot (set_slot n x s) = (ws_slot s)(n := x)" "ws_pipes (set_slot n x s) = ws_pipes s"
  by (simp_all add: set_handle_def set_crt_def set_slot_def)

lemma view_set_slot [simp]:
  "stdio_wf (set_slot n x s) = stdio_wf s" "crt_target (set_slot n x s) = crt_target s"
  "free_handles (set_slot n x s) = free_handles s"
  by (simp_all add: stdio_wf_def crt_target_def free_handles_def fun_eq_iff split: option.split)

lemma looks_set_slot: "looks C F S T p s \<Longrightarrow> looks C F (S(n \<mapsto> h)) (T - {n}) p (set_slot n (Some h) s)"
  by (simp add: looks_def)

text \<open>A handle that no descriptor owns comes or goes.\<close>

lemma looks_set_handle:
  assumes "looks C F S T p s" "\<forall>fd. ws_crt s fd \<noteq> Some h"
  shows "looks C (F(h := t)) S T p (set_handle h t s)"
proof -
  have wf: "stdio_wf s" using assms(1) by (simp add: looks_def)
  have "stdio_wf (set_handle h t s)"
  proof (rule stdio_wfI)
    show "finite (dom (ws_handles (set_handle h t s)))" using stdio_wfD(1) [OF wf] by (cases t) (simp_all add: dom_fun_upd)
    show "ws_handles (set_handle h t s) g \<noteq> None" if "ws_crt (set_handle h t s) a = Some g" for a g
      using stdio_wfD(4) [OF wf, of a g] assms(2) that by auto
  qed (use stdio_wfD(2,3) [OF wf] in auto)
  moreover have "crt_target (set_handle h t s) = crt_target s"
    using assms(2) by (simp add: crt_target_def fun_eq_iff split: option.split)
  moreover have "free_handles (set_handle h t s) = (free_handles s)(h := t)"
    using assms(2) by (auto simp: free_handles_def fun_eq_iff ran_def)
  ultimately show ?thesis using assms by (simp add: looks_def)
qed

text \<open>A descriptor that is not open takes over a free handle.\<close>

lemma looks_take_handle:
  assumes "looks C F S T p s" "C fd = None" "F h = Some t"
  shows "looks (C(fd \<mapsto> t)) (F(h := None)) S T p (set_crt fd (Some h) s)"
proof -
  have wf: "stdio_wf s" and F: "free_handles s h = Some t" and C: "ws_crt s fd = None"
    using assms crt_target_None by (auto simp: looks_def)
  from F have h: "ws_handles s h = Some t" "\<And>a. ws_crt s a \<noteq> Some h" by (auto simp: free_handles_Some)
  have "stdio_wf (set_crt fd (Some h) s)"
  proof (rule stdio_wfI)
    show "finite (dom (ws_crt (set_crt fd (Some h) s)))" using stdio_wfD(2) [OF wf] by simp
    show "a = b" if "ws_crt (set_crt fd (Some h) s) a = Some g" "ws_crt (set_crt fd (Some h) s) b = Some g" for a b g
      using stdio_wfD(3) [OF wf, of a g b] h(2) that by (auto split: if_splits)
    show "ws_handles (set_crt fd (Some h) s) g \<noteq> None" if "ws_crt (set_crt fd (Some h) s) a = Some g" for a g
      using stdio_wfD(4) [OF wf, of a g] h(1) that by (auto split: if_splits)
  qed (use stdio_wfD(1) [OF wf] in auto)
  moreover have "free_handles (set_crt fd (Some h) s) = (free_handles s)(h := None)"
    using h C by (auto simp: free_handles_def fun_eq_iff ran_def)
  moreover have "crt_target (set_crt fd (Some h) s) = (crt_target s)(fd \<mapsto> t)"
    using h by (auto simp: crt_target_def fun_eq_iff split: option.split)
  moreover have "fd \<notin> T" using assms(1) C by (auto simp: looks_def)
  ultimately show ?thesis using assms(1) by (auto simp: looks_def)
qed

lemma looks_close_fd:
  assumes "looks C F S T p s" "fd \<notin> T"
  shows "looks (C(fd := None)) F S T p (win_close_fd fd s)"
proof (cases "ws_crt s fd")
  case None
  then have "(crt_target s)(fd := None) = crt_target s" by (auto simp: crt_target_def fun_eq_iff)
  then show ?thesis using assms None by (simp add: win_close_fd_def looks_def)
next
  case (Some h)
  have wf: "stdio_wf s" using assms(1) by (simp add: looks_def)
  note only = stdio_wfD(3) [OF wf Some]
  let ?s = "set_crt fd None (set_handle h None s)"
  have "stdio_wf ?s"
  proof (rule stdio_wfI)
    show "finite (dom (ws_handles ?s))" "finite (dom (ws_crt ?s))" using stdio_wfD(1,2) [OF wf] by (simp_all add: dom_fun_upd)
    show "a = b" if "ws_crt ?s a = Some g" "ws_crt ?s b = Some g" for a b g
      using stdio_wfD(3) [OF wf, of a g b] that by (auto split: if_splits)
    show "ws_handles ?s g \<noteq> None" if "ws_crt ?s a = Some g" for a g
    proof -
      have a: "a \<noteq> fd" "ws_crt s a = Some g" using that by (auto split: if_splits)
      then have "g \<noteq> h" using only [of a] by blast
      then show ?thesis using stdio_wfD(4) [OF wf a(2)] by simp
    qed
  qed
  moreover have "free_handles ?s g = free_handles s g" for g
  proof (cases "g = h")
    case True
    then show ?thesis using Some by (auto simp: free_handles_def ran_def)
  next
    case False
    have "(\<exists>a. ws_crt ?s a = Some g) \<longleftrightarrow> (\<exists>a. ws_crt s a = Some g)"
    proof (intro iffI; elim exE)
      fix a assume a: "ws_crt s a = Some g"
      then have "a \<noteq> fd" using Some False by auto
      with a have "ws_crt ?s a = Some g" by simp
      then show "\<exists>a. ws_crt ?s a = Some g" ..
    qed (auto split: if_splits)
    then show ?thesis using False by (simp add: free_handles_def ran_def)
  qed
  then have "free_handles ?s = free_handles s" ..
  moreover have "crt_target ?s = (crt_target s)(fd := None)"
    using only by (auto simp: crt_target_def fun_eq_iff split: option.split)
  ultimately show ?thesis using assms Some by (auto simp: win_close_fd_def looks_def split: if_splits)
qed

lemma looks_fresh_handle:
  assumes "looks C F S T p s" "runtime_ok A"
  shows "ws_handles s (wa_handle A (ws_handles s)) = None" "\<forall>fd. ws_crt s fd \<noteq> Some (wa_handle A (ws_handles s))"
    "F (wa_handle A (ws_handles s)) = None"
proof -
  have wf: "stdio_wf s" using assms(1) by (simp add: looks_def)
  show n: "ws_handles s (wa_handle A (ws_handles s)) = None"
    using stdio_wfD(1) [OF wf] assms(2) by (simp add: runtime_ok_def)
  show c: "\<forall>fd. ws_crt s fd \<noteq> Some (wa_handle A (ws_handles s))" using stdio_wfD(4) [OF wf] n by fastforce
  show "F (wa_handle A (ws_handles s)) = None" using looks_view [OF assms(1)] n by (simp add: free_handles_def)
qed

lemma looks_fresh_fd:
  assumes "looks C F S T p s" "runtime_ok A"
  shows "C (wa_fd A (ws_crt s)) = None" "ws_crt s (wa_fd A (ws_crt s)) = None"
  using assms crt_target_None [of s "wa_fd A (ws_crt s)"] stdio_wfD(2) [of s] by (auto simp: looks_def runtime_ok_def)

text \<open>A descriptor that is not open gets a new handle for an object.\<close>

lemma looks_new_fd:
  assumes "looks C F S T p s" "runtime_ok A" "C fd = None"
  shows "looks (C(fd \<mapsto> t)) F S T p (set_crt fd (Some (wa_handle A (ws_handles s))) (set_handle (wa_handle A (ws_handles s)) (Some t) s))"
proof -
  note fresh = looks_fresh_handle [OF assms(1,2)]
  have "looks C (F(wa_handle A (ws_handles s) \<mapsto> t)) S T p (set_handle (wa_handle A (ws_handles s)) (Some t) s)"
    by (rule looks_set_handle [OF assms(1) fresh(2)])
  from looks_take_handle [OF this assms(3), of "wa_handle A (ws_handles s)" t] fresh(3) show ?thesis
    by (simp add: fun_upd_idem)
qed

lemma looks_dup2:
  assumes "looks C F S T p s" "runtime_ok A" "wa_syncs A \<or> T = {}" "d \<in> {1, 2}"
  shows "looks (C(d \<mapsto> t)) F S (if wa_syncs A then insert d T else T) p (dup2_onto A (Some t) d s)"
proof -
  let ?T = "T - {d}"
  have untied: "looks C F (S(d := ws_slot s d)) ?T p s" using assms(1) by (auto simp: looks_def)
  have "looks (C(d := None)) F (S(d := ws_slot s d)) ?T p (win_close_fd d s)" by (rule looks_close_fd [OF untied]) simp
  from looks_new_fd [OF this assms(2), of d t]
  have new: "looks (C(d \<mapsto> t)) F (S(d := ws_slot s d)) ?T p
      (set_crt d (Some (wa_handle A (ws_handles (win_close_fd d s)))) (set_handle (wa_handle A (ws_handles (win_close_fd d s))) (Some t) (win_close_fd d s)))"
    by simp
  show ?thesis
  proof (cases "wa_syncs A")
    case True
    have "looks (C(d \<mapsto> t)) F S (insert d T) p (dup2_onto A (Some t) d s)"
      using new True assms(4) unfolding dup2_onto_def Let_def
      by (auto simp: looks_def stdio_wf_def crt_target_def free_handles_def fun_eq_iff split: if_splits)
    with True show ?thesis by simp
  next
    case False
    have "S(d := ws_slot s d) = S" "?T = T" using assms(1,3) False by (auto simp: looks_def fun_eq_iff)
    with new False show ?thesis by (simp add: dup2_onto_def Let_def)
  qed
qed

section \<open>Chains of calls\<close>

text \<open>A call that returns a value keeps \<open>Q\<close>, one that returns an error keeps \<open>E\<close>.\<close>

definition wspec :: "(win_stdio \<Rightarrow> bool) \<Rightarrow> (int, 'a) result wcap \<Rightarrow> ('a \<Rightarrow> win_stdio \<Rightarrow> bool) \<Rightarrow> (win_stdio \<Rightarrow> bool) \<Rightarrow> bool" where
  "wspec P m Q E \<longleftrightarrow> (\<forall>s. P s \<longrightarrow> (case m s of (Inl _, s') \<Rightarrow> True | (Inr (Inl _), s') \<Rightarrow> E s' | (Inr (Inr x), s') \<Rightarrow> Q x s'))"

definition uspec :: "(win_stdio \<Rightarrow> bool) \<Rightarrow> unit wcap \<Rightarrow> (win_stdio \<Rightarrow> bool) \<Rightarrow> bool" where
  "uspec P m Q \<longleftrightarrow> (\<forall>s. P s \<longrightarrow> (case m s of (Inl _, s') \<Rightarrow> True | (Inr _, s') \<Rightarrow> Q s'))"

lemma wspecD: "wspec P m Q E \<Longrightarrow> P s \<Longrightarrow> m s = (Inr (Inr x), s') \<Longrightarrow> Q x s'"
  and wspecD_err: "wspec P m Q E \<Longrightarrow> P s \<Longrightarrow> m s = (Inr (Inl e), s') \<Longrightarrow> E s'"
  by (fastforce simp: wspec_def)+

lemma uspecD: "uspec P m Q \<Longrightarrow> P s \<Longrightarrow> m s = (Inr u, s') \<Longrightarrow> Q s'"
  by (fastforce simp: uspec_def)

lemma wspec_attempt:
  assumes "wspec P m Q' E'" "uspec E' cleanup E" "\<And>x. wspec (Q' x) (k x) Q E"
  shows "wspec P (attempt_or m cleanup k) Q E"
  using assms unfolding wspec_def uspec_def attempt_or_def eff_bind_def
  by (fastforce split: prod.splits sum.splits)

lemma wspec_weaken: "wspec P m Q E \<Longrightarrow> (\<And>x s. Q x s \<Longrightarrow> Q' x s) \<Longrightarrow> E = E' \<Longrightarrow> wspec P m Q' E'"
  by (fastforce simp: wspec_def split: prod.splits sum.splits)

lemma wspec_seq: "uspec P m P' \<Longrightarrow> wspec P' k Q E \<Longrightarrow> wspec P (eff_bind m (\<lambda>_. k)) Q E"
  by (fastforce simp: wspec_def uspec_def eff_bind_def split: prod.splits sum.splits)

lemma wspec_ret: "(\<And>s. P s \<Longrightarrow> Q x s) \<Longrightarrow> wspec P (ret (Inr x)) Q E"
  by (simp add: wspec_def)

lemma wspec_pure: "(b \<Longrightarrow> wspec P m Q E) \<Longrightarrow> wspec (\<lambda>s. b \<and> P s) m Q E"
  by (auto simp: wspec_def)

lemma uspec_seq: "uspec P m P' \<Longrightarrow> uspec P' k Q \<Longrightarrow> uspec P (eff_bind m (\<lambda>_. k)) Q"
  by (fastforce simp: uspec_def eff_bind_def split: prod.splits sum.splits)

lemma uspec_ret [simp]: "uspec P (ret ()) P"
  by (simp add: uspec_def)

lemma uspec_post: "uspec P m Q \<Longrightarrow> Q = Q' \<Longrightarrow> uspec P m Q'"
  by simp

lemma uspec_undo: "(flag \<Longrightarrow> wspec P m (\<lambda>_. Q) E) \<Longrightarrow> (\<not> flag \<Longrightarrow> P = Q) \<Longrightarrow> uspec P (undo_or_abort flag c m) Q"
  by (fastforce simp: uspec_def wspec_def undo_or_abort_def eff_bind_def split: prod.splits sum.splits)

lemma view_unrelated [simp]:
  "stdio_wf (s\<lparr>ws_faults := fs\<rparr>) = stdio_wf s" "crt_target (s\<lparr>ws_faults := fs\<rparr>) = crt_target s"
  "free_handles (s\<lparr>ws_faults := fs\<rparr>) = free_handles s"
  "stdio_wf (s\<lparr>ws_pipes := k\<rparr>) = stdio_wf s" "crt_target (s\<lparr>ws_pipes := k\<rparr>) = crt_target s"
  "free_handles (s\<lparr>ws_pipes := k\<rparr>) = free_handles s"
  by (simp_all add: stdio_wf_def crt_target_def free_handles_def fun_eq_iff split: option.split)

lemma looks_faults [simp]: "looks C F S T p (s\<lparr>ws_faults := fs\<rparr>) = looks C F S T p s"
  by (simp add: looks_def)

lemma wspec_wcall:
  assumes "\<And>s. looks C F S T p s \<Longrightarrow> case f s of (Inl _, s') \<Rightarrow> looks C F S T p s' | (Inr x, s') \<Rightarrow> Q x s'"
  shows "wspec (looks C F S T p) (wcall f) Q (looks C F S T p)"
proof -
  have "case wcall f s of (Inl _, s') \<Rightarrow> True | (Inr (Inl _), s') \<Rightarrow> looks C F S T p s' | (Inr (Inr x), s') \<Rightarrow> Q x s'"
    if "looks C F S T p s" for s
    using assms [of s] assms [of "s\<lparr>ws_faults := tl (ws_faults s)\<rparr>"] that
    by (auto simp: wcall_def split: list.split option.split prod.splits sum.splits)
  then show ?thesis by (simp add: wspec_def)
qed

section \<open>The rule of each call\<close>

lemma wspec_get_slot:
  "n \<notin> T \<Longrightarrow> wspec (looks C F S T p) (win_GetStdHandle n) (\<lambda>h s. S n = Some h \<and> looks C F S T p s) (looks C F S T p)"
  unfolding win_GetStdHandle_def by (rule wspec_wcall) (auto simp: looks_def split: option.split)

lemma wspec_set_slot:
  "wspec (looks C F S T p) (win_SetStdHandle n h) (\<lambda>_. looks C F (S(n \<mapsto> h)) (T - {n}) p) (looks C F S T p)"
  unfolding win_SetStdHandle_def by (rule wspec_wcall) (simp add: looks_set_slot)

lemma wspec_dup:
  assumes "runtime_ok A"
  shows "wspec (looks C F S T p) (crt_dup A fd) (\<lambda>x s. (C x = None \<and> C fd \<noteq> None) \<and> looks (C(x := C fd)) F S T p s) (looks C F S T p)"
  unfolding crt_dup_def
proof (rule wspec_wcall)
  fix s assume l: "looks C F S T p s"
  show "case (case ws_crt s fd of None \<Rightarrow> (Inl EBADF, s) | Some h \<Rightarrow> let h' = wa_handle A (ws_handles s); fd' = wa_fd A (ws_crt s)
           in (Inr fd', set_crt fd' (Some h') (set_handle h' (ws_handles s h) s))) of
      (Inl _, s') \<Rightarrow> looks C F S T p s' | (Inr x, s') \<Rightarrow> (C x = None \<and> C fd \<noteq> None) \<and> looks (C(x := C fd)) F S T p s'"
  proof (cases "ws_crt s fd")
    case (Some h)
    have wf: "stdio_wf s" using l by (simp add: looks_def)
    obtain t where t: "ws_handles s h = Some t" using stdio_wfD(4) [OF wf Some] by blast
    then have "C fd = Some t" using looks_view [OF l] Some by (simp add: crt_target_def)
    then show ?thesis using Some t looks_new_fd [OF l assms looks_fresh_fd(1) [OF l assms], of t] looks_fresh_fd(1) [OF l assms]
      by (simp add: Let_def)
  qed (use l in simp)
qed

lemma wspec_dup2:
  assumes "runtime_ok A" "wa_syncs A \<or> T = {}" "d \<in> {1, 2}" "fd \<noteq> d" "C fd = Some t"
  shows "wspec (looks C F S T p) (crt_dup2 A fd d) (\<lambda>_. looks (C(d \<mapsto> t)) F S (if wa_syncs A then insert d T else T) p) (looks C F S T p)"
  unfolding crt_dup2_def
proof (rule wspec_wcall)
  fix s assume l: "looks C F S T p s"
  then obtain h where "ws_crt s fd = Some h" "ws_handles s h = Some t"
    using looks_view [OF l] assms(5) by (auto simp: crt_target_def split: option.splits)
  then show "case (case ws_crt s fd of None \<Rightarrow> (Inl EBADF, s) | Some h \<Rightarrow> (Inr (), if fd = d then s else dup2_onto A (ws_handles s h) d s)) of
      (Inl _, s') \<Rightarrow> looks C F S T p s' | (Inr x, s') \<Rightarrow> looks (C(d \<mapsto> t)) F S (if wa_syncs A then insert d T else T) p s'"
    using looks_dup2 [OF l assms(1-3), of t] assms(4) by simp
qed

lemma wspec_clone:
  assumes "runtime_ok A" "F w = Some t"
  shows "wspec (looks C F S T p) (writer_try_clone A w) (\<lambda>h s. F h = None \<and> looks C (F(h \<mapsto> t)) S T p s) (looks C F S T p)"
  unfolding writer_try_clone_def
proof (rule wspec_wcall)
  fix s assume l: "looks C F S T p s"
  then have "ws_handles s w = Some t" using assms(2) looks_view [OF l] by (simp add: free_handles_Some)
  then show "case let h = wa_handle A (ws_handles s) in (Inr h, set_handle h (ws_handles s w) s) of
      (Inl _, s') \<Rightarrow> looks C F S T p s' | (Inr h, s') \<Rightarrow> F h = None \<and> looks C (F(h \<mapsto> t)) S T p s'"
    using looks_fresh_handle [OF l assms(1)] looks_set_handle [OF l] by (simp add: Let_def)
qed

lemma wspec_open_osfhandle:
  assumes "runtime_ok A" "F h = Some t"
  shows "wspec (looks C F S T p) (crt_open_osfhandle A h) (\<lambda>fd s. C fd = None \<and> looks (C(fd \<mapsto> t)) (F(h := None)) S T p s) (looks C F S T p)"
  unfolding crt_open_osfhandle_def
  by (rule wspec_wcall) (use looks_fresh_fd(1) [OF _ assms(1)] looks_take_handle assms(2) in \<open>simp add: Let_def\<close>)

lemma looks_pipes: "looks C F S T p s \<Longrightarrow> looks C F S T (Suc p) (s\<lparr>ws_pipes := Suc (ws_pipes s)\<rparr>)"
  by (simp add: looks_def)

lemma wspec_pipe:
  assumes "runtime_ok A"
  shows "wspec (looks C F S T p) (win_pipe A)
    (\<lambda>x s. (fst x \<noteq> snd x \<and> F (fst x) = None \<and> F (snd x) = None)
       \<and> looks C (F(fst x \<mapsto> Pipe_read p, snd x \<mapsto> Pipe_write p)) S T (Suc p) s) (looks C F S T p)"
  unfolding win_pipe_def
proof (rule wspec_wcall)
  fix s assume l: "looks C F S T p s"
  let ?r = "wa_handle A (ws_handles s)"
  let ?s = "set_handle ?r (Some (Pipe_read p)) s"
  let ?w = "wa_handle A (ws_handles ?s)"
  note r = looks_fresh_handle [OF l assms]
  have l1: "looks C (F(?r \<mapsto> Pipe_read p)) S T p ?s" by (rule looks_set_handle [OF l r(2)])
  note w = looks_fresh_handle [OF l1 assms]
  have l2: "looks C (F(?r \<mapsto> Pipe_read p, ?w \<mapsto> Pipe_write p)) S T p (set_handle ?w (Some (Pipe_write p)) ?s)"
    by (rule looks_set_handle [OF l1 w(2)])
  have "ws_pipes s = p" using l by (simp add: looks_def)
  moreover have "?w \<noteq> ?r" "F ?w = None" using w(3) by (auto split: if_splits)
  ultimately show "case let r = ?r; s1 = set_handle r (Some (Pipe_read (ws_pipes s))) s; w = wa_handle A (ws_handles s1)
      in (Inr (r, w), (set_handle w (Some (Pipe_write (ws_pipes s))) s1)\<lparr>ws_pipes := Suc (ws_pipes s)\<rparr>) of
      (Inl _, s') \<Rightarrow> looks C F S T p s'
    | (Inr x, s') \<Rightarrow> (fst x \<noteq> snd x \<and> F (fst x) = None \<and> F (snd x) = None)
       \<and> looks C (F(fst x \<mapsto> Pipe_read p, snd x \<mapsto> Pipe_write p)) S T (Suc p) s'"
    using r(3) looks_pipes [OF l2] by (simp add: Let_def)
qed


lemma uspec_close: "fd \<notin> T \<Longrightarrow> uspec (looks C F S T p) (crt_close fd) (looks (C(fd := None)) F S T p)"
  by (simp add: uspec_def crt_close_def looks_close_fd)

lemma uspec_drop: "F h = Some t \<Longrightarrow> uspec (looks C F S T p) (drop_owned h) (looks C (F(h := None)) S T p)"
  using looks_set_handle [of C F S T p _ h None] looks_view by (fastforce simp: uspec_def drop_owned_def free_handles_Some)

lemma uspec_drop_all:
  "distinct hs \<Longrightarrow> set hs \<subseteq> dom F \<Longrightarrow> uspec (looks C F S T p) (drop_all hs) (looks C (F |` (- set hs)) S T p)"
proof (induction hs arbitrary: F)
  case (Cons h hs)
  obtain t where "F h = Some t" using Cons.prems(2) by auto
  then have "uspec (looks C F S T p) (drop_owned h) (looks C (F(h := None)) S T p)" by (rule uspec_drop)
  moreover have "uspec (looks C (F(h := None)) S T p) (drop_all hs) (looks C ((F(h := None)) |` (- set hs)) S T p)"
  proof (rule Cons.IH)
    show "distinct hs" "set hs \<subseteq> dom (F(h := None))" using Cons.prems by auto
  qed
  moreover have "(F(h := None)) |` (- set hs) = F |` (- set (h # hs))" by (auto simp: restrict_map_def fun_eq_iff)
  ultimately show ?case using uspec_seq unfolding drop_all_def by fastforce
qed (simp add: drop_all_def restrict_map_def)

section \<open>The platform layer\<close>

lemma save_win_spec:
  assumes "runtime_ok A" "C 2 \<noteq> None"
  shows "wspec (looks C F S {} p) (save_win A)
    (\<lambda>sv s. (S 1 = Some (sw_stdout_handle sv) \<and> S 2 = Some (sw_stderr_handle sv) \<and> C 1 \<noteq> None
        \<and> C (sw_stdout_crt sv) = None \<and> C (sw_stderr_crt sv) = None \<and> sw_stdout_crt sv \<noteq> sw_stderr_crt sv)
      \<and> looks (C(sw_stdout_crt sv := C 1, sw_stderr_crt sv := C 2)) F S {} p s)
    (looks C F S {} p)"
proof -
  have undo: "uspec (looks (C(x := C 1)) F S {} p) (crt_close x) (looks C F S {} p)" if "C x = None" for x
    using uspec_close [of x "{}" "C(x := C 1)"] that by (simp add: fun_upd_idem)
  show ?thesis
    unfolding save_win_def
    apply (rule wspec_attempt [OF wspec_get_slot uspec_ret], simp, rule wspec_pure)
    apply (rule wspec_attempt [OF wspec_get_slot uspec_ret], simp, rule wspec_pure)
    apply (rule wspec_attempt [OF wspec_dup [OF assms(1)] uspec_ret], rule wspec_pure)
    apply (rule wspec_attempt [OF wspec_dup [OF assms(1)]], rule undo, simp, rule wspec_ret)
    by (use assms(2) in \<open>auto split: if_splits\<close>)
qed

text \<open>A snapshot that still says where the streams were.\<close>

definition snapshot_of :: "saved_win \<Rightarrow> (nat \<Rightarrow> fd_target option) \<Rightarrow> (nat \<Rightarrow> nat option) \<Rightarrow> bool" where
  "snapshot_of sv C S \<longleftrightarrow> sw_stdout_crt sv \<notin> {1, 2} \<and> sw_stderr_crt sv \<notin> {1, 2}
     \<and> C 1 \<noteq> None \<and> C 2 \<noteq> None \<and> C (sw_stdout_crt sv) = C 1 \<and> C (sw_stderr_crt sv) = C 2
     \<and> S 1 = Some (sw_stdout_handle sv) \<and> S 2 = Some (sw_stderr_handle sv)"

text \<open>
  The guard brings everything back that its flags say was changed, before the second descriptor
  was: the values of both slots and the objects behind both descriptors.
\<close>

lemma rollback_drop_spec:
  assumes "runtime_ok A" "snapshot_of sv C S" "\<not> rb_committed rb" "\<not> rb_stderr_dup2_set rb"
    and "C' = (if rb_stdout_dup2_set rb then C(1 \<mapsto> t) else C)"
    and "S' = (if rb_stderr_handle_set rb then (if rb_stdout_handle_set rb then S(1 \<mapsto> a, 2 \<mapsto> b) else S(2 \<mapsto> b))
               else if rb_stdout_handle_set rb then S(1 \<mapsto> a) else S)"
    and "rb_stdout_dup2_set rb \<longrightarrow> rb_stdout_handle_set rb" "T = (if wa_syncs A \<and> rb_stdout_dup2_set rb then {1} else {})"
  shows "uspec (looks C' F S' T p) (rollback_drop A sv rb) (looks C F S {} p)"
proof -
  note snap = assms(2) [unfolded snapshot_of_def]
  obtain t1 where t1: "C 1 = Some t1" "C (sw_stdout_crt sv) = Some t1" using snap by auto
  have C1: "C(1 \<mapsto> t1) = C" using t1 by (simp add: fun_upd_idem)
  have dup: "wspec (looks C' F S' T p) (crt_dup2 A (sw_stdout_crt sv) 1) (\<lambda>_. looks C F S' T p) (looks C' F S' T p)"
    if "rb_stdout_dup2_set rb"
  proof -
    have "C'(1 \<mapsto> t1) = C" using that assms(5) C1 by simp
    moreover have "(if wa_syncs A then insert 1 T else T) = T" using that assms(8) by auto
    ultimately show ?thesis using wspec_dup2 [OF assms(1), of T 1 "sw_stdout_crt sv" C' t1 F S' p] that t1(2) snap assms(5,8) by auto
  qed
  have same: "looks C' F S' T p = looks C F S' T p" if "\<not> rb_stdout_dup2_set rb" using that assms(5) by simp
  define S2 where "S2 = (if rb_stdout_handle_set rb then S(1 \<mapsto> a) else S)"
  have err: "uspec (looks C F S' T p) (undo_or_abort (rb_stderr_handle_set rb) c (win_SetStdHandle 2 (sw_stderr_handle sv))) (looks C F S2 T p)" for c
  proof (rule uspec_undo)
    have "S'(2 \<mapsto> sw_stderr_handle sv) = S2" "T - {2} = T" if "rb_stderr_handle_set rb"
      using that snap assms(6,8) by (auto simp: S2_def fun_eq_iff)
    then show "wspec (looks C F S' T p) (win_SetStdHandle 2 (sw_stderr_handle sv)) (\<lambda>_. looks C F S2 T p) (looks C F S' T p)"
      if "rb_stderr_handle_set rb" using wspec_set_slot [of C F S' T p 2 "sw_stderr_handle sv"] that by simp
    show "looks C F S' T p = looks C F S2 T p" if "\<not> rb_stderr_handle_set rb" using that assms(6) by (simp add: S2_def)
  qed
  have out: "uspec (looks C F S2 T p) (undo_or_abort (rb_stdout_handle_set rb) c (win_SetStdHandle 1 (sw_stdout_handle sv))) (looks C F S {} p)" for c
  proof (rule uspec_undo)
    have "S2(1 \<mapsto> sw_stdout_handle sv) = S" "T - {1} = {}" if "rb_stdout_handle_set rb"
      using that snap assms(8) by (auto simp: S2_def fun_eq_iff)
    then show "wspec (looks C F S2 T p) (win_SetStdHandle 1 (sw_stdout_handle sv)) (\<lambda>_. looks C F S {} p) (looks C F S2 T p)"
      if "rb_stdout_handle_set rb" using wspec_set_slot [of C F S2 T p 1 "sw_stdout_handle sv"] that by metis
    show "looks C F S2 T p = looks C F S {} p" if "\<not> rb_stdout_handle_set rb" using that assms(7,8) by (simp add: S2_def)
  qed
  have skip: "uspec (looks C' F S' T p) (undo_or_abort (rb_stderr_dup2_set rb) c m) (looks C' F S' T p)" for c m
    by (rule uspec_undo) (use assms(4) in simp_all)
  have dup2: "uspec (looks C' F S' T p) (undo_or_abort (rb_stdout_dup2_set rb) c (crt_dup2 A (sw_stdout_crt sv) 1)) (looks C F S' T p)" for c
    by (rule uspec_undo [OF dup same])
  have "rollback_drop A sv rb = eff_bind (undo_or_abort (rb_stderr_dup2_set rb) ''rollback of stderr CRT dup2'' (crt_dup2 A (sw_stderr_crt sv) 2))
     (\<lambda>_. eff_bind (undo_or_abort (rb_stdout_dup2_set rb) ''rollback of stdout CRT dup2'' (crt_dup2 A (sw_stdout_crt sv) 1)) (\<lambda>_.
     eff_bind (undo_or_abort (rb_stderr_handle_set rb) ''rollback of STD_ERROR_HANDLE'' (win_SetStdHandle 2 (sw_stderr_handle sv))) (\<lambda>_.
       undo_or_abort (rb_stdout_handle_set rb) ''rollback of STD_OUTPUT_HANDLE'' (win_SetStdHandle 1 (sw_stdout_handle sv)))))"
    using assms(3) by (simp add: rollback_drop_def)
  then show ?thesis using uspec_seq [OF skip] uspec_seq [OF dup2] uspec_seq [OF err] out by metis
qed

lemma rollback_drop_committed: "rb_committed rb \<Longrightarrow> eff_bind (rollback_drop A sv rb) k = k ()"
  by (simp add: rollback_drop_def)

text \<open>An early return of the second phase leaves nothing behind.\<close>

lemma back_out_spec:
  assumes "runtime_ok A" "snapshot_of sv C S" "\<not> rb_committed rb" "\<not> rb_stderr_dup2_set rb"
    and "C' = (if rb_stdout_dup2_set rb then C(1 \<mapsto> t) else C)"
    and "S' = (if rb_stderr_handle_set rb then (if rb_stdout_handle_set rb then S(1 \<mapsto> a, 2 \<mapsto> b) else S(2 \<mapsto> b))
               else if rb_stdout_handle_set rb then S(1 \<mapsto> a) else S)"
    and "rb_stdout_dup2_set rb \<longrightarrow> rb_stdout_handle_set rb" "T = (if wa_syncs A \<and> rb_stdout_dup2_set rb then {1} else {})"
    and "F a \<noteq> None" "F b \<noteq> None" "a \<noteq> b" "C f = None" "C g = None" "f \<noteq> g"
  shows "uspec (looks (C'(f \<mapsto> t, g \<mapsto> t)) F S' T p) (back_out A sv f g a b rb) (looks C (F(b := None, a := None)) S {} p)"
proof -
  have new: "f \<notin> {1, 2}" "g \<notin> {1, 2}" using assms(2,12,13) by (auto simp: snapshot_of_def)
  then have T: "f \<notin> T" "g \<notin> T" using assms(8) by (auto split: if_splits)
  have "C' f = None" "C' g = None" using assms(5,12,13) new by (auto split: if_splits)
  then have C': "C'(f \<mapsto> t, g \<mapsto> t, f := None, g := None) = C'" by (auto simp: fun_eq_iff)
  have close: "uspec (looks (C'(f \<mapsto> t, g \<mapsto> t)) F S' T p) (crt_close f) (looks (C'(f \<mapsto> t, g \<mapsto> t, f := None)) F S' T p)"
    "uspec (looks (C'(f \<mapsto> t, g \<mapsto> t, f := None)) F S' T p) (crt_close g) (looks C' F S' T p)"
    using uspec_close [OF T(1), of "C'(f \<mapsto> t, g \<mapsto> t)"] uspec_close [OF T(2), of "C'(f \<mapsto> t, g \<mapsto> t, f := None)"] C' by metis+
  obtain ta tb where "F b = Some tb" "(F(b := None)) a = Some ta" using assms(9-11) by auto
  note drops = uspec_drop [of F b tb, OF this(1)] uspec_drop [of "F(b := None)" a ta, OF this(2)]
  show ?thesis unfolding back_out_def
    by (rule uspec_seq [OF close(1)], rule uspec_seq [OF close(2)],
        rule uspec_seq [OF rollback_drop_spec [OF assms(1-8)]], rule uspec_seq [OF drops(1)], rule drops(2))
qed

text \<open>
  The second phase: both slots and both descriptors at the pipe, owned by the capture, or all as before.
\<close>

lemma commit_redirect_spec:
  assumes "runtime_ok A" "snapshot_of sv C S" "F a = Some t" "F b = Some t" "a \<noteq> b" "C f = None" "C g = None" "f \<noteq> g"
  shows "wspec (looks (C(f \<mapsto> t, g \<mapsto> t)) F S {} p) (commit_redirect A sv f g a b)
     (\<lambda>l s. l = \<lparr>lw_stdout = Some a, lw_stderr = Some b\<rparr>
        \<and> looks (C(1 \<mapsto> t, 2 \<mapsto> t)) F (S(1 \<mapsto> a, 2 \<mapsto> b)) (if wa_syncs A then {1, 2} else {}) p s)
     (looks C (F(b := None, a := None)) S {} p)"
proof -
  have new: "f \<notin> {1, 2}" "g \<notin> {1, 2}" using assms(2,6,7) by (auto simp: snapshot_of_def)
  define rb where "rb = (\<lambda>x y z. \<lparr>rb_stdout_handle_set = x, rb_stderr_handle_set = y, rb_stdout_dup2_set = z, rb_stderr_dup2_set = False,
            rb_committed = False\<rparr>)"
  let ?C = "C(f \<mapsto> t, g \<mapsto> t)" and ?T1 = "if wa_syncs A then {1} else {}" and ?T2 = "if wa_syncs A then {1, 2} else {}"
  let ?S1 = "S(1 \<mapsto> a)" and ?S2 = "S(1 \<mapsto> a, 2 \<mapsto> b)" and ?E = "looks C (F(b := None, a := None)) S {} p"
  note undone = back_out_spec [OF assms(1,2), where F = F and a = a and b = b and f = f and g = g and t = t and p = p]
  have u0: "uspec (looks ?C F S {} p) (back_out A sv f g a b (rb False False False)) ?E"
    by (rule undone) (use assms(3-8) in \<open>simp_all add: rb_def\<close>)
  have u1: "uspec (looks ?C F ?S1 {} p) (back_out A sv f g a b (rb True False False)) ?E"
    by (rule undone) (use assms(3-8) in \<open>simp_all add: rb_def\<close>)
  have u2: "uspec (looks ?C F ?S2 {} p) (back_out A sv f g a b (rb True True False)) ?E"
    by (rule undone) (use assms(3-8) in \<open>simp_all add: rb_def\<close>)
  have u3: "uspec (looks (?C(1 \<mapsto> t)) F ?S2 ?T1 p) (back_out A sv f g a b (rb True True True)) ?E"
  proof -
    have "(C(1 \<mapsto> t))(f \<mapsto> t, g \<mapsto> t) = ?C(1 \<mapsto> t)" using new by (auto simp: fun_eq_iff)
    moreover have "uspec (looks ((C(1 \<mapsto> t))(f \<mapsto> t, g \<mapsto> t)) F ?S2 ?T1 p) (back_out A sv f g a b (rb True True True)) ?E"
      by (rule undone) (use assms(3-8) in \<open>simp_all add: rb_def\<close>)
    ultimately show ?thesis by simp
  qed
  have s1: "wspec (looks ?C F S {} p) (win_SetStdHandle 1 a) (\<lambda>_. looks ?C F ?S1 {} p) (looks ?C F S {} p)"
    "wspec (looks ?C F ?S1 {} p) (win_SetStdHandle 2 b) (\<lambda>_. looks ?C F ?S2 {} p) (looks ?C F ?S1 {} p)"
    using wspec_set_slot [of ?C F S "{}" p 1 a] wspec_set_slot [of ?C F ?S1 "{}" p 2 b] by simp_all
  have d1: "wspec (looks ?C F ?S2 {} p) (crt_dup2 A f 1) (\<lambda>_. looks (?C(1 \<mapsto> t)) F ?S2 ?T1 p) (looks ?C F ?S2 {} p)"
    using wspec_dup2 [OF assms(1), of "{}" 1 f ?C t F ?S2 p] new assms(8) by simp
  have d2: "wspec (looks (?C(1 \<mapsto> t)) F ?S2 ?T1 p) (crt_dup2 A g 2) (\<lambda>_. looks (?C(1 \<mapsto> t, 2 \<mapsto> t)) F ?S2 ?T2 p) (looks (?C(1 \<mapsto> t)) F ?S2 ?T1 p)"
    using wspec_dup2 [OF assms(1), of ?T1 2 g "?C(1 \<mapsto> t)" t F ?S2 p] new
    by (cases "wa_syncs A") (simp_all add: insert_commute)
  have T: "f \<notin> ?T2" "g \<notin> ?T2" using new by auto
  have "?C(1 \<mapsto> t, 2 \<mapsto> t, f := None, g := None) = C(1 \<mapsto> t, 2 \<mapsto> t)" using new assms(6,7) by (auto simp: fun_eq_iff)
  then have c: "uspec (looks (?C(1 \<mapsto> t, 2 \<mapsto> t)) F ?S2 ?T2 p) (crt_close f) (looks (?C(1 \<mapsto> t, 2 \<mapsto> t, f := None)) F ?S2 ?T2 p)"
    "uspec (looks (?C(1 \<mapsto> t, 2 \<mapsto> t, f := None)) F ?S2 ?T2 p) (crt_close g) (looks (C(1 \<mapsto> t, 2 \<mapsto> t)) F ?S2 ?T2 p)"
    using uspec_close [OF T(1)] uspec_close [OF T(2), of "?C(1 \<mapsto> t, 2 \<mapsto> t, f := None)"] by metis+
  have "commit_redirect A sv f g a b =
      attempt_or (win_SetStdHandle 1 a) (back_out A sv f g a b (rb False False False)) (\<lambda>_.
      attempt_or (win_SetStdHandle 2 b) (back_out A sv f g a b (rb True False False)) (\<lambda>_.
      attempt_or (crt_dup2 A f 1) (back_out A sv f g a b (rb True True False)) (\<lambda>_.
      attempt_or (crt_dup2 A g 2) (back_out A sv f g a b (rb True True True)) (\<lambda>_.
      eff_bind (crt_close f) (\<lambda>_. eff_bind (crt_close g) (\<lambda>_. ret (Inr \<lparr>lw_stdout = Some a, lw_stderr = Some b\<rparr>)))))))"
    by (simp add: commit_redirect_def rb_def rollback_drop_committed Let_def del: ret_apply)
  then show ?thesis
    by (simp only:) (rule wspec_attempt [OF s1(1) u0], rule wspec_attempt [OF s1(2) u1], rule wspec_attempt [OF d1 u2],
        rule wspec_attempt [OF d2 u3], rule wspec_seq [OF c(1)], rule wspec_seq [OF c(2)], rule wspec_ret, simp)
qed

text \<open>Steps of the first phase, with their clean-up.\<close>

lemma uspec_drops_to:
  "distinct hs \<Longrightarrow> set hs \<subseteq> dom G \<Longrightarrow> G |` (- set hs) = F \<Longrightarrow> uspec (looks C G S T p) (drop_all hs) (looks C F S T p)"
  using uspec_drop_all [of hs G C S T p] by simp

lemma wspec_clone_or:
  assumes "runtime_ok A" "G w = Some t" "distinct hs" "set hs \<subseteq> dom G" "G |` (- set hs) = F"
    and "\<And>h. G h = None \<Longrightarrow> wspec (looks C (G(h \<mapsto> t)) S {} p) (k h) Q (looks C F S {} p)"
  shows "wspec (looks C G S {} p) (attempt_or (writer_try_clone A w) (drop_all hs) k) Q (looks C F S {} p)"
  by (rule wspec_attempt [OF wspec_clone [where F = G, OF assms(1,2)] uspec_drops_to [OF assms(3-5)]], rule wspec_pure, rule assms(6))

lemma wspec_open_osfhandle_or:
  assumes "runtime_ok A" "G h = Some t" "uspec (looks C G S {} p) cleanup E"
    and "\<And>fd. C fd = None \<Longrightarrow> wspec (looks (C(fd \<mapsto> t)) (G(h := None)) S {} p) (k fd) Q E"
  shows "wspec (looks C G S {} p) (attempt_or (crt_open_osfhandle A h) cleanup k) Q E"
  by (rule wspec_attempt [OF wspec_open_osfhandle [where F = G, OF assms(1,2)] assms(3)], rule wspec_pure, rule assms(4))

text \<open>
  The redirection: two writers stay behind the slots, everything else it made is gone; or the writer is
  gone and all else as before.
\<close>

definition redirected :: "win_runtime \<Rightarrow> (nat \<Rightarrow> fd_target option) \<Rightarrow> (nat \<Rightarrow> fd_target option) \<Rightarrow> (nat \<Rightarrow> nat option) \<Rightarrow> nat
    \<Rightarrow> nat \<Rightarrow> fd_target \<Rightarrow> live_writers \<Rightarrow> win_stdio \<Rightarrow> bool" where
  "redirected A C F S p w t l s \<longleftrightarrow> (\<exists>a b. (l = \<lparr>lw_stdout = Some a, lw_stderr = Some b\<rparr> \<and> a \<noteq> b \<and> F a = None \<and> F b = None)
     \<and> looks (C(1 \<mapsto> t, 2 \<mapsto> t)) (F(w := None, a \<mapsto> t, b \<mapsto> t)) (S(1 \<mapsto> a, 2 \<mapsto> b)) (if wa_syncs A then {1, 2} else {}) p s)"

lemma redirect_descriptors_spec:
  assumes "runtime_ok A" "snapshot_of sv C S" "F w = Some t" and new: "distinct [a, b, c, d]" "\<forall>h\<in>{a, b, c, d}. F h = None"
  shows "wspec (looks C (F(a \<mapsto> t, b \<mapsto> t, c \<mapsto> t, d \<mapsto> t)) S {} p) (eff_bind (drop_owned w) (\<lambda>_.
     attempt_or (crt_open_osfhandle A c) (drop_all [c, d, b, a]) (\<lambda>f.
     attempt_or (crt_open_osfhandle A d) (eff_bind (crt_close f) (\<lambda>_. drop_all [d, b, a])) (\<lambda>g.
     commit_redirect A sv f g a b)))) (redirected A C F S p w t) (looks C (F(w := None)) S {} p)"
proof -
  let ?G = "F(w := None, a \<mapsto> t, b \<mapsto> t)" and ?Q = "redirected A C F S p w t" and ?E = "looks C (F(w := None)) S {} p"
  have w: "w \<notin> {a, b, c, d}" using new(2) assms(3) by auto
  have G: "F(a \<mapsto> t, b \<mapsto> t, c \<mapsto> t, d \<mapsto> t, w := None) = ?G(c \<mapsto> t, d \<mapsto> t)" "?G(c \<mapsto> t, d \<mapsto> t, c := None) = ?G(d \<mapsto> t)"
    "?G(d \<mapsto> t, d := None) = ?G" "?G(b := None, a := None) = F(w := None)" using new w by (auto simp: fun_eq_iff)
  have dropw: "uspec (looks C (F(a \<mapsto> t, b \<mapsto> t, c \<mapsto> t, d \<mapsto> t)) S {} p) (drop_owned w) (looks C (?G(c \<mapsto> t, d \<mapsto> t)) S {} p)"
    using uspec_drop [of "F(a \<mapsto> t, b \<mapsto> t, c \<mapsto> t, d \<mapsto> t)" w t] G(1) w assms(3) by simp
  have u1: "uspec (looks C (?G(c \<mapsto> t, d \<mapsto> t)) S {} p) (drop_all [c, d, b, a]) ?E"
    by (rule uspec_drops_to) (use new w in \<open>auto simp: restrict_map_def fun_eq_iff\<close>)
  have u2: "uspec (looks (C(f \<mapsto> t)) (?G(d \<mapsto> t)) S {} p) (eff_bind (crt_close f) (\<lambda>_. drop_all [d, b, a])) ?E" if "C f = None" for f
  proof (rule uspec_seq)
    show "uspec (looks (C(f \<mapsto> t)) (?G(d \<mapsto> t)) S {} p) (crt_close f) (looks C (?G(d \<mapsto> t)) S {} p)"
      using uspec_close [of f "{}" "C(f \<mapsto> t)"] that by (simp add: fun_upd_idem)
    show "uspec (looks C (?G(d \<mapsto> t)) S {} p) (drop_all [d, b, a]) ?E"
      by (rule uspec_drops_to) (use new w in \<open>auto simp: restrict_map_def fun_eq_iff\<close>)
  qed
  have commit: "wspec (looks (C(f \<mapsto> t, g \<mapsto> t)) ?G S {} p) (commit_redirect A sv f g a b) ?Q ?E"
    if "C f = None" "(C(f \<mapsto> t)) g = None" for f g
    by (rule wspec_weaken [OF commit_redirect_spec [OF assms(1,2), where F = ?G and t = t]])
       (use that new w G(4) in \<open>auto simp: redirected_def split: if_splits\<close>)
  have inner: "wspec (looks (C(f \<mapsto> t)) (?G(d \<mapsto> t)) S {} p) (attempt_or (crt_open_osfhandle A d) (eff_bind (crt_close f) (\<lambda>_. drop_all [d, b, a]))
      (\<lambda>g. commit_redirect A sv f g a b)) ?Q ?E" if f: "C f = None" for f
    by (rule wspec_open_osfhandle_or [OF assms(1) _ u2 [OF f]], simp, unfold G(3), rule commit [OF f])
  show ?thesis
    by (rule wspec_seq [OF dropw], rule wspec_open_osfhandle_or [OF assms(1) _ u1], use new in simp, unfold G(2), rule inner)
qed

lemma redirect_to_pipe_win_spec:
  assumes "runtime_ok A" "snapshot_of sv C S" "F w = Some t"
  shows "wspec (looks C F S {} p) (redirect_to_pipe_win A w sv) (redirected A C F S p w t) (looks C (F(w := None)) S {} p)"
proof -
  note clone = wspec_clone_or [OF assms(1)]
  show ?thesis
    unfolding redirect_to_pipe_win_def
    apply (rule clone [of F, OF assms(3)], simp, use assms(3) in force, force simp: restrict_map_def)
    subgoal for a
      apply (rule clone; (use assms(3) in \<open>auto split: if_splits; fail\<close>)?)
      subgoal by (use assms(3) in \<open>auto simp: restrict_map_def fun_eq_iff\<close>)
      subgoal for b
        apply (rule clone; (use assms(3) in \<open>auto split: if_splits; fail\<close>)?)
        subgoal by (use assms(3) in \<open>auto simp: restrict_map_def fun_eq_iff split: if_splits\<close>)
        subgoal for c
          apply (rule clone; (use assms(3) in \<open>auto split: if_splits; fail\<close>)?)
          subgoal by (use assms(3) in \<open>auto simp: restrict_map_def fun_eq_iff split: if_splits\<close>)
          subgoal by (rule redirect_descriptors_spec [where F = F and w = w and t = t, OF assms]) (auto split: if_splits)
          done
        done
      done
    done
qed

lemma eff_bind_case:
  "eff_bind m (\<lambda>r. case r of Inl e \<Rightarrow> h e | Inr x \<Rightarrow> k x) s = (Inr y, s') \<longleftrightarrow>
     (\<exists>e s1. m s = (Inr (Inl e), s1) \<and> h e s1 = (Inr y, s')) \<or> (\<exists>x s1. m s = (Inr (Inr x), s1) \<and> k x s1 = (Inr y, s'))"
  by (cases "m s"; cases "fst (m s)") (auto simp: eff_bind_def split: sum.split)

lemma eff_bind_then:
  fixes m :: "unit wcap"
  shows "eff_bind m (\<lambda>_. k) s = (Inr y, s') \<longleftrightarrow> (\<exists>s1. m s = (Inr (), s1) \<and> k s1 = (Inr y, s'))"
  by (cases "m s"; cases "fst (m s)") (auto simp: eff_bind_def)




lemma close_saved_win_spec:
  "sw_stdout_crt sv \<notin> T \<Longrightarrow> sw_stderr_crt sv \<notin> T \<Longrightarrow>
   uspec (looks C F S T p) (close_saved_win sv) (looks (C(sw_stdout_crt sv := None, sw_stderr_crt sv := None)) F S T p)"
  unfolding close_saved_win_def by (rule uspec_seq [OF uspec_close uspec_close])


section \<open>Properties\<close>


text \<open>The streams are saved and the pipe is made.\<close>

lemma save_and_pipe:
  assumes "runtime_ok A" "stdio_wf s" "crt_target s 2 \<noteq> None"
    and "save_win A s = (Inr (Inr sv), sA)" "win_pipe A sA = (Inr (Inr (rd, w)), sB)"
  shows "snapshot_of sv ((crt_target s)(sw_stdout_crt sv := crt_target s 1, sw_stderr_crt sv := crt_target s 2)) (ws_slot s)"
    and "crt_target s 1 \<noteq> None" "distinct [1, 2, sw_stdout_crt sv, sw_stderr_crt sv]"
    and "crt_target s (sw_stdout_crt sv) = None" "crt_target s (sw_stderr_crt sv) = None"
    and "rd \<noteq> w" "free_handles s rd = None" "free_handles s w = None"
    and "looks ((crt_target s)(sw_stdout_crt sv := crt_target s 1, sw_stderr_crt sv := crt_target s 2))
      ((free_handles s)(rd \<mapsto> Pipe_read (ws_pipes s), w \<mapsto> Pipe_write (ws_pipes s))) (ws_slot s) {} (Suc (ws_pipes s)) sB"
proof -
  have sv: "ws_slot s 1 = Some (sw_stdout_handle sv)" "ws_slot s 2 = Some (sw_stderr_handle sv)" "crt_target s 1 \<noteq> None"
    "crt_target s (sw_stdout_crt sv) = None" "crt_target s (sw_stderr_crt sv) = None" "sw_stdout_crt sv \<noteq> sw_stderr_crt sv"
    and l: "looks ((crt_target s)(sw_stdout_crt sv := crt_target s 1, sw_stderr_crt sv := crt_target s 2)) (free_handles s) (ws_slot s) {}
      (ws_pipes s) sA"
    using wspecD [OF save_win_spec [where C = "crt_target s", OF assms(1,3)] looks_self [OF assms(2)] assms(4)] by blast+
  show "rd \<noteq> w" "free_handles s rd = None" "free_handles s w = None"
    and "looks ((crt_target s)(sw_stdout_crt sv := crt_target s 1, sw_stderr_crt sv := crt_target s 2))
      ((free_handles s)(rd \<mapsto> Pipe_read (ws_pipes s), w \<mapsto> Pipe_write (ws_pipes s))) (ws_slot s) {} (Suc (ws_pipes s)) sB"
    using wspecD [OF wspec_pipe [OF assms(1)] l assms(5)] unfolding fst_conv snd_conv by blast+
  show "crt_target s 1 \<noteq> None" "crt_target s (sw_stdout_crt sv) = None" "crt_target s (sw_stderr_crt sv) = None" by (fact sv)+
  show "distinct [1, 2, sw_stdout_crt sv, sw_stderr_crt sv]" using sv(3-6) assms(3) by auto
  show "snapshot_of sv ((crt_target s)(sw_stdout_crt sv := crt_target s 1, sw_stderr_crt sv := crt_target s 2)) (ws_slot s)"
    using sv assms(3) by (auto simp: snapshot_of_def)
qed


text \<open>
  An error before the redirection is complete is reported with everything as it was: the values of the
  slots, the objects of the descriptors, the handles without a descriptor.
\<close>

theorem capture_win_rolled_back:
  assumes "runtime_ok A" "stdio_wf s" "crt_target s 2 \<noteq> None"
    and "capture_begin_win A s = (Inr (Inl e), s1)" "e = Save_error x \<or> e = Redirect_error x"
  shows "crt_target s1 = crt_target s \<and> free_handles s1 = free_handles s \<and> ws_slot s1 = ws_slot s"
proof -
  consider (save) "save_win A s = (Inr (Inl x), s1)" | (redirect) sv sA rd w sB sC where "save_win A s = (Inr (Inr sv), sA)"
      "win_pipe A sA = (Inr (Inr (rd, w)), sB)" "redirect_to_pipe_win A w sv sB = (Inr (Inl x), sC)"
      "eff_bind (close_saved_win sv) (\<lambda>_. drop_owned rd) sC = (Inr (), s1)"
    using assms(4,5) by (auto simp: capture_begin_win_def eff_bind_case eff_bind_then drop_owned_def split: prod.splits)
  then show ?thesis
  proof cases
    case save
    from wspecD_err [OF save_win_spec [where C = "crt_target s", OF assms(1,3)] looks_self [OF assms(2)] save]
    show ?thesis by (auto simp: looks_def)
  next
    case redirect
    note start = save_and_pipe [OF assms(1-3) redirect(1,2)]
    let ?C = "crt_target s" and ?F = "free_handles s" and ?p = "ws_pipes s" and ?W = "Pipe_write (ws_pipes s)"
    let ?D = "?C(sw_stdout_crt sv := ?C 1, sw_stderr_crt sv := ?C 2)" and ?l = "\<lambda>C F. looks C F (ws_slot s) {} (Suc (ws_pipes s))"
    have lC: "?l ?D (?F(rd \<mapsto> Pipe_read ?p, w \<mapsto> ?W, w := None)) sC"
      using wspecD_err [OF redirect_to_pipe_win_spec [OF assms(1) start(1), where F = "?F(rd \<mapsto> Pipe_read ?p, w \<mapsto> ?W)" and w = w and t = ?W]
        start(9) redirect(3)] by simp
    have F: "?F(rd \<mapsto> Pipe_read ?p, w \<mapsto> ?W, w := None) = ?F(rd \<mapsto> Pipe_read ?p)" "?F(rd \<mapsto> Pipe_read ?p, rd := None) = ?F"
      "?D(sw_stdout_crt sv := None, sw_stderr_crt sv := None) = ?C" using start(3-8) by (auto simp: fun_eq_iff)
    have "uspec (?l ?D (?F(rd \<mapsto> Pipe_read ?p))) (eff_bind (close_saved_win sv) (\<lambda>_. drop_owned rd)) (?l ?C ?F)"
      using uspec_seq [OF close_saved_win_spec uspec_drop [of "?F(rd \<mapsto> Pipe_read ?p)" rd]] F by (metis empty_iff fun_upd_same)
    from uspecD [OF this lC [unfolded F(1)] redirect(4)] show ?thesis by (auto simp: looks_def)
  qed
qed



section \<open>Concrete runtimes\<close>

text \<open>
  The state of a console program: descriptors 1 and 2 own handles 11 and 12, which are also the standard
  handles.  New handles are numbered from \<open>k\<close> on.
\<close>

definition lowest :: "nat \<Rightarrow> (nat \<Rightarrow> 'a option) \<Rightarrow> nat" where
  "lowest k m = (if m k = None then k else if m (k + 1) = None then k + 1 else if m (k + 2) = None then k + 2
     else if m (k + 3) = None then k + 3 else if m (k + 4) = None then k + 4 else if m (k + 5) = None then k + 5
     else if m (k + 6) = None then k + 6 else if m (k + 7) = None then k + 7 else if m (k + 8) = None then k + 8
     else LEAST n. m n = None)"

definition demo_runtime :: "bool \<Rightarrow> nat \<Rightarrow> win_runtime" where
  "demo_runtime syncs k = \<lparr>wa_handle = lowest k, wa_fd = lowest 3, wa_syncs = syncs\<rparr>"

definition demo_console :: "int option list \<Rightarrow> win_stdio" where
  "demo_console faults = \<lparr>ws_handles = [11 \<mapsto> Stream 1, 12 \<mapsto> Stream 2], ws_crt = [1 \<mapsto> 11, 2 \<mapsto> 12], ws_slot = [1 \<mapsto> 11, 2 \<mapsto> 12],
     ws_faults = faults, ws_pipes = 0\<rparr>"




lemmas win_capture_eval = capture_begin_win_def save_win_def redirect_to_pipe_win_def commit_redirect_def back_out_def rollback_drop_def
  undo_or_abort_def drop_all_def drop_live_def restore_win_def close_saved_win_def capture_end_win_def attempt_or_def
  win_GetStdHandle_def win_SetStdHandle_def win_close_fd_def crt_close_def crt_dup_def dup2_onto_def crt_dup2_def
  crt_open_osfhandle_def writer_try_clone_def drop_owned_def win_pipe_def win_spawn_def wcall_def set_handle_def set_crt_def set_slot_def
  eff_bind_def result_bind_def Let_def demo_runtime_def demo_console_def lowest_def


text \<open>
  When pointing descriptor 2 at the pipe fails, the guard restores descriptor 1 and then stores the saved
  standard handle.  Descriptor 1 owned that handle, and \<open>dup2\<close> has closed it: unless the kernel has given out
  the same number again, standard output is a closed handle after an error that promises to have
  changed nothing.
\<close>

theorem capture_win_rollback_dangles:
  "\<exists>s1. capture_begin_win (demo_runtime True 20) (demo_console (replicate 14 None @ [Some 8])) = (Inr (Inl (Redirect_error 8)), s1)
     \<and> slot_target s1 1 = None \<and> crt_target s1 1 = Some (Stream 1)"
  by (simp add: win_capture_eval slot_target_def crt_target_def numeral_eq_Suc)

text \<open>
  With a runtime that leaves the slots alone the same happens at the end of every capture whose standard
  handle belongs to a descriptor.
\<close>

theorem capture_win_unsynced_dangles:
  "\<exists>c s1 s3. capture_begin_win (demo_runtime False 20) (demo_console []) = (Inr (Inr c), s1)
     \<and> capture_end_win (demo_runtime False 20) (Inr ''out'') c s1 = (Inr (Inr ''out''), s3)
     \<and> slot_target s3 1 = None \<and> slot_target s3 2 = None"
  by (simp add: win_capture_eval slot_target_def)

end
