(* ===== verification/Async_Body.thy ===== *)
theory Async_Body
  imports Fixture_Props
begin

text \<open>
  The generated bodies of \<open>async\<close> tests (\<open>src/macros/src/lib.rs\<close>, \<open>__private\<close> of \<open>src/src/lib.rs\<close>).  A runtime
  is built and entered before anything else, the call is driven by \<open>block_on\<close>, and fixture
  constructors and drops run in the entered context.  The runtime is third-party code: the record
  \<open>tokio\<close>, with what the generated code relies on as the locale \<open>tokio_crate\<close>.  Code of the user may
  depend on the context it runs in, so fixtures and calls are functions of it.
\<close>

type_synonym rt_id = nat

datatype rt_context = Entered rt_id | Blocking rt_id

record 'k tokio =
  tk_build :: "'k \<Rightarrow> (str, rt_id) result \<times> 'k"       \<comment> \<open>the error as text\<close>
  tk_context :: "'k \<Rightarrow> rt_context option"              \<comment> \<open>of the current thread\<close>
  tk_enter :: "rt_id \<Rightarrow> 'k \<Rightarrow> 'k"
  tk_leave :: "'k \<Rightarrow> 'k"                               \<comment> \<open>drop of the \<open>EnterGuard\<close>\<close>
  tk_start_blocking :: "rt_id \<Rightarrow> 'k \<Rightarrow> 'k"
  tk_end_blocking :: "'k \<Rightarrow> 'k"
  tk_shut_down :: "rt_id \<Rightarrow> 'k \<Rightarrow> 'k"                \<comment> \<open>drop of the \<open>Runtime\<close>\<close>

text \<open>
  What the documentation says of them: entering sets the context until the guard is dropped, \<open>block_on\<close>
  runs the future to its end in the context of the runtime, a failed build changes nothing.
\<close>

locale tokio_crate =
  fixes K :: "'k tokio"
  assumes failed_build: "tk_build K k = (Inl e, k') \<Longrightarrow> k' = k"
    and entered: "tk_context K (tk_enter K rt k) = Some (Entered rt)"
    and left: "tk_leave K (tk_enter K rt k) = k"
    and blocking: "tk_context K (tk_start_blocking K rt k) = Some (Blocking rt)"
    and unblocked: "tk_end_blocking K (tk_start_blocking K rt k) = k"

record 'k async_world =
  aw_fixtures :: fx_world
  aw_tokio :: 'k

type_synonym ('k, 'a) async = "('k async_world, fx_panic, 'a) eff"

definition on_tokio :: "('k \<Rightarrow> 'k) \<Rightarrow> ('k, unit) async" where
  "on_tokio f = modify (\<lambda>s. s\<lparr>aw_tokio := f (aw_tokio s)\<rparr>)"

text \<open>Synchronous code, in the context it finds.\<close>

definition on_fixtures :: "'k tokio \<Rightarrow> (rt_context option \<Rightarrow> 'a fx) \<Rightarrow> ('k, 'a) async" where
  "on_fixtures K f s = (case f (tk_context K (aw_tokio s)) (aw_fixtures s) of (r, w) \<Rightarrow> (r, s\<lparr>aw_fixtures := w\<rparr>))"

section \<open>The runtime around a body\<close>

text \<open>\<open>runtime = builder\<close> calls the builder, which may do anything a function of its type can.\<close>

datatype 'k runtime_arg = Built_in_runtime | Runtime_builder "'k \<Rightarrow> (payload, rt_id) result \<times> 'k"

definition build_async_runtime :: "'k tokio \<Rightarrow> ('k, rt_id) async" where
  "build_async_runtime K s = (case tk_build K (aw_tokio s) of
       (Inl e, k) \<Rightarrow> (Inl (User_panic (Str_payload (''failed to build tokio runtime for async test: '' @ e))), s\<lparr>aw_tokio := k\<rparr>)
     | (Inr rt, k) \<Rightarrow> (Inr rt, s\<lparr>aw_tokio := k\<rparr>))"

definition build_runtime_with :: "('k \<Rightarrow> (payload, rt_id) result \<times> 'k) \<Rightarrow> ('k, rt_id) async" where
  "build_runtime_with builder s = (case builder (aw_tokio s) of (r, k) \<Rightarrow> (map_sum User_panic id r, s\<lparr>aw_tokio := k\<rparr>))"

definition build_runtime :: "'k tokio \<Rightarrow> 'k runtime_arg \<Rightarrow> ('k, rt_id) async" where
  "build_runtime K arg = (case arg of Built_in_runtime \<Rightarrow> build_async_runtime K | Runtime_builder f \<Rightarrow> build_runtime_with f)"

text \<open>\<open>__rt\<close> and \<open>__rt_guard\<close> are the first locals, so they are dropped last.\<close>

definition with_runtime :: "'k tokio \<Rightarrow> 'k runtime_arg \<Rightarrow> (rt_id \<Rightarrow> ('k, 'a) async) \<Rightarrow> ('k, 'a) async" where
  "with_runtime K arg m = eff_bind (build_runtime K arg) (\<lambda>rt.
     with_guard Process_abort (on_tokio (tk_shut_down K rt))
       (eff_bind (on_tokio (tk_enter K rt)) (\<lambda>_. with_guard Process_abort (on_tokio (tk_leave K)) (m rt))))"

definition block_on :: "'k tokio \<Rightarrow> rt_id \<Rightarrow> ('k, 'a) async \<Rightarrow> ('k, 'a) async" where
  "block_on K rt m = eff_bind (on_tokio (tk_start_blocking K rt)) (\<lambda>_. with_guard Process_abort (on_tokio (tk_end_blocking K)) m)"

section \<open>The generated bodies\<close>

record async_test =
  at_test :: test_code                                 \<comment> \<open>name, module and parameters\<close>
  at_call :: "rt_context option \<Rightarrow> ptr list \<Rightarrow> test_outcome"

definition test_in :: "async_test \<Rightarrow> rt_context option \<Rightarrow> test_code" where
  "test_in t c = (at_test t)\<lparr>tc_call := at_call t c\<rparr>"

definition call_async :: "'k tokio \<Rightarrow> async_test \<Rightarrow> rt_id \<Rightarrow> fixture_handle list \<Rightarrow> ('k, unit) async" where
  "call_async K t rt hs = block_on K rt (on_fixtures K (\<lambda>c. call_test (test_in t c) hs))"

primrec release_async :: "'k tokio \<Rightarrow> (rt_context option \<Rightarrow> fx_env) \<Rightarrow> fixture_handle list \<Rightarrow> ('k, 'a) async \<Rightarrow> ('k, 'a) async" where
  "release_async K E [] m = m"
| "release_async K E (h # hs) m = with_guard Process_abort (on_fixtures K (\<lambda>c. drop_handle (E c) h)) (release_async K E hs m)"

definition run_in_scope_async :: "'k tokio \<Rightarrow> (rt_context option \<Rightarrow> fx_env) \<Rightarrow> async_test \<Rightarrow> rt_id \<Rightarrow> fixture_handle list
    \<Rightarrow> ('k, unit) async" where
  "run_in_scope_async K E t rt hs = with_guard Process_abort (on_fixtures K (\<lambda>c. drop_test_scope (E c)))
     (release_async K E hs (call_async K t rt hs))"

text \<open>\<open>enter_test_scope\<close> and every \<open>fixture_get\<close>.\<close>

definition scope_and_fixtures :: "'k tokio \<Rightarrow> (rt_context option \<Rightarrow> fx_env) \<Rightarrow> async_test \<Rightarrow> ('k, fixture_handle list) async" where
  "scope_and_fixtures K E t =
     eff_bind (on_fixtures K (\<lambda>c. enter_test_scope (E c) (tc_name (at_test t)) (tc_module (at_test t)))) (\<lambda>_.
       on_fixtures K (\<lambda>c. acquire_in_scope (E c) (at_test t)))"

definition plain_async_body :: "'k tokio \<Rightarrow> (rt_context option \<Rightarrow> fx_env) \<Rightarrow> 'k runtime_arg \<Rightarrow> async_test \<Rightarrow> ('k, unit) async" where
  "plain_async_body K E arg t = with_runtime K arg (\<lambda>rt. eff_bind (scope_and_fixtures K E t) (run_in_scope_async K E t rt))"

text \<open>\<open>catch_unwind\<close> is inside the entered context; the call is completed when \<open>block_on\<close> has returned.\<close>

definition catch_and_judge_async :: "str option \<Rightarrow> 'k tokio \<Rightarrow> (rt_context option \<Rightarrow> fx_env) \<Rightarrow> async_test \<Rightarrow> rt_id
    \<Rightarrow> fixture_handle list \<Rightarrow> ('k, unit) async" where
  "catch_and_judge_async expected K E t rt hs s =
     (let completed = (into_test_result (at_call t (tk_context K (tk_start_blocking K rt (aw_tokio s))) (map fh_ref hs)) = Inr ()) in
      case run_in_scope_async K E t rt hs s of
        (Inr _, s') \<Rightarrow> (Inl Did_not_panic, s')
      | (Inl Process_abort, s') \<Rightarrow> (Inl Process_abort, s')
      | (Inl (User_panic pl), s') \<Rightarrow> (if completed then Inl (User_panic pl) else message_check expected pl, s')
      | (Inl e, s') \<Rightarrow> (Inl e, s'))"

definition should_panic_async_body :: "str option \<Rightarrow> 'k tokio \<Rightarrow> (rt_context option \<Rightarrow> fx_env) \<Rightarrow> 'k runtime_arg \<Rightarrow> async_test
    \<Rightarrow> ('k, unit) async" where
  "should_panic_async_body expected K E arg t =
     with_runtime K arg (\<lambda>rt. eff_bind (scope_and_fixtures K E t) (catch_and_judge_async expected K E t rt))"

section \<open>Simulation\<close>

text \<open>
  An asynchronous computation, run where the context is \<open>c\<close>, does to the fixtures what a synchronous one
  does, returns the same and leaves the runtime alone; an abort ends the process in either.
\<close>

definition simulates :: "'k tokio \<Rightarrow> rt_context option \<Rightarrow> ('k, 'a) async \<Rightarrow> 'a fx \<Rightarrow> bool" where
  "simulates K c m f \<longleftrightarrow> (\<forall>s r w. tk_context K (aw_tokio s) = c \<longrightarrow> f (aw_fixtures s) = (r, w) \<longrightarrow>
     fst (m s) = r \<and> (r \<noteq> Inl Process_abort \<longrightarrow> snd (m s) = s\<lparr>aw_fixtures := w\<rparr>))"

lemma simulatesD:
  assumes "simulates K c m f" "tk_context K (aw_tokio s) = c" "f (aw_fixtures s) = (r, w)"
  obtains (abort) s' where "r = Inl Process_abort" "m s = (Inl Process_abort, s')"
    | (other) "r \<noteq> Inl Process_abort" "m s = (r, s\<lparr>aw_fixtures := w\<rparr>)"
  using assms that unfolding simulates_def by (metis prod.collapse)

lemma simulatesI:
  assumes "\<And>s r w. tk_context K (aw_tokio s) = c \<Longrightarrow> f (aw_fixtures s) = (r, w) \<Longrightarrow>
     (\<exists>s'. r = Inl Process_abort \<and> m s = (r, s')) \<or> m s = (r, s\<lparr>aw_fixtures := w\<rparr>)"
  shows "simulates K c m f"
  unfolding simulates_def using assms by (metis fst_conv snd_conv)

lemma simulates_on_fixtures: "simulates K c (on_fixtures K f) (f c)"
  by (simp add: simulates_def on_fixtures_def)

lemma simulates_bind:
  fixes m :: "('k, 'a) async"
  assumes "simulates K c m f" "\<And>x. simulates K c (k x) (g x)"
  shows "simulates K c (eff_bind m k) (eff_bind f g)"
proof (rule simulatesI)
  fix s :: "'k async_world" and r w assume c: "tk_context K (aw_tokio s) = c" and f: "eff_bind f g (aw_fixtures s) = (r, w)"
  obtain r1 w1 where 1: "f (aw_fixtures s) = (r1, w1)" by fastforce
  from assms(1) c 1 show "(\<exists>s'. r = Inl Process_abort \<and> eff_bind m k s = (r, s')) \<or> eff_bind m k s = (r, s\<lparr>aw_fixtures := w\<rparr>)"
  proof (cases rule: simulatesD)
    case (abort s')
    then show ?thesis using f 1 by (auto simp: eff_bind_def)
  next
    case other
    show ?thesis
    proof (cases r1)
      case (Inl e)
      then show ?thesis using f 1 other by (simp add: eff_bind_def)
    next
      case (Inr x)
      then have g: "g x (aw_fixtures (s\<lparr>aw_fixtures := w1\<rparr>)) = (r, w)" using f 1 by (simp add: eff_bind_def)
      have m: "eff_bind m k s = k x (s\<lparr>aw_fixtures := w1\<rparr>)" using other Inr by (simp add: eff_bind_def)
      have "tk_context K (aw_tokio (s\<lparr>aw_fixtures := w1\<rparr>)) = c" using c by simp
      from assms(2) [of x] this g show ?thesis by (cases rule: simulatesD) (simp_all add: m)
    qed
  qed
qed

lemma simulates_ret: "simulates K c (ret x) (ret x)"
  by (simp add: simulates_def)

lemma simulates_on_unwind:
  fixes m :: "('k, 'a) async"
  assumes "simulates K c m f" "simulates K c fin fin'"
  shows "simulates K c (on_unwind Process_abort fin m) (on_unwind Process_abort fin' f)"
proof (rule simulatesI)
  fix s :: "'k async_world" and r w assume c: "tk_context K (aw_tokio s) = c" and f: "on_unwind Process_abort fin' f (aw_fixtures s) = (r, w)"
  obtain r1 w1 where 1: "f (aw_fixtures s) = (r1, w1)" by fastforce
  from assms(1) c 1 show "(\<exists>s'. r = Inl Process_abort \<and> on_unwind Process_abort fin m s = (r, s'))
      \<or> on_unwind Process_abort fin m s = (r, s\<lparr>aw_fixtures := w\<rparr>)"
  proof (cases rule: simulatesD)
    case (abort s')
    then show ?thesis using f 1 by (auto simp: on_unwind_def after_unwind_def)
  next
    case other
    show ?thesis
    proof (cases r1)
      case (Inl e)
      obtain r2 w2 where 2: "fin' (aw_fixtures (s\<lparr>aw_fixtures := w1\<rparr>)) = (r2, w2)" by fastforce
      have "tk_context K (aw_tokio (s\<lparr>aw_fixtures := w1\<rparr>)) = c" using c by simp
      from assms(2) this 2 show ?thesis
        by (cases rule: simulatesD; cases r2) (use f 1 2 other Inl in \<open>auto simp: on_unwind_def after_unwind_def\<close>)
    next
      case (Inr x)
      then show ?thesis using f 1 other by (auto simp: on_unwind_def)
    qed
  qed
qed

lemma simulates_with_guard:
  "simulates K c m f \<Longrightarrow> simulates K c fin fin' \<Longrightarrow> simulates K c (with_guard Process_abort fin m) (with_guard Process_abort fin' f)"
  unfolding with_guard_def by (intro simulates_bind simulates_on_unwind simulates_ret)

lemma simulates_release:
  "simulates K c m f \<Longrightarrow> simulates K c (release_async K E hs m) (release (E c) hs f)"
proof (induction hs)
  case (Cons h hs)
  then show ?case using simulates_on_fixtures [of K c "\<lambda>c. drop_handle (E c) h"] by (simp add: simulates_with_guard)
qed simp

context tokio_crate
begin

text \<open>The call runs in the context of \<open>block_on\<close>, which is gone afterwards.\<close>

lemma simulates_call: "simulates K c (call_async K t rt hs) (call_test (test_in t (Some (Blocking rt))) hs)"
proof (rule simulatesI)
  fix s :: "'k async_world" and r w assume f: "call_test (test_in t (Some (Blocking rt))) hs (aw_fixtures s) = (r, w)"
  let ?s = "s\<lparr>aw_tokio := tk_start_blocking K rt (aw_tokio s)\<rparr>"
  have "r \<noteq> Inl Process_abort" "w = aw_fixtures s"
    using f by (auto simp: call_test_def into_test_result_def split: test_outcome.splits)
  moreover have "on_fixtures K (\<lambda>c. call_test (test_in t c) hs) ?s = (r, ?s)"
    using f \<open>w = aw_fixtures s\<close> by (simp add: on_fixtures_def blocking)
  moreover have "no_panic (on_tokio (tk_end_blocking K)) (\<lambda>s. s\<lparr>aw_tokio := tk_end_blocking K (aw_tokio s)\<rparr>)"
    by (simp add: no_panic_def on_tokio_def)
  ultimately have "with_guard Process_abort (on_tokio (tk_end_blocking K)) (on_fixtures K (\<lambda>c. call_test (test_in t c) hs)) ?s
      = (r, ?s\<lparr>aw_tokio := tk_end_blocking K (aw_tokio ?s)\<rparr>)"
    using with_guard_no_panic by fastforce
  then have "with_guard Process_abort (on_tokio (tk_end_blocking K)) (on_fixtures K (\<lambda>c. call_test (test_in t c) hs)) ?s = (r, s)"
    by (simp add: unblocked)
  then show "(\<exists>s'. r = Inl Process_abort \<and> call_async K t rt hs s = (r, s')) \<or> call_async K t rt hs s = (r, s\<lparr>aw_fixtures := w\<rparr>)"
    using \<open>w = aw_fixtures s\<close> by (simp add: call_async_def block_on_def on_tokio_def eff_bind_def)
qed

lemma simulates_run_in_scope:
  "simulates K c (run_in_scope_async K E t rt hs) (run_in_scope (E c) (test_in t (Some (Blocking rt))) hs)"
  unfolding run_in_scope_async_def run_in_scope_def
  using simulates_on_fixtures [of K c "\<lambda>c. drop_test_scope (E c)"] by (intro simulates_with_guard simulates_release simulates_call)

lemma simulates_judge:
  "simulates K c (catch_and_judge_async expected K E t rt hs) (catch_and_judge expected (E c) (test_in t (Some (Blocking rt))) hs)"
proof (rule simulatesI)
  fix s :: "'k async_world" and r w
  assume c: "tk_context K (aw_tokio s) = c" and f: "catch_and_judge expected (E c) (test_in t (Some (Blocking rt))) hs (aw_fixtures s) = (r, w)"
  obtain r1 w1 where 1: "run_in_scope (E c) (test_in t (Some (Blocking rt))) hs (aw_fixtures s) = (r1, w1)" by fastforce
  from simulates_run_in_scope c 1
  show "(\<exists>s'. r = Inl Process_abort \<and> catch_and_judge_async expected K E t rt hs s = (r, s'))
      \<or> catch_and_judge_async expected K E t rt hs s = (r, s\<lparr>aw_fixtures := w\<rparr>)"
  proof (cases rule: simulatesD)
    case (abort s')
    then show ?thesis using f 1 by (auto simp: catch_and_judge_def catch_and_judge_async_def)
  next
    case other
    then show ?thesis using f 1
      by (auto simp: catch_and_judge_def catch_and_judge_async_def blocking test_in_def Let_def split: sum.splits fx_panic.splits if_splits)
  qed
qed

lemma simulates_scope:
  "simulates K c (eff_bind (scope_and_fixtures K E t) k)
     (eff_bind (enter_test_scope (E c) (tc_name (at_test t)) (tc_module (at_test t))) (\<lambda>_. eff_bind (acquire_in_scope (E c) (at_test t)) g))"
  if "\<And>hs. simulates K c (k hs) (g hs)"
  unfolding scope_and_fixtures_def eff_bind_assoc
  using simulates_on_fixtures [of K c "\<lambda>c. enter_test_scope (E c) (tc_name (at_test t)) (tc_module (at_test t))"]
    simulates_on_fixtures [of K c "\<lambda>c. acquire_in_scope (E c) (at_test t)"]
  by (intro simulates_bind that)

text \<open>The runtime is built, entered, left and shut down around what it is given.\<close>

lemma with_runtime_runs:
  assumes "build_runtime K arg s = (Inr rt, s1)" "simulates K (Some (Entered rt)) (m rt) f" "f (aw_fixtures s) = (r, w)"
    and "aw_fixtures s1 = aw_fixtures s"
  shows "fst (with_runtime K arg m s) = r"
    and "r \<noteq> Inl Process_abort \<Longrightarrow> snd (with_runtime K arg m s) = s1\<lparr>aw_fixtures := w, aw_tokio := tk_shut_down K rt (aw_tokio s1)\<rparr>"
proof -
  let ?s = "s1\<lparr>aw_tokio := tk_enter K rt (aw_tokio s1)\<rparr>"
  let ?leave = "\<lambda>s. s\<lparr>aw_tokio := tk_leave K (aw_tokio s)\<rparr>" and ?down = "\<lambda>s. s\<lparr>aw_tokio := tk_shut_down K rt (aw_tokio s)\<rparr>"
  have fins: "no_panic (on_tokio (tk_leave K)) ?leave" "no_panic (on_tokio (tk_shut_down K rt)) ?down"
    by (simp_all add: no_panic_def on_tokio_def)
  have "tk_context K (aw_tokio ?s) = Some (Entered rt)" "f (aw_fixtures ?s) = (r, w)" using assms(3,4) by (simp_all add: entered)
  with assms(2) have "fst (with_runtime K arg m s) = r
      \<and> (r \<noteq> Inl Process_abort \<longrightarrow> snd (with_runtime K arg m s) = s1\<lparr>aw_fixtures := w, aw_tokio := tk_shut_down K rt (aw_tokio s1)\<rparr>)"
  proof (cases rule: simulatesD)
    case (abort s')
    then show ?thesis using assms(1)
      by (simp add: with_runtime_def with_guard_def on_unwind_def after_unwind_def on_tokio_def eff_bind_def)
  next
    case other
    have "with_guard Process_abort (on_tokio (tk_leave K)) (m rt) ?s = (r, ?leave (?s\<lparr>aw_fixtures := w\<rparr>))"
      using with_guard_no_panic [where f = ?leave and m = "m rt" and s = ?s, OF fins(1) other(2,1)] .
    then have "eff_bind (on_tokio (tk_enter K rt)) (\<lambda>_. with_guard Process_abort (on_tokio (tk_leave K)) (m rt)) s1
        = (r, s1\<lparr>aw_fixtures := w\<rparr>)" by (simp add: on_tokio_def eff_bind_def left)
    from with_guard_no_panic [where f = ?down and s = s1
        and m = "eff_bind (on_tokio (tk_enter K rt)) (\<lambda>_. with_guard Process_abort (on_tokio (tk_leave K)) (m rt))",
      OF fins(2) this other(1)] show ?thesis using assms(1) by (simp add: with_runtime_def eff_bind_def)
  qed
  then show "fst (with_runtime K arg m s) = r"
    "r \<noteq> Inl Process_abort \<Longrightarrow> snd (with_runtime K arg m s) = s1\<lparr>aw_fixtures := w, aw_tokio := tk_shut_down K rt (aw_tokio s1)\<rparr>" by simp_all
qed

end

section \<open>Asynchronous bodies refine synchronous ones\<close>

text \<open>Both runs return the same; unless the process aborts, the runtime is gone and the fixtures agree.\<close>

definition same_run :: "'k tokio \<Rightarrow> rt_id \<Rightarrow> 'k async_world \<Rightarrow> (fx_panic, unit) result \<times> 'k async_world
    \<Rightarrow> (fx_panic, unit) result \<times> fx_world \<Rightarrow> bool" where
  "same_run K rt s1 x y \<longleftrightarrow> fst x = fst y
     \<and> (fst y = Inl Process_abort \<or> snd x = s1\<lparr>aw_fixtures := snd y, aw_tokio := tk_shut_down K rt (aw_tokio s1)\<rparr>)"

lemma build_runtime_fixtures: "build_runtime K arg s = (r, s1) \<Longrightarrow> aw_fixtures s1 = aw_fixtures s"
  by (auto simp: build_runtime_def build_async_runtime_def build_runtime_with_def split: runtime_arg.splits prod.splits sum.splits)

lemma test_in_same: "acquire_in_scope env (test_in t c) = acquire_in_scope env (at_test t)" "tc_name (test_in t c) = tc_name (at_test t)"
  "tc_module (test_in t c) = tc_module (at_test t)"
  by (simp_all add: acquire_in_scope_def test_in_def)

text \<open>
  C12: The body of an asynchronous test does to the fixtures what the synchronous body does.  When the
  runtime cannot be built, by default or by the builder of the test, both forms of the body fail with
  that panic before a scope is entered, so it never counts as the panic of a \<open>should_panic\<close> test.
  Otherwise either form returns what the synchronous body returns whose fixtures, constructors and drops
  alike, run in the entered context and whose call runs inside \<open>block_on\<close>; it leaves the
  fixture stores as that body does, and the context of the thread as it was, with the runtime shut
  down.  So what is proved of the synchronous bodies holds of them: no leaks, the order of drops and the
  verdict.
\<close>

theorem async_bodies_refine:
  assumes "tokio_crate K"
  shows "case build_runtime K arg s of
      (Inl e, s1) \<Rightarrow> plain_async_body K E arg t s = (Inl e, s1) \<and> should_panic_async_body expected K E arg t s = (Inl e, s1)
        \<and> aw_fixtures s1 = aw_fixtures s
    | (Inr rt, s1) \<Rightarrow> same_run K rt s1 (plain_async_body K E arg t s)
          (plain_test_body (E (Some (Entered rt))) (test_in t (Some (Blocking rt))) (aw_fixtures s))
        \<and> same_run K rt s1 (should_panic_async_body expected K E arg t s)
          (should_panic_test_body expected (E (Some (Entered rt))) (test_in t (Some (Blocking rt))) (aw_fixtures s))"
proof -
  obtain b s1 where b: "build_runtime K arg s = (b, s1)" by fastforce
  note same = build_runtime_fixtures [OF b]
  show ?thesis
  proof (cases b)
    case (Inl e)
    then show ?thesis using b same by (simp add: plain_async_body_def should_panic_async_body_def with_runtime_def)
  next
    case (Inr rt)
    let ?c = "Some (Entered rt)" and ?t = "test_in t (Some (Blocking rt))"
    note b = b [unfolded Inr]
    have run: "same_run K rt s1 (with_runtime K arg m s) (f (aw_fixtures s))" if "simulates K ?c (m rt) f" for m f
    proof -
      obtain r w where f: "f (aw_fixtures s) = (r, w)" by fastforce
      from tokio_crate.with_runtime_runs [where m = m and f = f, OF assms b that f same] f show ?thesis by (auto simp: same_run_def)
    qed
    have "simulates K ?c (eff_bind (scope_and_fixtures K E t) (run_in_scope_async K E t rt)) (plain_test_body (E ?c) ?t)"
      unfolding plain_test_body_def test_in_same
      by (rule tokio_crate.simulates_scope [OF assms tokio_crate.simulates_run_in_scope [OF assms]])
    moreover have "simulates K ?c (eff_bind (scope_and_fixtures K E t) (catch_and_judge_async expected K E t rt))
        (should_panic_test_body expected (E ?c) ?t)"
      unfolding should_panic_test_body_def test_in_same
      by (rule tokio_crate.simulates_scope [OF assms tokio_crate.simulates_judge [OF assms]])
    ultimately show ?thesis using b run unfolding plain_async_body_def should_panic_async_body_def by simp
  qed
qed

text \<open>A reference runtime: a stack of contexts, and a flag that makes the build fail.\<close>

definition ref_tokio :: "bool \<Rightarrow> rt_context list tokio" where
  "ref_tokio fails = \<lparr>tk_build = (\<lambda>k. (if fails then Inl ''no threads'' else Inr 0, k)),
     tk_context = (\<lambda>k. case k of [] \<Rightarrow> None | c # _ \<Rightarrow> Some c), tk_enter = (\<lambda>rt k. Entered rt # k), tk_leave = tl,
     tk_start_blocking = (\<lambda>rt k. Blocking rt # k), tk_end_blocking = tl, tk_shut_down = (\<lambda>rt k. k)\<rparr>"

interpretation ref_rt: tokio_crate "ref_tokio fails" for fails
  by unfold_locales (auto simp: ref_tokio_def split: if_splits)

definition demo_async :: "(ptr list \<Rightarrow> test_outcome) \<Rightarrow> async_test" where
  "demo_async call = \<lparr>at_test = probe_test call, at_call = (\<lambda>c hs. if c = None then Test_panics Other_payload else call hs)\<rparr>"

theorem async_bodies_refine_witness:
  "\<exists>w. plain_async_body (ref_tokio False) (\<lambda>_. demo_env) Built_in_runtime (demo_async (\<lambda>_. Test_returns))
       \<lparr>aw_fixtures = demo_world, aw_tokio = []\<rparr> = (Inr (), \<lparr>aw_fixtures = w, aw_tokio = []\<rparr>)"
proof -
  let ?s = "\<lparr>aw_fixtures = demo_world, aw_tokio = []\<rparr>"
  have build: "build_runtime (ref_tokio False) Built_in_runtime ?s = (Inr 0, ?s)"
    by (simp add: build_runtime_def build_async_runtime_def ref_tokio_def)
  have t: "test_in (demo_async (\<lambda>_. Test_returns)) (Some (Blocking 0)) = probe_test (\<lambda>_. Test_returns)"
    by (simp add: test_in_def demo_async_def probe_test_def)
  have "fst (plain_test_body demo_env (probe_test (\<lambda>_. Test_returns)) demo_world) = Inr ()" by code_simp
  then show ?thesis
    using async_bodies_refine [OF ref_rt.tokio_crate_axioms [of False], where arg = Built_in_runtime and s = ?s and E = "\<lambda>_. demo_env"
        and t = "demo_async (\<lambda>_. Test_returns)" and expected = None]
    by (simp add: build t same_run_def prod_eq_iff) (simp add: ref_tokio_def)
qed

end
