(* ===== verification/Fixture_Ref.thy ===== *)
theory Fixture_Ref
  imports Prelude "HOL-Library.Word"
begin

unbundle bit_operations_syntax

text \<open>
  \<open>FixtureRef\<close> (\<open>src/src/fixture.rs\<close>): a reference kept as raw bytes, so that one type holds thin and fat
  pointers.  References are their bit patterns on a 64-bit little-endian target: an address, and for
  a fat pointer a second word with the length or the vtable.
\<close>

datatype rust_ref = Thin "64 word" | Fat "64 word" "64 word"

datatype ref_type = Thin_ref | Fat_ref

fun type_of_ref :: "rust_ref \<Rightarrow> ref_type" where
  "type_of_ref (Thin a) = Thin_ref"
| "type_of_ref (Fat a m) = Fat_ref"

fun size_of_ref :: "ref_type \<Rightarrow> nat" where
  "size_of_ref Thin_ref = 8"
| "size_of_ref Fat_ref = 16"

definition word_bytes :: "64 word \<Rightarrow> 8 word list" where
  "word_bytes w = map (\<lambda>i. ucast (drop_bit (8 * i) w)) [0..<8]"

definition bytes_word :: "8 word list \<Rightarrow> 64 word" where
  "bytes_word bs = foldr (\<lambda>b w. ucast b OR push_bit 8 w) bs 0"

fun ref_bytes :: "rust_ref \<Rightarrow> 8 word list" where
  "ref_bytes (Thin a) = word_bytes a"
| "ref_bytes (Fat a m) = word_bytes a @ word_bytes m"

definition read_ref :: "ref_type \<Rightarrow> 8 word list \<Rightarrow> rust_ref" where
  "read_ref T bs = (case T of Thin_ref \<Rightarrow> Thin (bytes_word (take 8 bs))
     | Fat_ref \<Rightarrow> Fat (bytes_word (take 8 bs)) (bytes_word (take 8 (drop 8 bs))))"

record fixture_ref =
  fr_words :: "64 word \<times> 64 word"
  fr_size :: nat

datatype ref_panic = Ref_too_large | Ref_size_differs nat nat

definition words_bytes :: "64 word \<times> 64 word \<Rightarrow> 8 word list" where
  "words_bytes ws = word_bytes (fst ws) @ word_bytes (snd ws)"

text \<open>\<open>copy_nonoverlapping\<close> of the reference over two words of zero; \<open>debug\<close> is whether \<open>debug_assert!\<close> is compiled in.\<close>

definition ref_from_ref :: "bool \<Rightarrow> rust_ref \<Rightarrow> (ref_panic, fixture_ref) result" where
  "ref_from_ref debug r =
     (let size = length (ref_bytes r); image = ref_bytes r @ drop size (words_bytes (0, 0))
      in if debug \<and> \<not> size \<le> 16 then Inl Ref_too_large
         else Inr \<lparr>fr_words = (bytes_word (take 8 image), bytes_word (take 8 (drop 8 image))), fr_size = size\<rparr>)"

definition ref_cast :: "bool \<Rightarrow> ref_type \<Rightarrow> fixture_ref \<Rightarrow> (ref_panic, rust_ref) result" where
  "ref_cast debug T fr = (if debug \<and> fr_size fr \<noteq> size_of_ref T then Inl (Ref_size_differs (fr_size fr) (size_of_ref T))
     else Inr (read_ref T (words_bytes (fr_words fr))))"

section \<open>Bytes\<close>

lemma length_word_bytes [simp]: "length (word_bytes w) = 8"
  by (simp add: word_bytes_def)

lemma bit_bytes_word:
  fixes w :: "64 word"
  shows "bit (bytes_word (map (\<lambda>i. ucast (drop_bit (8 * i) w)) [k..<k + m])) n \<longleftrightarrow> n < 64 \<and> n < 8 * m \<and> bit w (8 * k + n)"
proof (induction m arbitrary: k n)
  case (Suc m)
  have "[k..<k + Suc m] = k # [Suc k..<Suc k + m]" by (simp add: upt_conv_Cons)
  then have "bytes_word (map (\<lambda>i. ucast (drop_bit (8 * i) w)) [k..<k + Suc m])
      = ucast (ucast (drop_bit (8 * k) w) :: 8 word) OR push_bit 8 (bytes_word (map (\<lambda>i. ucast (drop_bit (8 * i) w)) [Suc k..<Suc k + m]))"
    by (simp add: bytes_word_def)
  moreover have "8 * Suc k + (n - 8) = 8 * k + n" if "8 \<le> n" using that by simp
  ultimately show ?case using Suc.IH [of "Suc k" "n - 8"]
    by (cases "n < 8") (auto simp: bit_or_iff bit_ucast_iff bit_push_bit_iff bit_drop_bit_eq bit_imp_le_length)
qed (simp add: bytes_word_def)

lemma bytes_word_bytes [simp]: "bytes_word (word_bytes w) = w"
  by (rule bit_word_eqI) (use bit_bytes_word [of w 0 8] in \<open>simp add: word_bytes_def\<close>)

text \<open>
  A reference survives being stored, whatever its kind: nothing is read from it that was not written.
  A reader of the other kind is stopped where debug assertions are on; without them it gets the
  address with a zero beside it, or the address alone.
\<close>

theorem fixture_ref_round_trip:
  "\<exists>fr. ref_from_ref debug r = Inr fr \<and> ref_cast debug (type_of_ref r) fr = Inr r
     \<and> (case ref_cast debug T fr of Inl e \<Rightarrow> debug \<and> T \<noteq> type_of_ref r
        | Inr r' \<Rightarrow> if T = type_of_ref r then r' = r
            else \<not> debug \<and> (case r of Thin a \<Rightarrow> r' = Fat a 0 | Fat a m \<Rightarrow> r' = Thin a))"
proof -
  have zero: "drop 8 (words_bytes (0, 0)) = word_bytes 0" by (simp add: words_bytes_def)
  show ?thesis
    by (cases r; cases T) (auto simp: ref_from_ref_def ref_cast_def read_ref_def words_bytes_def)
qed

end
