(* ===== verification/Macro_Label.thy ===== *)
theory Macro_Label
  imports Macro_Expand
begin

text \<open>
  The attribute \<open>#[skuld::label]\<close> (\<open>macros/src/lib.rs\<close>): a constant without a value becomes a constant label
  named after it and an entry of the label registry.  The parsers of \<open>syn\<close> that only this macro
  calls are the fields of \<open>item_syn\<close>; evaluating \<open>Label::__new\<close> is the compiler's, so its panic is a
  compile error of the expansion.
\<close>

record item_syn =
  is_outer :: "attribute list parse"                 \<comment> \<open>\<open>Attribute::parse_outer\<close>\<close>
  is_visibility :: "tokens parse"
  is_const :: "unit parse"                           \<comment> \<open>\<open>Token![const]\<close>\<close>
  is_type :: "rust_type parse"

record label_item =
  li_attrs :: "attribute list"
  li_vis :: tokens
  li_ident :: str
  li_ty :: rust_type

definition parse_label_item :: "syn \<Rightarrow> item_syn \<Rightarrow> label_item parse" where
  "parse_label_item S I = pbind (is_outer I) (\<lambda>attrs. pbind (is_visibility I) (\<lambda>vis. pbind (is_const I) (\<lambda>_.
     pbind (sy_ident S) (\<lambda>ident. pbind (sy_punct S (CHR '':'')) (\<lambda>_. pbind (is_type I) (\<lambda>ty.
     pbind (sy_punct S (CHR '';'')) (\<lambda>_.
       preturn \<lparr>li_attrs = attrs, li_vis = vis, li_ident = ident, li_ty = ty\<rparr>)))))))"

record label_expansion =
  lx_attrs :: "attribute list"
  lx_vis :: tokens
  lx_ident :: str
  lx_ty :: rust_type
  lx_value :: "(label_panic, label) result"
  lx_submit_attrs :: "attribute list"
  lx_entry :: label_entry

definition gating :: "attribute \<Rightarrow> bool" where
  "gating a \<longleftrightarrow> is_ident a ''cfg'' \<or> is_ident a ''cfg_attr''"

text \<open>\<open>site\<close> is where the attribute stands: file, line and column.\<close>

definition expand_label :: "str \<times> nat \<times> nat \<Rightarrow> label_item \<Rightarrow> label_expansion" where
  "expand_label site item = (case site of (f, l, c) \<Rightarrow>
     \<lparr>lx_attrs = li_attrs item, lx_vis = li_vis item, lx_ident = li_ident item, lx_ty = li_ty item,
       lx_value = label_macro (li_ident item), lx_submit_attrs = filter gating (li_attrs item),
       lx_entry = \<lparr>le_name = to_ascii_lowercase (li_ident item), le_file = f, le_line = l, le_column = c\<rparr>\<rparr>)"

definition label_attribute :: "syn \<Rightarrow> item_syn \<Rightarrow> str \<times> nat \<times> nat \<Rightarrow> tokens \<Rightarrow> tokens \<Rightarrow> (syn_error, label_expansion) result" where
  "label_attribute S I site attr item =
     (if attr \<noteq> [] then Inl Unexpected_token
      else result_bind (within (parse_label_item S I) item) (\<lambda>li. Inr (expand_label site li)))"

text \<open>Whether an item with these attributes is compiled; \<open>cfg\<close> evaluates a gating attribute.\<close>

definition compiled :: "(attribute \<Rightarrow> bool) \<Rightarrow> attribute list \<Rightarrow> bool" where
  "compiled cfg attrs \<longleftrightarrow> list_all (\<lambda>a. gating a \<longrightarrow> cfg a) attrs"

text \<open>
  The macro accepts exactly a bare attribute on a constant without a value.  The constant and its entry
  carry the same name, the identifier in lower case, and whatever the configuration is they are
  compiled together; the attributes that are not gating stay on the constant alone.
\<close>

theorem label_attribute_exact:
  assumes "syn_crate S reserved str_value"
  shows "(label_attribute S I site attr item = Inr x \<longleftrightarrow> attr = [] \<and> (\<exists>attrs vis i ty r1 r2 r3.
        is_outer I item = Inr (attrs, r1) \<and> is_visibility I r1 = Inr (vis, r2)
      \<and> is_const I r2 = Inr ((), T_ident i # T_punct (CHR '':'') # r3) \<and> \<not> reserved i \<and> is_type I r3 = Inr (ty, [T_punct (CHR '';'')])
      \<and> x = expand_label site \<lparr>li_attrs = attrs, li_vis = vis, li_ident = i, li_ty = ty\<rparr>))
    \<and> (label_attribute S I site attr item = Inr x \<longrightarrow> compiled cfg (lx_submit_attrs x) = compiled cfg (lx_attrs x)
      \<and> list_all gating (lx_submit_attrs x) \<and> (\<forall>l. lx_value x = Inr l \<longrightarrow> label_name l = le_name (lx_entry x)))"
proof
  have parse: "parse_label_item S I item = Inr (li, []) \<longleftrightarrow> (\<exists>attrs vis i ty r1 r2 r3.
        is_outer I item = Inr (attrs, r1) \<and> is_visibility I r1 = Inr (vis, r2)
      \<and> is_const I r2 = Inr ((), T_ident i # T_punct (CHR '':'') # r3) \<and> \<not> reserved i \<and> is_type I r3 = Inr (ty, [T_punct (CHR '';'')])
      \<and> li = \<lparr>li_attrs = attrs, li_vis = vis, li_ident = i, li_ty = ty\<rparr>)" for li
    unfolding parse_label_item_def pbind_Inr preturn_Inr syn_crate.ident_iff [OF assms] syn_crate.punct_iff [OF assms] by auto
  show "label_attribute S I site attr item = Inr x \<longleftrightarrow> attr = [] \<and> (\<exists>attrs vis i ty r1 r2 r3.
        is_outer I item = Inr (attrs, r1) \<and> is_visibility I r1 = Inr (vis, r2)
      \<and> is_const I r2 = Inr ((), T_ident i # T_punct (CHR '':'') # r3) \<and> \<not> reserved i \<and> is_type I r3 = Inr (ty, [T_punct (CHR '';'')])
      \<and> x = expand_label site \<lparr>li_attrs = attrs, li_vis = vis, li_ident = i, li_ty = ty\<rparr>)"
    by (auto simp: label_attribute_def result_bind_Inr within_Inr parse)
  have "compiled cfg (filter gating as) = compiled cfg as" for as by (auto simp: compiled_def list_all_iff)
  moreover have "label_name l = to_ascii_lowercase i" if "label_macro i = Inr l" for i l
    using that by (auto simp: label_macro_def Label_new_def split: sum.splits if_splits)
  ultimately show "label_attribute S I site attr item = Inr x \<longrightarrow> compiled cfg (lx_submit_attrs x) = compiled cfg (lx_attrs x)
      \<and> list_all gating (lx_submit_attrs x) \<and> (\<forall>l. lx_value x = Inr l \<longrightarrow> label_name l = le_name (lx_entry x))"
    by (cases site) (auto simp: label_attribute_def result_bind_Inr expand_label_def list_all_iff split: if_splits)
qed

end
