(* ===== verification/Spec2Isabelle.thy ===== *)
theory Spec2Isabelle
  imports Label_Filter Coord_Props Fixture_Threads Runner_Props Version_Props Env_Cwd Init_Lock DB_Dir_Props Moved_DB Capture
    Macro_Props Win_Probe Registration Unix_Fds Win_DB Win_Capture_Props
    Async_Body Fixture_Ref Macro_Label
begin

text \<open>
  Verification of skuld, a test harness for Rust (\<open>src/\<close>).

  \<^bold>\<open>The program.\<close>  Tests and fixtures are registered by attribute macros.  A run selects tests by
  a filter over labels, obtains the fixtures they name, and coordinates with every other test
  process on the machine through a shared SQLite database, so that a test whose serial filter
  matches a running test waits for it.  \<open>cargo skuld\<close> computes the same conflicts ahead of time and
  writes them as nextest test groups.  \<open>xtask\<close> checks the version before a release.

  \<^bold>\<open>Conventions.\<close>  A \<open>str\<close> is its list of bytes.  A fallible function returns \<open>('e, 'a) result\<close>, the
  sum with the error on the left; panics are errors of their own datatypes.  State is passed
  explicitly; where a panic has to keep the state (stores, logs, guards) the computations are those
  of \<open>Effects\<close>, and code that talks to the kernel is a program of \<open>Syscalls\<close>.  Loops that the code
  does not bound take a fuel argument or the list of what successive attempts meet: \<open>detect_cycle\<close>,
  \<open>walk\<close> and \<open>fixture_get\<close> get fuel that is proved sufficient for every registry; \<open>coordinate_loop\<close>,
  \<open>retry_busy\<close>, \<open>connect_with\<close>, \<open>lock_exclusive\<close> and \<open>create_publish_temp_with\<close> are proved to return
  once an attempt is decided within the bound, and their safety holds for every bound.

  \<^bold>\<open>Labels\<close> (\<open>src/src/label.rs\<close>, \<open>label.pest\<close>, \<open>skuld_env.rs\<close>).  \<open>Label\<close> has labels and their registry,
  \<open>Label_Expr\<close> the expressions with the interface of the third-party \<open>boolexpr\<close> crate as the locale
  \<open>boolexpr_crate\<close> (\<open>Boolexpr_Ref\<close> interprets it by an executable reference), \<open>Label_Parser\<close> the PEG
  grammar, \<open>Label_Roundtrip\<close>, \<open>Label_Case\<close> and \<open>Label_Compose\<close> the facts that printing is read back,
  that reading ignores case and that texts compose, and \<open>Label_Filter\<close> the public filter type with
  its properties.  \<open>Skuld_Env\<close> reads environment variables.

  \<^bold>\<open>Fixtures\<close> (\<open>src/src/fixture.rs\<close>, the expansions of \<open>src/macros/src/lib.rs\<close>).  \<open>Fixture_Graph\<close> has the
  registry, its validation and the pre-order walk; \<open>Fixture_Collect\<close> what a test inherits from its
  fixtures; \<open>Fixture_Store\<close> the stores, handles, scopes and the generated test and fixture bodies;
  \<open>Fixture_Life\<close> the ownership invariant, \<open>Fixture_Props\<close> the properties, and \<open>Fixture_Threads\<close> the
  interleaving of several threads that set up the same Process fixture.  \<open>Async_Body\<close> has the generated
  bodies of asynchronous tests, with tokio as the locale \<open>tokio_crate\<close>, and shows that they refine the
  synchronous ones; \<open>Fixture_Ref\<close> the references that are kept as bytes.  \<open>Env_Cwd\<close> has the built-in
  guards for variables and the working directory as interpretations of one locale,
  \<open>restoring_guard\<close>.  \<open>Temp_Dir\<close> (\<open>fixtures/temp_dir.rs\<close>) computes the names of temporary directories, with
  strings as lists of Unicode scalar values, and \<open>Temp_Dir_Life\<close> their creation and removal.

  \<^bold>\<open>Windows\<close> (\<open>src/src/win_nt.rs\<close>, \<open>coordination/db_dir/windows_probe.rs\<close>).  \<open>Win_NT\<close> has the NT names of paths
  and the native opens with the handles they leave, \<open>Win_Probe\<close> their clients: the creation of
  temporary directories and the probe of the database directory, a \<open>partial_function\<close> that is proved
  to return once the names it tries are not all taken.  \<open>Win_DB\<close> has the Windows side of the init lock
  and of the moved-database check, with the loop that asks for the final path of a handle.

  \<^bold>\<open>Attribute macros\<close> (\<open>src/macros/src/lib.rs\<close>).  \<open>Macro_Syntax\<close> has token trees and the parsers of the
  third-party crate \<open>syn\<close> as the locale \<open>syn_crate\<close>; \<open>Macro_Serial\<close> the serial expression, read from
  tokens into the text that the runtime parses again; \<open>Macro_Args\<close> the argument lists of
  \<open>#[skuld::test]\<close> and \<open>#[skuld::fixture]\<close>; \<open>Macro_Expand\<close> the outer attributes, the \<open>#[fixture]\<close>
  parameters and the submitted definitions; \<open>Macro_Label\<close> the attribute \<open>#[skuld::label]\<close>; \<open>Macro_Props\<close> the properties: the macros accept exactly
  what they document, an attribute is the argument of its name, and a serial argument means at run
  time what it says.  The fuel of the two loops is the length and the size of the tokens, which the
  exactness theorems show to be enough.

  \<^bold>\<open>Tests and the runner\<close> (\<open>src/src/lib.rs\<close>, \<open>runner.rs\<close>, \<open>metadata.rs\<close>).  \<open>Test_Def\<close> resolves labels and
  serial filters of a test, \<open>Runner\<close> has names, startup checks, the collection of trials, the run of
  one trial with its captured output, and the conclusion; \<open>Metadata\<close> the description of a test;
  \<open>Runner_Props\<close> their properties.  \<open>Capture\<close> (\<open>capture.rs\<close>, Unix) is the redirection of standard output
  and error around a test, on the descriptor table of the process with a fault for each call;
  \<open>Win_Capture\<close> is its Windows side, with standard handles and C runtime descriptors, and \<open>Win_Capture_Props\<close>
  shows what it restores and when a standard handle is lost.

  \<^bold>\<open>Coordination\<close> (\<open>src/src/coordination.rs\<close>, \<open>coordination/violations.rs\<close>).  \<open>Coord_DB\<close> has the tables and
  the transactions with a fault for each statement, \<open>Coord_SQL\<close> the fragment of SQL the computed
  query is written in (locale \<open>sqlite_engine\<close>), \<open>Coord_Checks\<close> what each operation does,
  \<open>Coordination\<close> the transition system of all processes and its refinement of mutual exclusion,
  \<open>Coord_Loop\<close> waiting, retrying, the drop of a registration and the migration, and \<open>Coord_Props\<close>
  the properties.

  \<^bold>\<open>The database file\<close> (\<open>src/src/coordination/\<close>, Unix).  \<open>Syscalls\<close> models the kernel as a relation that
  may answer every call with an error, and processes that interleave between calls.  On it stand
  \<open>Publish\<close> and \<open>Publish_Props\<close> (the file appears world-writable or not at all), \<open>Init_Lock\<close> (the lock on
  its directory excludes, also across errors and unwinding) and \<open>DB_Dir\<close> with \<open>DB_Dir_Props\<close> (where the
  directory is and how it is created).  \<open>Moved_DB\<close> has the check that a connection's files were not
  replaced, and the loop that connects; \<open>Open_DB\<close> composes lock, connection, identity, schema and migration
  into \<open>open_db\<close>, and \<open>Registration\<close> the opening, the waiting loop and the drop into the life of a
  registration.  \<open>Unix_Fds\<close> reads SQLite's descriptors out of its structures, with every pointer explicit.  The loops take the list of what the attempts meet.

  \<^bold>\<open>Tools.\<close>  \<open>Nextest\<close> is \<open>src/cargo-skuld/src\<close>: discovery, metadata, the conflict graph, groups and the
  generated file.  \<open>Version\<close> and \<open>Version_Props\<close> are the release check of \<open>src/xtask/src\<close>.

  \<^bold>\<open>Parameters.\<close>  Code outside the repository is a parameter: \<open>boolexpr\<close>, \<open>syn\<close>, tokio, SQLite, petgraph's union-find,
  the hash of group names, the collection of registered items, libtest-mimic's run, cargo metadata,
  git, tempfile, the canonical decomposition of characters, \<open>getcwd\<close>/\<open>chdir\<close>, the Windows kernel, process liveness, clocks and the bodies of tests and fixtures.

  \<^bold>\<open>Not modelled.\<close>  The hooks and probes that exist for the crate's own tests.
\<close>

section \<open>Properties that span components\<close>

text \<open>
  C13: the nextest conflict graph mirrors the coordination check.  Two tests are joined by
  \<open>conflicts\<close> exactly when \<open>can_start\<close> keeps the second one waiting while the first is the running
  row, so what \<open>cargo skuld\<close> serialises ahead of time is what the database would serialise at run time.
\<close>

theorem conflicts_mirror_can_start:
  assumes "boolexpr_crate X" "sqlite_engine S" "serial_valid X (tm_serial a)" "serial_valid X (tm_serial b)"
    and "\<forall>st. faults st = None" "db_running db = [r]" "row_filter r = tm_serial a"
    and "row_labels db r = tm_labels a" "map label_name labels = tm_labels b"
  shows "\<exists>c. conflicts X a b = Inr c \<and> can_start X S faults db labels (tm_serial b) = Inr (\<not> c)"
proof -
  have c: "coordination X S" using assms(1,2) by (simp add: coordination_def)
  obtain ok where ok: "can_start X S faults db labels (tm_serial b) = Inr ok"
    using coordination.can_start_faultless [OF c assms(5,4)] by blast
  have "ok \<longleftrightarrow> \<not> test_conflict X (tm_labels b) (tm_serial b) (tm_labels a) (tm_serial a)"
    using coordination.can_start_decides [OF c ok assms(4)] assms(6-9) by simp
  then show ?thesis using ok conflicts_decides [OF assms(3,4)] by (auto simp: test_conflict_def)
qed

theorem conflicts_mirror_can_start_witness:
  "conflicts ref_boolexpr \<lparr>tm_binary_id = [], tm_name = ''x'', tm_labels = [''a''], tm_serial = ''*''\<rparr>
      \<lparr>tm_binary_id = [], tm_name = ''y'', tm_labels = [''b''], tm_serial = []\<rparr> = Inr True
   \<and> can_start ref_boolexpr ref_sqlite (\<lambda>_. None)
      \<lparr>db_running = [\<lparr>row_id = 1, row_instance = ''7:1'', row_name = ''x'', row_filter = ''*''\<rparr>],
       db_labels = [\<lparr>lab_running_id = 1, lab_label = ''a''\<rparr>], db_seq = 1, db_user_version = 1\<rparr>
      [\<lparr>label_name = ''b''\<rparr>] [] = Inr False"
proof -
  let ?a = "\<lparr>tm_binary_id = [], tm_name = ''x'', tm_labels = [''a''], tm_serial = ''*''\<rparr>"
  let ?b = "\<lparr>tm_binary_id = [], tm_name = ''y'', tm_labels = [''b''], tm_serial = []\<rparr>"
  let ?r = "\<lparr>row_id = 1, row_instance = ''7:1'', row_name = ''x'', row_filter = ''*''\<rparr>"
  let ?db = "\<lparr>db_running = [?r], db_labels = [\<lparr>lab_running_id = 1, lab_label = ''a''\<rparr>], db_seq = 1, db_user_version = 1\<rparr>"
  obtain c where c: "conflicts ref_boolexpr ?a ?b = Inr c"
      "can_start ref_boolexpr ref_sqlite (\<lambda>_. None) ?db [\<lparr>label_name = ''b''\<rparr>] (tm_serial ?b) = Inr (\<not> c)"
  proof (rule exE)
    show "\<exists>c. conflicts ref_boolexpr ?a ?b = Inr c
        \<and> can_start ref_boolexpr ref_sqlite (\<lambda>_. None) ?db [\<lparr>label_name = ''b''\<rparr>] (tm_serial ?b) = Inr (\<not> c)"
      by (rule conflicts_mirror_can_start [OF ref.boolexpr_crate_axioms ref_sql.sqlite_engine_axioms, of ?a ?b _ ?db ?r])
         (simp_all add: row_labels_def)
  qed blast
  moreover have "conflicts ref_boolexpr ?a ?b = Inr True" by (simp add: conflicts_def)
  ultimately show ?thesis by simp
qed

end
